(* ===== verification/Prelude.thy ===== *)
theory Prelude
  imports "HOL-Library.Word"
begin

text \<open>
  Shared vocabulary of the development: the machine types of the C and C++ sources, the
  library's theorem collections, little-endian byte encodings, and the generic lemmas on
  lists and words that the component theories rest on.
\<close>

unbundle bit_operations_syntax

section \<open>Machine types\<close>

type_synonym byte = "8 word"
type_synonym u8 = "8 word"
type_synonym u16 = "16 word"
type_synonym u32 = "32 word"
type_synonym u64 = "64 word"
type_synonym size_t = "64 word"
type_synonym addr = "64 word"

text \<open>The null pointer.\<close>

abbreviation NULL :: addr where
  "NULL \<equiv> 0"

section \<open>Theorem collections\<close>

named_theorems op_defs \<open>definitions of the operations, unfolded to run them\<close>
named_theorems mem_simps \<open>simplification rules of the heap model\<close>
named_theorems frame \<open>which fields an operation leaves unchanged\<close>

section \<open>Words\<close>

lemma unat_plus_no_wrap:
  fixes x y :: "'a::len word"
  assumes "unat x + unat y < 2 ^ LENGTH('a)"
  shows "unat (x + y) = unat x + unat y"
  using assms by (simp add: unat_word_ariths)

lemma unat_mod_less:
  fixes h n :: "'a::len word"
  assumes "n \<noteq> 0"
  shows "unat (h mod n) < unat n"
  using assms by (simp add: unat_mod unat_gt_0)

lemma unat_suc_no_wrap:
  fixes x :: "'a::len word"
  assumes "unat x < 2 ^ LENGTH('a) - 1"
  shows "unat (x + 1) = unat x + 1"
proof -
  have "unat x + 1 < 2 ^ LENGTH('a)" using assms by linarith
  then show ?thesis by (simp add: unat_word_ariths)
qed

lemma of_nat_unat: "of_nat (unat w) = (w :: 'a::len word)"
  by simp

lemma unat_byte: "unat (b :: byte) < 256"
proof -
  have "unat b < 2 ^ LENGTH(8)" by (rule unsigned_less)
  then show ?thesis by simp
qed

lemma unat_ucast_widen [simp]:
  "unat (ucast (w :: u32) :: u64) = unat w" "unat (ucast (v :: u16) :: u64) = unat v"
proof -
  have "unat w < 2 ^ LENGTH(32)" "unat v < 2 ^ LENGTH(16)" by (rule unsigned_less)+
  then have "unat w < 2 ^ 64" "unat v < 2 ^ 64" by simp_all
  then show "unat (ucast w :: u64) = unat w" "unat (ucast v :: u64) = unat v"
    by (simp_all add: unsigned_ucast_eq take_bit_nat_eq_self)
qed

section \<open>Little-endian encodings\<close>

text \<open>The value of a byte sequence read as an unsigned little-endian integer.\<close>

fun le_nat :: "byte list \<Rightarrow> nat" where
  "le_nat [] = 0"
| "le_nat (b # bs) = unat b + 256 * le_nat bs"

text \<open>The \<open>n\<close> low bytes of a number, least significant byte first.\<close>

fun to_le :: "nat \<Rightarrow> nat \<Rightarrow> byte list" where
  "to_le 0 v = []"
| "to_le (Suc n) v = of_nat (v mod 256) # to_le n (v div 256)"

lemma length_to_le [simp]: "length (to_le n v) = n"
  by (induction n arbitrary: v) auto

lemma le_nat_bound: "le_nat bs < 256 ^ length bs"
proof (induction bs)
  case (Cons b bs)
  have "unat b + 256 * le_nat bs < 256 * Suc (le_nat bs)"
    using unat_byte [of b] by simp
  also have "\<dots> \<le> 256 * 256 ^ length bs"
    using Cons.IH by (intro mult_le_mono2) simp
  finally show ?case by simp
qed simp

lemma le_nat_to_le [simp]: "le_nat (to_le n v) = v mod 256 ^ n"
proof (induction n arbitrary: v)
  case (Suc n)
  have "unat (of_nat (v mod 256) :: byte) = v mod 256"
    by (simp add: unat_of_nat)
  then show ?case
    using Suc by (simp add: mod_mult2_eq)
qed simp

lemma le_nat_inj:
  "length xs = length ys \<Longrightarrow> le_nat xs = le_nat ys \<Longrightarrow> xs = ys"
proof (induction xs ys rule: list_induct2)
  case (Cons x xs y ys)
  have eq: "unat x + 256 * le_nat xs = unat y + 256 * le_nat ys"
    using Cons.prems by simp
  then have "unat x mod 256 = unat y mod 256"
    by (metis mod_mult_self2)
  then have xy: "unat x = unat y"
    using unat_byte [of x] unat_byte [of y] by simp
  with eq have "le_nat xs = le_nat ys"
    by simp
  with xy show ?case using Cons.IH by (simp add: word_unat_eq_iff)
qed simp

section \<open>Lists\<close>

lemma nth_list_update_other [simp]:
  "i \<noteq> j \<Longrightarrow> xs[i := v] ! j = xs ! j"
  by simp

lemma replicate_numeral [simp]:
  "replicate (numeral v) x = x # replicate (pred_numeral v) x"
  by (simp add: numeral_eq_Suc)

lemma filter_neq_id:
  "\<forall>x\<in>set xs. P x \<Longrightarrow> filter P xs = xs"
  by simp

section \<open>Runs\<close>

text \<open>
  A list has a run of \<open>n\<close> elements with a property when \<open>n\<close> of them follow each other; the
  suffix run is the length of the run at the end.
\<close>

definition has_run :: "('a \<Rightarrow> bool) \<Rightarrow> nat \<Rightarrow> 'a list \<Rightarrow> bool" where
  "has_run P n xs \<longleftrightarrow> (\<exists>us vs ws. xs = us @ vs @ ws \<and> length vs = n \<and> (\<forall>x\<in>set vs. P x))"

definition suffix_run :: "('a \<Rightarrow> bool) \<Rightarrow> 'a list \<Rightarrow> nat" where
  "suffix_run P xs = length (takeWhile P (rev xs))"

lemma suffix_run_snoc [simp]:
  "suffix_run P (xs @ [x]) = (if P x then Suc (suffix_run P xs) else 0)"
  by (simp add: suffix_run_def)

lemma suffix_run_Nil [simp]: "suffix_run P [] = 0"
  by (simp add: suffix_run_def)

lemma suffix_run_le: "suffix_run P xs \<le> length xs"
  using length_takeWhile_le [of P "rev xs"] by (simp add: suffix_run_def)

lemma has_run_Nil: "0 < n \<Longrightarrow> \<not> has_run P n []"
  by (auto simp: has_run_def)

lemma suffix_run_split:
  "\<exists>us vs. xs = us @ vs \<and> length vs = suffix_run P xs \<and> (\<forall>x\<in>set vs. P x)"
proof -
  let ?vs = "rev (takeWhile P (rev xs))" and ?us = "rev (dropWhile P (rev xs))"
  have "xs = ?us @ ?vs"
    by (metis rev_append rev_rev_ident takeWhile_dropWhile_id)
  then show ?thesis
    by (intro exI [of _ ?us] exI [of _ ?vs]) (auto simp: suffix_run_def dest: set_takeWhileD)
qed

lemma suffix_run_ge:
  assumes "\<forall>x\<in>set vs. P x"
  shows "length vs \<le> suffix_run P (us @ vs)"
proof -
  have "takeWhile P (rev vs @ rev us) = rev vs @ takeWhile P (rev us)"
    using assms by (intro takeWhile_append2) simp
  then show ?thesis by (simp add: suffix_run_def)
qed

lemma has_run_snoc:
  "has_run P n (xs @ [x]) \<longleftrightarrow> has_run P n xs \<or> n \<le> suffix_run P (xs @ [x])"
proof
  assume "has_run P n (xs @ [x])"
  then obtain us vs ws where run: "xs @ [x] = us @ vs @ ws" "length vs = n" "\<forall>y\<in>set vs. P y"
    by (auto simp: has_run_def)
  show "has_run P n xs \<or> n \<le> suffix_run P (xs @ [x])"
  proof (cases ws rule: rev_cases)
    case Nil
    then have "xs @ [x] = us @ vs" using run by simp
    then show ?thesis using run(2) suffix_run_ge [OF run(3), of us] by metis
  next
    case (snoc zs z)
    then have "xs @ [x] = (us @ vs @ zs) @ [z]" using run(1) by simp
    then have "xs = us @ vs @ zs" by (simp only: append1_eq_conv)
    then have "has_run P n xs" unfolding has_run_def using run(2,3) by blast
    then show ?thesis ..
  qed
next
  assume "has_run P n xs \<or> n \<le> suffix_run P (xs @ [x])"
  then show "has_run P n (xs @ [x])"
  proof
    assume "has_run P n xs"
    then obtain us vs ws where "xs = us @ vs @ ws" "length vs = n" "\<forall>y\<in>set vs. P y"
      by (auto simp: has_run_def)
    then have "xs @ [x] = us @ vs @ (ws @ [x])" "length vs = n" "\<forall>y\<in>set vs. P y" by simp_all
    then show ?thesis unfolding has_run_def by blast
  next
    assume le: "n \<le> suffix_run P (xs @ [x])"
    obtain us vs where v: "xs @ [x] = us @ vs" "length vs = suffix_run P (xs @ [x])" "\<forall>y\<in>set vs. P y"
      using suffix_run_split [of "xs @ [x]" P] by (elim exE conjE) (rule that)
    have "xs @ [x] = us @ take n vs @ drop n vs" "length (take n vs) = n" "\<forall>y\<in>set (take n vs). P y"
      using v le by (auto dest: in_set_takeD)
    then show ?thesis unfolding has_run_def by blast
  qed
qed

end
