(* ===== verification/Kvs_Types.thy ===== *)
theory Kvs_Types
  imports Prelude
begin

text \<open>
  The result codes of the three layers of the program and the translations between them:
  the engine's \<open>kv_result_t\<close> (include/kv_engine.h), the KVS API's \<open>kvs_result\<close>
  (PDK/core/include/kvs_result.h) and the device layer's \<open>kv_result\<close> (kvs_adi.h, written
  with the prefix \<open>ADI_\<close> instead of \<open>KV_\<close>, because the engine reuses several of the
  names).  The engine maps API codes with \<open>map_kvs_result\<close>; the emulator driver maps
  device codes with \<open>convert_return_code\<close> over the table \<open>code_map\<close>.
\<close>

section \<open>Result codes\<close>

datatype (plugins only: code size) kv_result_t =
    KV_SUCCESS
  | KV_ERR_INVALID_PARAM
  | KV_ERR_NO_MEMORY
  | KV_ERR_DEVICE_OPEN
  | KV_ERR_KEY_NOT_FOUND
  | KV_ERR_KEY_EXISTS
  | KV_ERR_VALUE_TOO_LARGE
  | KV_ERR_TIMEOUT
  | KV_ERR_IO
  | KV_ERR_NOT_INITIALIZED
  | KV_ERR_KEY_ALREADY_EXISTS
  | KV_ERR_DEVICE_FULL
  | KV_ERR_DEVICE_NOT_FOUND
  | KV_ERR_KEY_LENGTH
  | KV_ERR_VALUE_LENGTH
  | KV_ERR_DEVICE_DEGRADED
  | KV_ERR_ALL_DEVICES_FAILED

primrec kv_result_code :: "kv_result_t \<Rightarrow> int" where
  "kv_result_code KV_SUCCESS = 0"
| "kv_result_code KV_ERR_INVALID_PARAM = -1"
| "kv_result_code KV_ERR_NO_MEMORY = -2"
| "kv_result_code KV_ERR_DEVICE_OPEN = -3"
| "kv_result_code KV_ERR_KEY_NOT_FOUND = -4"
| "kv_result_code KV_ERR_KEY_EXISTS = -5"
| "kv_result_code KV_ERR_VALUE_TOO_LARGE = -6"
| "kv_result_code KV_ERR_TIMEOUT = -7"
| "kv_result_code KV_ERR_IO = -8"
| "kv_result_code KV_ERR_NOT_INITIALIZED = -9"
| "kv_result_code KV_ERR_KEY_ALREADY_EXISTS = -10"
| "kv_result_code KV_ERR_DEVICE_FULL = -11"
| "kv_result_code KV_ERR_DEVICE_NOT_FOUND = -12"
| "kv_result_code KV_ERR_KEY_LENGTH = -13"
| "kv_result_code KV_ERR_VALUE_LENGTH = -14"
| "kv_result_code KV_ERR_DEVICE_DEGRADED = -15"
| "kv_result_code KV_ERR_ALL_DEVICES_FAILED = -16"

datatype (plugins only: code size) kvs_result =
    KVS_SUCCESS
  | KVS_ERR_BUFFER_SMALL
  | KVS_ERR_DEV_CAPAPCITY
  | KVS_ERR_DEV_NOT_EXIST
  | KVS_ERR_KS_CAPACITY
  | KVS_ERR_KS_EXIST
  | KVS_ERR_KS_INDEX
  | KVS_ERR_KS_NAME
  | KVS_ERR_KS_NOT_EXIST
  | KVS_ERR_KS_NOT_OPEN
  | KVS_ERR_KS_OPEN
  | KVS_ERR_ITERATOR_FILTER_INVALID
  | KVS_ERR_ITERATOR_MAX
  | KVS_ERR_ITERATOR_NOT_EXIST
  | KVS_ERR_ITERATOR_OPEN
  | KVS_ERR_KEY_LENGTH_INVALID
  | KVS_ERR_KEY_NOT_EXIST
  | KVS_ERR_OPTION_INVALID
  | KVS_ERR_PARAM_INVALID
  | KVS_ERR_SYS_IO
  | KVS_ERR_VALUE_LENGTH_INVALID
  | KVS_ERR_VALUE_OFFSET_INVALID
  | KVS_ERR_VALUE_OFFSET_MISALIGNED
  | KVS_ERR_VALUE_UPDATE_NOT_ALLOWED
  | KVS_ERR_DEV_NOT_OPENED

primrec kvs_result_code :: "kvs_result \<Rightarrow> int" where
  "kvs_result_code KVS_SUCCESS = 0"
| "kvs_result_code KVS_ERR_BUFFER_SMALL = 1"
| "kvs_result_code KVS_ERR_DEV_CAPAPCITY = 2"
| "kvs_result_code KVS_ERR_DEV_NOT_EXIST = 3"
| "kvs_result_code KVS_ERR_KS_CAPACITY = 4"
| "kvs_result_code KVS_ERR_KS_EXIST = 5"
| "kvs_result_code KVS_ERR_KS_INDEX = 6"
| "kvs_result_code KVS_ERR_KS_NAME = 7"
| "kvs_result_code KVS_ERR_KS_NOT_EXIST = 8"
| "kvs_result_code KVS_ERR_KS_NOT_OPEN = 9"
| "kvs_result_code KVS_ERR_KS_OPEN = 10"
| "kvs_result_code KVS_ERR_ITERATOR_FILTER_INVALID = 11"
| "kvs_result_code KVS_ERR_ITERATOR_MAX = 12"
| "kvs_result_code KVS_ERR_ITERATOR_NOT_EXIST = 13"
| "kvs_result_code KVS_ERR_ITERATOR_OPEN = 14"
| "kvs_result_code KVS_ERR_KEY_LENGTH_INVALID = 15"
| "kvs_result_code KVS_ERR_KEY_NOT_EXIST = 16"
| "kvs_result_code KVS_ERR_OPTION_INVALID = 17"
| "kvs_result_code KVS_ERR_PARAM_INVALID = 18"
| "kvs_result_code KVS_ERR_SYS_IO = 19"
| "kvs_result_code KVS_ERR_VALUE_LENGTH_INVALID = 20"
| "kvs_result_code KVS_ERR_VALUE_OFFSET_INVALID = 21"
| "kvs_result_code KVS_ERR_VALUE_OFFSET_MISALIGNED = 22"
| "kvs_result_code KVS_ERR_VALUE_UPDATE_NOT_ALLOWED = 23"
| "kvs_result_code KVS_ERR_DEV_NOT_OPENED = 24"

datatype (plugins only: code size) adi_result =
    ADI_SUCCESS
  | ADI_WRN_MORE
  | ADI_ERR_DEV_CAPACITY
  | ADI_ERR_DEV_INIT
  | ADI_ERR_DEV_INITIALIZED
  | ADI_ERR_DEV_NOT_EXIST
  | ADI_ERR_DEV_SANITIZE_FAILED
  | ADI_ERR_ITERATOR_NOT_EXIST
  | ADI_ERR_ITERATOR_ALREADY_OPEN
  | ADI_ERR_KEY_INVALID
  | ADI_ERR_KEY_LENGTH_INVALID
  | ADI_ERR_KEY_NOT_EXIST
  | ADI_ERR_NS_DEFAULT
  | ADI_ERR_NS_INVALID
  | ADI_ERR_OPTION_INVALID
  | ADI_ERR_PARAM_INVALID
  | ADI_ERR_PURGE_IN_PRGRESS
  | ADI_ERR_SYS_IO
  | ADI_ERR_VALUE_LENGTH_INVALID
  | ADI_ERR_VALUE_LENGTH_MISALIGNED
  | ADI_ERR_VALUE_OFFSET_INVALID
  | ADI_ERR_VENDOR
  | ADI_ERR_PERMISSION
  | ADI_ERR_MISALIGNED_VALUE_OFFSET
  | ADI_ERR_BUFFER_SMALL
  | ADI_ERR_DEV_MAX_NS
  | ADI_ERR_ITERATOR_COND_INVALID
  | ADI_ERR_KEY_EXIST
  | ADI_ERR_NS_ATTAHED
  | ADI_ERR_NS_CAPACITY
  | ADI_ERR_NS_NOT_ATTACHED
  | ADI_ERR_QUEUE_CQID_INVALID
  | ADI_ERR_QUEUE_SQID_INVALID
  | ADI_ERR_QUEUE_DELETION_INVALID
  | ADI_ERR_QUEUE_MAX_QUEUE
  | ADI_ERR_QUEUE_QID_INVALID
  | ADI_ERR_QUEUE_QSIZE_INVALID
  | ADI_ERR_TIMEOUT
  | ADI_ERR_UNCORRECTIBLE
  | ADI_ERR_QUEUE_IN_SHUTDOWN
  | ADI_ERR_QUEUE_IS_FULL
  | ADI_ERR_COMMAND_SUBMITTED
  | ADI_ERR_TOO_MANY_ITERATORS_OPEN
  | ADI_ERR_SYS_BUSY
  | ADI_ERR_COMMAND_INITIALIZED
  | ADI_ERR_DD_UNSUPPORTED_CMD
  | ADI_ERR_ITERATE_REQUEST_FAIL
  | ADI_ERR_DD_UNSUPPORTED
  | ADI_ERR_KEYSPACE_INVALID

primrec adi_result_code :: "adi_result \<Rightarrow> int" where
  "adi_result_code ADI_SUCCESS = 0"
| "adi_result_code ADI_WRN_MORE = 61440"
| "adi_result_code ADI_ERR_DEV_CAPACITY = 4"
| "adi_result_code ADI_ERR_DEV_INIT = 5"
| "adi_result_code ADI_ERR_DEV_INITIALIZED = 6"
| "adi_result_code ADI_ERR_DEV_NOT_EXIST = 7"
| "adi_result_code ADI_ERR_DEV_SANITIZE_FAILED = 8"
| "adi_result_code ADI_ERR_ITERATOR_NOT_EXIST = 12"
| "adi_result_code ADI_ERR_ITERATOR_ALREADY_OPEN = 13"
| "adi_result_code ADI_ERR_KEY_INVALID = 15"
| "adi_result_code ADI_ERR_KEY_LENGTH_INVALID = 16"
| "adi_result_code ADI_ERR_KEY_NOT_EXIST = 17"
| "adi_result_code ADI_ERR_NS_DEFAULT = 770"
| "adi_result_code ADI_ERR_NS_INVALID = 771"
| "adi_result_code ADI_ERR_OPTION_INVALID = 18"
| "adi_result_code ADI_ERR_PARAM_INVALID = 19"
| "adi_result_code ADI_ERR_PURGE_IN_PRGRESS = 20"
| "adi_result_code ADI_ERR_SYS_IO = 30"
| "adi_result_code ADI_ERR_VALUE_LENGTH_INVALID = 33"
| "adi_result_code ADI_ERR_VALUE_LENGTH_MISALIGNED = 34"
| "adi_result_code ADI_ERR_VALUE_OFFSET_INVALID = 35"
| "adi_result_code ADI_ERR_VENDOR = 37"
| "adi_result_code ADI_ERR_PERMISSION = 38"
| "adi_result_code ADI_ERR_MISALIGNED_VALUE_OFFSET = 524"
| "adi_result_code ADI_ERR_BUFFER_SMALL = 1"
| "adi_result_code ADI_ERR_DEV_MAX_NS = 772"
| "adi_result_code ADI_ERR_ITERATOR_COND_INVALID = 10"
| "adi_result_code ADI_ERR_KEY_EXIST = 14"
| "adi_result_code ADI_ERR_NS_ATTAHED = 768"
| "adi_result_code ADI_ERR_NS_CAPACITY = 769"
| "adi_result_code ADI_ERR_NS_NOT_ATTACHED = 773"
| "adi_result_code ADI_ERR_QUEUE_CQID_INVALID = 21"
| "adi_result_code ADI_ERR_QUEUE_SQID_INVALID = 28"
| "adi_result_code ADI_ERR_QUEUE_DELETION_INVALID = 22"
| "adi_result_code ADI_ERR_QUEUE_MAX_QUEUE = 25"
| "adi_result_code ADI_ERR_QUEUE_QID_INVALID = 26"
| "adi_result_code ADI_ERR_QUEUE_QSIZE_INVALID = 27"
| "adi_result_code ADI_ERR_TIMEOUT = 31"
| "adi_result_code ADI_ERR_UNCORRECTIBLE = 32"
| "adi_result_code ADI_ERR_QUEUE_IN_SHUTDOWN = 23"
| "adi_result_code ADI_ERR_QUEUE_IS_FULL = 24"
| "adi_result_code ADI_ERR_COMMAND_SUBMITTED = 3"
| "adi_result_code ADI_ERR_TOO_MANY_ITERATORS_OPEN = 11"
| "adi_result_code ADI_ERR_SYS_BUSY = 29"
| "adi_result_code ADI_ERR_COMMAND_INITIALIZED = 2"
| "adi_result_code ADI_ERR_DD_UNSUPPORTED_CMD = 517"
| "adi_result_code ADI_ERR_ITERATE_REQUEST_FAIL = 521"
| "adi_result_code ADI_ERR_DD_UNSUPPORTED = 44"
| "adi_result_code ADI_ERR_KEYSPACE_INVALID = 49"

text \<open>
  The table of kvemuldriver.cpp, keyed by the numeric device code as the \<open>std::map\<close> is.
\<close>

definition code_map :: "(int \<times> kvs_result) list" where
  "code_map = [
    (0, KVS_SUCCESS),
    (61440, KVS_ERR_SYS_IO),
    (4, KVS_ERR_KS_CAPACITY),
    (5, KVS_ERR_SYS_IO),
    (6, KVS_ERR_SYS_IO),
    (7, KVS_ERR_DEV_NOT_EXIST),
    (8, KVS_ERR_SYS_IO),
    (12, KVS_ERR_ITERATOR_NOT_EXIST),
    (13, KVS_ERR_ITERATOR_OPEN),
    (15, KVS_ERR_SYS_IO),
    (16, KVS_ERR_KEY_LENGTH_INVALID),
    (17, KVS_ERR_KEY_NOT_EXIST),
    (770, KVS_ERR_SYS_IO),
    (771, KVS_ERR_SYS_IO),
    (18, KVS_ERR_OPTION_INVALID),
    (19, KVS_ERR_PARAM_INVALID),
    (20, KVS_ERR_SYS_IO),
    (30, KVS_ERR_SYS_IO),
    (33, KVS_ERR_VALUE_LENGTH_INVALID),
    (34, KVS_ERR_VALUE_OFFSET_MISALIGNED),
    (35, KVS_ERR_VALUE_OFFSET_INVALID),
    (37, KVS_ERR_SYS_IO),
    (38, KVS_ERR_SYS_IO),
    (524, KVS_ERR_VALUE_OFFSET_MISALIGNED),
    (1, KVS_ERR_BUFFER_SMALL),
    (772, KVS_ERR_SYS_IO),
    (10, KVS_ERR_ITERATOR_FILTER_INVALID),
    (14, KVS_ERR_VALUE_UPDATE_NOT_ALLOWED),
    (768, KVS_ERR_SYS_IO),
    (769, KVS_ERR_KS_CAPACITY),
    (773, KVS_ERR_SYS_IO),
    (21, KVS_ERR_SYS_IO),
    (28, KVS_ERR_SYS_IO),
    (22, KVS_ERR_SYS_IO),
    (25, KVS_ERR_SYS_IO),
    (26, KVS_ERR_SYS_IO),
    (27, KVS_ERR_SYS_IO),
    (31, KVS_ERR_SYS_IO),
    (32, KVS_ERR_SYS_IO),
    (23, KVS_ERR_SYS_IO),
    (24, KVS_ERR_SYS_IO),
    (3, KVS_ERR_SYS_IO),
    (11, KVS_ERR_ITERATOR_MAX),
    (29, KVS_ERR_SYS_IO),
    (2, KVS_ERR_SYS_IO),
    (517, KVS_ERR_SYS_IO),
    (521, KVS_ERR_SYS_IO),
    (44, KVS_ERR_SYS_IO),
    (49, KVS_ERR_SYS_IO)]"

text \<open>
  \<open>convert_return_code\<close> of private_types.h: codes that the table does not list become an
  I/O error.
\<close>

definition convert_return_code :: "int \<Rightarrow> kvs_result" where
  "convert_return_code c =
     (if map_of code_map c \<noteq> None then the (map_of code_map c) else KVS_ERR_SYS_IO)"

text \<open>\<open>map_kvs_result\<close> of kv_engine.c.\<close>

definition map_kvs_result :: "kvs_result \<Rightarrow> kv_result_t" where
  "map_kvs_result r = (case r of
      KVS_SUCCESS \<Rightarrow> KV_SUCCESS
    | KVS_ERR_PARAM_INVALID \<Rightarrow> KV_ERR_INVALID_PARAM
    | KVS_ERR_OPTION_INVALID \<Rightarrow> KV_ERR_INVALID_PARAM
    | KVS_ERR_KEY_LENGTH_INVALID \<Rightarrow> KV_ERR_KEY_LENGTH
    | KVS_ERR_VALUE_LENGTH_INVALID \<Rightarrow> KV_ERR_VALUE_LENGTH
    | KVS_ERR_VALUE_OFFSET_INVALID \<Rightarrow> KV_ERR_VALUE_LENGTH
    | KVS_ERR_VALUE_OFFSET_MISALIGNED \<Rightarrow> KV_ERR_VALUE_LENGTH
    | KVS_ERR_KEY_NOT_EXIST \<Rightarrow> KV_ERR_KEY_NOT_FOUND
    | KVS_ERR_VALUE_UPDATE_NOT_ALLOWED \<Rightarrow> KV_ERR_KEY_ALREADY_EXISTS
    | KVS_ERR_DEV_CAPAPCITY \<Rightarrow> KV_ERR_DEVICE_FULL
    | KVS_ERR_KS_CAPACITY \<Rightarrow> KV_ERR_DEVICE_FULL
    | KVS_ERR_DEV_NOT_EXIST \<Rightarrow> KV_ERR_DEVICE_NOT_FOUND
    | KVS_ERR_DEV_NOT_OPENED \<Rightarrow> KV_ERR_DEVICE_NOT_FOUND
    | _ \<Rightarrow> KV_ERR_IO)"

text \<open>\<open>is_device_error\<close> of kv_engine.c: the API codes that count against a device's health.\<close>

definition is_device_error :: "kvs_result \<Rightarrow> bool" where
  "is_device_error r = (case r of
      KVS_ERR_SYS_IO \<Rightarrow> True
    | KVS_ERR_DEV_NOT_EXIST \<Rightarrow> True
    | KVS_ERR_DEV_NOT_OPENED \<Rightarrow> True
    | KVS_ERR_DEV_CAPAPCITY \<Rightarrow> True
    | KVS_ERR_KS_CAPACITY \<Rightarrow> True
    | _ \<Rightarrow> False)"

section \<open>Facts about the translations\<close>

lemma kv_result_code_inj: "kv_result_code a = kv_result_code b \<Longrightarrow> a = b"
  by (cases a; cases b; simp)

lemma convert_adi_SUCCESS [simp]: "convert_return_code 0 = KVS_SUCCESS"
  by (simp add: convert_return_code_def code_map_def)

lemma convert_of_adi_success:
  "convert_return_code (adi_result_code r) = KVS_SUCCESS \<longleftrightarrow> r = ADI_SUCCESS"
  by (cases r) (simp_all add: convert_return_code_def code_map_def)

lemma map_kvs_result_simps [simp]:
  "map_kvs_result KVS_SUCCESS = KV_SUCCESS"
  "map_kvs_result KVS_ERR_KEY_NOT_EXIST = KV_ERR_KEY_NOT_FOUND"
  "map_kvs_result KVS_ERR_VALUE_UPDATE_NOT_ALLOWED = KV_ERR_KEY_ALREADY_EXISTS"
  "map_kvs_result KVS_ERR_OPTION_INVALID = KV_ERR_INVALID_PARAM"
  "map_kvs_result KVS_ERR_PARAM_INVALID = KV_ERR_INVALID_PARAM"
  "map_kvs_result KVS_ERR_VALUE_LENGTH_INVALID = KV_ERR_VALUE_LENGTH"
  by (simp_all add: map_kvs_result_def)

lemma map_kvs_result_eq_success [simp]:
  "map_kvs_result r = KV_SUCCESS \<longleftrightarrow> r = KVS_SUCCESS"
  by (cases r) (simp_all add: map_kvs_result_def)

lemma map_kvs_result_not_degraded [simp]:
  "map_kvs_result r \<noteq> KV_ERR_DEVICE_DEGRADED"
  by (cases r) (simp_all add: map_kvs_result_def)

lemma map_kvs_result_eq_not_found:
  "map_kvs_result r = KV_ERR_KEY_NOT_FOUND \<longleftrightarrow> r = KVS_ERR_KEY_NOT_EXIST"
  by (cases r) (simp_all add: map_kvs_result_def)

lemma is_device_error_simps [simp]:
  "\<not> is_device_error KVS_SUCCESS"
  "\<not> is_device_error KVS_ERR_KEY_NOT_EXIST"
  "\<not> is_device_error KVS_ERR_VALUE_UPDATE_NOT_ALLOWED"
  "\<not> is_device_error KVS_ERR_OPTION_INVALID"
  "\<not> is_device_error KVS_ERR_BUFFER_SMALL"
  "is_device_error KVS_ERR_SYS_IO"
  "is_device_error KVS_ERR_DEV_NOT_EXIST"
  "is_device_error KVS_ERR_DEV_NOT_OPENED"
  by (simp_all add: is_device_error_def)

text \<open>
  A device error is never reported to the caller as one of the codes a healthy device
  answers with.
\<close>

lemma device_error_visible:
  "is_device_error r \<Longrightarrow>
     map_kvs_result r \<in> {KV_ERR_IO, KV_ERR_DEVICE_NOT_FOUND, KV_ERR_DEVICE_FULL}"
  by (cases r) (simp_all add: is_device_error_def map_kvs_result_def)

end
