(* ===== verification/Kvs_Interface.thy ===== *)
theory Kvs_Interface
  imports Kvs_Types
begin

text \<open>
  The boundary between the engine and the KVS API library it is linked with.  The engine is
  built against one of several libraries (the emulator, the kernel driver or SPDK), so its
  model takes the API as a record of functions over the library's state \<open>'w\<close>.  The locales
  state what the engine relies on; the emulator-backed library of the PDK satisfies them.
\<close>

section \<open>Data of the API (kvs_struct.h)\<close>

type_synonym kvs_device_handle = nat
type_synonym kvs_key_space_handle = nat

text \<open>A buffer is the memory at a pointer, \<open>None\<close> for the null pointer.\<close>

record kvs_key =
  kk_buf :: "byte list option"
  kk_length :: u16

record kvs_value =
  kv_buf :: "byte list option"
  kv_length :: u32
  actual_value_size :: u32
  kv_offset :: u32

datatype kvs_store_type =
    KVS_STORE_POST
  | KVS_STORE_UPDATE_ONLY
  | KVS_STORE_NOOVERWRITE
  | KVS_STORE_APPEND

definition KVS_MIN_KEY_LENGTH :: nat where "KVS_MIN_KEY_LENGTH = 4"
definition KVS_MAX_KEY_LENGTH :: nat where "KVS_MAX_KEY_LENGTH = 255"
definition KVS_MAX_VALUE_LENGTH :: nat where "KVS_MAX_VALUE_LENGTH = 2 * 1024 * 1024"

text \<open>
  The calls the engine makes.  Output parameters are part of the result; they are meaningful
  only where the call reports success, except for \<open>actual_value_size\<close> of a retrieve.
\<close>

record 'w kvs_ops =
  op_open_device :: "string \<Rightarrow> 'w \<Rightarrow> kvs_result \<times> kvs_device_handle \<times> 'w"
  op_close_device :: "kvs_device_handle \<Rightarrow> 'w \<Rightarrow> kvs_result \<times> 'w"
  op_create_key_space :: "kvs_device_handle \<Rightarrow> string \<Rightarrow> 'w \<Rightarrow> kvs_result \<times> 'w"
  op_open_key_space ::
    "kvs_device_handle \<Rightarrow> string \<Rightarrow> 'w \<Rightarrow> kvs_result \<times> kvs_key_space_handle \<times> 'w"
  op_close_key_space :: "kvs_key_space_handle \<Rightarrow> 'w \<Rightarrow> kvs_result \<times> 'w"
  op_get_device_capacity :: "kvs_device_handle \<Rightarrow> 'w \<Rightarrow> kvs_result \<times> u64"
  op_get_device_utilization :: "kvs_device_handle \<Rightarrow> 'w \<Rightarrow> kvs_result \<times> u32"
  op_store_kvp ::
    "kvs_key_space_handle \<Rightarrow> kvs_key \<Rightarrow> kvs_value \<Rightarrow> kvs_store_type \<Rightarrow> 'w \<Rightarrow> kvs_result \<times> 'w"
  op_retrieve_kvp ::
    "kvs_key_space_handle \<Rightarrow> kvs_key \<Rightarrow> bool \<Rightarrow> kvs_value \<Rightarrow> 'w \<Rightarrow> kvs_result \<times> kvs_value \<times> 'w"
  op_delete_kvp :: "kvs_key_space_handle \<Rightarrow> kvs_key \<Rightarrow> bool \<Rightarrow> 'w \<Rightarrow> kvs_result \<times> 'w"
  op_exist_kv_pair :: "kvs_key_space_handle \<Rightarrow> kvs_key \<Rightarrow> 'w \<Rightarrow> kvs_result \<times> u8 \<times> 'w"

section \<open>What the engine relies on\<close>

text \<open>The key that a \<open>kvs_key\<close> denotes, and the bytes that a \<open>kvs_value\<close> hands to a store.\<close>

definition key_bytes :: "kvs_key \<Rightarrow> byte list" where
  "key_bytes k = take (unat (kk_length k)) (the (kk_buf k))"

definition value_bytes :: "kvs_value \<Rightarrow> byte list" where
  "value_bytes v = take (unat (kv_length v)) (the (kv_buf v))"

definition good_key :: "kvs_key \<Rightarrow> bool" where
  "good_key k \<longleftrightarrow> (\<exists>b. kk_buf k = Some b \<and> unat (kk_length k) \<le> length b) \<and>
     KVS_MIN_KEY_LENGTH \<le> unat (kk_length k) \<and> unat (kk_length k) \<le> KVS_MAX_KEY_LENGTH"

definition good_value :: "kvs_value \<Rightarrow> bool" where
  "good_value v \<longleftrightarrow> (\<exists>b. kv_buf v = Some b \<and> unat (kv_length v) \<le> length b) \<and> kv_offset v = 0"

text \<open>
  A retrieve gets a buffer of \<open>kv_length\<close> bytes, whose previous content is of no concern, and
  gives back the bytes it has written.
\<close>

definition good_buffer :: "kvs_value \<Rightarrow> bool" where
  "good_buffer v \<longleftrightarrow> kv_buf v \<noteq> None \<and> kv_offset v = 0"

text \<open>
  A library keeps a set of key spaces that are open (\<open>ready\<close>) and, for each of them, a map
  from keys to values.  A store either succeeds and updates the map, as its store type says,
  or fails and leaves it alone; retrieves never change it unless they are asked to delete;
  a call on one key space does not touch another.
\<close>

locale kvs_library =
  fixes ops :: "'w kvs_ops"
    and ready :: "kvs_key_space_handle \<Rightarrow> 'w \<Rightarrow> bool"
    and content :: "kvs_key_space_handle \<Rightarrow> 'w \<Rightarrow> byte list \<Rightarrow> byte list option"
  assumes store_ready: "ready h w \<Longrightarrow> op_store_kvp ops g k v st w = (r, w') \<Longrightarrow> ready h w'"
    and store_content: "ready h w \<Longrightarrow> good_key k \<Longrightarrow> good_value v \<Longrightarrow>
          op_store_kvp ops h k v KVS_STORE_POST w = (r, w') \<Longrightarrow>
          content h w' = (if r = KVS_SUCCESS then (content h w)(key_bytes k := Some (value_bytes v))
                          else content h w)"
    and store_new_content: "ready h w \<Longrightarrow> good_key k \<Longrightarrow> good_value v \<Longrightarrow>
          op_store_kvp ops h k v KVS_STORE_NOOVERWRITE w = (r, w') \<Longrightarrow>
          (content h w (key_bytes k) \<noteq> None \<longrightarrow> r \<noteq> KVS_SUCCESS) \<and>
          content h w' = (if r = KVS_SUCCESS then (content h w)(key_bytes k := Some (value_bytes v))
                          else content h w)"
    and store_other: "ready h w \<Longrightarrow> ready g w \<Longrightarrow> h \<noteq> g \<Longrightarrow>
          op_store_kvp ops g k v st w = (r, w') \<Longrightarrow> content h w' = content h w"
    and retrieve_ready: "ready h w \<Longrightarrow> op_retrieve_kvp ops g k d v w = (r, v', w') \<Longrightarrow> ready h w'"
    and retrieve_content: "ready h w \<Longrightarrow> ready g w \<Longrightarrow>
          op_retrieve_kvp ops g k False v w = (r, v', w') \<Longrightarrow> content h w' = content h w"
    and retrieve_value: "ready h w \<Longrightarrow> good_key k \<Longrightarrow> good_buffer v \<Longrightarrow>
          op_retrieve_kvp ops h k False v w = (KVS_SUCCESS, v', w') \<Longrightarrow>
          \<exists>x. content h w (key_bytes k) = Some x \<and> length x \<le> unat (kv_length v) \<and>
              value_bytes v' = x \<and> unat (kv_length v') = length x \<and>
              unat (actual_value_size v') = length x"
    and delete_ready: "ready h w \<Longrightarrow> op_delete_kvp ops g k e w = (r, w') \<Longrightarrow> ready h w'"
    and delete_content: "ready h w \<Longrightarrow> good_key k \<Longrightarrow> op_delete_kvp ops h k e w = (r, w') \<Longrightarrow>
          content h w' = (if r = KVS_SUCCESS then (content h w)(key_bytes k := None)
                          else content h w)"
    and delete_other: "ready h w \<Longrightarrow> ready g w \<Longrightarrow> h \<noteq> g \<Longrightarrow>
          op_delete_kvp ops g k e w = (r, w') \<Longrightarrow> content h w' = content h w"
    and exist_ready: "ready h w \<Longrightarrow> op_exist_kv_pair ops g k w = (r, b, w') \<Longrightarrow> ready h w'"
    and exist_content: "ready h w \<Longrightarrow> op_exist_kv_pair ops g k w = (r, b, w') \<Longrightarrow>
          content h w' = content h w"
    and exist_value: "ready h w \<Longrightarrow> good_key k \<Longrightarrow>
          op_exist_kv_pair ops h k w = (KVS_SUCCESS, b, w') \<Longrightarrow>
          b \<noteq> 0 \<longleftrightarrow> content h w (key_bytes k) \<noteq> None"

text \<open>A library that moreover never fails on a well-formed request.\<close>

locale reliable_kvs_library = kvs_library +
  assumes store_succeeds: "ready h w \<Longrightarrow> good_key k \<Longrightarrow> good_value v \<Longrightarrow>
          unat (kv_length v) \<le> KVS_MAX_VALUE_LENGTH \<Longrightarrow>
          fst (op_store_kvp ops h k v KVS_STORE_POST w) = KVS_SUCCESS"
    and store_new_succeeds: "ready h w \<Longrightarrow> good_key k \<Longrightarrow> good_value v \<Longrightarrow>
          unat (kv_length v) \<le> KVS_MAX_VALUE_LENGTH \<Longrightarrow>
          fst (op_store_kvp ops h k v KVS_STORE_NOOVERWRITE w) =
            (if content h w (key_bytes k) = None then KVS_SUCCESS
             else KVS_ERR_VALUE_UPDATE_NOT_ALLOWED)"
    and retrieve_result: "ready h w \<Longrightarrow> good_key k \<Longrightarrow> good_buffer v \<Longrightarrow>
          unat (kv_length v) = KVS_MAX_VALUE_LENGTH \<Longrightarrow>
          fst (op_retrieve_kvp ops h k False v w) =
            (if content h w (key_bytes k) = None then KVS_ERR_KEY_NOT_EXIST else KVS_SUCCESS)"
    and delete_succeeds: "ready h w \<Longrightarrow> good_key k \<Longrightarrow>
          fst (op_delete_kvp ops h k False w) = KVS_SUCCESS"
    and exist_succeeds: "ready h w \<Longrightarrow> good_key k \<Longrightarrow>
          fst (op_exist_kv_pair ops h k w) = KVS_SUCCESS"

end
