(* ===== verification/Memory.thy ===== *)
theory Memory
  imports Prelude
begin

text \<open>
  The C heap as far as the engine uses it: which blocks are live, and what the allocator
  answers.  The allocator belongs to the environment, so its answers are a list of proposed
  addresses; a proposal that no allocator may make (the null pointer, a live block, or an
  address of the wrong alignment) stands for a failed allocation.  Freed addresses may be
  handed out again.  A \<open>free\<close> of something that is neither null nor a live block is
  recorded in \<open>bad_free\<close>, so that the absence of double frees is a statement about a field.
\<close>

record mem =
  live :: "addr \<Rightarrow> nat option"
  proposals :: "addr list"
  bad_free :: bool

text \<open>DMA_ALIGNMENT and IS_DMA_ALIGNED of utils/dma_alloc.h.\<close>

definition DMA_ALIGNMENT :: size_t where
  "DMA_ALIGNMENT = 4096"

definition IS_DMA_ALIGNED :: "addr \<Rightarrow> bool" where
  "IS_DMA_ALIGNED p = (p AND (DMA_ALIGNMENT - 1) = 0)"

definition malloc :: "nat \<Rightarrow> mem \<Rightarrow> addr \<times> mem" where
  "malloc n m = (case proposals m of
      [] \<Rightarrow> (NULL, m)
    | a # s \<Rightarrow>
        if a = NULL \<or> live m a \<noteq> None then (NULL, m\<lparr>proposals := s\<rparr>)
        else (a, m\<lparr>proposals := s, live := (live m)(a := Some n)\<rparr>))"

definition posix_memalign :: "nat \<Rightarrow> mem \<Rightarrow> addr \<times> mem" where
  "posix_memalign n m = (case proposals m of
      [] \<Rightarrow> (NULL, m)
    | a # s \<Rightarrow>
        if a = NULL \<or> live m a \<noteq> None \<or> \<not> IS_DMA_ALIGNED a
        then (NULL, m\<lparr>proposals := s\<rparr>)
        else (a, m\<lparr>proposals := s, live := (live m)(a := Some n)\<rparr>))"

definition mem_free :: "addr \<Rightarrow> mem \<Rightarrow> mem" where
  "mem_free a m =
     (if a = NULL then m
      else if live m a = None then m\<lparr>bad_free := True\<rparr>
      else m\<lparr>live := (live m)(a := None)\<rparr>)"

fun mem_free_all :: "addr list \<Rightarrow> mem \<Rightarrow> mem" where
  "mem_free_all [] m = m"
| "mem_free_all (a # as) m = mem_free_all as (mem_free a m)"

text \<open>
  \<open>strdup\<close>: a heap copy of a C string, the null pointer when the allocation fails.  A string
  is its address and its characters.
\<close>

type_synonym cstr = "addr \<times> string"

definition strdup :: "string \<Rightarrow> mem \<Rightarrow> cstr \<times> mem" where
  "strdup s m = (case malloc (length s + 1) m of (a, m') \<Rightarrow> ((a, if a = NULL then [] else s), m'))"

text \<open>\<open>dma_alloc\<close> and \<open>dma_free\<close> of utils/dma_alloc.c.\<close>

definition dma_alloc :: "size_t \<Rightarrow> mem \<Rightarrow> addr \<times> mem" where
  "dma_alloc sz m = (if sz = 0 then (NULL, m) else posix_memalign (unat sz) m)"

definition dma_free :: "addr \<Rightarrow> mem \<Rightarrow> mem" where
  "dma_free a m = mem_free a m"

section \<open>Laws of the heap\<close>

text \<open>An allocator law shared by \<open>malloc\<close>, \<open>posix_memalign\<close> and \<open>dma_alloc\<close>.\<close>

definition alloc_law :: "nat \<Rightarrow> mem \<Rightarrow> addr \<Rightarrow> mem \<Rightarrow> bool" where
  "alloc_law n m a m' \<longleftrightarrow>
     bad_free m' = bad_free m \<and>
     (if a = NULL then live m' = live m
      else live m a = None \<and> live m' = (live m)(a := Some n))"

lemma malloc_law: "malloc n m = (a, m') \<Longrightarrow> alloc_law n m a m'"
  by (auto simp: malloc_def alloc_law_def split: list.splits if_splits)

lemma posix_memalign_law: "posix_memalign n m = (a, m') \<Longrightarrow> alloc_law n m a m'"
  by (auto simp: posix_memalign_def alloc_law_def split: list.splits if_splits)

lemma dma_alloc_law: "dma_alloc sz m = (a, m') \<Longrightarrow> alloc_law (unat sz) m a m'"
  by (auto simp: dma_alloc_def alloc_law_def dest: posix_memalign_law split: if_splits)

lemma dma_alloc_aligned:
  "dma_alloc sz m = (a, m') \<Longrightarrow> a \<noteq> NULL \<Longrightarrow> IS_DMA_ALIGNED a \<and> 0 < unat sz"
  by (auto simp: dma_alloc_def posix_memalign_def unat_gt_0 split: list.splits if_splits)

lemma strdup_law:
  "strdup s m = ((a, t), m') \<Longrightarrow> alloc_law (length s + 1) m a m'"
  by (auto simp: strdup_def dest: malloc_law split: prod.splits if_splits)

lemma strdup_content:
  "strdup s m = ((a, t), m') \<Longrightarrow> t = (if a = NULL then [] else s)"
  by (auto simp: strdup_def split: prod.splits if_splits)

lemma alloc_law_null: "alloc_law n m NULL m' \<Longrightarrow> live m' = live m \<and> bad_free m' = bad_free m"
  by (simp add: alloc_law_def)

lemma alloc_law_some:
  "alloc_law n m a m' \<Longrightarrow> a \<noteq> NULL \<Longrightarrow>
     live m a = None \<and> live m' = (live m)(a := Some n) \<and> bad_free m' = bad_free m"
  by (simp add: alloc_law_def)

text \<open>Freeing a fresh block undoes its allocation.\<close>

lemma alloc_then_free:
  assumes "alloc_law n m a m'"
  shows "live (mem_free a m') = live m \<and> bad_free (mem_free a m') = bad_free m"
  using assms by (auto simp: alloc_law_def mem_free_def split: if_splits)

lemma live_mem_free [mem_simps]:
  "live m a \<noteq> None \<or> a = NULL \<Longrightarrow>
     live (mem_free a m) = (if a = NULL then live m else (live m)(a := None))"
  by (auto simp: mem_free_def)

lemma bad_free_mem_free [mem_simps]:
  "bad_free (mem_free a m) \<longleftrightarrow> bad_free m \<or> (a \<noteq> NULL \<and> live m a = None)"
  by (auto simp: mem_free_def)

lemma proposals_mem_free [mem_simps]: "proposals (mem_free a m) = proposals m"
  by (simp add: mem_free_def)

lemma mem_free_NULL [simp]: "mem_free NULL m = m"
  by (simp add: mem_free_def)

text \<open>Freeing a list of distinct live blocks removes exactly those blocks.\<close>

lemma mem_free_all_live:
  assumes "distinct as" "\<forall>a\<in>set as. a \<noteq> NULL \<and> live m a \<noteq> None"
  shows "live (mem_free_all as m) = (\<lambda>x. if x \<in> set as then None else live m x) \<and>
         bad_free (mem_free_all as m) = bad_free m"
  using assms
proof (induction as arbitrary: m)
  case (Cons a as)
  let ?m = "mem_free a m"
  have lv: "live ?m = (live m)(a := None)" and bf: "bad_free ?m = bad_free m"
    using Cons.prems by (auto simp: mem_free_def)
  have "distinct as" "\<forall>x\<in>set as. x \<noteq> NULL \<and> live ?m x \<noteq> None"
    using Cons.prems lv by auto
  from Cons.IH [OF this] show ?case
    using lv bf by auto
qed simp

lemma mem_free_all_append:
  "mem_free_all (as @ bs) m = mem_free_all bs (mem_free_all as m)"
  by (induction as arbitrary: m) auto

text \<open>A page-aligned address leaves a remainder of zero.\<close>

lemma IS_DMA_ALIGNED_iff: "IS_DMA_ALIGNED p \<longleftrightarrow> unat p mod 4096 = 0"
proof -
  have "p AND (DMA_ALIGNMENT - 1) = take_bit 12 p"
    by (simp add: DMA_ALIGNMENT_def take_bit_eq_mask mask_eq_exp_minus_1)
  moreover have "unat (take_bit 12 p) = unat p mod 4096"
    by (simp add: take_bit_eq_mod unat_mod)
  ultimately show ?thesis
    by (metis IS_DMA_ALIGNED_def unat_0 unat_eq_zero)
qed

end
