(* ===== verification/Multi_Device.thy ===== *)
theory Multi_Device
  imports Kvs_Interface Memory
begin

text \<open>
  Devices of the engine: the per-device context of kv_engine_internal.h and the operations of
  core/kv_engine_multi_device.c (resolving the configured paths, sharding keys over devices,
  opening and closing a device).  The C pointers to handles and to the path copy are optional
  handles and a string with its heap address.
\<close>

section \<open>Configuration and device context\<close>

definition KV_MAX_DEVICES :: nat where
  "KV_MAX_DEVICES = 8"

record kv_engine_config_t =
  device_path :: "string option"
  emul_config_file :: "string option"
  memory_pool_size :: size_t
  queue_depth :: u32
  num_worker_threads :: u32
  enable_stats :: u32
  device_paths :: "string option list"
  cfg_num_devices :: u32
  dma_pool_count :: u32

record kv_device_ctx_t =
  dc_device :: "kvs_device_handle option"
  dc_keyspace :: "kvs_key_space_handle option"
  dc_path :: cstr
  healthy :: bool
  consecutive_errors :: u64
  total_errors :: u64
  dc_total_ops :: u64
  max_consecutive_errors :: u32

text \<open>A slot of the device array after the engine structure has been zeroed.\<close>

definition zero_ctx :: kv_device_ctx_t where
  "zero_ctx = \<lparr>dc_device = None, dc_keyspace = None, dc_path = (NULL, []), healthy = False,
     consecutive_errors = 0, total_errors = 0, dc_total_ops = 0, max_consecutive_errors = 0\<rparr>"

section \<open>Resolving device paths\<close>

fun collect_paths :: "string option list \<Rightarrow> string list option" where
  "collect_paths [] = Some []"
| "collect_paths (None # ps) = None"
| "collect_paths (Some p # ps) = map_option (Cons p) (collect_paths ps)"

definition kv_engine_resolve_device_paths :: "kv_engine_config_t \<Rightarrow> kv_result_t \<times> string list" where
  "kv_engine_resolve_device_paths cfg =
     (if cfg_num_devices cfg > 0 then
        if unat (cfg_num_devices cfg) > KV_MAX_DEVICES then (KV_ERR_INVALID_PARAM, [])
        else (case collect_paths (take (unat (cfg_num_devices cfg)) (device_paths cfg)) of
            None \<Rightarrow> (KV_ERR_INVALID_PARAM, [])
          | Some ps \<Rightarrow> (KV_SUCCESS, ps))
      else (case device_path cfg of
          None \<Rightarrow> (KV_ERR_INVALID_PARAM, [])
        | Some p \<Rightarrow> (KV_SUCCESS, [p])))"

section \<open>Sharding\<close>

definition fnv_step :: "u32 \<Rightarrow> byte \<Rightarrow> u32" where
  "fnv_step hash b = (hash XOR ucast b) * 16777619"

definition kv_engine_shard_for_key :: "byte list \<Rightarrow> size_t \<Rightarrow> u32 \<Rightarrow> u32" where
  "kv_engine_shard_for_key key key_len n =
     foldl fnv_step 2166136261 (take (unat key_len) key) mod n"

section \<open>Opening and closing a device\<close>

text \<open>The conversion of \<open>snprintf\<close> for \<open>%u\<close>.\<close>

fun decimal :: "nat \<Rightarrow> string" where
  "decimal n = (if n < 10 then [char_of (48 + n)] else decimal (n div 10) @ [char_of (48 + n mod 10)])"

declare decimal.simps [simp del]

definition ks_name :: "nat \<Rightarrow> string" where
  "ks_name i = ''nvme_kv_engine_'' @ decimal i"

text \<open>
  \<open>kv_engine_open_device\<close>: open the device, open its key space, creating it first when it
  cannot be opened, and close the device again when that fails.
\<close>

definition kv_engine_open_device ::
  "'w kvs_ops \<Rightarrow> kv_device_ctx_t \<Rightarrow> string \<Rightarrow> nat \<Rightarrow> mem \<Rightarrow> 'w
     \<Rightarrow> kv_result_t \<times> kv_device_ctx_t \<times> mem \<times> 'w" where
  "kv_engine_open_device ops ctx path idx m w =
     (let (r, dev, w1) = op_open_device ops path w in
      if r \<noteq> KVS_SUCCESS then (KV_ERR_DEVICE_OPEN, ctx, m, w1) else
      let opened = (\<lambda>ks w. let (dp, m1) = strdup path m in
            (KV_SUCCESS,
             \<lparr>dc_device = Some dev, dc_keyspace = Some ks, dc_path = dp, healthy = True,
              consecutive_errors = 0, total_errors = 0, dc_total_ops = 0,
              max_consecutive_errors = 10\<rparr>, m1, w));
          failed = (\<lambda>w. let (_, w') = op_close_device ops dev w in
            (KV_ERR_DEVICE_OPEN, ctx\<lparr>dc_device := None\<rparr>, m, w'));
          (r, ks, w2) = op_open_key_space ops dev (ks_name idx) w1 in
      if r = KVS_SUCCESS then opened ks w2 else
      let (r, w3) = op_create_key_space ops dev (ks_name idx) w2 in
      if r \<noteq> KVS_SUCCESS then failed w3 else
      let (r, ks, w4) = op_open_key_space ops dev (ks_name idx) w3 in
      if r \<noteq> KVS_SUCCESS then failed w4 else opened ks w4)"

definition kv_engine_close_device ::
  "'w kvs_ops \<Rightarrow> kv_device_ctx_t \<Rightarrow> mem \<Rightarrow> 'w \<Rightarrow> kv_device_ctx_t \<times> mem \<times> 'w" where
  "kv_engine_close_device ops ctx m w =
     (let w1 = (case dc_keyspace ctx of None \<Rightarrow> w | Some ks \<Rightarrow> snd (op_close_key_space ops ks w));
          w2 = (case dc_device ctx of None \<Rightarrow> w1 | Some d \<Rightarrow> snd (op_close_device ops d w1));
          m1 = (if fst (dc_path ctx) \<noteq> NULL then mem_free (fst (dc_path ctx)) m else m)
      in (ctx\<lparr>dc_keyspace := None, dc_device := None, dc_path := (NULL, [])\<rparr>, m1, w2))"

text \<open>Closing the devices \<open>0 .. n - 1\<close> in order, as the engine's error paths and cleanup do.\<close>

fun close_devices ::
  "'w kvs_ops \<Rightarrow> kv_device_ctx_t list \<Rightarrow> mem \<Rightarrow> 'w \<Rightarrow> mem \<times> 'w" where
  "close_devices ops [] m w = (m, w)"
| "close_devices ops (ctx # ctxs) m w =
     (let (_, m1, w1) = kv_engine_close_device ops ctx m w in close_devices ops ctxs m1 w1)"

section \<open>Facts\<close>

lemma shard_bound:
  "n \<noteq> 0 \<Longrightarrow> unat (kv_engine_shard_for_key key len n) < unat n"
  by (simp add: kv_engine_shard_for_key_def unat_mod_less)

lemma shard_prefix:
  "take (unat len) key = take (unat len) key' \<Longrightarrow>
     kv_engine_shard_for_key key len n = kv_engine_shard_for_key key' len n"
  by (simp add: kv_engine_shard_for_key_def)

lemma collect_paths_some:
  "collect_paths xs = Some ps \<longleftrightarrow> xs = map Some ps"
  by (induction xs arbitrary: ps rule: collect_paths.induct) (auto simp: map_eq_Cons_conv)

lemma resolve_success:
  assumes "kv_engine_resolve_device_paths cfg = (KV_SUCCESS, ps)"
    "length (device_paths cfg) = KV_MAX_DEVICES"
  shows "0 < length ps \<and> length ps \<le> KV_MAX_DEVICES"
proof (cases "cfg_num_devices cfg > 0")
  case True
  then have n: "0 < unat (cfg_num_devices cfg)" by (simp add: word_less_nat_alt)
  have c: "collect_paths (take (unat (cfg_num_devices cfg)) (device_paths cfg)) = Some ps"
    and le: "unat (cfg_num_devices cfg) \<le> KV_MAX_DEVICES"
    using assms True by (auto simp: kv_engine_resolve_device_paths_def split: if_splits option.splits)
  have "length ps = unat (cfg_num_devices cfg)"
    using arg_cong [OF c [unfolded collect_paths_some], of length] le assms(2) by simp
  then show ?thesis using n le by simp
next
  case False
  then show ?thesis
    using assms by (auto simp: kv_engine_resolve_device_paths_def KV_MAX_DEVICES_def split: option.splits)
qed

text \<open>The device context after a successful open.\<close>

lemma open_device_success:
  assumes "kv_engine_open_device ops ctx path idx m w = (KV_SUCCESS, ctx', m', w')"
  shows "\<exists>dev ks. dc_device ctx' = Some dev \<and> dc_keyspace ctx' = Some ks"
    "healthy ctx'" "consecutive_errors ctx' = 0" "max_consecutive_errors ctx' = 10"
    "dc_total_ops ctx' = 0" "total_errors ctx' = 0"
    "alloc_law (length path + 1) m (fst (dc_path ctx')) m'"
  using assms
  by (auto simp: kv_engine_open_device_def Let_def dest: strdup_law split: prod.splits if_splits)

lemma open_device_failure:
  assumes "kv_engine_open_device ops ctx path idx m w = (r, ctx', m', w')" "r \<noteq> KV_SUCCESS"
  shows "r = KV_ERR_DEVICE_OPEN" "m' = m"
  using assms
  by (auto simp: kv_engine_open_device_def Let_def split: prod.splits if_splits)

text \<open>
  A degenerate library whose calls all succeed, for concrete instances of statements about
  an arbitrary library.
\<close>

definition yes_ops :: "unit kvs_ops" where
  "yes_ops = \<lparr>
     op_open_device = (\<lambda>p w. (KVS_SUCCESS, 1, w)),
     op_close_device = (\<lambda>d w. (KVS_SUCCESS, w)),
     op_create_key_space = (\<lambda>d n w. (KVS_SUCCESS, w)),
     op_open_key_space = (\<lambda>d n w. (KVS_SUCCESS, 2, w)),
     op_close_key_space = (\<lambda>h w. (KVS_SUCCESS, w)),
     op_get_device_capacity = (\<lambda>d w. (KVS_SUCCESS, 4096)),
     op_get_device_utilization = (\<lambda>d w. (KVS_SUCCESS, 0)),
     op_store_kvp = (\<lambda>h k v st w. (KVS_SUCCESS, w)),
     op_retrieve_kvp = (\<lambda>h k d v w. (KVS_SUCCESS, v, w)),
     op_delete_kvp = (\<lambda>h k e w. (KVS_SUCCESS, w)),
     op_exist_kv_pair = (\<lambda>h k w. (KVS_SUCCESS, 1, w))\<rparr>"

section \<open>Properties\<close>



end
