(* ===== verification/Device_Health.thy ===== *)
theory Device_Health
  imports Multi_Device
begin

text \<open>
  Health tracking: \<open>check_device_health\<close> and \<open>device_record_result\<close> of core/kv_engine.c, and the
  background probe of core/kv_engine_health.c.  The atomic counters of a device are fields of
  its context; the probe thread's sweep over the devices is a function, and its local
  recovery counters a list.
\<close>

section \<open>Operations\<close>

definition check_device_health :: "kv_device_ctx_t \<Rightarrow> kv_result_t" where
  "check_device_health ctx = (if \<not> healthy ctx then KV_ERR_DEVICE_DEGRADED else KV_SUCCESS)"

definition device_record_result :: "kv_device_ctx_t \<Rightarrow> kvs_result \<Rightarrow> kv_device_ctx_t" where
  "device_record_result ctx r =
     (let ctx1 = ctx\<lparr>dc_total_ops := dc_total_ops ctx + 1\<rparr> in
      if is_device_error r then
        let ctx2 = ctx1\<lparr>total_errors := total_errors ctx1 + 1\<rparr>;
            prev = consecutive_errors ctx2;
            ctx3 = ctx2\<lparr>consecutive_errors := prev + 1\<rparr> in
        if r = KVS_ERR_DEV_NOT_EXIST \<or> r = KVS_ERR_DEV_NOT_OPENED then ctx3\<lparr>healthy := False\<rparr>
        else if prev + 1 \<ge> ucast (max_consecutive_errors ctx3) then ctx3\<lparr>healthy := False\<rparr>
        else ctx3
      else ctx1\<lparr>consecutive_errors := 0\<rparr>)"

text \<open>
  \<open>health_probe_t\<close>: the parts that the probe's decisions depend on, and its heap address.
\<close>

record health_probe_t =
  hp_addr :: addr
  hp_running :: bool
  probe_interval_sec :: u32
  recovery_threshold :: u32

text \<open>
  \<open>health_probe_create\<close>: the argument is whether \<open>pthread_create\<close> succeeds.
\<close>

definition sizeof_health_probe :: nat where
  "sizeof_health_probe = 128"

definition health_probe_create :: "bool \<Rightarrow> mem \<Rightarrow> health_probe_t option \<times> mem" where
  "health_probe_create thread_ok m =
     (let (p, m1) = malloc sizeof_health_probe m in
      if p = NULL then (None, m1)
      else if \<not> thread_ok then (None, mem_free p m1)
      else (Some \<lparr>hp_addr = p, hp_running = True, probe_interval_sec = 5,
                  recovery_threshold = 3\<rparr>, m1))"

definition health_probe_destroy :: "health_probe_t option \<Rightarrow> mem \<Rightarrow> mem" where
  "health_probe_destroy probe m = (case probe of None \<Rightarrow> m | Some p \<Rightarrow> mem_free (hp_addr p) m)"

text \<open>
  One device in one sweep of \<open>health_probe_thread\<close>: a healthy device is skipped; the probe of
  an unhealthy one counts successes and restores it when the threshold is reached.
\<close>

definition probe_device ::
  "u32 \<Rightarrow> kvs_result \<Rightarrow> kv_device_ctx_t \<times> u32 \<Rightarrow> kv_device_ctx_t \<times> u32" where
  "probe_device threshold res = (\<lambda>(ctx, count).
     if healthy ctx then (ctx, count)
     else if res = KVS_SUCCESS then
       let count1 = count + 1 in
       if count1 \<ge> threshold then (ctx\<lparr>healthy := True, consecutive_errors := 0\<rparr>, 0)
       else (ctx, count1)
     else (ctx, 0))"

text \<open>
  The whole sweep over the first \<open>num_devices\<close> devices, with the utilization query as probe.
  A device that was never opened has a null handle.
\<close>

fun probe_sweep ::
  "(kvs_device_handle option \<Rightarrow> kvs_result) \<Rightarrow> u32 \<Rightarrow> kv_device_ctx_t list \<Rightarrow> u32 list
     \<Rightarrow> (kv_device_ctx_t \<times> u32) list" where
  "probe_sweep query threshold (ctx # ctxs) (c # cs) =
     probe_device threshold (query (dc_device ctx)) (ctx, c) # probe_sweep query threshold ctxs cs"
| "probe_sweep query threshold _ _ = []"

section \<open>What trips a device\<close>

definition fatal_result :: "kvs_result \<Rightarrow> bool" where
  "fatal_result r \<longleftrightarrow> r = KVS_ERR_DEV_NOT_EXIST \<or> r = KVS_ERR_DEV_NOT_OPENED"

text \<open>
  The specification: a history of results takes a device out of service when the device has
  gone away, or when \<open>n\<close> device errors follow each other without any other answer in between.
\<close>

definition trips :: "nat \<Rightarrow> kvs_result list \<Rightarrow> bool" where
  "trips n rs \<longleftrightarrow> (\<exists>r\<in>set rs. fatal_result r) \<or> has_run is_device_error n rs"

lemma trips_snoc:
  "trips n (rs @ [r]) \<longleftrightarrow> trips n rs \<or> fatal_result r \<or> n \<le> suffix_run is_device_error (rs @ [r])"
  by (auto simp: trips_def has_run_snoc)

section \<open>Recording results\<close>

definition record_results :: "kv_device_ctx_t \<Rightarrow> kvs_result list \<Rightarrow> kv_device_ctx_t" where
  "record_results ctx rs = foldl device_record_result ctx rs"

lemma record_results_snoc [simp]:
  "record_results ctx (rs @ [r]) = device_record_result (record_results ctx rs) r"
  by (simp add: record_results_def)

lemma record_results_Nil [simp]: "record_results ctx [] = ctx"
  by (simp add: record_results_def)

lemma device_record_result_frame [simp]:
  "dc_device (device_record_result ctx r) = dc_device ctx"
  "dc_keyspace (device_record_result ctx r) = dc_keyspace ctx"
  "dc_path (device_record_result ctx r) = dc_path ctx"
  "max_consecutive_errors (device_record_result ctx r) = max_consecutive_errors ctx"
  by (simp_all add: device_record_result_def Let_def)

lemma device_record_result_success [simp]:
  "\<not> is_device_error r \<Longrightarrow> healthy (device_record_result ctx r) = healthy ctx"
  by (simp add: device_record_result_def Let_def)

lemma device_record_result_healthy:
  "healthy (device_record_result ctx r) \<longleftrightarrow>
     healthy ctx \<and> (is_device_error r \<longrightarrow>
       \<not> fatal_result r \<and> consecutive_errors ctx + 1 < ucast (max_consecutive_errors ctx))"
  by (auto simp: device_record_result_def Let_def fatal_result_def)

lemma device_record_result_errors:
  "consecutive_errors (device_record_result ctx r) =
     (if is_device_error r then consecutive_errors ctx + 1 else 0)"
  by (simp add: device_record_result_def Let_def)

lemma fatal_is_device_error: "fatal_result r \<Longrightarrow> is_device_error r"
  by (auto simp: fatal_result_def)

text \<open>
  The counters after a history that fits into them, for a device that starts in service.
\<close>

lemma record_results_state:
  assumes "healthy ctx" "consecutive_errors ctx = 0" "0 < max_consecutive_errors ctx"
    "length rs < 2 ^ 64"
  shows "unat (consecutive_errors (record_results ctx rs)) = suffix_run is_device_error rs \<and>
         max_consecutive_errors (record_results ctx rs) = max_consecutive_errors ctx \<and>
         (healthy (record_results ctx rs) \<longleftrightarrow> \<not> trips (unat (max_consecutive_errors ctx)) rs) "
  using assms(4)
proof (induction rs rule: rev_induct)
  case Nil
  have "unat (max_consecutive_errors ctx) \<noteq> 0" using assms(3) by (auto simp: unat_eq_zero)
  then show ?case using assms by (auto simp: trips_def has_run_Nil)
next
  case (snoc r rs)
  let ?c = "record_results ctx rs" and ?n = "unat (max_consecutive_errors ctx)"
  have ih: "unat (consecutive_errors ?c) = suffix_run is_device_error rs"
      "max_consecutive_errors ?c = max_consecutive_errors ctx"
      "healthy ?c \<longleftrightarrow> \<not> trips ?n rs"
    using snoc by simp_all
  have n: "0 < ?n" using assms(3) by (simp add: word_less_nat_alt)
  have inc: "unat (consecutive_errors ?c + 1) = Suc (suffix_run is_device_error rs)"
    using ih snoc.prems suffix_run_le [of is_device_error rs] by (simp add: unat_suc_no_wrap)
  have lt: "consecutive_errors ?c + 1 < ucast (max_consecutive_errors ctx) \<longleftrightarrow> Suc (suffix_run is_device_error rs) < ?n"
    using inc by (simp add: word_less_nat_alt)
  show ?case
  proof (cases "is_device_error r")
    case True
    then show ?thesis
      using ih inc lt trips_snoc [of ?n rs r]
      by (auto simp: device_record_result_healthy device_record_result_errors)
  next
    case False
    then show ?thesis
      using ih trips_snoc [of ?n rs r] n fatal_is_device_error
      by (auto simp: device_record_result_healthy device_record_result_errors)
  qed
qed

section \<open>Recovery\<close>

definition probe_results :: "u32 \<Rightarrow> kv_device_ctx_t \<times> u32 \<Rightarrow> kvs_result list \<Rightarrow> kv_device_ctx_t \<times> u32" where
  "probe_results t s rs = foldl (\<lambda>s r. probe_device t r s) s rs"

lemma probe_results_snoc [simp]:
  "probe_results t s (rs @ [r]) = probe_device t r (probe_results t s rs)"
  by (simp add: probe_results_def)

lemma probe_results_Nil [simp]: "probe_results t s [] = s"
  by (simp add: probe_results_def)

abbreviation "answered \<equiv> \<lambda>r. r = KVS_SUCCESS"

text \<open>
  As long as the device has not come back, the counter is the number of successful probes at
  the end of the history.
\<close>

lemma probe_results_state:
  assumes "\<not> healthy ctx" "0 < t"
  shows "(healthy (fst (probe_results t (ctx, 0) rs)) \<longleftrightarrow> has_run answered (unat t) rs) \<and>
    (\<not> healthy (fst (probe_results t (ctx, 0) rs)) \<longrightarrow>
       unat (snd (probe_results t (ctx, 0) rs)) = suffix_run answered rs \<and>
       suffix_run answered rs < unat t)"
proof (induction rs rule: rev_induct)
  case Nil
  have "0 < unat t" using assms(2) by (simp add: word_less_nat_alt)
  then show ?case using assms(1) by (simp add: has_run_Nil)
next
  case (snoc r rs)
  obtain c k where s: "probe_results t (ctx, 0) rs = (c, k)" by fastforce
  show ?case
  proof (cases "healthy c")
    case True
    then show ?thesis using snoc s by (auto simp: probe_device_def has_run_snoc)
  next
    case False
    then have k: "unat k = suffix_run answered rs" "unat k < unat t" "\<not> has_run answered (unat t) rs"
      using snoc s by auto
    have "unat t < 2 ^ LENGTH(32)" by (rule unsigned_less)
    then have inc: "unat (k + 1) = Suc (unat k)" using k(2) by (simp add: unat_suc_no_wrap)
    have "t \<le> k + 1 \<longleftrightarrow> unat t \<le> Suc (suffix_run answered rs)"
      using inc k(1) by (simp add: word_le_nat_alt)
    then show ?thesis
      using False k s inc assms(2)
      by (auto simp: probe_device_def has_run_snoc Let_def word_less_nat_alt)
  qed
qed

section \<open>Properties\<close>



text \<open>C11: the background probe brings an unhealthy device back exactly when three probes in a
  row have succeeded, and clears its error counter when it does.\<close>

theorem probe_recovers_iff:
  assumes "health_probe_create True m = (Some probe, m')" "\<not> healthy ctx"
    "probe_results (recovery_threshold probe) (ctx, 0) rs = (ctx', count)"
  shows "(healthy ctx' \<longleftrightarrow> has_run answered 3 rs) \<and> (healthy ctx' \<longrightarrow> consecutive_errors ctx' = 0)"
proof -
  have t: "recovery_threshold probe = 3"
    using assms(1) by (auto simp: health_probe_create_def Let_def split: prod.splits if_splits)
  have "healthy (fst (probe_results 3 (ctx, 0) rs)) \<longrightarrow>
      consecutive_errors (fst (probe_results 3 (ctx, 0) rs)) = 0"
    using assms(2)
    by (induction rs rule: rev_induct) (auto simp: probe_device_def Let_def split: prod.splits)
  then show ?thesis
    using probe_results_state [OF assms(2), of 3 rs] assms(3) t by simp
qed

theorem probe_recovers_iff_witness:
  "\<exists>probe m'. health_probe_create True \<lparr>live = (\<lambda>_. None), proposals = [16], bad_free = False\<rparr>
       = (Some probe, m') \<and>
     healthy (fst (probe_results (recovery_threshold probe) (zero_ctx, 0)
       [KVS_SUCCESS, KVS_ERR_SYS_IO, KVS_SUCCESS, KVS_SUCCESS, KVS_SUCCESS]))"
proof -
  let ?rs = "[KVS_SUCCESS, KVS_ERR_SYS_IO, KVS_SUCCESS, KVS_SUCCESS, KVS_SUCCESS]"
  obtain probe m' where p: "health_probe_create True
      \<lparr>live = (\<lambda>_. None), proposals = [16], bad_free = False\<rparr> = (Some probe, m')"
    by (simp add: health_probe_create_def malloc_def)
  have "has_run answered 3 ?rs"
    unfolding has_run_def
    by (rule exI [of _ "[KVS_SUCCESS, KVS_ERR_SYS_IO]"],
        rule exI [of _ "[KVS_SUCCESS, KVS_SUCCESS, KVS_SUCCESS]"]) simp
  then show ?thesis
    using p probe_recovers_iff [OF p _ surjective_pairing, of zero_ctx ?rs]
    by (auto simp: zero_ctx_def)
qed

end
