(* ===== verification/Memory_Pool.thy ===== *)
theory Memory_Pool
  imports Memory
begin

text \<open>
  The bump allocator of utils/memory_pool.c.  The pool is the heap structure
  \<open>memory_pool_t\<close>; a null pool pointer is \<open>None\<close>.  Offsets and sizes are 64-bit words, so the
  wrap-around of \<open>ALIGN_UP\<close> and of \<open>aligned_offset + aligned_size\<close> is the machine's.
  The mutex makes every operation atomic and has no further state.
\<close>

record memory_pool_t =
  mp_addr :: addr
  mp_base :: addr
  mp_size :: size_t
  mp_used :: size_t

definition ALIGNMENT :: size_t where
  "ALIGNMENT = 8"

definition ALIGN_UP :: "size_t \<Rightarrow> size_t \<Rightarrow> size_t" where
  "ALIGN_UP n al = ((n + al - 1) AND NOT (al - 1))"

definition sizeof_memory_pool :: nat where
  "sizeof_memory_pool = 64"

definition memory_pool_create :: "size_t \<Rightarrow> mem \<Rightarrow> memory_pool_t option \<times> mem" where
  "memory_pool_create sz m =
     (let (p, m1) = malloc sizeof_memory_pool m in
      if p = NULL then (None, m1) else
      let (b, m2) = malloc (unat sz) m1 in
      if b = NULL then (None, mem_free p m2)
      else (Some \<lparr>mp_addr = p, mp_base = b, mp_size = sz, mp_used = 0\<rparr>, m2))"

definition memory_pool_alloc ::
  "memory_pool_t option \<Rightarrow> size_t \<Rightarrow> addr \<times> memory_pool_t option" where
  "memory_pool_alloc pool sz = (case pool of
      None \<Rightarrow> (NULL, None)
    | Some p \<Rightarrow>
        (let aligned_offset = ALIGN_UP (mp_used p) ALIGNMENT;
             aligned_size = ALIGN_UP sz ALIGNMENT in
         if aligned_offset + aligned_size > mp_size p then (NULL, Some p)
         else (mp_base p + aligned_offset,
               Some (p\<lparr>mp_used := aligned_offset + aligned_size\<rparr>))))"

definition memory_pool_free :: "memory_pool_t option \<Rightarrow> addr \<Rightarrow> memory_pool_t option" where
  "memory_pool_free pool ptr = pool"

definition memory_pool_destroy :: "memory_pool_t option \<Rightarrow> mem \<Rightarrow> mem" where
  "memory_pool_destroy pool m = (case pool of
      None \<Rightarrow> m
    | Some p \<Rightarrow>
        (let m1 = (if mp_base p \<noteq> NULL then mem_free (mp_base p) m else m) in
         mem_free (mp_addr p) m1))"

section \<open>Alignment arithmetic\<close>

lemma ALIGN_UP_8:
  assumes "unat n + 7 < 2 ^ 64"
  shows "unat (ALIGN_UP n ALIGNMENT) = (unat n + 7) div 8 * 8"
proof -
  let ?w = "n + 7 :: 64 word"
  have "ALIGN_UP n ALIGNMENT = ?w AND NOT (mask 3)"
    by (simp add: ALIGN_UP_def ALIGNMENT_def mask_eq_exp_minus_1 add.commute)
  also have "\<dots> = push_bit 3 (drop_bit 3 ?w)"
    by (rule bit_eqI) (auto simp: bit_simps)
  finally have "ALIGN_UP n ALIGNMENT = push_bit 3 (drop_bit 3 ?w)" .
  then have "unat (ALIGN_UP n ALIGNMENT) = (unat ?w div 8) * 8 mod 2 ^ 64"
    by (simp add: push_bit_eq_mult drop_bit_eq_div unat_div unat_word_ariths)
  moreover have "unat ?w = unat n + 7"
    using assms by (simp add: unat_word_ariths)
  moreover have "(unat n + 7) div 8 * 8 < 2 ^ 64"
    using assms by linarith
  ultimately show ?thesis by simp
qed

section \<open>Invariant and behaviour of the bump allocator\<close>

text \<open>
  A pool whose storage does not wrap around the address space; the bound leaves room for the
  rounding of one maximal request.
\<close>

definition pool_inv :: "memory_pool_t \<Rightarrow> bool" where
  "pool_inv p \<longleftrightarrow>
     mp_used p \<le> mp_size p \<and> unat (mp_size p) \<le> 2 ^ 62 \<and>
     unat (mp_base p) + unat (mp_size p) < 2 ^ 64"

text \<open>The number of bytes a request takes once it is rounded.\<close>

definition round8 :: "nat \<Rightarrow> nat" where
  "round8 n = (n + 7) div 8 * 8"

lemma round8_ge: "n \<le> round8 n" and round8_lt: "round8 n < n + 8"
  by (simp_all add: round8_def)

lemma round8_dvd: "8 dvd round8 n"
  by (simp add: round8_def)

text \<open>Both outcomes of an allocation, in terms of natural numbers.\<close>

lemma memory_pool_alloc_cases:
  assumes inv: "pool_inv p" and req: "unat sz \<le> 2 ^ 62"
  shows "memory_pool_alloc (Some p) sz =
    (if round8 (unat (mp_used p)) + round8 (unat sz) \<le> unat (mp_size p)
     then (mp_base p + of_nat (round8 (unat (mp_used p))),
           Some (p\<lparr>mp_used := of_nat (round8 (unat (mp_used p)) + round8 (unat sz))\<rparr>))
     else (NULL, Some p))"
proof -
  let ?o = "ALIGN_UP (mp_used p) ALIGNMENT" and ?s = "ALIGN_UP sz ALIGNMENT"
  have u: "unat (mp_used p) \<le> 2 ^ 62"
    using inv by (simp add: pool_inv_def word_le_nat_alt)
  have o: "unat ?o = round8 (unat (mp_used p))" and s: "unat ?s = round8 (unat sz)"
    using u req by (simp_all add: ALIGN_UP_8 round8_def)
  have "unat ?o + unat ?s < 2 ^ 64"
    using u req o s round8_lt [of "unat (mp_used p)"] round8_lt [of "unat sz"] by simp
  then have sum: "unat (?o + ?s) = unat ?o + unat ?s"
    by (simp add: unat_plus_no_wrap)
  have "?o + ?s = of_nat (round8 (unat (mp_used p)) + round8 (unat sz))"
    using sum o s by (metis of_nat_unat)
  moreover have "?o = of_nat (round8 (unat (mp_used p)))"
    using o by (metis of_nat_unat)
  ultimately show ?thesis
    using sum o s
    by (simp add: memory_pool_alloc_def Let_def word_less_nat_alt not_less)
qed

lemma memory_pool_alloc_success:
  assumes inv: "pool_inv p" and req: "unat sz \<le> 2 ^ 62"
      and alloc: "memory_pool_alloc (Some p) sz = (ptr, Some p')" and ok: "p' \<noteq> p \<or> ptr \<noteq> NULL"
  shows "pool_inv p'" "mp_base p' = mp_base p" "mp_size p' = mp_size p"
    "unat ptr = unat (mp_base p) + round8 (unat (mp_used p))"
    "round8 (unat (mp_used p)) + unat sz \<le> unat (mp_used p')" "unat (mp_used p') \<le> unat (mp_size p)"
proof -
  let ?o = "round8 (unat (mp_used p))" and ?s = "round8 (unat sz)"
  have fits: "?o + ?s \<le> unat (mp_size p)"
    and ptr: "ptr = mp_base p + of_nat ?o"
    and p': "p' = p\<lparr>mp_used := of_nat (?o + ?s)\<rparr>"
    using alloc ok memory_pool_alloc_cases [OF inv req] by (auto split: if_splits)
  have bnd: "unat (mp_size p) \<le> 2 ^ 62" "unat (mp_base p) + unat (mp_size p) < 2 ^ 64"
    using inv by (simp_all add: pool_inv_def)
  have used: "unat (mp_used p') = ?o + ?s"
    using fits bnd by (simp add: p' unat_of_nat del: of_nat_add)
  have off: "unat (of_nat ?o :: 64 word) = ?o"
    using fits bnd by (simp add: unat_of_nat)
  show "pool_inv p'"
    using used fits bnd by (simp add: pool_inv_def p' word_le_nat_alt)
  show "mp_base p' = mp_base p" "mp_size p' = mp_size p" by (simp_all add: p')
  show "unat ptr = unat (mp_base p) + ?o"
    using fits bnd off by (simp add: ptr unat_plus_no_wrap)
  show "?o + unat sz \<le> unat (mp_used p')"
    using used round8_ge [of "unat sz"] by simp
  show "unat (mp_used p') \<le> unat (mp_size p)"
    using used fits by linarith
qed

text \<open>
  A run of the allocator over a list of requests: the blocks handed out, in order, and the
  final pool.
\<close>

fun memory_pool_run ::
  "memory_pool_t \<Rightarrow> size_t list \<Rightarrow> (addr \<times> size_t) list \<times> memory_pool_t" where
  "memory_pool_run p [] = ([], p)"
| "memory_pool_run p (sz # szs) =
     (let (ptr, pool') = memory_pool_alloc (Some p) sz;
          (bs, q) = memory_pool_run (the pool') szs in
      (if ptr = NULL then bs else (ptr, sz) # bs, q))"

definition block_in_pool :: "memory_pool_t \<Rightarrow> nat \<Rightarrow> addr \<times> size_t \<Rightarrow> bool" where
  "block_in_pool p lo b \<longleftrightarrow>
     unat (mp_base p) + lo \<le> unat (fst b) \<and>
     unat (fst b) + unat (snd b) \<le> unat (mp_base p) + unat (mp_size p) \<and>
     8 dvd (unat (fst b) - unat (mp_base p))"

definition blocks_ordered :: "(addr \<times> size_t) list \<Rightarrow> bool" where
  "blocks_ordered = sorted_wrt (\<lambda>a b. unat (fst a) + unat (snd a) \<le> unat (fst b))"

lemma memory_pool_alloc_keeps_pool:
  assumes "pool_inv p" "unat sz \<le> 2 ^ 62"
  obtains ptr p' where "memory_pool_alloc (Some p) sz = (ptr, Some p')"
  using memory_pool_alloc_cases [OF assms] by (auto split: if_splits)

lemma memory_pool_run_blocks:
  assumes "pool_inv p" "\<forall>s\<in>set szs. unat s \<le> 2 ^ 62" "mp_base p \<noteq> NULL"
  shows "blocks_ordered (fst (memory_pool_run p szs)) \<and>
         (\<forall>b\<in>set (fst (memory_pool_run p szs)). block_in_pool p (unat (mp_used p)) b) \<and>
         pool_inv (snd (memory_pool_run p szs))"
  using assms
proof (induction szs arbitrary: p)
  case (Cons sz szs)
  have req: "unat sz \<le> 2 ^ 62" using Cons.prems by simp
  obtain ptr p' where al: "memory_pool_alloc (Some p) sz = (ptr, Some p')"
    using Cons.prems(1) req by (rule memory_pool_alloc_keeps_pool)
  show ?case
  proof (cases "p' \<noteq> p \<or> ptr \<noteq> NULL")
    case True
    note s = memory_pool_alloc_success [OF Cons.prems(1) req al True]
    have ih: "blocks_ordered (fst (memory_pool_run p' szs)) \<and>
         (\<forall>b\<in>set (fst (memory_pool_run p' szs)). block_in_pool p' (unat (mp_used p')) b) \<and>
         pool_inv (snd (memory_pool_run p' szs))"
      using Cons.IH [of p'] Cons.prems s by simp
    have "0 < unat (mp_base p)" using Cons.prems by (simp add: unat_gt_0)
    then have nn: "ptr \<noteq> NULL" using s(4) by (auto simp: unat_gt_0 [symmetric])
    have up: "unat (mp_used p) \<le> unat (mp_used p')"
      using s(5) round8_ge [of "unat (mp_used p)"] by linarith
    have "block_in_pool p (unat (mp_used p)) (ptr, sz)"
      using s(4-6) round8_ge [of "unat (mp_used p)"] round8_dvd [of "unat (mp_used p)"]
      by (simp add: block_in_pool_def)
    moreover have "\<forall>b\<in>set (fst (memory_pool_run p' szs)).
        block_in_pool p (unat (mp_used p)) b \<and> unat ptr + unat sz \<le> unat (fst b)"
      using ih up s(2-5) by (fastforce simp: block_in_pool_def)
    ultimately show ?thesis
      using ih nn al by (auto simp: blocks_ordered_def split: prod.splits)
  next
    case False
    then show ?thesis using Cons al by (auto split: prod.splits)
  qed
qed (simp add: blocks_ordered_def)

lemma memory_pool_create_pool:
  assumes "memory_pool_create sz m = (Some p, m')"
  shows "mp_base p \<noteq> NULL" "mp_addr p \<noteq> NULL" "mp_addr p \<noteq> mp_base p"
    "mp_size p = sz" "mp_used p = 0"
    "live m' = (live m)(mp_addr p := Some sizeof_memory_pool, mp_base p := Some (unat sz))"
    "live m (mp_addr p) = None" "live m (mp_base p) = None" "bad_free m' = bad_free m"
proof -
  obtain m1 where c: "malloc sizeof_memory_pool m = (mp_addr p, m1)"
      "malloc (unat sz) m1 = (mp_base p, m')" "mp_addr p \<noteq> NULL" "mp_base p \<noteq> NULL"
      "mp_size p = sz" "mp_used p = 0"
    using assms by (auto simp: memory_pool_create_def Let_def split: prod.splits if_splits)
  note l = alloc_law_some [OF malloc_law [OF c(1)] c(3)] alloc_law_some [OF malloc_law [OF c(2)] c(4)]
  show "mp_base p \<noteq> NULL" "mp_addr p \<noteq> NULL" "mp_size p = sz" "mp_used p = 0"
    "bad_free m' = bad_free m" "live m (mp_addr p) = None"
    "live m' = (live m)(mp_addr p := Some sizeof_memory_pool, mp_base p := Some (unat sz))"
    using c l by auto
  show ne: "mp_addr p \<noteq> mp_base p" using l by auto
  show "live m (mp_base p) = None" using l ne by auto
qed

lemma memory_pool_create_fail:
  "memory_pool_create sz m = (None, m') \<Longrightarrow> live m' = live m \<and> bad_free m' = bad_free m"
  by (auto simp: memory_pool_create_def Let_def mem_free_def alloc_law_def
      dest!: malloc_law split: prod.splits if_splits)

lemma memory_pool_destroy_live:
  assumes "live m (mp_addr p) \<noteq> None" "live m (mp_base p) \<noteq> None" "mp_addr p \<noteq> mp_base p"
    "mp_base p \<noteq> NULL" "mp_addr p \<noteq> NULL"
  shows "live (memory_pool_destroy (Some p) m) = (live m)(mp_addr p := None, mp_base p := None)"
    "bad_free (memory_pool_destroy (Some p) m) = bad_free m"
  using assms by (auto simp: memory_pool_destroy_def mem_free_def fun_upd_twist)

section \<open>Properties\<close>





end
