(* ===== verification/Dma_Pool.thy ===== *)
theory Dma_Pool
  imports Memory "HOL-Library.Multiset"
begin

text \<open>
  The DMA buffer pool of utils/dma_pool.c: a fixed set of page-aligned buffers, recycled
  through a stack \<open>free_list\<close> whose top index is \<open>top\<close>.  The two pointer arrays are lists of
  optional addresses: \<open>None\<close> is an element that was never written (its content in C is
  indeterminate).  The pool's mutex makes acquire and release atomic.
\<close>

record dma_pool_t =
  dp_addr :: addr
  dp_free_list_addr :: addr
  dp_all_buffers_addr :: addr
  free_list :: "addr option list"
  all_buffers :: "addr option list"
  top :: int
  buffer_size :: size_t
  dp_count :: size_t

text \<open>Passing an indeterminate pointer to \<open>free\<close> is an invalid free.\<close>

definition dma_free_slot :: "addr option \<Rightarrow> mem \<Rightarrow> mem" where
  "dma_free_slot s m = (case s of None \<Rightarrow> m\<lparr>bad_free := True\<rparr> | Some a \<Rightarrow> dma_free a m)"

definition dma_pool_destroy :: "dma_pool_t option \<Rightarrow> mem \<Rightarrow> mem" where
  "dma_pool_destroy pool m = (case pool of
      None \<Rightarrow> m
    | Some p \<Rightarrow>
        (let m1 = (if dp_all_buffers_addr p \<noteq> NULL
                   then mem_free (dp_all_buffers_addr p) (fold dma_free_slot (all_buffers p) m)
                   else m);
             m2 = (if dp_free_list_addr p \<noteq> NULL then mem_free (dp_free_list_addr p) m1 else m1)
         in mem_free (dp_addr p) m2))"

text \<open>
  The pre-allocation loop of \<open>dma_pool_create\<close>: \<open>i\<close> is the loop variable, \<open>n\<close> the number of
  iterations left.
\<close>

fun dma_pool_fill :: "nat \<Rightarrow> nat \<Rightarrow> dma_pool_t \<Rightarrow> mem \<Rightarrow> dma_pool_t option \<times> mem" where
  "dma_pool_fill i 0 p m = (Some p, m)"
| "dma_pool_fill i (Suc n) p m =
     (let (buf, m1) = dma_alloc (buffer_size p) m in
      if buf = NULL then (None, dma_pool_destroy (Some p) m1)
      else dma_pool_fill (Suc i) n
             (p\<lparr>top := top p + 1,
                free_list := (free_list p)[nat (top p + 1) := Some buf],
                all_buffers := (all_buffers p)[i := Some buf]\<rparr>) m1)"

lemma dma_pool_fill_numeral [simp]:
  "dma_pool_fill i (numeral v) p m = dma_pool_fill i (Suc (pred_numeral v)) p m"
  by (simp add: numeral_eq_Suc)

definition sizeof_dma_pool :: nat where
  "sizeof_dma_pool = 88"

definition dma_pool_create :: "size_t \<Rightarrow> size_t \<Rightarrow> mem \<Rightarrow> dma_pool_t option \<times> mem" where
  "dma_pool_create bsz n m =
     (let (p, m1) = malloc sizeof_dma_pool m in
      if p = NULL then (None, m1) else
      let (fl, m2) = malloc (unat (8 * n)) m1 in
      if fl = NULL then (None, mem_free p m2) else
      let (ab, m3) = malloc (unat (8 * n)) m2 in
      if ab = NULL then (None, mem_free p (mem_free fl m3)) else
      dma_pool_fill 0 (unat n)
        \<lparr>dp_addr = p, dp_free_list_addr = fl, dp_all_buffers_addr = ab,
         free_list = replicate (unat n) None, all_buffers = replicate (unat n) None,
         top = - 1, buffer_size = bsz, dp_count = n\<rparr> m3)"

text \<open>
  The stack elements up to \<open>top\<close> have been written, so reading the slot yields an address.
\<close>

definition dma_pool_acquire :: "dma_pool_t \<Rightarrow> addr \<times> dma_pool_t" where
  "dma_pool_acquire p =
     (if top p < 0 then (NULL, p)
      else (case free_list p ! nat (top p) of
              None \<Rightarrow> (NULL, p\<lparr>top := top p - 1\<rparr>)
            | Some buf \<Rightarrow> (buf, p\<lparr>top := top p - 1\<rparr>)))"

definition dma_pool_release :: "dma_pool_t \<Rightarrow> addr \<Rightarrow> dma_pool_t" where
  "dma_pool_release p buf =
     (if (word_of_int (top p + 1) :: size_t) \<ge> dp_count p then p
      else p\<lparr>top := top p + 1, free_list := (free_list p)[nat (top p + 1) := Some buf]\<rparr>)"

definition dma_pool_owns :: "dma_pool_t option \<Rightarrow> addr \<Rightarrow> bool" where
  "dma_pool_owns pool buf = (case pool of
      None \<Rightarrow> False
    | Some p \<Rightarrow> buf \<noteq> NULL \<and> (\<exists>i\<in>set [0..<unat (dp_count p)]. all_buffers p ! i = Some buf))"

section \<open>The contract of a buffer pool\<close>

text \<open>
  What a client of a pool relies on: the buffers that are available form a stack, acquiring
  pops it, releasing an owned buffer that is not available pushes it, and neither changes
  which buffers the pool owns.
\<close>

locale buffer_pool =
  fixes acquire :: "'p \<Rightarrow> addr \<times> 'p"
    and release :: "'p \<Rightarrow> addr \<Rightarrow> 'p"
    and avail :: "'p \<Rightarrow> addr list"
    and owned :: "'p \<Rightarrow> addr list"
    and inv :: "'p \<Rightarrow> bool"
  assumes owned_ok: "inv p \<Longrightarrow> distinct (owned p) \<and> NULL \<notin> set (owned p)"
    and avail_owned: "inv p \<Longrightarrow> mset (avail p) \<subseteq># mset (owned p)"
    and acquire_empty: "inv p \<Longrightarrow> avail p = [] \<Longrightarrow> acquire p = (NULL, p)"
    and acquire_cons: "inv p \<Longrightarrow> avail p = b # bs \<Longrightarrow>
          fst (acquire p) = b \<and> avail (snd (acquire p)) = bs \<and>
          owned (snd (acquire p)) = owned p \<and> inv (snd (acquire p))"
    and release_ok: "inv p \<Longrightarrow> b \<in> set (owned p) \<Longrightarrow> b \<notin> set (avail p) \<Longrightarrow>
          avail (release p b) = b # avail p \<and> owned (release p b) = owned p \<and>
          inv (release p b)"
begin

text \<open>The pool and the buffers its clients hold together make up what the pool owns.\<close>

definition balanced :: "'p \<Rightarrow> addr list \<Rightarrow> bool" where
  "balanced p held \<longleftrightarrow> inv p \<and> mset (avail p) + mset held = mset (owned p)"

lemma balanced_distinct:
  assumes "balanced p held"
  shows "distinct (avail p @ held)" "set (avail p) \<union> set held = set (owned p)"
proof -
  have "mset (avail p @ held) = mset (owned p)"
    using assms by (simp add: balanced_def)
  moreover have "distinct (owned p)"
    using assms owned_ok by (simp add: balanced_def)
  ultimately show "distinct (avail p @ held)"
    by (metis mset_eq_imp_distinct_iff)
  from \<open>mset (avail p @ held) = mset (owned p)\<close>
  show "set (avail p) \<union> set held = set (owned p)"
    by (metis set_append set_mset_mset)
qed

lemma acquire_balanced:
  assumes "balanced p held" "acquire p = (b, p')"
  shows "if b = NULL then p' = p \<and> avail p = []
         else b \<notin> set held \<and> owned p' = owned p \<and> balanced p' (b # held)"
proof (cases "avail p")
  case Nil
  then show ?thesis using assms acquire_empty [of p] by (simp add: balanced_def)
next
  case (Cons c cs)
  then have a: "b = c" "avail p' = cs" "owned p' = owned p" "inv p'"
    using assms acquire_cons [of p c cs] by (auto simp: balanced_def)
  have "c \<in> set (owned p)" "c \<notin> set held"
    using balanced_distinct [OF assms(1)] Cons by auto
  moreover have "c \<noteq> NULL"
    using calculation assms(1) owned_ok [of p] by (auto simp: balanced_def)
  ultimately show ?thesis
    using a assms(1) Cons by (auto simp: balanced_def)
qed

lemma release_balanced:
  assumes "balanced p held" "b \<in> set held"
  shows "owned (release p b) = owned p \<and> balanced (release p b) (remove1 b held)"
proof -
  have "b \<in> set (owned p)" "b \<notin> set (avail p)"
    using balanced_distinct [OF assms(1)] assms(2) by auto
  then show ?thesis
    using assms release_ok [of p b] by (simp add: balanced_def)
qed

end

section \<open>The pool of the engine satisfies the contract\<close>

definition pool_avail :: "dma_pool_t \<Rightarrow> addr list" where
  "pool_avail p = rev (map the (take (nat (top p + 1)) (free_list p)))"

definition pool_owned :: "dma_pool_t \<Rightarrow> addr list" where
  "pool_owned p = map the (all_buffers p)"

definition dma_pool_inv :: "dma_pool_t \<Rightarrow> bool" where
  "dma_pool_inv p \<longleftrightarrow>
     length (free_list p) = unat (dp_count p) \<and> length (all_buffers p) = unat (dp_count p) \<and>
     - 1 \<le> top p \<and> nat (top p + 1) \<le> unat (dp_count p) \<and>
     None \<notin> set (all_buffers p) \<and> None \<notin> set (take (nat (top p + 1)) (free_list p)) \<and>
     distinct (pool_owned p) \<and> NULL \<notin> set (pool_owned p) \<and>
     mset (pool_avail p) \<subseteq># mset (pool_owned p)"

lemma pool_avail_pop:
  assumes "dma_pool_inv p" "0 \<le> top p"
  shows "pool_avail p = the (free_list p ! nat (top p)) # pool_avail (p\<lparr>top := top p - 1\<rparr>)"
    and "\<exists>b. free_list p ! nat (top p) = Some b"
proof -
  have s: "nat (top p + 1) = Suc (nat (top p))" using assms by simp
  have lt: "nat (top p) < length (free_list p)"
    using assms by (simp add: dma_pool_inv_def s)
  show "pool_avail p = the (free_list p ! nat (top p)) # pool_avail (p\<lparr>top := top p - 1\<rparr>)"
    using lt by (simp add: pool_avail_def s take_Suc_conv_app_nth)
  have "free_list p ! nat (top p) \<in> set (take (nat (top p + 1)) (free_list p))"
    using lt by (simp add: s take_Suc_conv_app_nth)
  then show "\<exists>b. free_list p ! nat (top p) = Some b"
    using assms by (metis dma_pool_inv_def not_Some_eq)
qed

lemma length_pool_avail:
  "dma_pool_inv p \<Longrightarrow> length (pool_avail p) = nat (top p + 1)"
  by (simp add: pool_avail_def dma_pool_inv_def)

lemma length_pool_owned:
  "dma_pool_inv p \<Longrightarrow> length (pool_owned p) = unat (dp_count p)"
  by (simp add: pool_owned_def dma_pool_inv_def)

lemma acquire_some:
  assumes "dma_pool_inv p" "pool_avail p = b # bs"
  shows "dma_pool_acquire p = (b, p\<lparr>top := top p - 1\<rparr>)" "pool_avail (p\<lparr>top := top p - 1\<rparr>) = bs"
    "dma_pool_inv (p\<lparr>top := top p - 1\<rparr>)"
proof -
  have "nat (top p + 1) = Suc (length bs)"
    using length_pool_avail [OF assms(1)] assms(2) by simp
  then have t: "0 \<le> top p" by simp
  note pop = pool_avail_pop [OF assms(1) t]
  show av: "pool_avail (p\<lparr>top := top p - 1\<rparr>) = bs" using pop(1) assms(2) by simp
  show "dma_pool_acquire p = (b, p\<lparr>top := top p - 1\<rparr>)"
    using pop assms(2) t by (auto simp: dma_pool_acquire_def)
  have "mset bs \<subseteq># mset (pool_owned p)"
    using assms by (auto simp: dma_pool_inv_def intro: subset_mset.trans [rotated])
  moreover have "None \<notin> set (take (nat (top p)) (free_list p))"
    using assms(1) set_take_subset_set_take [of "nat (top p)" "nat (top p + 1)" "free_list p"] t
    by (auto simp: dma_pool_inv_def nat_le_iff)
  moreover have "nat (top p) \<le> unat (dp_count p)"
    using assms(1) t by (simp add: dma_pool_inv_def nat_add_distrib)
  ultimately show "dma_pool_inv (p\<lparr>top := top p - 1\<rparr>)"
    using assms(1) av t by (simp add: dma_pool_inv_def pool_owned_def)
qed

lemma release_room:
  assumes "dma_pool_inv p" "b \<in> set (pool_owned p)" "b \<notin> set (pool_avail p)"
  shows "nat (top p + 1) < unat (dp_count p)"
proof -
  have "mset (pool_avail p) \<subset># mset (pool_owned p)"
    using assms by (metis dma_pool_inv_def set_mset_mset subset_mset.le_neq_trans)
  then have "length (pool_avail p) < length (pool_owned p)"
    by (metis mset_subset_size size_mset)
  then show ?thesis
    using length_pool_avail [OF assms(1)] length_pool_owned [OF assms(1)] by simp
qed

lemma mset_cons_subseteq:
  assumes "mset xs \<subseteq># mset ys" "b \<in> set ys" "b \<notin> set xs"
  shows "mset (b # xs) \<subseteq># mset ys"
proof (rule mset_subset_eqI)
  fix x
  have "count (mset xs) x \<le> count (mset ys) x"
    using assms(1) by (rule mset_subset_eq_count)
  moreover have "count (mset xs) b = 0" "0 < count (mset ys) b"
    using assms by (simp_all add: count_mset_0_iff)
  ultimately show "count (mset (b # xs)) x \<le> count (mset ys) x"
    by (cases "x = b") (simp_all add: Suc_le_eq del: count_mset_0_iff count_greater_zero_iff)
qed

lemma release_some:
  assumes inv: "dma_pool_inv p" and b: "b \<in> set (pool_owned p)" "b \<notin> set (pool_avail p)"
  shows "pool_avail (dma_pool_release p b) = b # pool_avail p"
    "pool_owned (dma_pool_release p b) = pool_owned p" "dma_pool_inv (dma_pool_release p b)"
proof -
  let ?k = "nat (top p + 1)"
  have room: "?k < unat (dp_count p)" using release_room [OF assms] .
  have t: "- 1 \<le> top p" using inv by (simp add: dma_pool_inv_def)
  obtain k where k: "top p + 1 = int k" using t zero_le_imp_eq_int [of "top p + 1"] by auto
  have "unat (dp_count p) < 2 ^ 64" using unsigned_less [of "dp_count p"] by simp
  then have "unat (word_of_int (top p + 1) :: size_t) = ?k"
    using room by (simp add: k unat_of_nat)
  then have "\<not> (word_of_int (top p + 1) :: size_t) \<ge> dp_count p"
    using room by (simp add: word_le_nat_alt)
  then have r: "dma_pool_release p b =
      p\<lparr>top := top p + 1, free_list := (free_list p)[?k := Some b]\<rparr>"
    by (simp add: dma_pool_release_def)
  have k2: "nat (top p + 2) = Suc ?k" using t by simp
  have len: "?k < length (free_list p)" using inv room by (simp add: dma_pool_inv_def)
  have tk: "take (Suc ?k) ((free_list p)[?k := Some b]) = take ?k (free_list p) @ [Some b]"
    using len by (simp add: take_Suc_conv_app_nth)
  show av: "pool_avail (dma_pool_release p b) = b # pool_avail p"
    using tk k2 by (simp add: r pool_avail_def add.commute)
  show ow: "pool_owned (dma_pool_release p b) = pool_owned p"
    by (simp add: r pool_owned_def)
  have "mset (b # pool_avail p) \<subseteq># mset (pool_owned p)"
    using inv b by (intro mset_cons_subseteq) (simp_all add: dma_pool_inv_def)
  moreover have "None \<notin> set (take (nat (top p + 2)) ((free_list p)[?k := Some b]))"
    using inv tk k2 by (simp add: dma_pool_inv_def)
  moreover have "nat (top p + 2) \<le> unat (dp_count p)"
    using k2 room by simp
  ultimately show "dma_pool_inv (dma_pool_release p b)"
    using inv t av ow by (simp add: dma_pool_inv_def r add.commute)
qed

interpretation dma: buffer_pool dma_pool_acquire dma_pool_release pool_avail pool_owned dma_pool_inv
proof (unfold_locales, goal_cases)
  case (3 p)
  have "top p < 0"
    using length_pool_avail [OF 3(1)] 3(2) by simp
  then show ?case by (simp add: dma_pool_acquire_def)
next
  case (4 p b bs)
  then show ?case using acquire_some [OF 4] by (simp add: pool_owned_def)
next
  case (5 p b)
  then show ?case using release_some [OF 5] by simp
qed (auto simp: dma_pool_inv_def)

section \<open>Creation and destruction\<close>

lemma dma_pool_fill_ok:
  assumes "free_list p = map Some bs @ replicate n None" "all_buffers p = free_list p"
    "top p = int (length bs) - 1" "distinct bs" "\<forall>b\<in>set bs. b \<noteq> NULL \<and> live m b \<noteq> None"
    "dma_pool_fill (length bs) n p m = (Some q, m')"
  shows "\<exists>cs. length cs = n \<and> distinct (bs @ cs) \<and>
      (\<forall>c\<in>set cs. c \<noteq> NULL \<and> live m c = None \<and> IS_DMA_ALIGNED c) \<and>
      q = p\<lparr>top := int (length (bs @ cs)) - 1, free_list := map Some (bs @ cs),
             all_buffers := map Some (bs @ cs)\<rparr> \<and>
      live m' = (\<lambda>x. if x \<in> set cs then Some (unat (buffer_size p)) else live m x) \<and>
      bad_free m' = bad_free m"
  using assms
proof (induction n arbitrary: bs p m)
  case 0
  then show ?case by (intro exI [of _ "[]"]) simp
next
  case (Suc n)
  obtain buf m1 where al: "dma_alloc (buffer_size p) m = (buf, m1)" by fastforce
  have nn: "buf \<noteq> NULL" using Suc.prems(6) al by (auto split: if_splits)
  note law = alloc_law_some [OF dma_alloc_law [OF al] nn]
  let ?bs = "bs @ [buf]"
  let ?p = "p\<lparr>top := top p + 1, free_list := (free_list p)[nat (top p + 1) := Some buf],
              all_buffers := (all_buffers p)[length bs := Some buf]\<rparr>"
  have fl: "free_list ?p = map Some ?bs @ replicate n None"
    using Suc.prems(1,3) by (simp add: list_update_append)
  have ab: "all_buffers ?p = free_list ?p" and tp: "top ?p = int (length ?bs) - 1"
    using Suc.prems(2,3) by simp_all
  have d: "distinct ?bs" "\<forall>b\<in>set ?bs. b \<noteq> NULL \<and> live m1 b \<noteq> None"
    using Suc.prems(4,5) law nn by auto
  have "dma_pool_fill (length ?bs) n ?p m1 = (Some q, m')"
    using Suc.prems(6) al nn by simp
  from Suc.IH [OF fl ab tp d this] obtain cs where cs:
    "length cs = n" "distinct (?bs @ cs)"
    "\<forall>c\<in>set cs. c \<noteq> NULL \<and> live m1 c = None \<and> IS_DMA_ALIGNED c"
    "q = ?p\<lparr>top := int (length (?bs @ cs)) - 1, free_list := map Some (?bs @ cs),
             all_buffers := map Some (?bs @ cs)\<rparr>"
    "live m' = (\<lambda>x. if x \<in> set cs then Some (unat (buffer_size ?p)) else live m1 x)"
    "bad_free m' = bad_free m1"
    by blast
  have "IS_DMA_ALIGNED buf" using dma_alloc_aligned [OF al nn] by simp
  moreover have "live m' = (\<lambda>x. if x \<in> set (buf # cs) then Some (unat (buffer_size p)) else live m x)"
    using cs(2,5) law by (auto simp: fun_eq_iff)
  ultimately show ?case
    using cs law nn by (intro exI [of _ "buf # cs"]) (auto split: if_splits)
qed

text \<open>The heap blocks of a pool.\<close>

definition pool_blocks :: "dma_pool_t \<Rightarrow> addr list" where
  "pool_blocks p = dp_addr p # dp_free_list_addr p # dp_all_buffers_addr p # pool_owned p"

text \<open>Everything that a successful creation establishes.\<close>

lemma dma_pool_create_ok:
  assumes "dma_pool_create bsz n m = (Some p, m')"
  shows "distinct (pool_blocks p)" "NULL \<notin> set (pool_blocks p)"
    "\<forall>x\<in>set (pool_blocks p). live m x = None" "\<forall>x\<in>set (pool_blocks p). live m' x \<noteq> None"
    "\<forall>x. x \<notin> set (pool_blocks p) \<longrightarrow> live m' x = live m x"
    "\<forall>c\<in>set (pool_owned p). IS_DMA_ALIGNED c \<and> live m' c = Some (unat bsz)"
    "length (pool_owned p) = unat n"
    "all_buffers p = map Some (pool_owned p)" "free_list p = map Some (pool_owned p)"
    "top p = int (length (pool_owned p)) - 1" "dp_count p = n" "buffer_size p = bsz"
    "bad_free m' = bad_free m"
proof -
  obtain a m1 f m2 b m3 where c:
    "malloc sizeof_dma_pool m = (a, m1)" "a \<noteq> NULL"
    "malloc (unat (8 * n)) m1 = (f, m2)" "f \<noteq> NULL"
    "malloc (unat (8 * n)) m2 = (b, m3)" "b \<noteq> NULL"
    and fill: "dma_pool_fill 0 (unat n)
        \<lparr>dp_addr = a, dp_free_list_addr = f, dp_all_buffers_addr = b,
         free_list = replicate (unat n) None, all_buffers = replicate (unat n) None,
         top = - 1, buffer_size = bsz, dp_count = n\<rparr> m3 = (Some p, m')"
    using assms by (auto simp: dma_pool_create_def Let_def split: prod.splits if_splits)
  note l = alloc_law_some [OF malloc_law [OF c(1)] c(2)] alloc_law_some [OF malloc_law [OF c(3)] c(4)]
    alloc_law_some [OF malloc_law [OF c(5)] c(6)]
  let ?p0 = "\<lparr>dp_addr = a, dp_free_list_addr = f, dp_all_buffers_addr = b,
         free_list = replicate (unat n) None, all_buffers = replicate (unat n) None,
         top = - 1, buffer_size = bsz, dp_count = n\<rparr>"
  have "\<exists>cs. length cs = unat n \<and> distinct ([] @ cs) \<and>
      (\<forall>c\<in>set cs. c \<noteq> NULL \<and> live m3 c = None \<and> IS_DMA_ALIGNED c) \<and>
      p = ?p0\<lparr>top := int (length ([] @ cs)) - 1, free_list := map Some ([] @ cs),
             all_buffers := map Some ([] @ cs)\<rparr> \<and>
      live m' = (\<lambda>x. if x \<in> set cs then Some (unat (buffer_size ?p0)) else live m3 x) \<and>
      bad_free m' = bad_free m3"
    using fill by (intro dma_pool_fill_ok) simp_all
  then obtain cs where cs: "length cs = unat n" "distinct cs"
      "\<forall>c\<in>set cs. c \<noteq> NULL \<and> live m3 c = None \<and> IS_DMA_ALIGNED c"
      "p = ?p0\<lparr>top := int (length ([] @ cs)) - 1, free_list := map Some ([] @ cs),
             all_buffers := map Some ([] @ cs)\<rparr>"
      "live m' = (\<lambda>x. if x \<in> set cs then Some (unat (buffer_size ?p0)) else live m3 x)"
      "bad_free m' = bad_free m3"
    by (elim exE conjE) simp
  have p: "dp_addr p = a" "dp_free_list_addr p = f" "dp_all_buffers_addr p = b"
    "free_list p = map Some cs" "all_buffers p = map Some cs" "top p = int (length cs) - 1"
    "dp_count p = n" "buffer_size p = bsz"
    by (simp_all add: cs(4))
  have ow: "pool_owned p = cs" by (simp add: pool_owned_def p comp_def)
  have ncs: "a \<notin> set cs" "f \<notin> set cs" "b \<notin> set cs" "a \<noteq> f" "a \<noteq> b" "f \<noteq> b"
    using cs(3) l by (fastforce split: if_splits)+
  then show "distinct (pool_blocks p)"
    using cs(2) by (simp add: pool_blocks_def p ow)
  show "NULL \<notin> set (pool_blocks p)"
    using c cs(3) by (auto simp: pool_blocks_def p ow)
  have old: "live m x = live m3 x" if "x \<noteq> a" "x \<noteq> f" "x \<noteq> b" for x
    using l that by simp
  have new: "live m3 a \<noteq> None" "live m3 f \<noteq> None" "live m3 b \<noteq> None"
    "live m a = None" "live m f = None" "live m b = None"
    using l ncs by simp_all
  show "\<forall>x\<in>set (pool_blocks p). live m x = None"
    using new cs(3) ncs old by (simp add: pool_blocks_def p ow) metis
  show "\<forall>x\<in>set (pool_blocks p). live m' x \<noteq> None"
    using new ncs by (auto simp: pool_blocks_def p ow cs(5))
  show "\<forall>x. x \<notin> set (pool_blocks p) \<longrightarrow> live m' x = live m x"
    using old by (simp add: pool_blocks_def p ow cs(5))
  show "\<forall>c\<in>set (pool_owned p). IS_DMA_ALIGNED c \<and> live m' c = Some (unat bsz)"
    using cs(3) by (simp add: ow cs(5))
  show "length (pool_owned p) = unat n" "all_buffers p = map Some (pool_owned p)"
    "free_list p = map Some (pool_owned p)" "top p = int (length (pool_owned p)) - 1"
    "dp_count p = n" "buffer_size p = bsz"
    using cs(1) by (simp_all add: ow p)
  show "bad_free m' = bad_free m" using cs(6) l by simp
qed

lemma dma_pool_create_inv:
  assumes "dma_pool_create bsz n m = (Some p, m')"
  shows "dma_pool_inv p" "pool_avail p = rev (pool_owned p)"
proof -
  note c = dma_pool_create_ok [OF assms]
  show av: "pool_avail p = rev (pool_owned p)"
    using c(9,10) by (simp add: pool_avail_def)
  have "- 1 \<le> top p" using c(10) by linarith
  then show "dma_pool_inv p"
    using c(1,2,7-11) av by (auto simp: dma_pool_inv_def pool_blocks_def)
qed

lemma fold_free_slots:
  "fold dma_free_slot (map Some bs) m = mem_free_all bs m"
  by (induction bs arbitrary: m) (simp_all add: dma_free_slot_def dma_free_def)

text \<open>Destroying a pool frees its buffers, both arrays and the structure, each once.\<close>

lemma dma_pool_destroy_frees:
  assumes "all_buffers p = map Some (pool_owned p)" "NULL \<notin> set (pool_blocks p)"
  shows "dma_pool_destroy (Some p) m =
    mem_free_all (pool_owned p @ [dp_all_buffers_addr p, dp_free_list_addr p, dp_addr p]) m"
  using assms
  by (auto simp: dma_pool_destroy_def Let_def fold_free_slots mem_free_all_append pool_blocks_def)

lemma dma_pool_destroy_live:
  assumes "all_buffers p = map Some (pool_owned p)" "NULL \<notin> set (pool_blocks p)"
    "distinct (pool_blocks p)" "\<forall>x\<in>set (pool_blocks p). live m x \<noteq> None"
  shows "live (dma_pool_destroy (Some p) m) =
      (\<lambda>x. if x \<in> set (pool_blocks p) then None else live m x)"
    "bad_free (dma_pool_destroy (Some p) m) = bad_free m"
proof -
  let ?as = "pool_owned p @ [dp_all_buffers_addr p, dp_free_list_addr p, dp_addr p]"
  have as: "distinct ?as" "\<forall>a\<in>set ?as. a \<noteq> NULL \<and> live m a \<noteq> None"
    and set: "set ?as = set (pool_blocks p)"
    using assms by (auto simp: pool_blocks_def)
  show "live (dma_pool_destroy (Some p) m) =
      (\<lambda>x. if x \<in> set (pool_blocks p) then None else live m x)"
    "bad_free (dma_pool_destroy (Some p) m) = bad_free m"
    using mem_free_all_live [OF as] dma_pool_destroy_frees [OF assms(1,2), of m]
    unfolding set by simp_all
qed

section \<open>Clients of the pool\<close>

text \<open>
  A sequence of calls by well-behaved clients: acquire a buffer, or release one of the
  buffers currently held (by its position).
\<close>

datatype dma_call = Acquire | Release nat

fun dma_client :: "dma_call list \<Rightarrow> dma_pool_t \<times> addr list \<Rightarrow> dma_pool_t \<times> addr list" where
  "dma_client [] s = s"
| "dma_client (Acquire # cs) (p, held) =
     (let (b, p') = dma_pool_acquire p in dma_client cs (p', if b = NULL then held else b # held))"
| "dma_client (Release i # cs) (p, held) =
     (if i < length held
      then dma_client cs (dma_pool_release p (held ! i), remove1 (held ! i) held)
      else dma_client cs (p, held))"

lemma dma_client_balanced:
  "dma.balanced p held \<Longrightarrow> dma_client cs (p, held) = (p', held') \<Longrightarrow>
     dma.balanced p' held' \<and> pool_owned p' = pool_owned p"
proof (induction cs "(p, held)" arbitrary: p held rule: dma_client.induct)
  case (2 cs p held)
  obtain b q where "dma_pool_acquire p = (b, q)" by fastforce
  then show ?case
    using 2 dma.acquire_balanced [of p held b q] by (auto split: if_splits)
next
  case (3 i cs p held)
  then show ?case
    using dma.release_balanced [of p held "held ! i"] by (auto split: if_splits)
qed simp

section \<open>Properties\<close>



text \<open>C16: \<open>dma_pool_release\<close> does not notice a buffer that is released twice: when at least
  two buffers are out, releasing one of them twice makes the next two acquisitions return
  the same buffer.\<close>

theorem dma_pool_double_release_aliases:
  assumes "dma_pool_inv p" "pool_avail p = []" "1 < unat (dp_count p)"
    "dma_pool_release (dma_pool_release p b) b = q"
    "dma_pool_acquire q = (x, r)" "dma_pool_acquire r = (y, s)"
  shows "x = b \<and> y = b"
proof -
  have t: "top p = - 1"
    using length_pool_avail [OF assms(1)] assms(1,2) by (simp add: dma_pool_inv_def)
  have c: "1 < dp_count p" using assms(3) by (simp add: word_less_nat_alt)
  then have "0 < dp_count p" by (metis word_gt_0 word_less_1 less_trans word_neq_0_conv)
  then have "q = p\<lparr>top := 1, free_list := (free_list p)[0 := Some b, 1 := Some b]\<rparr>"
    using assms(4) t c by (simp add: dma_pool_release_def not_le [symmetric])
  moreover obtain u v us where "free_list p = u # v # us"
    using assms(1,3) by (cases "free_list p"; cases "tl (free_list p)") (auto simp: dma_pool_inv_def)
  ultimately show ?thesis
    using assms(5,6) by (auto simp: dma_pool_acquire_def)
qed

theorem dma_pool_double_release_aliases_witness:
  "fst (dma_pool_acquire (snd (dma_pool_acquire (dma_pool_release (dma_pool_release
     \<lparr>dp_addr = 16, dp_free_list_addr = 32, dp_all_buffers_addr = 48,
      free_list = [Some 4096, Some 8192], all_buffers = [Some 4096, Some 8192],
      top = - 1, buffer_size = 8192, dp_count = 2\<rparr> 4096) 4096)))) = 4096"
  by (rule dma_pool_double_release_aliases [THEN conjunct2, OF _ _ _ refl
        surjective_pairing surjective_pairing])
    (simp_all add: dma_pool_inv_def pool_owned_def pool_avail_def)

lemma dma_free_slot_bad_mono: "bad_free m \<Longrightarrow> bad_free (dma_free_slot s m)"
  by (simp add: dma_free_slot_def dma_free_def mem_free_def split: option.splits)

lemma fold_free_slots_bad:
  "None \<in> set ss \<or> bad_free m \<Longrightarrow> bad_free (fold dma_free_slot ss m)"
proof (induction ss arbitrary: m)
  case (Cons s ss)
  have "None \<in> set ss \<or> bad_free (dma_free_slot s m)"
    using Cons.prems dma_free_slot_bad_mono [of m s] by (auto simp: dma_free_slot_def)
  then show ?case using Cons.IH by simp
qed simp

lemma bad_free_mono: "bad_free m \<Longrightarrow> bad_free (mem_free a m)"
  by (simp add: mem_free_def)

lemma dma_pool_destroy_bad:
  "None \<in> set (all_buffers p) \<Longrightarrow> dp_all_buffers_addr p \<noteq> NULL \<Longrightarrow>
     bad_free (dma_pool_destroy (Some p) m)"
  by (simp add: dma_pool_destroy_def Let_def bad_free_mono fold_free_slots_bad)

lemma dma_pool_fill_fail_bad:
  assumes "dma_pool_fill i n p m = (None, m')" "dp_all_buffers_addr p \<noteq> NULL"
    "\<forall>j\<ge>i. j < i + n \<longrightarrow> all_buffers p ! j = None" "length (all_buffers p) = i + n"
  shows "bad_free m'"
  using assms
proof (induction n arbitrary: i p m)
  case (Suc n)
  obtain buf m1 where al: "dma_alloc (buffer_size p) m = (buf, m1)" by fastforce
  show ?case
  proof (cases "buf = NULL")
    case True
    have "None \<in> set (all_buffers p)"
      using Suc.prems(3,4) by (metis in_set_conv_nth le_refl less_add_same_cancel1 zero_less_Suc)
    then show ?thesis using True al Suc.prems dma_pool_destroy_bad by auto
  next
    case False
    then have "dma_pool_fill (Suc i) n
        (p\<lparr>top := top p + 1, free_list := (free_list p)[nat (top p + 1) := Some buf],
           all_buffers := (all_buffers p)[i := Some buf]\<rparr>) m1 = (None, m')"
      using al Suc.prems(1) by simp
    then show ?thesis by (rule Suc.IH) (use Suc.prems in auto)
  qed
qed simp

text \<open>C17: when a buffer allocation fails while a pool is being created, the error path frees
  pointers that were never written: \<open>dma_pool_destroy\<close> walks all \<open>count\<close> elements of
  \<open>all_buffers\<close>, also those the loop had not reached.\<close>

theorem dma_pool_create_failure_frees_garbage:
  assumes "dma_pool_create bsz n m = (None, m')"
    "proposals m = a # b # c # ps" "distinct [a, b, c]" "NULL \<notin> {a, b, c}"
    "live m a = None" "live m b = None" "live m c = None"
  shows "bad_free m'"
  using assms
  by (auto simp: dma_pool_create_def malloc_def Let_def intro: dma_pool_fill_fail_bad)

theorem dma_pool_create_failure_frees_garbage_witness:
  "bad_free (snd (dma_pool_create 8192 2
     \<lparr>live = (\<lambda>_. None), proposals = [16, 32, 48, 4096], bad_free = False\<rparr>))"
proof -
  let ?m = "\<lparr>live = (\<lambda>_. None), proposals = [16, 32, 48, 4096], bad_free = False\<rparr>"
  have "fst (dma_pool_create 8192 2 ?m) = None"
    by (simp add: dma_pool_create_def malloc_def dma_alloc_def posix_memalign_def
        IS_DMA_ALIGNED_def DMA_ALIGNMENT_def sizeof_dma_pool_def)
  then have "dma_pool_create 8192 2 ?m = (None, snd (dma_pool_create 8192 2 ?m))"
    by (metis prod.collapse)
  then show ?thesis
    by (rule dma_pool_create_failure_frees_garbage [where a = 16 and b = 32 and c = 48]) simp_all
qed

end
