(* ===== verification/Hash_Table.thy ===== *)
theory Hash_Table
  imports Memory
begin

text \<open>
  The engine's index of stored keys, utils/hashTable.h.  The table is the list of its entries
  in insertion order (the application-order list that uthash threads through the entries and
  that \<open>HASH_ITER\<close> walks); \<open>HASH_FIND\<close> returns the entry whose length and bytes equal the
  probe, \<open>HASH_ADD_KEYPTR\<close> appends an entry and \<open>HASH_DEL\<close> unlinks one.  The bucket array by
  which uthash speeds up the search is not represented.  Every entry is a heap block.  A null
  key pointer is \<open>None\<close>; the table pointer is the address of a field of the engine and never
  null.  The table's own mutex makes every operation atomic.
\<close>

record hash_entry =
  he_addr :: addr
  he_key :: "byte list"
  he_key_len :: u32

record hash_table_t =
  ht_head :: "hash_entry list"

definition sizeof_hash_entry :: nat where
  "sizeof_hash_entry = 320"

text \<open>The argument is the result of \<open>pthread_mutex_init\<close>.\<close>

definition create_table :: "int \<Rightarrow> int \<times> hash_table_t" where
  "create_table mutex_rc = (mutex_rc, \<lparr>ht_head = []\<rparr>)"

definition hash_find :: "hash_table_t \<Rightarrow> byte list \<Rightarrow> u32 \<Rightarrow> hash_entry option" where
  "hash_find t key len =
     find (\<lambda>e. he_key_len e = len \<and> he_key e = take (unat len) key) (ht_head t)"

definition add_key ::
  "hash_table_t \<Rightarrow> byte list option \<Rightarrow> u32 \<Rightarrow> mem \<Rightarrow> hash_table_t \<times> mem" where
  "add_key t key len m = (case key of
      None \<Rightarrow> (t, m)
    | Some k \<Rightarrow>
        if len = 0 \<or> len > 255 then (t, m)
        else (case hash_find t k len of
            Some e \<Rightarrow> (t, m)
          | None \<Rightarrow>
              (let (a, m1) = malloc sizeof_hash_entry m in
               if a = NULL then (t, m1)
               else (t\<lparr>ht_head := ht_head t @
                        [\<lparr>he_addr = a, he_key = take (unat len) k, he_key_len = len\<rparr>]\<rparr>, m1))))"

definition key_in_table :: "hash_table_t \<Rightarrow> byte list option \<Rightarrow> u32 \<Rightarrow> bool" where
  "key_in_table t key len = (case key of
      None \<Rightarrow> False
    | Some k \<Rightarrow>
        if len = 0 \<or> len > 255 then False
        else hash_find t k len \<noteq> None)"

definition delete_key ::
  "hash_table_t \<Rightarrow> byte list option \<Rightarrow> u32 \<Rightarrow> mem \<Rightarrow> hash_table_t \<times> mem" where
  "delete_key t key len m = (case key of
      None \<Rightarrow> (t, m)
    | Some k \<Rightarrow>
        if len = 0 \<or> len > 255 then (t, m)
        else (case hash_find t k len of
            None \<Rightarrow> (t, m)
          | Some e \<Rightarrow> (t\<lparr>ht_head := remove1 e (ht_head t)\<rparr>, mem_free (he_addr e) m)))"

text \<open>\<open>free_table\<close>: the \<open>HASH_ITER\<close> loop unlinks and frees entry after entry.\<close>

fun free_entries :: "hash_entry list \<Rightarrow> mem \<Rightarrow> mem" where
  "free_entries [] m = m"
| "free_entries (e # es) m = free_entries es (mem_free (he_addr e) m)"

definition free_table :: "hash_table_t \<Rightarrow> mem \<Rightarrow> hash_table_t \<times> mem" where
  "free_table t m = (t\<lparr>ht_head := []\<rparr>, free_entries (ht_head t) m)"

section \<open>The contract of a key set\<close>

text \<open>
  What the engine relies on: membership is that of a set of keys; adding inserts the key
  unless the allocation of its entry fails, deleting removes it, and the entries are heap
  blocks that come and go with the keys.
\<close>

definition valid_key :: "byte list \<Rightarrow> bool" where
  "valid_key k \<longleftrightarrow> 0 < length k \<and> length k \<le> 255"

locale key_set =
  fixes add :: "'t \<Rightarrow> byte list \<Rightarrow> mem \<Rightarrow> 't \<times> mem"
    and isin :: "'t \<Rightarrow> byte list \<Rightarrow> bool"
    and del :: "'t \<Rightarrow> byte list \<Rightarrow> mem \<Rightarrow> 't \<times> mem"
    and keys :: "'t \<Rightarrow> byte list set"
    and cells :: "'t \<Rightarrow> addr set"
    and inv :: "'t \<Rightarrow> mem \<Rightarrow> bool"
  assumes isin_iff: "inv t m \<Longrightarrow> valid_key k \<Longrightarrow> isin t k \<longleftrightarrow> k \<in> keys t"
    and inv_cells: "inv t m \<Longrightarrow> x \<in> cells t \<Longrightarrow> x \<noteq> NULL \<and> live m x \<noteq> None"
    and inv_frame: "inv t m \<Longrightarrow> (\<And>x. x \<in> cells t \<Longrightarrow> live m' x = live m x) \<Longrightarrow> inv t m'"
    and add_present: "inv t m \<Longrightarrow> valid_key k \<Longrightarrow> k \<in> keys t \<Longrightarrow> add t k m = (t, m)"
    and add_absent: "inv t m \<Longrightarrow> valid_key k \<Longrightarrow> k \<notin> keys t \<Longrightarrow> add t k m = (t', m') \<Longrightarrow>
          bad_free m' = bad_free m \<and>
          (t' = t \<and> live m' = live m \<or>
           keys t' = insert k (keys t) \<and> inv t' m' \<and>
           (\<exists>a n. a \<noteq> NULL \<and> live m a = None \<and> cells t' = insert a (cells t) \<and>
                  live m' = (live m)(a := Some n)))"
    and del_absent: "inv t m \<Longrightarrow> valid_key k \<Longrightarrow> k \<notin> keys t \<Longrightarrow> del t k m = (t, m)"
    and del_present: "inv t m \<Longrightarrow> valid_key k \<Longrightarrow> k \<in> keys t \<Longrightarrow> del t k m = (t', m') \<Longrightarrow>
          bad_free m' = bad_free m \<and> keys t' = keys t - {k} \<and> inv t' m' \<and>
          (\<exists>a. a \<in> cells t \<and> cells t' = cells t - {a} \<and> live m' = (live m)(a := None))"
begin

text \<open>
  Heap ownership: everything that is live apart from the table's cells.  No operation
  changes it, so the table neither leaks nor frees foreign blocks.
\<close>

definition rest :: "'t \<Rightarrow> mem \<Rightarrow> addr \<Rightarrow> nat option" where
  "rest t m = (\<lambda>x. if x \<in> cells t then None else live m x)"

lemma add_ok:
  assumes "inv t m" "valid_key k" "add t k m = (t', m')"
  shows "inv t' m' \<and> rest t' m' = rest t m \<and> bad_free m' = bad_free m \<and>
    (keys t' = insert k (keys t) \<or> keys t' = keys t \<and> k \<notin> keys t)"
proof (cases "k \<in> keys t")
  case True
  then have "t' = t \<and> m' = m" using assms add_present by simp
  then show ?thesis using assms(1) True by auto
next
  case False
  note new = add_absent [OF assms(1,2) False assms(3)]
  from new consider (failed) "t' = t" "live m' = live m"
    | (added) a n where "keys t' = insert k (keys t)" "inv t' m'" "live m a = None"
        "cells t' = insert a (cells t)" "live m' = (live m)(a := Some n)"
    by blast
  then show ?thesis
  proof cases
    case failed
    then have "inv t' m'" using assms(1) inv_frame [of t m m'] by simp
    then show ?thesis using failed new False by (auto simp: rest_def fun_eq_iff)
  next
    case added
    have "rest t' m' = rest t m"
      using added by (auto simp: rest_def fun_eq_iff)
    then show ?thesis using added new by simp
  qed
qed

lemma del_ok:
  assumes "inv t m" "valid_key k" "del t k m = (t', m')"
  shows "inv t' m' \<and> rest t' m' = rest t m \<and> bad_free m' = bad_free m \<and> keys t' = keys t - {k}"
proof (cases "k \<in> keys t")
  case True
  from del_present [OF assms(1,2) True assms(3)] obtain a where
    "bad_free m' = bad_free m" "keys t' = keys t - {k}" "inv t' m'"
    "a \<in> cells t" "cells t' = cells t - {a}" "live m' = (live m)(a := None)"
    by blast
  then show ?thesis by (auto simp: rest_def fun_eq_iff)
next
  case False
  then have "t' = t \<and> m' = m" using assms del_absent by simp
  then show ?thesis using assms(1) False by simp
qed

lemma add_then_isin:
  assumes "inv t m" "valid_key k" "valid_key k'" "add t k m = (t', m')"
  shows "k' \<noteq> k \<Longrightarrow> isin t' k' = isin t k'" "isin t k' \<Longrightarrow> isin t' k'"
  using add_ok [OF assms(1,2,4)] isin_iff [OF assms(1,3)] isin_iff [of t' m' k'] assms(3)
  by auto

lemma del_then_isin:
  assumes "inv t m" "valid_key k" "valid_key k'" "del t k m = (t', m')"
  shows "isin t' k' \<longleftrightarrow> isin t k' \<and> k' \<noteq> k"
  using del_ok [OF assms(1,2,4)] isin_iff [OF assms(1,3)] isin_iff [of t' m' k'] assms(3)
  by auto

end

section \<open>The table satisfies the contract\<close>

abbreviation "table_add t k m \<equiv> add_key t (Some k) (of_nat (length k)) m"
abbreviation "table_isin t k \<equiv> key_in_table t (Some k) (of_nat (length k))"
abbreviation "table_del t k m \<equiv> delete_key t (Some k) (of_nat (length k)) m"

definition table_keys :: "hash_table_t \<Rightarrow> byte list set" where
  "table_keys t = he_key ` set (ht_head t)"

definition table_cells :: "hash_table_t \<Rightarrow> addr set" where
  "table_cells t = he_addr ` set (ht_head t)"

definition table_inv :: "hash_table_t \<Rightarrow> mem \<Rightarrow> bool" where
  "table_inv t m \<longleftrightarrow>
     distinct (map he_key (ht_head t)) \<and> distinct (map he_addr (ht_head t)) \<and>
     (\<forall>e\<in>set (ht_head t). he_key_len e = of_nat (length (he_key e)) \<and> valid_key (he_key e) \<and>
        he_addr e \<noteq> NULL \<and> live m (he_addr e) \<noteq> None)"

lemma valid_key_len:
  assumes "valid_key k"
  shows "unat (of_nat (length k) :: u32) = length k" "\<not> (of_nat (length k) :: u32) = 0"
    "\<not> (of_nat (length k) :: u32) > 255"
proof -
  show u: "unat (of_nat (length k) :: u32) = length k"
    using assms by (simp add: valid_key_def unat_of_nat)
  show "\<not> (of_nat (length k) :: u32) = 0"
    using u assms by (metis valid_key_def less_irrefl unat_0)
  show "\<not> (of_nat (length k) :: u32) > 255"
    using u assms by (simp add: valid_key_def word_less_nat_alt)
qed

lemma hash_find_some:
  assumes "hash_find t k (of_nat (length k)) = Some e" "valid_key k"
  shows "e \<in> set (ht_head t)" "he_key e = k"
  using assms by (auto simp: hash_find_def find_Some_iff valid_key_len)

lemma hash_find_none:
  assumes "table_inv t m" "valid_key k"
  shows "hash_find t k (of_nat (length k)) = None \<longleftrightarrow> k \<notin> table_keys t"
  using assms
  by (auto simp: hash_find_def find_None_iff table_keys_def table_inv_def valid_key_len)

lemmas table_defs = table_inv_def table_keys_def table_cells_def

lemma table_add_absent:
  assumes "table_inv t m" "valid_key k" "k \<notin> table_keys t" "table_add t k m = (t', m')"
  shows "bad_free m' = bad_free m \<and>
    (t' = t \<and> live m' = live m \<or>
     table_keys t' = insert k (table_keys t) \<and> table_inv t' m' \<and>
     (\<exists>a n. a \<noteq> NULL \<and> live m a = None \<and> table_cells t' = insert a (table_cells t) \<and>
            live m' = (live m)(a := Some n)))"
proof -
  obtain a m1 where al: "malloc sizeof_hash_entry m = (a, m1)" by fastforce
  note law = malloc_law [OF al]
  have none: "hash_find t k (of_nat (length k)) = None"
    using assms by (simp add: hash_find_none)
  show ?thesis
  proof (cases "a = NULL")
    case True
    then show ?thesis
      using assms(2,4) al none alloc_law_null law by (simp add: add_key_def valid_key_len)
  next
    case False
    let ?e = "\<lparr>he_addr = a, he_key = k, he_key_len = of_nat (length k)\<rparr>"
    have t': "t' = t\<lparr>ht_head := ht_head t @ [?e]\<rparr>" "m' = m1"
      using assms(2,4) al none False by (simp_all add: add_key_def valid_key_len)
    note l = alloc_law_some [OF law False]
    have "table_inv t' m'"
      using assms(1-3) l False by (auto simp: table_defs t')
    then show ?thesis
      using l False by (auto simp: table_keys_def table_cells_def t')
  qed
qed

lemma table_del_present:
  assumes "table_inv t m" "valid_key k" "k \<in> table_keys t" "table_del t k m = (t', m')"
  shows "bad_free m' = bad_free m \<and> table_keys t' = table_keys t - {k} \<and> table_inv t' m' \<and>
    (\<exists>a. a \<in> table_cells t \<and> table_cells t' = table_cells t - {a} \<and> live m' = (live m)(a := None))"
proof -
  obtain e where f: "hash_find t k (of_nat (length k)) = Some e"
    using assms(1-3) hash_find_none by (metis not_Some_eq)
  note e = hash_find_some [OF f assms(2)]
  have t': "t' = t\<lparr>ht_head := remove1 e (ht_head t)\<rparr>" "m' = mem_free (he_addr e) m"
    using assms(2,4) f by (simp_all add: delete_key_def valid_key_len)
  have d: "distinct (ht_head t)" using assms(1) by (simp add: table_inv_def distinct_map)
  have inj: "inj_on he_key (set (ht_head t))" "inj_on he_addr (set (ht_head t))"
    using assms(1) by (simp_all add: table_inv_def distinct_map)
  have m': "live m' = (live m)(he_addr e := None)" "bad_free m' = bad_free m"
    using assms(1) e by (auto simp: t' mem_free_def table_inv_def)
  have k': "table_keys t' = table_keys t - {k}" and c': "table_cells t' = table_cells t - {he_addr e}"
    using inj e d by (auto simp: table_keys_def table_cells_def t' set_remove1_eq inj_on_def)
  have "table_inv t' m'"
    using assms(1) d e inj m'
    by (auto simp: table_inv_def t' distinct_map set_remove1_eq inj_on_def)
  then show ?thesis
    using m' k' c' e(1) by (auto simp: table_cells_def)
qed

interpretation kt: key_set "\<lambda>t k m. table_add t k m" "\<lambda>t k. table_isin t k"
  "\<lambda>t k m. table_del t k m" table_keys table_cells table_inv
proof (unfold_locales, goal_cases)
  case (1 t m k)
  then show ?case by (auto simp: key_in_table_def valid_key_len hash_find_none)
next
  case (4 t m k)
  then show ?case
    using hash_find_none [OF 4(1,2)] by (auto simp: add_key_def valid_key_len split: option.splits)
next
  case (5 t m k t' m')
  then show ?case by (rule table_add_absent)
next
  case (6 t m k)
  then show ?case
    using hash_find_none [OF 6(1,2)] by (simp add: delete_key_def valid_key_len)
next
  case (7 t m k t' m')
  then show ?case by (rule table_del_present)
qed (auto simp: table_defs)

lemma free_entries_all: "free_entries es m = mem_free_all (map he_addr es) m"
  by (induction es arbitrary: m) auto

text \<open>Freeing the table releases exactly its entries.\<close>

lemma free_table_live:
  assumes "table_inv t m"
  shows "live (snd (free_table t m)) = kt.rest t m" "bad_free (snd (free_table t m)) = bad_free m"
proof -
  have "distinct (map he_addr (ht_head t))"
    "\<forall>a\<in>set (map he_addr (ht_head t)). a \<noteq> NULL \<and> live m a \<noteq> None"
    using assms by (auto simp: table_inv_def)
  from mem_free_all_live [OF this] show "live (snd (free_table t m)) = kt.rest t m"
    "bad_free (snd (free_table t m)) = bad_free m"
    by (simp_all add: free_table_def free_entries_all kt.rest_def table_cells_def)
qed

end
