(* ===== verification/Work_Queue.thy ===== *)
theory Work_Queue
  imports Memory
begin

text \<open>
  The bounded work queue inside \<open>thread_pool_t\<close>: a singly linked list of heap-allocated
  \<open>work_item_t\<close> nodes with head and tail pointers and a 32-bit length.  The map \<open>nodes\<close> holds
  the live work items, linked or not; a job stands for the function, argument and cleanup
  pointers of an item.  The contract of a FIFO queue is a locale; the linked list satisfies it.
\<close>

record 'j work_item =
  wi_job :: 'j
  wi_next :: addr

record 'j work_queue =
  nodes :: "addr \<Rightarrow> 'j work_item option"
  queue_head :: addr
  queue_tail :: addr
  queue_size :: u32

definition empty_queue :: "'j work_queue" where
  "empty_queue = \<lparr>nodes = (\<lambda>_. None), queue_head = NULL, queue_tail = NULL, queue_size = 0\<rparr>"

text \<open>A new item, filled in by \<open>thread_pool_submit\<close> before it takes the lock.\<close>

definition new_item :: "addr \<Rightarrow> 'j \<Rightarrow> 'j work_queue \<Rightarrow> 'j work_queue" where
  "new_item a j q = q\<lparr>nodes := (nodes q)(a := Some \<lparr>wi_job = j, wi_next = NULL\<rparr>)\<rparr>"

definition free_item :: "addr \<Rightarrow> 'j work_queue \<Rightarrow> 'j work_queue" where
  "free_item a q = q\<lparr>nodes := (nodes q)(a := None)\<rparr>"

text \<open>Linking an item at the tail, in \<open>thread_pool_submit\<close>.\<close>

definition enqueue :: "addr \<Rightarrow> 'j work_queue \<Rightarrow> 'j work_queue" where
  "enqueue a q =
     (let q1 = (if queue_tail q \<noteq> NULL
                then q\<lparr>nodes := (nodes q)(queue_tail q :=
                       map_option (\<lambda>w. w\<lparr>wi_next := a\<rparr>) (nodes q (queue_tail q)))\<rparr>
                else q\<lparr>queue_head := a\<rparr>)
      in q1\<lparr>queue_tail := a, queue_size := queue_size q1 + 1\<rparr>)"

text \<open>Unlinking the head, in \<open>thread_pool_worker\<close>.\<close>

definition dequeue :: "'j work_queue \<Rightarrow> addr \<times> 'j work_queue" where
  "dequeue q =
     (let item = queue_head q;
          q1 = q\<lparr>queue_head := wi_next (the (nodes q item))\<rparr>;
          q2 = (if queue_head q1 = NULL then q1\<lparr>queue_tail := NULL\<rparr> else q1)
      in (item, q2\<lparr>queue_size := queue_size q2 - 1\<rparr>))"

section \<open>The contract of a FIFO queue\<close>

text \<open>
  \<open>repr q xs\<close> relates a queue to the sequence of its items; \<open>loose q a j\<close> says that \<open>a\<close> is a
  live item with job \<open>j\<close> that is not linked.
\<close>

locale fifo_queue =
  fixes enq :: "addr \<Rightarrow> 'q \<Rightarrow> 'q"
    and deq :: "'q \<Rightarrow> addr \<times> 'q"
    and repr :: "'q \<Rightarrow> (addr \<times> 'j) list \<Rightarrow> bool"
    and loose :: "'q \<Rightarrow> addr \<Rightarrow> 'j \<Rightarrow> bool"
    and len :: "'q \<Rightarrow> u32"
  assumes len_repr: "repr q xs \<Longrightarrow> unat (len q) = length xs"
    and enq_repr: "repr q xs \<Longrightarrow> loose q a j \<Longrightarrow> length xs + 1 < 2 ^ 32 \<Longrightarrow>
          repr (enq a q) (xs @ [(a, j)])"
    and enq_loose: "repr q xs \<Longrightarrow> loose q a j \<Longrightarrow> loose q b k \<Longrightarrow> b \<noteq> a \<Longrightarrow> loose (enq a q) b k"
    and deq_repr: "repr q ((a, j) # xs) \<Longrightarrow> fst (deq q) = a \<and> repr (snd (deq q)) xs"
    and deq_loose: "repr q xs \<Longrightarrow> xs \<noteq> [] \<Longrightarrow> loose q b k \<Longrightarrow> loose (snd (deq q)) b k"
begin

text \<open>Removing all items yields them in the order in which they were added.\<close>

fun drain :: "nat \<Rightarrow> 'q \<Rightarrow> addr list" where
  "drain 0 q = []"
| "drain (Suc n) q = fst (deq q) # drain n (snd (deq q))"

lemma drain_in_order: "repr q xs \<Longrightarrow> drain (length xs) q = map fst xs"
proof (induction xs arbitrary: q)
  case (Cons x xs)
  obtain a j where "x = (a, j)" by fastforce
  then show ?case using Cons deq_repr [of q a j xs] by simp
qed simp

lemma enqueue_all:
  assumes "repr q xs" "\<forall>(a, j)\<in>set ys. loose q a j" "distinct (map fst ys)"
    "length xs + length ys < 2 ^ 32"
  shows "repr (fold (\<lambda>(a, j). enq a) ys q) (xs @ ys)"
  using assms
proof (induction ys arbitrary: q xs)
  case (Cons y ys)
  obtain a j where y: "y = (a, j)" by fastforce
  have l: "loose q a j" and ls: "\<forall>(b, k)\<in>set ys. loose q b k" "a \<notin> fst ` set ys"
    using Cons.prems y by auto
  have "repr (enq a q) (xs @ [(a, j)])"
    using Cons.prems(4) by (intro enq_repr [OF Cons.prems(1) l]) simp
  moreover have "\<forall>(b, k)\<in>set ys. loose (enq a q) b k"
    using ls enq_loose [OF Cons.prems(1) l] by fastforce
  ultimately show ?case
    using Cons.IH [of "enq a q" "xs @ [(a, j)]"] Cons.prems y by simp
qed simp

end

section \<open>The linked list satisfies the contract\<close>

fun chain :: "(addr \<Rightarrow> 'j work_item option) \<Rightarrow> addr \<Rightarrow> (addr \<times> 'j) list \<Rightarrow> bool" where
  "chain N p [] \<longleftrightarrow> p = NULL"
| "chain N p ((a, j) # xs) \<longleftrightarrow>
     p = a \<and> a \<noteq> NULL \<and> (\<exists>n. N a = Some \<lparr>wi_job = j, wi_next = n\<rparr> \<and> chain N n xs)"

definition queue_repr :: "'j work_queue \<Rightarrow> (addr \<times> 'j) list \<Rightarrow> bool" where
  "queue_repr q xs \<longleftrightarrow>
     chain (nodes q) (queue_head q) xs \<and> distinct (map fst xs) \<and>
     queue_tail q = (if xs = [] then NULL else fst (last xs)) \<and>
     length xs < 2 ^ 32 \<and> queue_size q = of_nat (length xs)"

definition loose_item :: "'j work_queue \<Rightarrow> addr \<Rightarrow> 'j \<Rightarrow> bool" where
  "loose_item q a j \<longleftrightarrow>
     a \<noteq> NULL \<and> nodes q a = Some \<lparr>wi_job = j, wi_next = NULL\<rparr> \<and>
     queue_tail q \<noteq> a \<and> (\<forall>xs. chain (nodes q) (queue_head q) xs \<longrightarrow> a \<notin> fst ` set xs)"

lemma chain_frame:
  "chain N p xs \<Longrightarrow> (\<And>a. a \<in> fst ` set xs \<Longrightarrow> N' a = N a) \<Longrightarrow> chain N' p xs"
  by (induction N p xs rule: chain.induct) auto

lemma chain_unique: "chain N p xs \<Longrightarrow> chain N p ys \<Longrightarrow> xs = ys"
proof (induction N p xs arbitrary: ys rule: chain.induct)
  case (1 N p)
  then show ?case by (cases ys) auto
next
  case (2 N p a j xs)
  then show ?case by (cases ys) auto
qed

lemma chain_nonnull: "chain N p xs \<Longrightarrow> NULL \<notin> fst ` set xs"
  by (induction N p xs rule: chain.induct) auto

lemma chain_node: "chain N p xs \<Longrightarrow> (a, j) \<in> set xs \<Longrightarrow> \<exists>n. N a = Some \<lparr>wi_job = j, wi_next = n\<rparr>"
  by (induction N p xs rule: chain.induct) auto

text \<open>Linking a loose item behind the last node extends the chain.\<close>

lemma chain_snoc:
  assumes "chain N p (xs @ [(b, k)])" "distinct (map fst (xs @ [(b, k)]))"
    "a \<notin> fst ` set (xs @ [(b, k)])" "a \<noteq> NULL" "N a = Some \<lparr>wi_job = j, wi_next = NULL\<rparr>"
  shows "chain (N(b := map_option (\<lambda>w. w\<lparr>wi_next := a\<rparr>) (N b))) p (xs @ [(b, k), (a, j)])"
  using assms
proof (induction xs arbitrary: p)
  case (Cons x xs)
  then show ?case by (cases x) auto
qed auto

lemma loose_notin:
  "queue_repr q xs \<Longrightarrow> loose_item q a j \<Longrightarrow> a \<notin> fst ` set xs"
  by (simp add: queue_repr_def loose_item_def)

lemma enqueue_chain:
  assumes r: "queue_repr q xs" and l: "loose_item q a j"
  shows "chain (nodes (enqueue a q)) (queue_head (enqueue a q)) (xs @ [(a, j)])"
    "distinct (map fst (xs @ [(a, j)]))"
proof -
  have a: "a \<notin> fst ` set xs" "a \<noteq> NULL" "nodes q a = Some \<lparr>wi_job = j, wi_next = NULL\<rparr>"
    using loose_notin [OF r l] l by (simp_all add: loose_item_def)
  have c: "chain (nodes q) (queue_head q) xs" and d: "distinct (map fst xs)"
    and t: "queue_tail q = (if xs = [] then NULL else fst (last xs))"
    using r by (simp_all add: queue_repr_def)
  show "distinct (map fst (xs @ [(a, j)]))" using a(1) d by simp
  show "chain (nodes (enqueue a q)) (queue_head (enqueue a q)) (xs @ [(a, j)])"
  proof (cases xs rule: rev_cases)
    case Nil
    then show ?thesis using t a by (simp add: enqueue_def)
  next
    case (snoc ys y)
    obtain b k where y: "y = (b, k)" by fastforce
    have bn: "queue_tail q = b" "b \<noteq> NULL"
      using t chain_nonnull [OF c] snoc y by auto
    have "chain ((nodes q)(b := map_option (\<lambda>w. w\<lparr>wi_next := a\<rparr>) (nodes q b))) (queue_head q)
        (ys @ [(b, k), (a, j)])"
      by (rule chain_snoc) (use c d a snoc y in simp_all)
    then show ?thesis using bn snoc y by (simp add: enqueue_def)
  qed
qed

lemma enqueue_repr:
  assumes r: "queue_repr q xs" and l: "loose_item q a j" and n: "length xs + 1 < 2 ^ 32"
  shows "queue_repr (enqueue a q) (xs @ [(a, j)])"
proof -
  have "queue_size (enqueue a q) = of_nat (length (xs @ [(a, j)]))"
    "queue_tail (enqueue a q) = a"
    using r by (simp_all add: queue_repr_def enqueue_def Let_def)
  then show ?thesis
    using enqueue_chain [OF r l] n by (simp add: queue_repr_def)
qed

lemma enqueue_loose:
  assumes r: "queue_repr q xs" and l: "loose_item q a j" and b: "loose_item q b k" "b \<noteq> a"
  shows "loose_item (enqueue a q) b k"
proof -
  have bx: "b \<notin> fst ` set (xs @ [(a, j)])" using loose_notin [OF r b(1)] b(2) by auto
  have "b \<notin> fst ` set ys" if "chain (nodes (enqueue a q)) (queue_head (enqueue a q)) ys" for ys
    using chain_unique [OF that enqueue_chain(1) [OF r l]] bx by simp
  moreover have "nodes (enqueue a q) b = nodes q b" "queue_tail (enqueue a q) = a"
    using b(1) by (auto simp: enqueue_def Let_def loose_item_def)
  ultimately show ?thesis
    using b by (simp add: loose_item_def)
qed

lemma dequeue_repr:
  assumes r: "queue_repr q ((a, j) # xs)"
  shows "fst (dequeue q) = a" "queue_repr (snd (dequeue q)) xs"
proof -
  obtain n where n: "nodes q a = Some \<lparr>wi_job = j, wi_next = n\<rparr>" "chain (nodes q) n xs"
      "queue_head q = a"
    using r by (auto simp: queue_repr_def)
  show "fst (dequeue q) = a" using n by (simp add: dequeue_def Let_def)
  have nn: "n = NULL \<longleftrightarrow> xs = []"
    using n(2) by (cases xs) auto
  have "queue_size q - 1 = of_nat (length xs)"
    using r by (simp add: queue_repr_def)
  then show "queue_repr (snd (dequeue q)) xs"
    using r n nn by (auto simp: queue_repr_def dequeue_def Let_def)
qed

lemma dequeue_nodes: "dequeue q = (a, q') \<Longrightarrow> nodes q' = nodes q"
  by (auto simp: dequeue_def Let_def)

lemma dequeue_loose:
  assumes r: "queue_repr q xs" "xs \<noteq> []" and b: "loose_item q b k"
  shows "loose_item (snd (dequeue q)) b k"
proof -
  obtain a j ys where xs: "xs = (a, j) # ys" using r(2) by (cases xs) auto
  note d = dequeue_repr [OF r(1) [unfolded xs]]
  have bx: "b \<notin> fst ` set ys" using loose_notin [OF r(1) b] xs by auto
  have "b \<notin> fst ` set zs" if "chain (nodes (snd (dequeue q))) (queue_head (snd (dequeue q))) zs" for zs
    using chain_unique [OF that, of ys] d(2) bx by (simp add: queue_repr_def)
  moreover have "nodes (snd (dequeue q)) = nodes q"
    "queue_tail (snd (dequeue q)) \<noteq> b"
    using b by (simp_all add: dequeue_def Let_def loose_item_def)
  ultimately show ?thesis
    using b by (simp add: loose_item_def)
qed

interpretation wq: fifo_queue enqueue dequeue queue_repr loose_item queue_size
proof (unfold_locales, goal_cases)
  case (1 q xs)
  then show ?case by (simp add: queue_repr_def unat_of_nat)
next
  case (2 q xs a j)
  then show ?case by (rule enqueue_repr)
next
  case (3 q xs a j b k)
  then show ?case by (rule enqueue_loose)
next
  case (4 q a j xs)
  then show ?case using dequeue_repr [OF 4] by simp
next
  case (5 q xs b k)
  then show ?case by (rule dequeue_loose)
qed

section \<open>Creating and freeing items\<close>

text \<open>For a represented queue, an item is loose when it is alive, unlinked and ends the list.\<close>

lemma loose_iff:
  assumes "queue_repr q xs"
  shows "loose_item q a j \<longleftrightarrow>
    a \<noteq> NULL \<and> nodes q a = Some \<lparr>wi_job = j, wi_next = NULL\<rparr> \<and> a \<notin> fst ` set xs"
proof -
  have c: "chain (nodes q) (queue_head q) xs"
    and t: "queue_tail q = (if xs = [] then NULL else fst (last xs))"
    using assms by (simp_all add: queue_repr_def)
  have "queue_tail q \<noteq> a" if "a \<noteq> NULL" "a \<notin> fst ` set xs"
    using that t by (metis image_eqI last_in_set)
  moreover have "(\<forall>ys. chain (nodes q) (queue_head q) ys \<longrightarrow> a \<notin> fst ` set ys) \<longleftrightarrow> a \<notin> fst ` set xs"
    using c chain_unique by metis
  ultimately show ?thesis by (simp add: loose_item_def) blast
qed

lemma queue_repr_nodes:
  assumes "queue_repr q xs" "\<And>x. x \<in> fst ` set xs \<Longrightarrow> N x = nodes q x"
  shows "queue_repr (q\<lparr>nodes := N\<rparr>) xs"
  using assms chain_frame [of "nodes q" "queue_head q" xs N] by (simp add: queue_repr_def)

lemma queue_repr_node:
  "queue_repr q xs \<Longrightarrow> x \<in> fst ` set xs \<Longrightarrow> nodes q x \<noteq> None"
  using chain_node [of "nodes q" "queue_head q" xs] by (fastforce simp: queue_repr_def)

lemma new_item_repr:
  "queue_repr q xs \<Longrightarrow> nodes q a = None \<Longrightarrow> queue_repr (new_item a j q) xs"
  unfolding new_item_def
  by (rule queue_repr_nodes) (metis fun_upd_other queue_repr_node)+

lemma free_item_repr:
  "queue_repr q xs \<Longrightarrow> a \<notin> fst ` set xs \<Longrightarrow> queue_repr (free_item a q) xs"
  unfolding free_item_def by (rule queue_repr_nodes) auto

lemma new_item_loose:
  assumes "queue_repr q xs" "nodes q a = None" "a \<noteq> NULL"
  shows "loose_item (new_item a j q) a j"
    "loose_item q b k \<Longrightarrow> loose_item (new_item a j q) b k"
proof -
  note r = new_item_repr [OF assms(1,2), of j]
  have "a \<notin> fst ` set xs" using queue_repr_node [OF assms(1)] assms(2) by metis
  then show "loose_item (new_item a j q) a j"
    using assms(3) by (simp add: loose_iff [OF r]) (simp add: new_item_def)
  show "loose_item (new_item a j q) b k" if "loose_item q b k"
    using that assms(2) by (auto simp: loose_iff [OF r] loose_iff [OF assms(1)]) (auto simp: new_item_def)
qed

lemma free_item_loose:
  assumes "queue_repr q xs" "a \<notin> fst ` set xs" "loose_item q b k" "b \<noteq> a"
  shows "loose_item (free_item a q) b k"
  using assms(3,4)
  unfolding loose_iff [OF assms(1)] loose_iff [OF free_item_repr [OF assms(1,2)]]
  by (simp add: free_item_def)

lemma empty_queue_repr: "queue_repr empty_queue []"
  by (simp add: queue_repr_def empty_queue_def)

text \<open>The items of a queue, read off by following the links.\<close>

fun walk :: "nat \<Rightarrow> addr \<Rightarrow> (addr \<Rightarrow> 'j work_item option) \<Rightarrow> (addr \<times> 'j) list" where
  "walk 0 p N = []"
| "walk (Suc n) p N = (case N p of None \<Rightarrow> [] | Some w \<Rightarrow> (p, wi_job w) # walk n (wi_next w) N)"

definition queue_items :: "'j work_queue \<Rightarrow> (addr \<times> 'j) list" where
  "queue_items q = walk (unat (queue_size q)) (queue_head q) (nodes q)"

lemma walk_chain: "chain N p xs \<Longrightarrow> walk (length xs) p N = xs"
  by (induction N p xs rule: chain.induct) auto

lemma queue_items_repr: "queue_repr q xs \<Longrightarrow> queue_items q = xs"
  using walk_chain [of "nodes q" "queue_head q" xs]
  by (simp add: queue_repr_def queue_items_def unat_of_nat)

text \<open>A fresh item need not be new to the heap of nodes, only to the list.\<close>

lemma fresh_item:
  assumes "queue_repr q xs" "a \<notin> fst ` set xs" "a \<noteq> NULL"
  shows "queue_repr (new_item a j q) xs" "loose_item (new_item a j q) a j"
proof -
  show r: "queue_repr (new_item a j q) xs"
    unfolding new_item_def by (rule queue_repr_nodes [OF assms(1)]) (use assms(2) in auto)
  show "loose_item (new_item a j q) a j"
    using assms(2,3) by (simp add: loose_iff [OF r]) (simp add: new_item_def)
qed

end
