(* ===== verification/Thread_Pool.thy ===== *)
theory Thread_Pool
  imports Work_Queue "HOL-Library.Multiset"
begin

text \<open>
  The thread pool of utils/thread_pool.c.  The critical sections under \<open>queue_lock\<close> are
  functions on \<open>thread_pool_t\<close>: what a submitter and what a worker does once it holds the
  lock.  Their interleaving is a step relation: workers are ready, waiting on
  \<open>queue_not_empty\<close>, running a job or exited; submitters that found the queue full wait on
  \<open>queue_not_full\<close>.  A signal wakes one waiter, chosen by the environment, a broadcast all of
  them, and any waiter may wake spuriously, as POSIX allows.  The components \<open>accepted\<close>,
  \<open>started\<close>, \<open>finished\<close> and \<open>rejected\<close> record the history.
\<close>

record 'j thread_pool_t =
  tp_addr :: addr
  tp_threads :: addr
  num_threads :: u32
  tp_shutdown :: bool
  tp_queue :: "'j work_queue"
  queue_capacity :: u32

definition sizeof_thread_pool :: nat where
  "sizeof_thread_pool = 184"

text \<open>
  \<open>thread_pool_create\<close>; \<open>created\<close> says for each worker whether \<open>pthread_create\<close> succeeds.  When
  one fails, the threads that were started are told to stop and joined before the pool is
  freed.
\<close>

definition thread_pool_create ::
  "bool list \<Rightarrow> u32 \<Rightarrow> u32 \<Rightarrow> mem \<Rightarrow> 'j thread_pool_t option \<times> mem" where
  "thread_pool_create created n depth m =
     (if n = 0 then (None, m) else
      let (p, m1) = malloc sizeof_thread_pool m in
      if p = NULL then (None, m1) else
      let (ts, m2) = malloc (unat n * 8) m1 in
      if ts = NULL then (None, mem_free p m2) else
      if (\<forall>b\<in>set (take (unat n) created). b)
      then (Some \<lparr>tp_addr = p, tp_threads = ts, num_threads = n, tp_shutdown = False,
                  tp_queue = empty_queue,
                  queue_capacity = (if depth > 0 then depth else 128)\<rparr>, m2)
      else (None, mem_free p (mem_free ts m2)))"

section \<open>Critical sections\<close>

datatype submit_outcome = Rejected | Must_Wait | Enqueued

text \<open>
  The part of \<open>thread_pool_submit\<close> under the lock, from the first check to the enqueue, and
  the same checks again each time the submitter wakes.
\<close>

definition submit_attempt :: "addr \<Rightarrow> 'j thread_pool_t \<Rightarrow> submit_outcome \<times> 'j thread_pool_t" where
  "submit_attempt a p =
     (if tp_shutdown p then (Rejected, p\<lparr>tp_queue := free_item a (tp_queue p)\<rparr>)
      else if queue_size (tp_queue p) \<ge> queue_capacity p then (Must_Wait, p)
      else (Enqueued, p\<lparr>tp_queue := enqueue a (tp_queue p)\<rparr>))"

datatype worker_outcome = Sleep | Leave | Got addr

text \<open>The loop test, the exit test and the dequeue of \<open>thread_pool_worker\<close>.\<close>

definition worker_attempt :: "'j thread_pool_t \<Rightarrow> worker_outcome \<times> 'j thread_pool_t" where
  "worker_attempt p =
     (if queue_size (tp_queue p) = 0 \<and> \<not> tp_shutdown p then (Sleep, p)
      else if tp_shutdown p \<and> queue_size (tp_queue p) = 0 then (Leave, p)
      else (case dequeue (tp_queue p) of (item, q') \<Rightarrow> (Got item, p\<lparr>tp_queue := q'\<rparr>)))"

text \<open>The locked part of \<open>thread_pool_destroy\<close>, and its loop over items left after the join.\<close>

definition begin_shutdown :: "'j thread_pool_t \<Rightarrow> 'j thread_pool_t" where
  "begin_shutdown p = p\<lparr>tp_shutdown := True\<rparr>"

fun free_leftover ::
  "('j \<Rightarrow> mem \<Rightarrow> mem) \<Rightarrow> nat \<Rightarrow> addr \<Rightarrow> 'j work_queue \<Rightarrow> mem \<Rightarrow> mem" where
  "free_leftover cleanup 0 item q m = m"
| "free_leftover cleanup (Suc n) item q m =
     (if item = NULL then m
      else let w = the (nodes q item) in
           free_leftover cleanup n (wi_next w) q (mem_free item (cleanup (wi_job w) m)))"

text \<open>
  \<open>thread_pool_destroy\<close> from the end of the joins on: free leftover items with their cleanup
  function, the thread array and the pool.  The shutdown and the joins are steps of the
  relation below.
\<close>

definition thread_pool_destroy ::
  "('j \<Rightarrow> mem \<Rightarrow> mem) \<Rightarrow> 'j thread_pool_t option \<Rightarrow> mem \<Rightarrow> mem" where
  "thread_pool_destroy cleanup pool m = (case pool of
      None \<Rightarrow> m
    | Some p \<Rightarrow>
        (let q = tp_queue p;
             m1 = free_leftover cleanup (unat (queue_size q)) (queue_head q) q m;
             m2 = mem_free (tp_threads p) m1
         in mem_free (tp_addr p) m2))"

text \<open>
  \<open>thread_pool_submit\<close> as one call: \<open>None\<close> when the queue is full and the caller blocks until a
  worker has taken an item.
\<close>

definition sizeof_work_item :: nat where
  "sizeof_work_item = 32"

definition thread_pool_submit ::
  "'j \<Rightarrow> 'j thread_pool_t \<Rightarrow> mem \<Rightarrow> (int \<times> 'j thread_pool_t \<times> mem) option" where
  "thread_pool_submit j p m =
     (let (a, m1) = malloc sizeof_work_item m in
      if a = NULL then Some (- 1, p, m1)
      else (case submit_attempt a (p\<lparr>tp_queue := new_item a j (tp_queue p)\<rparr>) of
          (Rejected, p') \<Rightarrow> Some (- 1, p', mem_free a m1)
        | (Must_Wait, p') \<Rightarrow> None
        | (Enqueued, p') \<Rightarrow> Some (0, p', m1)))"

section \<open>Interleaving\<close>

datatype 'j worker_state = Ready | Waiting | Running addr 'j | Exited

record 'j pool_run =
  pool :: "'j thread_pool_t"
  wstates :: "'j worker_state list"
  blocked :: "(addr \<times> 'j) list"
  woken :: "(addr \<times> 'j) list"
  accepted :: "(addr \<times> 'j) list"
  started :: "(addr \<times> 'j) list"
  finished :: "(addr \<times> 'j) list"
  rejected :: "(addr \<times> 'j) list"

definition job_of :: "'j worker_state \<Rightarrow> (addr \<times> 'j) list" where
  "job_of w = (case w of Running a j \<Rightarrow> [(a, j)] | _ \<Rightarrow> [])"

definition running :: "'j worker_state list \<Rightarrow> (addr \<times> 'j) list" where
  "running ws = concat (map job_of ws)"

abbreviation "pqueue s \<equiv> tp_queue (pool s)"
abbreviation "set_queue s q \<equiv> s\<lparr>pool := (pool s)\<lparr>tp_queue := q\<rparr>\<rparr>"

text \<open>\<open>pthread_cond_signal\<close> on \<open>queue_not_empty\<close>: one waiting worker, if there is any.\<close>

definition signal_worker :: "'j worker_state list \<Rightarrow> 'j worker_state list \<Rightarrow> bool" where
  "signal_worker ws ws' \<longleftrightarrow>
     (if Waiting \<in> set ws then \<exists>i<length ws. ws ! i = Waiting \<and> ws' = ws[i := Ready]
      else ws' = ws)"

text \<open>\<open>pthread_cond_signal\<close> on \<open>queue_not_full\<close>: one blocked submitter, if there is any.\<close>

definition signal_submitter ::
  "(addr \<times> 'j) list \<times> (addr \<times> 'j) list \<Rightarrow> (addr \<times> 'j) list \<times> (addr \<times> 'j) list \<Rightarrow> bool" where
  "signal_submitter bw bw' \<longleftrightarrow>
     (if fst bw = [] then bw' = bw
      else \<exists>us x vs. fst bw = us @ x # vs \<and> bw' = (us @ vs, x # snd bw))"

definition wake_all :: "'j worker_state list \<Rightarrow> 'j worker_state list" where
  "wake_all ws = map (\<lambda>w. case w of Waiting \<Rightarrow> Ready | _ \<Rightarrow> w) ws"

text \<open>What one locked attempt of a submitter makes of the state.\<close>

inductive attempt :: "addr \<Rightarrow> 'j \<Rightarrow> 'j pool_run \<Rightarrow> 'j pool_run \<Rightarrow> bool" where
  reject: "submit_attempt a (pool s) = (Rejected, p') \<Longrightarrow>
    attempt a j s (s\<lparr>pool := p', rejected := rejected s @ [(a, j)]\<rparr>)"
| wait: "submit_attempt a (pool s) = (Must_Wait, p') \<Longrightarrow>
    attempt a j s (s\<lparr>pool := p', blocked := blocked s @ [(a, j)]\<rparr>)"
| accept: "submit_attempt a (pool s) = (Enqueued, p') \<Longrightarrow> signal_worker (wstates s) ws' \<Longrightarrow>
    attempt a j s (s\<lparr>pool := p', wstates := ws', accepted := accepted s @ [(a, j)]\<rparr>)"

inductive pool_step :: "'j pool_run \<Rightarrow> 'j pool_run \<Rightarrow> bool" where
  submit: "a \<noteq> NULL \<Longrightarrow> nodes (pqueue s) a = None \<Longrightarrow>
    attempt a j (set_queue s (new_item a j (pqueue s))) s' \<Longrightarrow> pool_step s s'"
| retry: "woken s = us @ (a, j) # vs \<Longrightarrow> attempt a j (s\<lparr>woken := us @ vs\<rparr>) s' \<Longrightarrow> pool_step s s'"
| sleep: "i < length (wstates s) \<Longrightarrow> wstates s ! i = Ready \<Longrightarrow>
    worker_attempt (pool s) = (Sleep, p') \<Longrightarrow>
    pool_step s (s\<lparr>pool := p', wstates := (wstates s)[i := Waiting]\<rparr>)"
| leave: "i < length (wstates s) \<Longrightarrow> wstates s ! i = Ready \<Longrightarrow>
    worker_attempt (pool s) = (Leave, p') \<Longrightarrow>
    pool_step s (s\<lparr>pool := p', wstates := (wstates s)[i := Exited]\<rparr>)"
| take: "i < length (wstates s) \<Longrightarrow> wstates s ! i = Ready \<Longrightarrow>
    worker_attempt (pool s) = (Got a, p') \<Longrightarrow> j = wi_job (the (nodes (tp_queue p') a)) \<Longrightarrow>
    signal_submitter (blocked s, woken s) (bs, us) \<Longrightarrow>
    pool_step s (s\<lparr>pool := p', wstates := (wstates s)[i := Running a j],
                   started := started s @ [(a, j)], blocked := bs, woken := us\<rparr>)"
| finish: "i < length (wstates s) \<Longrightarrow> wstates s ! i = Running a j \<Longrightarrow>
    pool_step s ((set_queue s (free_item a (pqueue s)))
                   \<lparr>wstates := (wstates s)[i := Ready], finished := finished s @ [(a, j)]\<rparr>)"
| spurious_worker: "i < length (wstates s) \<Longrightarrow> wstates s ! i = Waiting \<Longrightarrow>
    pool_step s (s\<lparr>wstates := (wstates s)[i := Ready]\<rparr>)"
| spurious_submitter: "blocked s = us @ x # vs \<Longrightarrow>
    pool_step s (s\<lparr>blocked := us @ vs, woken := x # woken s\<rparr>)"
| destroy: "pool_step s (s\<lparr>pool := begin_shutdown (pool s), wstates := wake_all (wstates s),
    blocked := [], woken := blocked s @ woken s\<rparr>)"

inductive_cases attemptE: "attempt a j s s'"

text \<open>A freshly created pool with its workers at the top of their loop.\<close>

definition initial_run :: "'j thread_pool_t \<Rightarrow> 'j pool_run" where
  "initial_run p = \<lparr>pool = p, wstates = replicate (unat (num_threads p)) Ready,
     blocked = [], woken = [], accepted = [], started = [], finished = [], rejected = []\<rparr>"

inductive reach :: "'j thread_pool_t \<Rightarrow> 'j pool_run \<Rightarrow> bool" for p where
  init: "reach p (initial_run p)"
| step: "reach p s \<Longrightarrow> pool_step s s' \<Longrightarrow> reach p s'"

section \<open>Invariant\<close>

text \<open>The work items that are alive: queued, held by waiting submitters, or being run.\<close>

definition pending :: "'j pool_run \<Rightarrow> (addr \<times> 'j) list \<Rightarrow> (addr \<times> 'j) list" where
  "pending s xs = xs @ blocked s @ woken s @ running (wstates s)"

definition items_inv :: "'j pool_run \<Rightarrow> (addr \<times> 'j) list \<Rightarrow> bool" where
  "items_inv s xs \<longleftrightarrow>
     queue_repr (pqueue s) xs \<and> distinct (map fst (pending s xs)) \<and>
     (\<forall>x. nodes (pqueue s) x \<noteq> None \<longleftrightarrow> x \<in> fst ` set (pending s xs)) \<and>
     (\<forall>(a, j)\<in>set (blocked s @ woken s). loose_item (pqueue s) a j) \<and>
     length xs \<le> unat (queue_capacity (pool s))"

definition history_inv :: "'j pool_run \<Rightarrow> (addr \<times> 'j) list \<Rightarrow> bool" where
  "history_inv s xs \<longleftrightarrow>
     accepted s = started s @ xs \<and>
     mset (started s) = mset (finished s) + mset (running (wstates s))"

text \<open>Nobody sleeps through work: the wake-up part of the invariant.\<close>

definition wakeup_inv :: "'j pool_run \<Rightarrow> (addr \<times> 'j) list \<Rightarrow> bool" where
  "wakeup_inv s xs \<longleftrightarrow>
     wstates s \<noteq> [] \<and>
     (tp_shutdown (pool s) \<longrightarrow> Waiting \<notin> set (wstates s) \<and> blocked s = []) \<and>
     (Exited \<in> set (wstates s) \<longrightarrow> tp_shutdown (pool s) \<and> xs = []) \<and>
     (xs \<noteq> [] \<longrightarrow> (\<exists>w\<in>set (wstates s). w \<noteq> Waiting)) \<and>
     (blocked s \<noteq> [] \<longrightarrow> unat (queue_capacity (pool s)) \<le> length xs + length (woken s))"

definition run_inv :: "'j pool_run \<Rightarrow> (addr \<times> 'j) list \<Rightarrow> bool" where
  "run_inv s xs \<longleftrightarrow> items_inv s xs \<and> history_inv s xs \<and> wakeup_inv s xs"

lemma job_of_simps [simp]:
  "job_of Ready = []" "job_of Waiting = []" "job_of Exited = []" "job_of (Running a j) = [(a, j)]"
  by (simp_all add: job_of_def)

lemma running_update:
  "i < length ws \<Longrightarrow>
     mset (running (ws[i := w])) + mset (job_of (ws ! i)) = mset (running ws) + mset (job_of w)"
proof (induction ws arbitrary: i)
  case (Cons v ws)
  show ?case
  proof (cases i)
    case 0
    then show ?thesis by (simp add: running_def)
  next
    case (Suc k)
    then show ?thesis using Cons.IH [of k] Cons.prems by (simp add: running_def)
  qed
qed simp

lemma running_update_idle:
  "i < length ws \<Longrightarrow> job_of (ws ! i) = [] \<Longrightarrow> job_of w = [] \<Longrightarrow>
     mset (running (ws[i := w])) = mset (running ws)"
  using running_update [of i ws w] by simp

lemma running_wake_all [simp]: "running (wake_all ws) = running ws"
  by (induction ws) (auto simp: running_def wake_all_def split: worker_state.splits)

lemma set_wake_all: "w \<in> set (wake_all ws) \<Longrightarrow> w \<noteq> Waiting \<and> (w = Ready \<or> w \<in> set ws)"
  by (auto simp: wake_all_def split: worker_state.splits)

lemma running_signal:
  "signal_worker ws ws' \<Longrightarrow> mset (running ws') = mset (running ws)"
  by (auto simp: signal_worker_def running_update_idle split: if_splits)

text \<open>Items may move between the parts of \<open>pending\<close>.\<close>

lemma pending_perm:
  assumes "mset (pending s' xs') = mset (pending s xs)"
  shows "distinct (map fst (pending s' xs')) = distinct (map fst (pending s xs))"
    "fst ` set (pending s' xs') = fst ` set (pending s xs)"
proof -
  show "distinct (map fst (pending s' xs')) = distinct (map fst (pending s xs))"
    using assms by (metis mset_eq_imp_distinct_iff mset_map)
  show "fst ` set (pending s' xs') = fst ` set (pending s xs)"
    using assms by (metis set_mset_mset)
qed

lemma items_inv_move:
  assumes "items_inv s xs" "pool s' = pool s" "mset (pending s' xs) = mset (pending s xs)"
    "set (blocked s' @ woken s') \<subseteq> set (blocked s @ woken s)"
  shows "items_inv s' xs"
  using assms pending_perm [OF assms(3)] by (fastforce simp: items_inv_def)

lemma items_loose:
  "items_inv s xs \<Longrightarrow> (a, j) \<in> set (blocked s @ woken s) \<Longrightarrow> loose_item (pqueue s) a j"
  by (auto simp: items_inv_def)

subsection \<open>Effect of an attempt\<close>

text \<open>
  The state of a submitter about to make an attempt: its item is live and loose, and the
  invariant holds for everything else.
\<close>

definition attempting :: "addr \<Rightarrow> 'j \<Rightarrow> 'j pool_run \<Rightarrow> (addr \<times> 'j) list \<Rightarrow> bool" where
  "attempting a j s xs \<longleftrightarrow>
     items_inv (s\<lparr>woken := (a, j) # woken s\<rparr>) xs \<and> history_inv s xs \<and>
     wakeup_inv (s\<lparr>woken := (a, j) # woken s\<rparr>) xs"

lemma attempting_loose: "attempting a j s xs \<Longrightarrow> loose_item (pqueue s) a j"
  using items_loose [of "s\<lparr>woken := (a, j) # woken s\<rparr>" xs a j] by (simp add: attempting_def)

lemma items_inv_free:
  assumes inv: "items_inv s xs" and p: "pool s' = (pool s)\<lparr>tp_queue := free_item a (pqueue s)\<rparr>"
    and m: "mset (pending s xs) = add_mset (a, j) (mset (pending s' xs))"
    and b: "set (blocked s' @ woken s') \<subseteq> set (blocked s @ woken s)"
  shows "items_inv s' xs"
proof -
  have r: "queue_repr (pqueue s) xs" using inv by (simp add: items_inv_def)
  have m': "mset (pending s xs) = mset ((a, j) # pending s' xs)" using m by simp
  have "distinct (map fst ((a, j) # pending s' xs))"
    using inv m' by (metis items_inv_def mset_eq_imp_distinct_iff mset_map)
  then have d: "distinct (map fst (pending s' xs))" "a \<notin> fst ` set (pending s' xs)"
    by auto
  have st: "set (pending s xs) = insert (a, j) (set (pending s' xs))"
    using m' by (metis list.simps(15) set_mset_mset)
  have ax: "a \<notin> fst ` set xs" using d(2) by (auto simp: pending_def)
  have "\<forall>x. nodes (free_item a (pqueue s)) x \<noteq> None \<longleftrightarrow> x \<in> fst ` set (pending s' xs)"
    using inv st d(2) by (auto simp: items_inv_def free_item_def)
  moreover have "loose_item (free_item a (pqueue s)) c k" if "(c, k) \<in> set (blocked s' @ woken s')" for c k
  proof -
    have "c \<noteq> a" using that d(2) by (force simp: pending_def)
    then show ?thesis
      using items_loose [OF inv, of c k] that b by (intro free_item_loose [OF r ax]) auto
  qed
  ultimately show ?thesis
    using inv d(1) free_item_repr [OF r ax] by (auto simp: items_inv_def p)
qed

lemma attempt_reject_inv:
  assumes "attempting a j s xs" "submit_attempt a (pool s) = (Rejected, p')"
  shows "run_inv (s\<lparr>pool := p', rejected := rejected s @ [(a, j)]\<rparr>) xs"
proof -
  let ?s = "s\<lparr>woken := (a, j) # woken s\<rparr>" and ?s' = "s\<lparr>pool := p', rejected := rejected s @ [(a, j)]\<rparr>"
  have p': "p' = (pool s)\<lparr>tp_queue := free_item a (pqueue s)\<rparr>" and sd: "tp_shutdown (pool s)"
    using assms(2) by (auto simp: submit_attempt_def split: if_splits)
  have "items_inv ?s' xs"
    by (rule items_inv_free [where s = ?s and a = a and j = j])
      (use assms(1) in \<open>auto simp: attempting_def p' pending_def\<close>)
  moreover have "history_inv ?s' xs"
    using assms(1) by (simp add: attempting_def history_inv_def)
  moreover have "wakeup_inv ?s' xs"
    using assms(1) sd by (simp add: attempting_def wakeup_inv_def p')
  ultimately show ?thesis by (simp add: run_inv_def)
qed

lemma attempt_wait_inv:
  assumes "attempting a j s xs" "submit_attempt a (pool s) = (Must_Wait, p')"
  shows "run_inv (s\<lparr>pool := p', blocked := blocked s @ [(a, j)]\<rparr>) xs"
proof -
  let ?s = "s\<lparr>woken := (a, j) # woken s\<rparr>" and ?s' = "s\<lparr>pool := p', blocked := blocked s @ [(a, j)]\<rparr>"
  have p': "p' = pool s" "\<not> tp_shutdown (pool s)" "queue_size (pqueue s) \<ge> queue_capacity (pool s)"
    using assms(2) by (auto simp: submit_attempt_def split: if_splits)
  have "unat (queue_capacity (pool s)) \<le> length xs"
    using p'(3) wq.len_repr [of "pqueue s" xs] assms(1)
    by (simp add: attempting_def items_inv_def word_le_nat_alt)
  then have "wakeup_inv ?s' xs" "history_inv ?s' xs"
    using assms(1) p' by (auto simp: attempting_def wakeup_inv_def history_inv_def)
  moreover have "items_inv ?s' xs"
    by (rule items_inv_move [where s = ?s])
      (use assms(1) in \<open>auto simp: attempting_def p' pending_def\<close>)
  ultimately show ?thesis by (simp add: run_inv_def)
qed

lemma exited_update:
  assumes "i < length ws" "ws ! i \<noteq> Exited" "w \<noteq> Exited"
  shows "Exited \<in> set (ws[i := w]) \<longleftrightarrow> Exited \<in> set ws"
proof -
  have "Exited \<in> set (ws[i := w]) \<longleftrightarrow> (\<exists>k<length ws. (if k = i then w else ws ! k) = Exited)"
    using assms(1) by (auto simp: in_set_conv_nth nth_list_update)
  also have "\<dots> \<longleftrightarrow> (\<exists>k<length ws. ws ! k = Exited)"
    using assms by (intro ex_cong) auto
  finally show ?thesis by (simp add: in_set_conv_nth)
qed

lemma signal_worker_ready:
  assumes "signal_worker ws ws'" "ws \<noteq> []"
  shows "\<exists>w\<in>set ws'. w \<noteq> Waiting" "Exited \<in> set ws' \<longleftrightarrow> Exited \<in> set ws" "ws' \<noteq> []"
proof -
  consider (none) "Waiting \<notin> set ws" "ws' = ws"
    | (one) i where "i < length ws" "ws ! i = Waiting" "ws' = ws[i := Ready]"
    using assms(1) by (auto simp: signal_worker_def split: if_splits)
  then have "(\<exists>w\<in>set ws'. w \<noteq> Waiting) \<and> ws' \<noteq> [] \<and> (Exited \<in> set ws' \<longleftrightarrow> Exited \<in> set ws)"
  proof cases
    case none
    then show ?thesis using assms(2) by (metis list.set_sel(1))
  next
    case one
    have "Ready \<in> set ws'" using one by (simp add: set_update_memI)
    moreover have "Exited \<in> set ws' \<longleftrightarrow> Exited \<in> set ws"
      using one exited_update [of i ws Ready] by simp
    ultimately show ?thesis using one assms(2) by auto
  qed
  then show "\<exists>w\<in>set ws'. w \<noteq> Waiting" "Exited \<in> set ws' \<longleftrightarrow> Exited \<in> set ws" "ws' \<noteq> []"
    by simp_all
qed

lemma attempt_accept_inv:
  assumes att: "attempting a j s xs" and sub: "submit_attempt a (pool s) = (Enqueued, p')"
    and sig: "signal_worker (wstates s) ws'"
  shows "run_inv (s\<lparr>pool := p', wstates := ws', accepted := accepted s @ [(a, j)]\<rparr>) (xs @ [(a, j)])"
proof -
  let ?s = "s\<lparr>woken := (a, j) # woken s\<rparr>"
    and ?s' = "s\<lparr>pool := p', wstates := ws', accepted := accepted s @ [(a, j)]\<rparr>"
  have p': "p' = (pool s)\<lparr>tp_queue := enqueue a (pqueue s)\<rparr>" and sd: "\<not> tp_shutdown (pool s)"
    and room: "queue_size (pqueue s) < queue_capacity (pool s)"
    using sub by (auto simp: submit_attempt_def split: if_splits)
  have inv: "items_inv ?s xs" using att by (simp add: attempting_def)
  then have r: "queue_repr (pqueue s) xs" by (simp add: items_inv_def)
  note l = attempting_loose [OF att]
  have len: "length xs < unat (queue_capacity (pool s))"
    using room wq.len_repr [OF r] by (simp add: word_less_nat_alt)
  moreover have "unat (queue_capacity (pool s)) < 2 ^ 32"
    using unsigned_less [of "queue_capacity (pool s)"] by simp
  ultimately have r': "queue_repr (enqueue a (pqueue s)) (xs @ [(a, j)])"
    using r l by (intro wq.enq_repr) simp_all
  have m: "mset (pending ?s' (xs @ [(a, j)])) = mset (pending ?s xs)"
    using running_signal [OF sig] by (simp add: pending_def)
  note perm = pending_perm [OF m]
  have "nodes (enqueue a (pqueue s)) x \<noteq> None \<longleftrightarrow> nodes (pqueue s) x \<noteq> None" for x
    by (simp add: enqueue_def Let_def)
  moreover have "loose_item (enqueue a (pqueue s)) b k" if "(b, k) \<in> set (blocked s @ woken s)" for b k
  proof -
    have "a \<notin> fst ` set (blocked s @ woken s)"
      using inv by (simp add: items_inv_def pending_def image_Un)
    then have "b \<noteq> a" using that by (metis fst_conv image_eqI)
    moreover have "loose_item (pqueue s) b k" using items_loose [OF inv, of b k] that by auto
    ultimately show ?thesis using wq.enq_loose [OF r l] by simp
  qed
  ultimately have "items_inv ?s' (xs @ [(a, j)])"
    using inv perm r' len by (auto simp: items_inv_def p')
  moreover have "history_inv ?s' (xs @ [(a, j)])"
    using att running_signal [OF sig] by (simp add: attempting_def history_inv_def)
  moreover have "wakeup_inv ?s' (xs @ [(a, j)])"
    using att sd signal_worker_ready [OF sig] by (auto simp: attempting_def wakeup_inv_def p')
  ultimately show ?thesis by (simp add: run_inv_def)
qed

lemma attempt_inv:
  assumes "attempting a j s xs" "attempt a j s s'"
  shows "\<exists>xs'. run_inv s' xs'"
  using assms(2)
proof cases
  case (reject p')
  then show ?thesis using attempt_reject_inv [OF assms(1)] by blast
next
  case (wait p')
  then show ?thesis using attempt_wait_inv [OF assms(1)] by blast
next
  case (accept p' ws')
  then show ?thesis using attempt_accept_inv [OF assms(1)] by blast
qed

lemma submit_attempting:
  assumes "run_inv s xs" "nodes (pqueue s) a = None" "a \<noteq> NULL"
  shows "attempting a j (set_queue s (new_item a j (pqueue s))) xs"
proof -
  let ?s = "(set_queue s (new_item a j (pqueue s)))\<lparr>woken := (a, j) # woken s\<rparr>"
  have inv: "items_inv s xs" using assms(1) by (simp add: run_inv_def)
  then have r: "queue_repr (pqueue s) xs" by (simp add: items_inv_def)
  have new: "a \<notin> fst ` set (pending s xs)" using inv assms(2) by (metis items_inv_def)
  have m: "mset (pending ?s xs) = mset ((a, j) # pending s xs)" by (simp add: pending_def)
  have "mset (map fst (pending ?s xs)) = mset (map fst ((a, j) # pending s xs))"
    using m by (metis mset_map)
  moreover have "distinct (map fst ((a, j) # pending s xs))"
    using inv new by (simp add: items_inv_def)
  ultimately have "distinct (map fst (pending ?s xs))"
    by (metis mset_eq_imp_distinct_iff)
  moreover have "set (pending ?s xs) = insert (a, j) (set (pending s xs))"
    using m by (metis list.simps(15) set_mset_mset)
  then have "\<forall>x. nodes (new_item a j (pqueue s)) x \<noteq> None \<longleftrightarrow> x \<in> fst ` set (pending ?s xs)"
    using inv by (auto simp: items_inv_def new_item_def)
  moreover have "\<forall>(b, k)\<in>set (blocked ?s @ woken ?s). loose_item (new_item a j (pqueue s)) b k"
    using new_item_loose [OF r assms(2,3)] items_loose [OF inv] by auto
  ultimately have "items_inv ?s xs"
    using inv new_item_repr [OF r assms(2), of j] by (simp add: items_inv_def)
  moreover have "history_inv (set_queue s (new_item a j (pqueue s))) xs"
    using assms(1) by (simp add: run_inv_def history_inv_def)
  moreover have "wakeup_inv ?s xs"
    using assms(1) by (auto simp: run_inv_def wakeup_inv_def)
  ultimately show ?thesis by (simp add: attempting_def)
qed

lemma retry_attempting:
  assumes "run_inv s xs" "woken s = us @ (a, j) # vs"
  shows "attempting a j (s\<lparr>woken := us @ vs\<rparr>) xs"
proof -
  let ?s = "s\<lparr>woken := (a, j) # us @ vs\<rparr>"
  have "items_inv ?s xs"
    by (rule items_inv_move [where s = s]) (use assms in \<open>auto simp: run_inv_def pending_def\<close>)
  then show ?thesis
    using assms by (simp add: attempting_def run_inv_def history_inv_def wakeup_inv_def)
qed

text \<open>Steps that change only the state of one idle worker.\<close>

lemma idle_update_inv:
  assumes "items_inv s xs" "history_inv s xs" "i < length (wstates s)"
    "job_of (wstates s ! i) = []" "job_of w = []"
  shows "items_inv (s\<lparr>wstates := (wstates s)[i := w]\<rparr>) xs"
    "history_inv (s\<lparr>wstates := (wstates s)[i := w]\<rparr>) xs"
proof -
  note m = running_update_idle [OF assms(3-5)]
  show "items_inv (s\<lparr>wstates := (wstates s)[i := w]\<rparr>) xs"
    by (rule items_inv_move [where s = s]) (use assms m in \<open>auto simp: pending_def\<close>)
  show "history_inv (s\<lparr>wstates := (wstates s)[i := w]\<rparr>) xs"
    using assms(2) m by (simp add: history_inv_def)
qed

lemma worker_attempt_cases:
  "worker_attempt p = (Sleep, p') \<Longrightarrow> p' = p \<and> queue_size (tp_queue p) = 0 \<and> \<not> tp_shutdown p"
  "worker_attempt p = (Leave, p') \<Longrightarrow> p' = p \<and> queue_size (tp_queue p) = 0 \<and> tp_shutdown p"
  "worker_attempt p = (Got a, p') \<Longrightarrow> queue_size (tp_queue p) \<noteq> 0 \<and>
     (\<exists>q'. dequeue (tp_queue p) = (a, q') \<and> p' = p\<lparr>tp_queue := q'\<rparr>)"
  by (auto simp: worker_attempt_def split: if_splits prod.splits)

lemma queue_empty_iff:
  "items_inv s xs \<Longrightarrow> queue_size (pqueue s) = 0 \<longleftrightarrow> xs = []"
  using wq.len_repr [of "pqueue s" xs] by (auto simp: items_inv_def unat_eq_zero)

lemma sleep_inv:
  assumes "run_inv s xs" "i < length (wstates s)" "wstates s ! i = Ready"
    "worker_attempt (pool s) = (Sleep, p')"
  shows "run_inv (s\<lparr>pool := p', wstates := (wstates s)[i := Waiting]\<rparr>) xs"
proof -
  have inv: "items_inv s xs" "history_inv s xs" "wakeup_inv s xs"
    using assms(1) by (simp_all add: run_inv_def)
  note w = worker_attempt_cases(1) [OF assms(4)]
  have xs: "xs = []" using w queue_empty_iff [OF inv(1)] by simp
  have e: "Exited \<in> set ((wstates s)[i := Waiting]) \<longleftrightarrow> Exited \<in> set (wstates s)"
    using assms(2,3) by (intro exited_update) simp_all
  have "wakeup_inv (s\<lparr>wstates := (wstates s)[i := Waiting]\<rparr>) xs"
    using inv(3) w xs e assms(2) by (auto simp: wakeup_inv_def)
  then show ?thesis
    using idle_update_inv [OF inv(1,2) assms(2), of Waiting] assms(3) w by (simp add: run_inv_def)
qed

lemma leave_inv:
  assumes "run_inv s xs" "i < length (wstates s)" "wstates s ! i = Ready"
    "worker_attempt (pool s) = (Leave, p')"
  shows "run_inv (s\<lparr>pool := p', wstates := (wstates s)[i := Exited]\<rparr>) xs"
proof -
  have inv: "items_inv s xs" "history_inv s xs" "wakeup_inv s xs"
    using assms(1) by (simp_all add: run_inv_def)
  note w = worker_attempt_cases(2) [OF assms(4)]
  have xs: "xs = []" using w queue_empty_iff [OF inv(1)] by simp
  have "Waiting \<notin> set ((wstates s)[i := Exited])"
    using inv(3) w set_update_subset_insert [of "wstates s" i Exited] by (auto simp: wakeup_inv_def)
  then have "wakeup_inv (s\<lparr>wstates := (wstates s)[i := Exited]\<rparr>) xs"
    using inv(3) w xs by (simp add: wakeup_inv_def)
  then show ?thesis
    using idle_update_inv [OF inv(1,2) assms(2), of Exited] assms(3) w by (simp add: run_inv_def)
qed

lemma spurious_worker_inv:
  assumes "run_inv s xs" "i < length (wstates s)" "wstates s ! i = Waiting"
  shows "run_inv (s\<lparr>wstates := (wstates s)[i := Ready]\<rparr>) xs"
proof -
  have inv: "items_inv s xs" "history_inv s xs" "wakeup_inv s xs"
    using assms(1) by (simp_all add: run_inv_def)
  have "Waiting \<in> set (wstates s)" using assms(2,3) nth_mem by metis
  then have "\<not> tp_shutdown (pool s)" using inv(3) by (auto simp: wakeup_inv_def)
  moreover have "Exited \<in> set ((wstates s)[i := Ready]) \<longleftrightarrow> Exited \<in> set (wstates s)"
    using assms(2,3) by (intro exited_update) simp_all
  moreover have "Ready \<in> set ((wstates s)[i := Ready])"
    using assms(2) by (rule set_update_memI)
  ultimately have "wakeup_inv (s\<lparr>wstates := (wstates s)[i := Ready]\<rparr>) xs"
    using inv(3) by (auto simp: wakeup_inv_def)
  then show ?thesis
    using idle_update_inv [OF inv(1,2) assms(2), of Ready] assms(3) by (simp add: run_inv_def)
qed

lemma spurious_submitter_inv:
  assumes "run_inv s xs" "blocked s = us @ x # vs"
  shows "run_inv (s\<lparr>blocked := us @ vs, woken := x # woken s\<rparr>) xs"
proof -
  have "items_inv (s\<lparr>blocked := us @ vs, woken := x # woken s\<rparr>) xs"
    by (rule items_inv_move [where s = s])
      (use assms in \<open>auto simp: run_inv_def pending_def\<close>)
  then show ?thesis
    using assms by (auto simp: run_inv_def history_inv_def wakeup_inv_def)
qed

lemma destroy_inv:
  assumes "run_inv s xs"
  shows "run_inv (s\<lparr>pool := begin_shutdown (pool s), wstates := wake_all (wstates s),
    blocked := [], woken := blocked s @ woken s\<rparr>) xs"
proof -
  let ?s = "s\<lparr>wstates := wake_all (wstates s), blocked := [], woken := blocked s @ woken s\<rparr>"
  have "items_inv ?s xs"
    by (rule items_inv_move [where s = s]) (use assms in \<open>auto simp: run_inv_def pending_def\<close>)
  moreover have "Exited \<in> set (wake_all (wstates s)) \<Longrightarrow> Exited \<in> set (wstates s)"
    "Waiting \<notin> set (wake_all (wstates s))"
    using set_wake_all by blast+
  moreover have "\<exists>w\<in>set (wake_all (wstates s)). w \<noteq> Waiting" "wake_all (wstates s) \<noteq> []"
  proof -
    show "wake_all (wstates s) \<noteq> []"
      using assms by (simp add: run_inv_def wakeup_inv_def wake_all_def)
    then show "\<exists>w\<in>set (wake_all (wstates s)). w \<noteq> Waiting"
      using set_wake_all by (metis list.set_sel(1))
  qed
  ultimately show ?thesis
    using assms
    by (auto simp: run_inv_def items_inv_def history_inv_def wakeup_inv_def pending_def begin_shutdown_def)
qed

lemma signal_submitter_facts:
  assumes "signal_submitter (bs, us) (bs', us')"
  shows "mset (bs' @ us') = mset (bs @ us)" "set (bs' @ us') = set (bs @ us)"
    "bs \<noteq> [] \<Longrightarrow> length us' = length us + 1" "bs = [] \<Longrightarrow> bs' = []"
  using assms by (auto simp: signal_submitter_def split: if_splits)

lemma take_inv:
  assumes "run_inv s xs" "i < length (wstates s)" "wstates s ! i = Ready"
    and wa: "worker_attempt (pool s) = (Got a, p')" and j: "j = wi_job (the (nodes (tp_queue p') a))"
    and sig: "signal_submitter (blocked s, woken s) (bs, us)"
  shows "\<exists>ys. xs = (a, j) # ys \<and>
    run_inv (s\<lparr>pool := p', wstates := (wstates s)[i := Running a j],
                started := started s @ [(a, j)], blocked := bs, woken := us\<rparr>) ys"
proof -
  have inv: "items_inv s xs" "history_inv s xs" "wakeup_inv s xs"
    using assms(1) by (simp_all add: run_inv_def)
  note sg = signal_submitter_facts [OF sig]
  obtain q where ne: "queue_size (pqueue s) \<noteq> 0" and dq: "dequeue (pqueue s) = (a, q)"
    and p': "p' = (pool s)\<lparr>tp_queue := q\<rparr>"
    using worker_attempt_cases(3) [OF wa] by blast
  have r: "queue_repr (pqueue s) xs" using inv(1) by (simp add: items_inv_def)
  have nn: "xs \<noteq> []" using ne queue_empty_iff [OF inv(1)] by simp
  then obtain b k ys where xs: "xs = (b, k) # ys" by (cases xs) auto
  have d: "a = b" "queue_repr q ys"
    using wq.deq_repr [of "pqueue s" b k ys] r dq xs by simp_all
  note nod = dequeue_nodes [OF dq]
  have "\<exists>n. nodes (pqueue s) a = Some \<lparr>wi_job = k, wi_next = n\<rparr>"
    using r xs d chain_node [of "nodes (pqueue s)" "queue_head (pqueue s)" xs b k]
    by (simp add: queue_repr_def)
  then have jk: "j = k" using j nod p' by auto
  let ?s = "s\<lparr>pool := p', wstates := (wstates s)[i := Running a j],
              started := started s @ [(a, j)], blocked := bs, woken := us\<rparr>"
  have run: "mset (running (wstates ?s)) = add_mset (a, j) (mset (running (wstates s)))"
    using running_update [OF assms(2), of "Running a j"] assms(3) by simp
  have m: "mset (pending ?s ys) = mset (pending s xs)"
    using run sg(1) xs d jk by (simp add: pending_def)
  note perm = pending_perm [OF m]
  have "\<forall>(c, l)\<in>set (bs @ us). loose_item q c l"
    using wq.deq_loose [OF r nn] items_loose [OF inv(1)] sg(2) dq by fastforce
  then have "items_inv ?s ys"
    using inv(1) perm d(2) nod xs by (simp add: items_inv_def p')
  moreover have "history_inv ?s ys"
    using inv(2) run xs d jk by (simp add: history_inv_def)
  moreover have "wakeup_inv ?s ys"
  proof -
    have nex: "Exited \<notin> set (wstates s)" using inv(3) nn by (auto simp: wakeup_inv_def)
    have up: "set ((wstates s)[i := Running a j]) \<subseteq> insert (Running a j) (set (wstates s))"
      by (rule set_update_subset_insert)
    have "Running a j \<in> set ((wstates s)[i := Running a j])"
      using assms(2) by (rule set_update_memI)
    moreover have "unat (queue_capacity (pool s)) \<le> length ys + length us" if "bs \<noteq> []"
    proof -
      have "blocked s \<noteq> []" using that sg(4) by blast
      then show ?thesis using sg(3) inv(3) xs by (simp add: wakeup_inv_def)
    qed
    moreover have "Exited \<notin> set ((wstates s)[i := Running a j])"
      using nex up by auto
    moreover have "tp_shutdown (pool s) \<Longrightarrow> Waiting \<notin> set ((wstates s)[i := Running a j]) \<and> bs = []"
      using inv(3) up sg(4) by (auto simp: wakeup_inv_def)
    ultimately show ?thesis
      using inv(3) by (auto simp: wakeup_inv_def p')
  qed
  ultimately show ?thesis using xs d jk by (simp add: run_inv_def)
qed

lemma finish_inv:
  assumes "run_inv s xs" "i < length (wstates s)" "wstates s ! i = Running a j"
  shows "run_inv ((set_queue s (free_item a (pqueue s)))
    \<lparr>wstates := (wstates s)[i := Ready], finished := finished s @ [(a, j)]\<rparr>) xs"
proof -
  let ?s = "(set_queue s (free_item a (pqueue s)))
    \<lparr>wstates := (wstates s)[i := Ready], finished := finished s @ [(a, j)]\<rparr>"
  have inv: "items_inv s xs" "history_inv s xs" "wakeup_inv s xs"
    using assms(1) by (simp_all add: run_inv_def)
  have run: "add_mset (a, j) (mset (running ((wstates s)[i := Ready]))) = mset (running (wstates s))"
    using running_update [OF assms(2), of Ready] assms(3) by simp
  have "items_inv ?s xs"
    by (rule items_inv_free [where s = s and a = a and j = j])
      (use inv(1) run in \<open>simp_all add: pending_def\<close>)
  moreover have "history_inv ?s xs"
    using inv(2) run by (simp add: history_inv_def)
  moreover have "wakeup_inv ?s xs"
  proof -
    have "Exited \<in> set ((wstates s)[i := Ready]) \<longleftrightarrow> Exited \<in> set (wstates s)"
      using assms(2,3) by (intro exited_update) simp_all
    moreover have "Ready \<in> set ((wstates s)[i := Ready])"
      using assms(2) by (rule set_update_memI)
    moreover have "Waiting \<in> set ((wstates s)[i := Ready]) \<Longrightarrow> Waiting \<in> set (wstates s)"
      using set_update_subset_insert [of "wstates s" i Ready] by auto
    ultimately show ?thesis
      using inv(3) by (auto simp: wakeup_inv_def)
  qed
  ultimately show ?thesis by (simp add: run_inv_def)
qed

lemma pool_step_inv:
  assumes "pool_step s s'" "run_inv s xs"
  shows "\<exists>xs'. run_inv s' xs'"
  using assms(1)
proof cases
  case (submit a j)
  then show ?thesis using attempt_inv [OF submit_attempting [OF assms(2) submit(2,1)] submit(3)] by simp
next
  case (retry us a j vs)
  then show ?thesis using attempt_inv [OF retry_attempting [OF assms(2) retry(1)] retry(2)] by simp
next
  case (sleep i p')
  show ?thesis unfolding sleep(1) using sleep_inv [OF assms(2) sleep(2-4)] by (rule exI)
next
  case (leave i p')
  show ?thesis unfolding leave(1) using leave_inv [OF assms(2) leave(2-4)] by (rule exI)
next
  case (take i a p' j bs us)
  show ?thesis unfolding take(1) using take_inv [OF assms(2) take(2-6)] by (elim exE conjE) (rule exI)
next
  case (finish i a j)
  show ?thesis unfolding finish(1) using finish_inv [OF assms(2) finish(2-3)] by (rule exI)
next
  case (spurious_worker i)
  show ?thesis unfolding spurious_worker(1) using spurious_worker_inv [OF assms(2) spurious_worker(2-3)] by (rule exI)
next
  case (spurious_submitter us x vs)
  show ?thesis unfolding spurious_submitter(1) using spurious_submitter_inv [OF assms(2) spurious_submitter(2)] by (rule exI)
next
  case destroy
  show ?thesis unfolding destroy using destroy_inv [OF assms(2)] by (rule exI)
qed

section \<open>Reachable states\<close>

lemma thread_pool_create_ok:
  assumes "thread_pool_create created n depth m = (Some p, m')"
  shows "tp_queue p = empty_queue" "\<not> tp_shutdown p" "num_threads p = n" "n \<noteq> 0"
    "queue_capacity p \<noteq> 0" "tp_addr p \<noteq> NULL" "tp_threads p \<noteq> NULL" "tp_addr p \<noteq> tp_threads p"
    "live m (tp_addr p) = None" "live m (tp_threads p) = None"
    "\<exists>x y. live m' = (live m)(tp_addr p := Some x, tp_threads p := Some y)"
    "bad_free m' = bad_free m"
proof -
  obtain q m1 where q: "malloc sizeof_thread_pool m = (q, m1)" by fastforce
  obtain ts m2 where ts: "malloc (unat n * 8) m1 = (ts, m2)" by fastforce
  have nn: "q \<noteq> NULL" "ts \<noteq> NULL" "n \<noteq> 0"
    using assms q ts by (auto simp: thread_pool_create_def split: if_splits)
  then have pm: "p = \<lparr>tp_addr = q, tp_threads = ts, num_threads = n, tp_shutdown = False,
      tp_queue = empty_queue, queue_capacity = (if depth > 0 then depth else 128)\<rparr>" "m' = m2"
    using assms q ts by (simp_all add: thread_pool_create_def split: if_splits)
  have c: "malloc sizeof_thread_pool m = (tp_addr p, m1)" "tp_addr p \<noteq> NULL"
      "malloc (unat n * 8) m1 = (tp_threads p, m')" "tp_threads p \<noteq> NULL"
    and p: "tp_queue p = empty_queue" "\<not> tp_shutdown p" "num_threads p = n" "n \<noteq> 0"
      "queue_capacity p = (if depth > 0 then depth else 128)"
    using q ts nn pm by simp_all
  note l = alloc_law_some [OF malloc_law [OF c(1)] c(2)] alloc_law_some [OF malloc_law [OF c(3)] c(4)]
  show "tp_queue p = empty_queue" "\<not> tp_shutdown p" "num_threads p = n" "n \<noteq> 0"
    "queue_capacity p \<noteq> 0" "tp_addr p \<noteq> NULL" "tp_threads p \<noteq> NULL"
    "live m (tp_addr p) = None" "bad_free m' = bad_free m"
    using c p l by (auto simp: word_gt_0)
  show ne: "tp_addr p \<noteq> tp_threads p" "live m (tp_threads p) = None"
    using l by (auto split: if_splits)
  show "\<exists>x y. live m' = (live m)(tp_addr p := Some x, tp_threads p := Some y)"
    using l by auto
qed

lemma thread_pool_create_fail:
  "thread_pool_create created n depth m = (None, m') \<Longrightarrow> live m' = live m \<and> bad_free m' = bad_free m"
  by (auto simp: thread_pool_create_def Let_def mem_free_def alloc_law_def
      dest!: malloc_law split: prod.splits if_splits)

lemma running_replicate_Ready [simp]: "running (replicate n Ready) = []"
  by (induction n) (simp_all add: running_def)

lemma initial_run_inv:
  assumes "thread_pool_create created n depth m = (Some p, m')"
  shows "run_inv (initial_run p) []"
proof -
  note c = thread_pool_create_ok [OF assms]
  have "unat n \<noteq> 0" using c(4) by (simp add: unat_eq_zero)
  then show ?thesis
    using c(1,2,3) empty_queue_repr
    by (auto simp: run_inv_def items_inv_def history_inv_def wakeup_inv_def initial_run_def
        pending_def empty_queue_def)
qed

lemma reach_inv:
  assumes "reach p s" "thread_pool_create created n depth m = (Some p, m')"
  shows "\<exists>xs. run_inv s xs"
  using assms(1)
proof induction
  case init
  then show ?case using initial_run_inv [OF assms(2)] by blast
next
  case (step s s')
  then show ?case using pool_step_inv by blast
qed

lemma run_inv_size: "run_inv s xs \<Longrightarrow> unat (queue_size (pqueue s)) = length xs"
  using wq.len_repr by (auto simp: run_inv_def items_inv_def)

text \<open>How much a pool that is shutting down still has to do.\<close>

definition weight :: "'j worker_state \<Rightarrow> nat" where
  "weight w = (case w of Ready \<Rightarrow> 1 | Waiting \<Rightarrow> 2 | Running a j \<Rightarrow> 2 | Exited \<Rightarrow> 0)"

definition remaining_work :: "'j pool_run \<Rightarrow> nat" where
  "remaining_work s = 2 * unat (queue_size (pqueue s)) + sum_list (map weight (wstates s))"

lemma weight_update:
  "i < length ws \<Longrightarrow>
     sum_list (map weight (ws[i := w])) + weight (ws ! i) = sum_list (map weight ws) + weight w"
proof (induction ws arbitrary: i)
  case (Cons v ws)
  show ?case
  proof (cases i)
    case (Suc k)
    then show ?thesis using Cons.IH [of k] Cons.prems by simp
  qed simp
qed simp

lemma wake_all_id: "Waiting \<notin> set ws \<Longrightarrow> wake_all ws = ws"
  by (induction ws) (auto simp: wake_all_def split: worker_state.splits)

lemma attempt_shutdown:
  assumes "attempt a j s s'" "tp_shutdown (pool s)"
  shows "tp_shutdown (pool s') \<and> remaining_work s' = remaining_work s"
  using assms by cases (auto simp: submit_attempt_def remaining_work_def free_item_def)

lemma worker_step_shutdown:
  assumes "run_inv s xs" "tp_shutdown (pool s)" "pool_step s s'"
  shows "tp_shutdown (pool s') \<and> remaining_work s' \<le> remaining_work s"
  using assms(3)
proof cases
  case (submit a j)
  then show ?thesis
    using attempt_shutdown [OF submit(3)] assms(2) by (simp add: remaining_work_def new_item_def)
next
  case (retry us a j vs)
  then show ?thesis
    using attempt_shutdown [OF retry(2)] assms(2) by (simp add: remaining_work_def)
next
  case (sleep i p')
  then show ?thesis using worker_attempt_cases(1) [OF sleep(4)] assms(2) by simp
next
  case (leave i p')
  then show ?thesis
    using worker_attempt_cases(2) [OF leave(4)] weight_update [OF leave(2), of Exited]
    by (simp add: remaining_work_def weight_def)
next
  case (take i a p' j bs us)
  obtain ys where "xs = (a, j) # ys" and inv': "run_inv s' ys"
    using take_inv [OF assms(1) take(2-6)] take(1) by blast
  then show ?thesis
    using run_inv_size [OF assms(1)] run_inv_size [OF inv'] worker_attempt_cases(3) [OF take(4)]
      weight_update [OF take(2), of "Running a j"] take(1,3) assms(2)
    by (auto simp: remaining_work_def weight_def)
next
  case (finish i a j)
  then show ?thesis
    using weight_update [OF finish(2), of Ready] assms(2)
    by (simp add: remaining_work_def weight_def free_item_def)
next
  case (spurious_worker i)
  then show ?thesis
    using assms(1,2) nth_mem [OF spurious_worker(2)] by (auto simp: run_inv_def wakeup_inv_def)
next
  case (spurious_submitter us x vs)
  then show ?thesis using assms(2) by (simp add: remaining_work_def)
next
  case destroy
  then show ?thesis
    using assms(1,2) wake_all_id [of "wstates s"]
    by (simp add: remaining_work_def begin_shutdown_def run_inv_def wakeup_inv_def)
qed

lemma shutdown_progress:
  assumes inv: "run_inv s xs" and sd: "tp_shutdown (pool s)" and w: "w \<in> set (wstates s)" "w \<noteq> Exited"
  shows "\<exists>s'. pool_step s s' \<and> remaining_work s' < remaining_work s"
proof -
  obtain i where i: "i < length (wstates s)" "wstates s ! i = w"
    using w(1) by (metis in_set_conv_nth)
  have nb: "blocked s = []" and "w \<noteq> Waiting"
    using inv sd w by (auto simp: run_inv_def wakeup_inv_def)
  then consider (ready) "w = Ready" | (running) a j where "w = Running a j"
    using w(2) by (cases w) auto
  then show ?thesis
  proof cases
    case running
    have "pool_step s ((set_queue s (free_item a (pqueue s)))
        \<lparr>wstates := (wstates s)[i := Ready], finished := finished s @ [(a, j)]\<rparr>)"
      using i running by (intro pool_step.finish) simp_all
    then show ?thesis
      using weight_update [OF i(1), of Ready] i running
      by (intro exI conjI) (auto simp: remaining_work_def weight_def free_item_def)
  next
    case ready
    show ?thesis
    proof (cases "queue_size (pqueue s) = 0")
      case True
      then have "worker_attempt (pool s) = (Leave, pool s)" using sd by (simp add: worker_attempt_def)
      from pool_step.leave [OF i(1) _ this]
      have "pool_step s (s\<lparr>pool := pool s, wstates := (wstates s)[i := Exited]\<rparr>)"
        using i ready by simp
      then show ?thesis
        using weight_update [OF i(1), of Exited] i ready
        by (intro exI conjI) (auto simp: remaining_work_def weight_def)
    next
      case False
      obtain a q where "dequeue (pqueue s) = (a, q)" by fastforce
      then obtain p' where wa: "worker_attempt (pool s) = (Got a, p')"
        using False by (simp add: worker_attempt_def)
      let ?j = "wi_job (the (nodes (tp_queue p') a))"
      let ?s = "s\<lparr>pool := p', wstates := (wstates s)[i := Running a ?j],
                   started := started s @ [(a, ?j)], blocked := [], woken := woken s\<rparr>"
      have sig: "signal_submitter (blocked s, woken s) ([], woken s)"
        using nb by (simp add: signal_submitter_def)
      have st: "pool_step s ?s"
        using i ready wa sig by (intro pool_step.take) simp_all
      obtain ys where "xs = (a, ?j) # ys" "run_inv ?s ys"
        using take_inv [OF inv i(1) _ wa refl sig] i ready by blast
      then have "unat (queue_size (pqueue s)) = Suc (unat (queue_size (pqueue ?s)))"
        using run_inv_size [OF inv] run_inv_size [of ?s ys] by simp
      then have "remaining_work ?s < remaining_work s"
        using weight_update [OF i(1), of "Running a ?j"] i ready
        by (simp add: remaining_work_def weight_def)
      with st show ?thesis by blast
    qed
  qed
qed

section \<open>A run of a one-worker pool\<close>

text \<open>
  One job is submitted to a pool with one worker and room for one item; the pool is then shut
  down, and the worker takes the job, finishes it and leaves.
\<close>

definition demo_mem :: mem where
  "demo_mem = \<lparr>live = (\<lambda>_. None), proposals = [16, 32], bad_free = False\<rparr>"

definition demo_pool :: "nat thread_pool_t" where
  "demo_pool = \<lparr>tp_addr = 16, tp_threads = 32, num_threads = 1, tp_shutdown = False,
     tp_queue = empty_queue, queue_capacity = 1\<rparr>"

definition demo_queue :: "nat work_queue" where
  "demo_queue = \<lparr>nodes = (\<lambda>_. None)(64 := Some \<lparr>wi_job = 7, wi_next = NULL\<rparr>),
     queue_head = 64, queue_tail = 64, queue_size = 1\<rparr>"

definition demo_submitted :: "nat pool_run" where
  "demo_submitted = \<lparr>pool = demo_pool\<lparr>tp_queue := demo_queue\<rparr>, wstates = [Ready], blocked = [],
     woken = [], accepted = [(64, 7)], started = [], finished = [], rejected = []\<rparr>"

definition demo_stopping :: "nat pool_run" where
  "demo_stopping = demo_submitted\<lparr>pool := begin_shutdown (pool demo_submitted)\<rparr>"

definition demo_running :: "nat pool_run" where
  "demo_running = demo_stopping\<lparr>pool := (pool demo_stopping)\<lparr>tp_queue := demo_queue
     \<lparr>queue_head := NULL, queue_tail := NULL, queue_size := 0\<rparr>\<rparr>,
     wstates := [Running 64 7], started := [(64, 7)]\<rparr>"

definition demo_finished :: "nat pool_run" where
  "demo_finished = demo_running\<lparr>pool := (pool demo_running)\<lparr>tp_queue := empty_queue\<rparr>,
     wstates := [Ready], finished := [(64, 7)]\<rparr>"

definition demo_drained :: "nat pool_run" where
  "demo_drained = demo_finished\<lparr>wstates := [Exited]\<rparr>"

lemmas demo_defs = demo_pool_def demo_queue_def demo_submitted_def demo_stopping_def
  demo_running_def demo_finished_def demo_drained_def

lemma demo_create:
  "\<exists>m'. thread_pool_create [] 1 1 demo_mem = (Some demo_pool, m')"
  by (simp add: thread_pool_create_def malloc_def demo_mem_def demo_pool_def)

lemma demo_reach_submitted: "reach demo_pool demo_submitted"
proof (rule reach.step [OF reach.init])
  let ?s = "set_queue (initial_run demo_pool) (new_item 64 7 (pqueue (initial_run demo_pool)))"
  have "attempt 64 7 ?s (?s\<lparr>pool := (pool ?s)\<lparr>tp_queue := enqueue 64 (pqueue ?s)\<rparr>,
      wstates := [Ready], accepted := accepted ?s @ [(64, 7)]\<rparr>)"
    by (rule attempt.accept)
      (simp_all add: submit_attempt_def initial_run_def demo_pool_def new_item_def empty_queue_def
        signal_worker_def)
  also have "(?s\<lparr>pool := (pool ?s)\<lparr>tp_queue := enqueue 64 (pqueue ?s)\<rparr>,
      wstates := [Ready], accepted := accepted ?s @ [(64, 7)]\<rparr>) = demo_submitted"
    by (simp add: demo_defs initial_run_def new_item_def empty_queue_def enqueue_def)
  finally show "pool_step (initial_run demo_pool) demo_submitted"
    by (intro pool_step.submit [where a = 64 and j = 7])
      (simp_all add: initial_run_def demo_pool_def empty_queue_def)
qed

lemma demo_reach_stopping: "reach demo_pool demo_stopping"
proof (rule reach.step [OF demo_reach_submitted])
  show "pool_step demo_submitted demo_stopping"
    using pool_step.destroy [of demo_submitted] by (simp add: demo_defs wake_all_def)
qed

lemma demo_reach_running: "reach demo_pool demo_running"
proof (rule reach.step [OF demo_reach_stopping])
  have wa: "worker_attempt (pool demo_stopping) = (Got 64, pool demo_running)"
    by (simp add: demo_defs worker_attempt_def begin_shutdown_def dequeue_def)
  have sig: "signal_submitter (blocked demo_stopping, woken demo_stopping) ([], [])"
    by (simp add: demo_defs signal_submitter_def)
  have "pool_step demo_stopping (demo_stopping\<lparr>pool := pool demo_running,
      wstates := (wstates demo_stopping)[0 := Running 64 7],
      started := started demo_stopping @ [(64, 7)], blocked := [], woken := []\<rparr>)"
    by (rule pool_step.take [OF _ _ wa _ sig]) (simp_all add: demo_defs)
  then show "pool_step demo_stopping demo_running"
    by (simp add: demo_defs)
qed

lemma demo_reach_finished: "reach demo_pool demo_finished"
proof (rule reach.step [OF demo_reach_running])
  show "pool_step demo_running demo_finished"
    using pool_step.finish [of 0 demo_running 64 7]
    by (simp add: demo_defs free_item_def empty_queue_def)
qed

lemma demo_reach_drained: "reach demo_pool demo_drained"
proof (rule reach.step [OF demo_reach_finished])
  show "pool_step demo_finished demo_drained"
    using pool_step.leave [of 0 demo_finished "pool demo_finished"]
    by (simp add: demo_defs worker_attempt_def begin_shutdown_def empty_queue_def)
qed


section \<open>Properties\<close>

text \<open>C6: the pool runs jobs first in, first out and exactly once: in every reachable state the
  jobs taken by workers, in order, followed by those still queued are exactly the accepted
  jobs; each job taken has either been run to completion or is being run by one worker; and
  the queue never exceeds its capacity.\<close>

theorem thread_pool_fifo_exactly_once:
  assumes "thread_pool_create created n depth m = (Some p, m')" "reach p s"
  shows "\<exists>queued. accepted s = started s @ queued \<and>
      length queued = unat (queue_size (pqueue s)) \<and>
      queue_size (pqueue s) \<le> queue_capacity (pool s) \<and>
      mset (started s) = mset (finished s) + mset (running (wstates s))"
proof -
  obtain xs where inv: "run_inv s xs" using reach_inv [OF assms(2,1)] by blast
  then show ?thesis
    using run_inv_size [OF inv]
    by (intro exI [of _ xs]) (simp add: run_inv_def history_inv_def items_inv_def word_le_nat_alt)
qed

theorem thread_pool_fifo_exactly_once_witness:
  "reach demo_pool demo_running \<and> accepted demo_running = [(64, 7)] \<and>
   mset (started demo_running) = mset (finished demo_running) + mset (running (wstates demo_running))"
proof -
  obtain m' where "thread_pool_create [] 1 1 demo_mem = (Some demo_pool, m')"
    using demo_create by blast
  from thread_pool_fifo_exactly_once [OF this demo_reach_running]
  show ?thesis using demo_reach_running by (auto simp: demo_defs)
qed

text \<open>C7: no wake-up is lost: whenever work is queued some worker is awake to take it (ready or
  finishing another job), and whenever submitters are blocked although the queue has room,
  one of them has already been woken.\<close>

theorem thread_pool_no_lost_wakeup:
  assumes "thread_pool_create created n depth m = (Some p, m')" "reach p s"
  shows "(queue_size (pqueue s) \<noteq> 0 \<longrightarrow>
            (\<exists>i<length (wstates s). wstates s ! i = Ready \<or> (\<exists>a j. wstates s ! i = Running a j))) \<and>
         (blocked s \<noteq> [] \<and> queue_size (pqueue s) < queue_capacity (pool s) \<longrightarrow> woken s \<noteq> [])"
proof -
  obtain xs where inv: "run_inv s xs" using reach_inv [OF assms(2,1)] by blast
  note sz = run_inv_size [OF inv]
  have "\<exists>i<length (wstates s). wstates s ! i = Ready \<or> (\<exists>a j. wstates s ! i = Running a j)"
    if "queue_size (pqueue s) \<noteq> 0"
  proof -
    have "xs \<noteq> []" using that sz by (auto simp: unat_eq_zero)
    then obtain w where w: "w \<in> set (wstates s)" "w \<noteq> Waiting" "w \<noteq> Exited"
      using inv by (fastforce simp: run_inv_def wakeup_inv_def)
    then show ?thesis by (metis in_set_conv_nth worker_state.exhaust)
  qed
  moreover have "woken s \<noteq> []" if "blocked s \<noteq> []" "queue_size (pqueue s) < queue_capacity (pool s)"
    using inv that sz by (auto simp: run_inv_def wakeup_inv_def word_less_nat_alt)
  ultimately show ?thesis by blast
qed

theorem thread_pool_no_lost_wakeup_witness:
  "queue_size (pqueue demo_stopping) \<noteq> 0 \<and>
   (\<exists>i<length (wstates demo_stopping). wstates demo_stopping ! i = Ready \<or>
      (\<exists>a j. wstates demo_stopping ! i = Running a j))"
proof -
  obtain m' where "thread_pool_create [] 1 1 demo_mem = (Some demo_pool, m')"
    using demo_create by blast
  moreover have "queue_size (pqueue demo_stopping) \<noteq> 0"
    by (simp add: demo_defs begin_shutdown_def)
  ultimately show ?thesis
    using thread_pool_no_lost_wakeup [OF _ demo_reach_stopping] by blast
qed

text \<open>C8: shutting down drains the pool: once every worker has left, all accepted jobs have
  been run exactly once, the queue is empty, and the only work items still allocated belong
  to submitters that have not returned yet, so none is leaked.\<close>

theorem thread_pool_shutdown_drains:
  assumes "thread_pool_create created n depth m = (Some p, m')" "reach p s"
    "set (wstates s) \<subseteq> {Exited}"
  shows "accepted s = started s \<and> mset (finished s) = mset (accepted s) \<and>
         queue_head (pqueue s) = NULL \<and> tp_shutdown (pool s) \<and>
         {a. nodes (pqueue s) a \<noteq> None} = fst ` set (woken s)"
proof -
  obtain xs where inv: "run_inv s xs" using reach_inv [OF assms(2,1)] by blast
  have "wstates s \<noteq> []" using inv by (simp add: run_inv_def wakeup_inv_def)
  then have "Exited \<in> set (wstates s)" using assms(3) by (cases "wstates s") auto
  then have e: "xs = []" "tp_shutdown (pool s)" "blocked s = []"
    using inv by (auto simp: run_inv_def wakeup_inv_def)
  have "running (wstates s) = []"
    using assms(3) by (auto simp: running_def concat_eq_Nil_conv)
  then show ?thesis
    using inv e
    by (auto simp: run_inv_def history_inv_def items_inv_def pending_def queue_repr_def)
qed

theorem thread_pool_shutdown_drains_witness:
  "reach demo_pool demo_drained \<and> accepted demo_drained = [(64, 7)] \<and>
   mset (finished demo_drained) = mset (accepted demo_drained) \<and>
   {a. nodes (pqueue demo_drained) a \<noteq> None} = {}"
proof -
  obtain m' where c: "thread_pool_create [] 1 1 demo_mem = (Some demo_pool, m')"
    using demo_create by blast
  have "set (wstates demo_drained) \<subseteq> {Exited}" "accepted demo_drained = [(64, 7)]" "woken demo_drained = []"
    by (simp_all add: demo_defs)
  then show ?thesis
    using thread_pool_shutdown_drains [OF c demo_reach_drained] demo_reach_drained by simp
qed



end
