(* ===== verification/Kv_Engine.thy ===== *)
theory Kv_Engine
  imports Device_Health Memory_Pool Dma_Pool Hash_Table Thread_Pool
begin

text \<open>
  The engine, core/kv_engine.c, and the public health functions of core/kv_engine_health.c.
  A call is a function on the state of the process: the engine structure behind the caller's
  handle (\<open>None\<close> for a null handle), the heap, and the state of the KVS library.  Null pointer
  arguments are \<open>None\<close>, or a null address for the caller's value buffer, whose alignment
  matters.  The locks of the engine make the sections they guard atomic; calls are modelled
  one at a time.
\<close>

section \<open>Data\<close>

record kv_engine_stats_t =
  st_total_ops :: u64
  read_ops :: u64
  write_ops :: u64
  delete_ops :: u64
  failed_ops :: u64
  avg_latency_us :: u64
  bytes_written :: u64
  bytes_read :: u64

text \<open>
  All bits zero; \<open>avg_latency_us\<close> is a double in C, kept here as its bit pattern.
\<close>

definition zero_stats :: kv_engine_stats_t where
  "zero_stats = \<lparr>st_total_ops = 0, read_ops = 0, write_ops = 0, delete_ops = 0, failed_ops = 0,
     avg_latency_us = 0, bytes_written = 0, bytes_read = 0\<rparr>"

datatype async_op_type_t = ASYNC_OP_STORE | ASYNC_OP_RETRIEVE | ASYNC_OP_DELETE

text \<open>
  The context of an asynchronous operation; callbacks are identified by a number, \<open>None\<close> for
  a null function pointer.  A buffer is its address and its content.
\<close>

record async_context_t =
  ac_addr :: addr
  ac_callback :: "nat option"
  ac_retrieve_callback :: "nat option"
  ac_user_data :: addr
  ac_key_buffer :: "addr \<times> byte list"
  ac_key_len :: size_t
  ac_value_buffer :: "addr \<times> byte list"
  ac_value_len :: size_t
  ac_overwrite :: bool
  ac_op_type :: async_op_type_t

record kv_engine =
  en_addr :: addr
  devices :: "kv_device_ctx_t list"
  num_devices :: u32
  config :: kv_engine_config_t
  config_device_path :: cstr
  config_emul_file :: cstr
  mem_pool :: "memory_pool_t option"
  buffer_pool :: "dma_pool_t option"
  workers :: "async_context_t thread_pool_t option"
  stats :: kv_engine_stats_t
  key_table :: hash_table_t
  initialized :: bool
  health_probe :: "health_probe_t option"

record 'w sys =
  engine :: "kv_engine option"
  heap :: mem
  lib :: 'w

text \<open>KV_ENGINE_RETRIEVE_SIZE.\<close>

definition KV_ENGINE_RETRIEVE_SIZE :: nat where
  "KV_ENGINE_RETRIEVE_SIZE = 2 * 1024 * 1024"

definition sizeof_kv_engine :: nat where
  "sizeof_kv_engine = 1024"

text \<open>A handle as it is passed to the API; zero is the null handle.\<close>

definition hnd :: "nat option \<Rightarrow> nat" where
  "hnd h = (case h of None \<Rightarrow> 0 | Some x \<Rightarrow> x)"

section \<open>Statistics\<close>

definition update_stats ::
  "kv_engine \<Rightarrow> bool \<Rightarrow> bool \<Rightarrow> bool \<Rightarrow> bool \<Rightarrow> size_t \<Rightarrow> kv_engine" where
  "update_stats e is_read is_write is_delete success bytes =
     (let s0 = stats e;
          s1 = s0\<lparr>st_total_ops := st_total_ops s0 + 1\<rparr>;
          s2 = (if is_read then s1\<lparr>read_ops := read_ops s1 + 1\<rparr> else s1);
          s3 = (if is_write then s2\<lparr>write_ops := write_ops s2 + 1\<rparr> else s2);
          s4 = (if is_delete then s3\<lparr>delete_ops := delete_ops s3 + 1\<rparr> else s3);
          s5 = (if \<not> success then s4\<lparr>failed_ops := failed_ops s4 + 1\<rparr> else s4);
          s6 = (if is_read \<and> success then s5\<lparr>bytes_read := bytes_read s5 + bytes\<rparr>
                else if is_write \<and> success then s5\<lparr>bytes_written := bytes_written s5 + bytes\<rparr>
                else s5)
      in e\<lparr>stats := s6\<rparr>)"

text \<open>The second argument says whether the caller's result pointer is non-null.\<close>

definition kv_engine_get_stats :: "'w sys \<Rightarrow> bool \<Rightarrow> kv_result_t \<times> kv_engine_stats_t option" where
  "kv_engine_get_stats s out = (case engine s of
      None \<Rightarrow> (KV_ERR_INVALID_PARAM, None)
    | Some e \<Rightarrow> if \<not> out then (KV_ERR_INVALID_PARAM, None) else (KV_SUCCESS, Some (stats e)))"

definition kv_engine_reset_stats :: "'w sys \<Rightarrow> 'w sys" where
  "kv_engine_reset_stats s = (case engine s of
      None \<Rightarrow> s
    | Some e \<Rightarrow> s\<lparr>engine := Some (e\<lparr>stats := zero_stats\<rparr>)\<rparr>)"

section \<open>Buffers\<close>

text \<open>Both functions dereference the engine pointer unconditionally.\<close>

definition kv_engine_alloc_buffer :: "kv_engine \<Rightarrow> size_t \<Rightarrow> mem \<Rightarrow> addr \<times> kv_engine \<times> mem" where
  "kv_engine_alloc_buffer e sz m =
     (let fallback = (\<lambda>e. let (a, m') = dma_alloc sz m in (a, e, m')) in
      case buffer_pool e of
        None \<Rightarrow> fallback e
      | Some p \<Rightarrow>
          if sz \<le> buffer_size p then
            let (b, p') = dma_pool_acquire p in
            if b \<noteq> NULL then (b, e\<lparr>buffer_pool := Some p'\<rparr>, m)
            else fallback (e\<lparr>buffer_pool := Some p'\<rparr>)
          else fallback e)"

definition kv_engine_free_buffer :: "kv_engine \<Rightarrow> addr \<Rightarrow> mem \<Rightarrow> kv_engine \<times> mem" where
  "kv_engine_free_buffer e buf m =
     (case buffer_pool e of
        None \<Rightarrow> (e, dma_free buf m)
      | Some p \<Rightarrow>
          if dma_pool_owns (Some p) buf
          then (e\<lparr>buffer_pool := Some (dma_pool_release p buf)\<rparr>, m)
          else (e, dma_free buf m))"

section \<open>Synchronous operations\<close>

text \<open>The index and the context of the device that a key is sharded to.\<close>

definition shard_index :: "kv_engine \<Rightarrow> byte list \<Rightarrow> size_t \<Rightarrow> nat" where
  "shard_index e key key_len = unat (kv_engine_shard_for_key key key_len (num_devices e))"

text \<open>The section of a store under \<open>hash_lock\<close>: enter the key if it is not in the table yet.\<close>

definition note_key :: "hash_table_t \<Rightarrow> byte list option \<Rightarrow> u32 \<Rightarrow> mem \<Rightarrow> hash_table_t \<times> mem" where
  "note_key t key len m = (if \<not> key_in_table t key len then add_key t key len m else (t, m))"

text \<open>Recording a result against the device with index \<open>i\<close>.\<close>

abbreviation set_dev :: "kv_engine \<Rightarrow> nat \<Rightarrow> kvs_result \<Rightarrow> kv_engine" where
  "set_dev e i r \<equiv> e\<lparr>devices := (devices e)[i := device_record_result (devices e ! i) r]\<rparr>"

definition kv_engine_store ::
  "'w kvs_ops \<Rightarrow> byte list option \<Rightarrow> size_t \<Rightarrow> addr \<times> byte list \<Rightarrow> size_t \<Rightarrow> bool \<Rightarrow> 'w sys
     \<Rightarrow> kv_result_t \<times> 'w sys" where
  "kv_engine_store ops key key_len val val_len overwrite s = (case engine s of
      None \<Rightarrow> (KV_ERR_INVALID_PARAM, s)
    | Some e \<Rightarrow>
        if \<not> initialized e \<or> key = None \<or> fst val = NULL then (KV_ERR_INVALID_PARAM, s) else
        if key_len < 4 \<or> key_len > 255 then (KV_ERR_INVALID_PARAM, s) else
        let idx = shard_index e (the key) key_len;
            dev = devices e ! idx;
            health = check_device_health dev in
        if health \<noteq> KV_SUCCESS then (health, s) else
        let kk = \<lparr>kk_buf = key, kk_length = ucast key_len\<rparr>;
            bounce = \<not> IS_DMA_ALIGNED (fst val);
            (buf, m1) = (if bounce then dma_alloc val_len (heap s) else (NULL, heap s)) in
        if bounce \<and> buf = NULL then (KV_ERR_NO_MEMORY, s\<lparr>heap := m1\<rparr>) else
        let vv = \<lparr>kv_buf = Some (if bounce then take (unat val_len) (snd val) else snd val),
                  kv_length = ucast val_len, actual_value_size = ucast val_len, kv_offset = 0\<rparr>;
            (tab, m2) = note_key (key_table e) key (ucast key_len) m1;
            (r, w1) = op_store_kvp ops (hnd (dc_keyspace dev)) kk vv
                        (if overwrite then KVS_STORE_POST else KVS_STORE_NOOVERWRITE) (lib s);
            m3 = (if buf \<noteq> NULL then dma_free buf m2 else m2);
            e1 = (set_dev e idx r)\<lparr>key_table := tab\<rparr>;
            e2 = update_stats e1 False True False (r = KVS_SUCCESS) val_len
        in (map_kvs_result r, \<lparr>engine = Some e2, heap = m3, lib = w1\<rparr>))"

text \<open>
  Giving back a retrieve buffer, to the pool or to the heap.
\<close>

definition drop_buffer :: "bool \<Rightarrow> addr \<Rightarrow> kv_engine \<Rightarrow> mem \<Rightarrow> kv_engine \<times> mem" where
  "drop_buffer from_pool buf e m =
     (if from_pool
      then (e\<lparr>buffer_pool := map_option (\<lambda>p. dma_pool_release p buf) (buffer_pool e)\<rparr>, m)
      else (e, dma_free buf m))"

text \<open>The first buffer of a retrieve: from the pool if it has one, else from the heap.\<close>

definition first_buffer :: "kv_engine \<Rightarrow> mem \<Rightarrow> addr \<times> bool \<times> kv_engine \<times> mem" where
  "first_buffer e m =
     (let (b, e1) = (case buffer_pool e of
            None \<Rightarrow> (NULL, e)
          | Some p \<Rightarrow> (let (b, p') = dma_pool_acquire p in (b, e\<lparr>buffer_pool := Some p'\<rparr>)))
      in if b \<noteq> NULL then (b, True, e1, m)
         else (let (a, m1) = dma_alloc (of_nat KV_ENGINE_RETRIEVE_SIZE) m in (a, False, e1, m1)))"

text \<open>
  The end of \<open>kv_engine_retrieve\<close>, after its last call to the device: record the result, forget
  the key if the value was to be deleted, and hand out or give back the buffer.
\<close>

definition retrieve_finish ::
  "nat \<Rightarrow> byte list option \<Rightarrow> size_t \<Rightarrow> bool \<Rightarrow> kvs_result \<Rightarrow> kvs_value \<Rightarrow> addr \<Rightarrow> bool
     \<Rightarrow> kv_engine \<Rightarrow> mem \<Rightarrow> 'w \<Rightarrow> kv_result_t \<times> (addr \<times> byte list \<times> size_t) option \<times> 'w sys" where
  "retrieve_finish idx key key_len delete_value r v buf from_pool e m w =
     (let e1 = set_dev e idx r;
          (tab, m1) = (if delete_value \<and> r = KVS_SUCCESS
                       then delete_key (key_table e1) key (ucast key_len) m
                       else (key_table e1, m));
          e2 = e1\<lparr>key_table := tab\<rparr> in
      if r \<noteq> KVS_SUCCESS then
        let (e3, m2) = drop_buffer from_pool buf e2 m1 in
        (map_kvs_result r, None,
         \<lparr>engine = Some (update_stats e3 True False False False 0), heap = m2, lib = w\<rparr>)
      else
        (KV_SUCCESS, Some (buf, value_bytes v, ucast (kv_length v)),
         \<lparr>engine = Some (update_stats e2 True False False True (ucast (actual_value_size v))),
          heap = m1, lib = w\<rparr>))"

text \<open>
  \<open>kv_engine_retrieve\<close>; \<open>outs\<close> says whether both result pointers are non-null.  On success the
  result is the buffer's address, the value and its length.
\<close>

definition kv_engine_retrieve ::
  "'w kvs_ops \<Rightarrow> byte list option \<Rightarrow> size_t \<Rightarrow> bool \<Rightarrow> bool \<Rightarrow> 'w sys
     \<Rightarrow> kv_result_t \<times> (addr \<times> byte list \<times> size_t) option \<times> 'w sys" where
  "kv_engine_retrieve ops key key_len outs delete_value s = (case engine s of
      None \<Rightarrow> (KV_ERR_INVALID_PARAM, None, s)
    | Some e \<Rightarrow>
        if \<not> initialized e \<or> key = None \<or> key_len = 0 \<or> \<not> outs
        then (KV_ERR_INVALID_PARAM, None, s) else
        if key_len < 4 \<or> key_len > 255 then (KV_ERR_INVALID_PARAM, None, s) else
        let idx = shard_index e (the key) key_len;
            dev = devices e ! idx;
            health = check_device_health dev in
        if health \<noteq> KV_SUCCESS then (health, None, s) else
        let kk = \<lparr>kk_buf = key, kk_length = ucast key_len\<rparr>;
            (buf, from_pool, e1, m1) = first_buffer e (heap s) in
        if buf = NULL then (KV_ERR_NO_MEMORY, None, s\<lparr>engine := Some e1, heap := m1\<rparr>) else
        let (r, v, w1) = op_retrieve_kvp ops (hnd (dc_keyspace dev)) kk delete_value
              \<lparr>kv_buf = Some [], kv_length = of_nat KV_ENGINE_RETRIEVE_SIZE,
               actual_value_size = 0, kv_offset = 0\<rparr> (lib s) in
        if r = KVS_ERR_BUFFER_SMALL then
          let (e2, m2) = drop_buffer from_pool buf e1 m1;
              (buf2, m3) = dma_alloc (ucast (actual_value_size v)) m2 in
          if buf2 = NULL
          then (KV_ERR_NO_MEMORY, None, \<lparr>engine = Some e2, heap = m3, lib = w1\<rparr>)
          else
            let (r2, v2, w2) = op_retrieve_kvp ops (hnd (dc_keyspace dev)) kk delete_value
                  (v\<lparr>kv_buf := Some [], kv_length := actual_value_size v, kv_offset := 0\<rparr>) w1
            in retrieve_finish idx key key_len delete_value r2 v2 buf2 False e2 m3 w2
        else retrieve_finish idx key key_len delete_value r v buf from_pool e1 m1 w1)"

definition kv_engine_delete ::
  "'w kvs_ops \<Rightarrow> byte list option \<Rightarrow> size_t \<Rightarrow> 'w sys \<Rightarrow> kv_result_t \<times> 'w sys" where
  "kv_engine_delete ops key key_len s = (case engine s of
      None \<Rightarrow> (KV_ERR_INVALID_PARAM, s)
    | Some e \<Rightarrow>
        if \<not> initialized e \<or> key = None then (KV_ERR_INVALID_PARAM, s) else
        if key_len < 4 \<or> key_len > 255 then (KV_ERR_INVALID_PARAM, s) else
        let idx = shard_index e (the key) key_len;
            dev = devices e ! idx;
            health = check_device_health dev in
        if health \<noteq> KV_SUCCESS then (health, s) else
        let kk = \<lparr>kk_buf = key, kk_length = ucast key_len\<rparr>;
            (r, w1) = op_delete_kvp ops (hnd (dc_keyspace dev)) kk False (lib s);
            (tab, m1) = delete_key (key_table e) key (ucast key_len) (heap s);
            e1 = (set_dev e idx r)\<lparr>key_table := tab\<rparr>;
            e2 = update_stats e1 False False True (r = KVS_SUCCESS) 0
        in (map_kvs_result r, \<lparr>engine = Some e2, heap = m1, lib = w1\<rparr>))"

text \<open>\<open>kv_engine_exists\<close>; \<open>out\<close> says whether the result pointer is non-null.\<close>

definition kv_engine_exists ::
  "'w kvs_ops \<Rightarrow> byte list option \<Rightarrow> size_t \<Rightarrow> bool \<Rightarrow> 'w sys
     \<Rightarrow> kv_result_t \<times> bool option \<times> 'w sys" where
  "kv_engine_exists ops key key_len out s = (case engine s of
      None \<Rightarrow> (KV_ERR_INVALID_PARAM, None, s)
    | Some e \<Rightarrow>
        if \<not> initialized e \<or> key = None \<or> \<not> out then (KV_ERR_INVALID_PARAM, None, s) else
        if key_len < 4 \<or> key_len > 255 then (KV_ERR_INVALID_PARAM, None, s) else
        let idx = shard_index e (the key) key_len;
            dev = devices e ! idx;
            health = check_device_health dev in
        if health \<noteq> KV_SUCCESS then (health, None, s) else
        let hash_value_check = key_in_table (key_table e) key (ucast key_len);
            kk = \<lparr>kk_buf = key, kk_length = ucast key_len\<rparr>;
            (r, b, w1) = op_exist_kv_pair ops (hnd (dc_keyspace dev)) kk (lib s);
            e1 = set_dev e idx r;
            s1 = s\<lparr>engine := Some e1, lib := w1\<rparr> in
        if r \<noteq> KVS_SUCCESS then (map_kvs_result r, None, s1)
        else (KV_SUCCESS, Some (b \<noteq> 0 \<and> hash_value_check), s1))"

end
