(* ===== verification/Async_Ops.thy ===== *)
theory Async_Ops
  imports Kv_Engine
begin

text \<open>
  Asynchronous operations, async/async_ops.c.  A call copies its arguments into a heap context
  and submits it to the thread pool; a worker later runs the synchronous operation, reports the
  result to the caller's callback and frees the context.  A call to a callback is recorded as a
  completion.
\<close>

section \<open>Contexts\<close>

definition sizeof_async_context :: nat where
  "sizeof_async_context = 80"

definition async_context_create ::
  "async_op_type_t \<Rightarrow> byte list \<Rightarrow> size_t \<Rightarrow> addr \<times> byte list \<Rightarrow> size_t \<Rightarrow> nat option \<Rightarrow> addr \<Rightarrow> bool
     \<Rightarrow> mem \<Rightarrow> async_context_t option \<times> mem" where
  "async_context_create op key key_len val val_len callback user_data overwrite m =
     (let (c, m1) = malloc sizeof_async_context m in
      if c = NULL then (None, m1) else
      let (kb, m2) = malloc (unat key_len) m1 in
      if kb = NULL then (None, mem_free c m2) else
      let ctx = \<lparr>ac_addr = c, ac_callback = callback, ac_retrieve_callback = None,
                 ac_user_data = user_data, ac_key_buffer = (kb, take (unat key_len) key),
                 ac_key_len = key_len, ac_value_buffer = (NULL, []), ac_value_len = val_len,
                 ac_overwrite = overwrite, ac_op_type = op\<rparr> in
      if fst val \<noteq> NULL \<and> val_len > 0 then
        let (vb, m3) = malloc (unat val_len) m2 in
        if vb = NULL then (None, mem_free c (mem_free kb m3))
        else (Some (ctx\<lparr>ac_value_buffer := (vb, take (unat val_len) (snd val))\<rparr>), m3)
      else (Some ctx, m2))"

definition async_context_free :: "async_context_t \<Rightarrow> mem \<Rightarrow> mem" where
  "async_context_free ctx m =
     mem_free (ac_addr ctx)
       (mem_free (fst (ac_value_buffer ctx)) (mem_free (fst (ac_key_buffer ctx)) m))"

section \<open>The worker function\<close>

text \<open>
  A call of a callback: its identity, the result, the buffer of a retrieve, and the caller's
  cookie.
\<close>

record completion =
  co_callback :: nat
  co_result :: kv_result_t
  co_value :: "(addr \<times> byte list \<times> size_t) option"
  co_user_data :: addr

definition complete ::
  "nat option \<Rightarrow> kv_result_t \<Rightarrow> (addr \<times> byte list \<times> size_t) option \<Rightarrow> addr \<Rightarrow> completion list" where
  "complete callback r v user_data = (case callback of
      None \<Rightarrow> []
    | Some cb \<Rightarrow> [\<lparr>co_callback = cb, co_result = r, co_value = v, co_user_data = user_data\<rparr>])"

definition async_worker_func ::
  "'w kvs_ops \<Rightarrow> async_context_t \<Rightarrow> 'w sys \<Rightarrow> completion list \<times> 'w sys" where
  "async_worker_func ops ctx s =
     (let key = Some (snd (ac_key_buffer ctx)); len = ac_key_len ctx;
          (cs, s1) = (case ac_op_type ctx of
            ASYNC_OP_STORE \<Rightarrow>
              (let (r, s1) = kv_engine_store ops key len (ac_value_buffer ctx) (ac_value_len ctx)
                     (ac_overwrite ctx) s
               in (complete (ac_callback ctx) r None (ac_user_data ctx), s1))
          | ASYNC_OP_RETRIEVE \<Rightarrow>
              (let (r, v, s1) = kv_engine_retrieve ops key len True False s
               in (complete (ac_retrieve_callback ctx) r v (ac_user_data ctx), s1))
          | ASYNC_OP_DELETE \<Rightarrow>
              (let (r, s1) = kv_engine_delete ops key len s
               in (complete (ac_callback ctx) r None (ac_user_data ctx), s1)))
      in (cs, s1\<lparr>heap := async_context_free ctx (heap s1)\<rparr>))"

section \<open>Submitting\<close>

text \<open>
  The common end of the three calls: submit the context, and free it when the pool refuses it.
  \<open>None\<close> is a call that blocks on a full queue.
\<close>

definition submit_context ::
  "kv_engine \<Rightarrow> async_context_t option \<times> mem \<Rightarrow> 'w sys \<Rightarrow> (kv_result_t \<times> 'w sys) option" where
  "submit_context e made s = (case made of
      (None, m) \<Rightarrow> Some (KV_ERR_NO_MEMORY, s\<lparr>heap := m\<rparr>)
    | (Some ctx, m) \<Rightarrow>
        (case thread_pool_submit ctx (the (workers e)) m of
            None \<Rightarrow> None
          | Some (rc, p, m1) \<Rightarrow>
              let s1 = s\<lparr>engine := Some (e\<lparr>workers := Some p\<rparr>)\<rparr> in
              if rc \<noteq> 0 then Some (KV_ERR_IO, s1\<lparr>heap := async_context_free ctx m1\<rparr>)
              else Some (KV_SUCCESS, s1\<lparr>heap := m1\<rparr>)))"

definition kv_engine_store_async ::
  "byte list option \<Rightarrow> size_t \<Rightarrow> addr \<times> byte list \<Rightarrow> size_t \<Rightarrow> nat option \<Rightarrow> addr \<Rightarrow> bool \<Rightarrow> 'w sys
     \<Rightarrow> (kv_result_t \<times> 'w sys) option" where
  "kv_engine_store_async key key_len val val_len callback user_data overwrite s = (case engine s of
      None \<Rightarrow> Some (KV_ERR_INVALID_PARAM, s)
    | Some e \<Rightarrow>
        if \<not> initialized e \<or> key = None \<or> fst val = NULL then Some (KV_ERR_INVALID_PARAM, s) else
        if key_len < 4 \<or> key_len > 255 then Some (KV_ERR_INVALID_PARAM, s) else
        if workers e = None then Some (KV_ERR_NOT_INITIALIZED, s) else
        submit_context e
          (async_context_create ASYNC_OP_STORE (the key) key_len val val_len callback user_data
             overwrite (heap s)) s)"

definition kv_engine_retrieve_async ::
  "byte list option \<Rightarrow> size_t \<Rightarrow> nat option \<Rightarrow> addr \<Rightarrow> 'w sys \<Rightarrow> (kv_result_t \<times> 'w sys) option" where
  "kv_engine_retrieve_async key key_len callback user_data s = (case engine s of
      None \<Rightarrow> Some (KV_ERR_INVALID_PARAM, s)
    | Some e \<Rightarrow>
        if \<not> initialized e \<or> key = None then Some (KV_ERR_INVALID_PARAM, s) else
        if key_len < 4 \<or> key_len > 255 then Some (KV_ERR_INVALID_PARAM, s) else
        if workers e = None then Some (KV_ERR_NOT_INITIALIZED, s) else
        let (c, m) = async_context_create ASYNC_OP_RETRIEVE (the key) key_len (NULL, []) 0 None
                       user_data False (heap s) in
        submit_context e
          (map_option (\<lambda>ctx. ctx\<lparr>ac_retrieve_callback := callback\<rparr>) c, m) s)"

definition kv_engine_delete_async ::
  "byte list option \<Rightarrow> size_t \<Rightarrow> nat option \<Rightarrow> addr \<Rightarrow> 'w sys \<Rightarrow> (kv_result_t \<times> 'w sys) option" where
  "kv_engine_delete_async key key_len callback user_data s = (case engine s of
      None \<Rightarrow> Some (KV_ERR_INVALID_PARAM, s)
    | Some e \<Rightarrow>
        if \<not> initialized e \<or> key = None then Some (KV_ERR_INVALID_PARAM, s) else
        if key_len < 4 \<or> key_len > 255 then Some (KV_ERR_INVALID_PARAM, s) else
        if workers e = None then Some (KV_ERR_NOT_INITIALIZED, s) else
        submit_context e
          (async_context_create ASYNC_OP_DELETE (the key) key_len (NULL, []) 0 callback user_data
             False (heap s)) s)"

section \<open>Running\<close>

text \<open>
  One round of \<open>thread_pool_worker\<close>: take the head of the queue, run it outside the lock and
  free the item.  Nothing happens when the queue is empty.
\<close>

definition set_workers :: "async_context_t thread_pool_t \<Rightarrow> kv_engine \<Rightarrow> kv_engine" where
  "set_workers p e = e\<lparr>workers := Some p\<rparr>"

definition release_item :: "addr \<Rightarrow> 'w sys \<Rightarrow> 'w sys" where
  "release_item a s = s\<lparr>heap := mem_free a (heap s),
     engine := map_option (\<lambda>e. e\<lparr>workers := map_option
       (\<lambda>p. p\<lparr>tp_queue := free_item a (tp_queue p)\<rparr>) (workers e)\<rparr>) (engine s)\<rparr>"

definition worker_round :: "'w kvs_ops \<Rightarrow> 'w sys \<Rightarrow> completion list \<times> 'w sys" where
  "worker_round ops s = (case engine s of
      None \<Rightarrow> ([], s)
    | Some e \<Rightarrow> (case workers e of
          None \<Rightarrow> ([], s)
        | Some p \<Rightarrow> (case worker_attempt p of
              (Got a, p') \<Rightarrow>
                (let ctx = wi_job (the (nodes (tp_queue p') a));
                     (cs, s1) = async_worker_func ops ctx (s\<lparr>engine := Some (set_workers p' e)\<rparr>)
                 in (cs, release_item a s1))
            | (_, p') \<Rightarrow> ([], s))))"

text \<open>
  The joins at shutdown: the workers finish what is queued.  Each round takes one item, so as
  many rounds as there are items empty the queue.
\<close>

fun worker_rounds :: "'w kvs_ops \<Rightarrow> nat \<Rightarrow> 'w sys \<Rightarrow> completion list \<times> 'w sys" where
  "worker_rounds ops 0 s = ([], s)"
| "worker_rounds ops (Suc n) s =
     (let (cs, s1) = worker_round ops s; (ds, s2) = worker_rounds ops n s1 in (cs @ ds, s2))"

definition join_workers :: "'w kvs_ops \<Rightarrow> 'w sys \<Rightarrow> completion list \<times> 'w sys" where
  "join_workers ops s = (case engine s of
      None \<Rightarrow> ([], s)
    | Some e \<Rightarrow> (case workers e of
          None \<Rightarrow> ([], s)
        | Some p \<Rightarrow> worker_rounds ops (unat (queue_size (tp_queue p)))
                      (s\<lparr>engine := Some (set_workers (begin_shutdown p) e)\<rparr>)))"

end
