(* ===== verification/Kv_Lifecycle.thy ===== *)
theory Kv_Lifecycle
  imports Async_Ops
begin

text \<open>
  Creating, extending, inspecting and destroying an engine: \<open>kv_engine_init\<close> and
  \<open>kv_engine_cleanup\<close> of core/kv_engine.c, and \<open>kv_engine_get_device_health\<close>,
  \<open>kv_engine_healthy_device_count\<close> and \<open>kv_engine_add_device\<close> of core/kv_engine_health.c.  What the
  operating system answers to the thread and mutex calls of the initialisation is a record.
\<close>

record os_answers =
  os_threads :: "bool list"
  os_mutex_init :: int
  os_probe_thread :: bool

section \<open>Initialisation\<close>

text \<open>
  The device loop of \<open>kv_engine_init\<close>, with the contexts opened so far; a failure closes them
  again.
\<close>

fun open_all ::
  "'w kvs_ops \<Rightarrow> string list \<Rightarrow> kv_device_ctx_t list \<Rightarrow> mem \<Rightarrow> 'w
     \<Rightarrow> kv_result_t \<times> kv_device_ctx_t list \<times> mem \<times> 'w" where
  "open_all ops [] opened m w = (KV_SUCCESS, opened, m, w)"
| "open_all ops (p # ps) opened m w =
     (let (r, ctx, m1, w1) = kv_engine_open_device ops zero_ctx p (length opened) m w in
      if r \<noteq> KV_SUCCESS then
        let (m2, w2) = close_devices ops opened m1 w1 in (r, [], m2, w2)
      else open_all ops ps (opened @ [ctx]) m1 w1)"

definition strdup_opt :: "string option \<Rightarrow> mem \<Rightarrow> cstr \<times> mem" where
  "strdup_opt s m = (case s of None \<Rightarrow> ((NULL, []), m) | Some t \<Rightarrow> strdup t m)"

text \<open>
  \<open>kv_engine_init\<close>; \<open>out\<close> says whether the caller's handle pointer is non-null.
\<close>

definition kv_engine_init ::
  "'w kvs_ops \<Rightarrow> os_answers \<Rightarrow> bool \<Rightarrow> kv_engine_config_t option \<Rightarrow> 'w sys \<Rightarrow> kv_result_t \<times> 'w sys" where
  "kv_engine_init ops os out cfg_ptr s = (case cfg_ptr of
      None \<Rightarrow> (KV_ERR_INVALID_PARAM, s)
    | Some cfg \<Rightarrow>
        if \<not> out then (KV_ERR_INVALID_PARAM, s) else
        let (eng, m1) = malloc sizeof_kv_engine (heap s) in
        if eng = NULL then (KV_ERR_NO_MEMORY, s\<lparr>heap := m1\<rparr>) else
        let (cpath, m2) = strdup_opt (device_path cfg) m1;
            (cemul, m3) = strdup_opt (emul_config_file cfg) m2;
            (r, paths) = kv_engine_resolve_device_paths cfg in
        if r \<noteq> KV_SUCCESS then (r, s\<lparr>heap := mem_free eng m3\<rparr>) else
        let (r, ctxs, m4, w1) = open_all ops paths [] m3 (lib s) in
        if r \<noteq> KV_SUCCESS then (r, s\<lparr>heap := mem_free eng m4, lib := w1\<rparr>) else
        let pool_size = (if memory_pool_size cfg > 0 then memory_pool_size cfg
                         else 16 * 1024 * 1024);
            (mp, m5) = memory_pool_create pool_size m4 in
        if mp = None then
          let (m6, w2) = close_devices ops ctxs m5 w1 in
          (KV_ERR_NO_MEMORY, s\<lparr>heap := mem_free eng m6, lib := w2\<rparr>) else
        let (tp, m6) = (if num_worker_threads cfg > 0
                        then thread_pool_create (os_threads os) (num_worker_threads cfg) (queue_depth cfg) m5
                        else (None, m5)) in
        if num_worker_threads cfg > 0 \<and> tp = None then
          let m7 = memory_pool_destroy mp m6;
              (m8, w2) = close_devices ops ctxs m7 w1 in
          (KV_ERR_NO_MEMORY, s\<lparr>heap := mem_free eng m8, lib := w2\<rparr>) else
        let (bp, m7) = (if dma_pool_count cfg > 0
                        then dma_pool_create (of_nat KV_ENGINE_RETRIEVE_SIZE) (ucast (dma_pool_count cfg)) m6
                        else (None, m6));
            (rc, tab) = create_table (os_mutex_init os) in
        if rc \<noteq> 0 then
          let m8 = dma_pool_destroy bp m7;
              m9 = thread_pool_destroy async_context_free tp m8;
              m10 = memory_pool_destroy mp m9;
              (m11, w2) = close_devices ops ctxs m10 w1;
              m12 = mem_free (fst cemul) (mem_free (fst cpath) m11) in
          (KV_ERR_NO_MEMORY, s\<lparr>heap := mem_free eng m12, lib := w2\<rparr>) else
        let (hp, m8) = health_probe_create (os_probe_thread os) m7;
            e = \<lparr>en_addr = eng,
                 devices = ctxs @ replicate (KV_MAX_DEVICES - length ctxs) zero_ctx,
                 num_devices = of_nat (length ctxs), config = cfg,
                 config_device_path = cpath, config_emul_file = cemul,
                 mem_pool = mp, buffer_pool = bp, workers = tp, stats = zero_stats,
                 key_table = tab, initialized = True, health_probe = hp\<rparr>
        in (KV_SUCCESS, \<lparr>engine = Some e, heap = m8, lib = w1\<rparr>))"

section \<open>Cleanup\<close>

text \<open>
  \<open>kv_engine_cleanup\<close>.  The joins of \<open>thread_pool_destroy\<close> let the workers run the jobs that are
  still queued; their completions are the first component of the result.  The pointer to the
  freed probe is never read again; the model clears it.
\<close>

definition kv_engine_cleanup :: "'w kvs_ops \<Rightarrow> 'w sys \<Rightarrow> completion list \<times> 'w sys" where
  "kv_engine_cleanup ops s0 = (case engine s0 of
      None \<Rightarrow> ([], s0)
    | Some e0 \<Rightarrow>
        let s1 = s0\<lparr>heap := health_probe_destroy (health_probe e0) (heap s0),
                    engine := Some (e0\<lparr>health_probe := None\<rparr>)\<rparr>;
            (cs, s) = join_workers ops s1;
            e = the (engine s);
            m2 = thread_pool_destroy async_context_free (workers e) (heap s);
            m3 = dma_pool_destroy (buffer_pool e) m2;
            m4 = memory_pool_destroy (mem_pool e) m3;
            (m5, w1) = close_devices ops (take (unat (num_devices e)) (devices e)) m4 (lib s);
            (tab, m6) = free_table (key_table e) m5;
            m7 = mem_free (fst (config_device_path e)) m6;
            m8 = mem_free (fst (config_emul_file e)) m7
        in (cs, \<lparr>engine = None, heap = mem_free (en_addr e) m8, lib = w1\<rparr>))"

section \<open>Health interface\<close>

record kv_device_health_t =
  h_device_index :: u32
  h_healthy :: bool
  h_capacity_bytes :: u64
  h_utilization_pct :: u32
  h_consecutive_errors :: u64
  h_total_errors :: u64
  h_total_ops :: u64
  h_device_path :: string

definition kv_engine_get_device_health ::
  "'w kvs_ops \<Rightarrow> u32 \<Rightarrow> bool \<Rightarrow> 'w sys \<Rightarrow> kv_result_t \<times> kv_device_health_t option" where
  "kv_engine_get_device_health ops idx out s = (case engine s of
      None \<Rightarrow> (KV_ERR_INVALID_PARAM, None)
    | Some e \<Rightarrow>
        if \<not> initialized e \<or> \<not> out then (KV_ERR_INVALID_PARAM, None) else
        if idx \<ge> num_devices e then (KV_ERR_INVALID_PARAM, None) else
        let dev = devices e ! unat idx;
            path = (if fst (dc_path dev) \<noteq> NULL then take 255 (snd (dc_path dev)) else []);
            (cr, cap) = op_get_device_capacity ops (hnd (dc_device dev)) (lib s);
            (ur, util) = op_get_device_utilization ops (hnd (dc_device dev)) (lib s)
        in (KV_SUCCESS, Some
              \<lparr>h_device_index = idx, h_healthy = healthy dev,
               h_capacity_bytes = (if cr = KVS_SUCCESS then cap else 0),
               h_utilization_pct = (if ur = KVS_SUCCESS then util else 0),
               h_consecutive_errors = consecutive_errors dev,
               h_total_errors = total_errors dev, h_total_ops = dc_total_ops dev,
               h_device_path = path\<rparr>))"

definition kv_engine_healthy_device_count :: "'w sys \<Rightarrow> u32" where
  "kv_engine_healthy_device_count s = (case engine s of
      None \<Rightarrow> 0
    | Some e \<Rightarrow>
        if \<not> initialized e then 0
        else fold (\<lambda>i c. if healthy (devices e ! i) then c + 1 else c)
               [0..<unat (num_devices e)] 0)"

text \<open>\<open>kv_engine_add_device\<close>; a null path is \<open>None\<close>.\<close>

definition kv_engine_add_device ::
  "'w kvs_ops \<Rightarrow> string option \<Rightarrow> 'w sys \<Rightarrow> kv_result_t \<times> 'w sys" where
  "kv_engine_add_device ops path s = (case engine s of
      None \<Rightarrow> (KV_ERR_INVALID_PARAM, s)
    | Some e \<Rightarrow>
        if \<not> initialized e \<or> path = None then (KV_ERR_INVALID_PARAM, s) else
        let current = num_devices e in
        if unat current \<ge> KV_MAX_DEVICES then (KV_ERR_INVALID_PARAM, s) else
        if write_ops (stats e) > 0 then (KV_ERR_INVALID_PARAM, s) else
        let (r, ctx, m1, w1) = kv_engine_open_device ops (devices e ! unat current) (the path)
              (unat current) (heap s) (lib s);
            e1 = e\<lparr>devices := (devices e)[unat current := ctx]\<rparr> in
        if r \<noteq> KV_SUCCESS then (r, \<lparr>engine = Some e1, heap = m1, lib = w1\<rparr>)
        else (KV_SUCCESS, \<lparr>engine = Some (e1\<lparr>num_devices := current + 1\<rparr>), heap = m1, lib = w1\<rparr>))"

text \<open>One sweep of the probe thread over the engine's devices, with its recovery counters.\<close>

definition health_probe_sweep ::
  "'w kvs_ops \<Rightarrow> u32 list \<Rightarrow> 'w sys \<Rightarrow> u32 list \<times> 'w sys" where
  "health_probe_sweep ops counts s = (case engine s of
      None \<Rightarrow> (counts, s)
    | Some e \<Rightarrow>
        let n = unat (num_devices e);
            query = (\<lambda>d. fst (op_get_device_utilization ops (hnd d) (lib s)));
            thr = (case health_probe e of None \<Rightarrow> 3 | Some p \<Rightarrow> recovery_threshold p);
            res = probe_sweep query thr (take n (devices e)) (take n counts)
        in (map snd res @ drop n counts,
            s\<lparr>engine := Some (e\<lparr>devices := map fst res @ drop n (devices e)\<rparr>)\<rparr>))"

end
