(* ===== verification/Engine_Cases.thy ===== *)
theory Engine_Cases
  imports Kv_Lifecycle
begin

text \<open>
  Case analysis of the synchronous operations: the ways in which a call can end, each with the
  calls it made.  The later theories reason about an operation only through these rules.
\<close>

section \<open>Accepted requests\<close>

text \<open>The checks at the top of every operation.\<close>

definition key_ok :: "byte list option \<Rightarrow> size_t \<Rightarrow> bool" where
  "key_ok key key_len \<longleftrightarrow> key \<noteq> None \<and> \<not> key_len < 4 \<and> \<not> key_len > 255"

abbreviation shard_dev :: "kv_engine \<Rightarrow> byte list \<Rightarrow> size_t \<Rightarrow> kv_device_ctx_t" where
  "shard_dev e key key_len \<equiv> devices e ! shard_index e key key_len"

abbreviation api_key :: "byte list option \<Rightarrow> size_t \<Rightarrow> kvs_key" where
  "api_key key key_len \<equiv> \<lparr>kk_buf = key, kk_length = ucast key_len\<rparr>"

definition accepted_key :: "kv_engine \<Rightarrow> byte list option \<Rightarrow> size_t \<Rightarrow> bool" where
  "accepted_key e key key_len \<longleftrightarrow>
     initialized e \<and> key_ok key key_len \<and> healthy (shard_dev e (the key) key_len)"

text \<open>The device array has all its slots, and at least one of them is in use.\<close>

definition devices_ok :: "kv_engine \<Rightarrow> bool" where
  "devices_ok e \<longleftrightarrow> length (devices e) = KV_MAX_DEVICES \<and> 0 < unat (num_devices e) \<and>
     unat (num_devices e) \<le> KV_MAX_DEVICES"

lemma accepted_keyD:
  assumes "accepted_key e key key_len"
  obtains k where "key = Some k" "initialized e" "\<not> key_len < 4" "\<not> key_len > 255" "key_len \<noteq> 0"
    "healthy (shard_dev e k key_len)"
proof -
  have "key_len \<noteq> 0" using assms by (auto simp: accepted_key_def key_ok_def word_less_nat_alt)
  then show ?thesis using assms that by (auto simp: accepted_key_def key_ok_def)
qed

lemma health_success [simp]: "check_device_health d = KV_SUCCESS \<longleftrightarrow> healthy d"
  by (simp add: check_device_health_def)

lemma update_stats_frame [simp]:
  "devices (update_stats e a b c d n) = devices e"
  "num_devices (update_stats e a b c d n) = num_devices e"
  "initialized (update_stats e a b c d n) = initialized e"
  "key_table (update_stats e a b c d n) = key_table e"
  "buffer_pool (update_stats e a b c d n) = buffer_pool e"
  "mem_pool (update_stats e a b c d n) = mem_pool e"
  "workers (update_stats e a b c d n) = workers e"
  "health_probe (update_stats e a b c d n) = health_probe e"
  "en_addr (update_stats e a b c d n) = en_addr e"
  "config_device_path (update_stats e a b c d n) = config_device_path e"
  "config_emul_file (update_stats e a b c d n) = config_emul_file e"
  by (simp_all add: update_stats_def Let_def)

section \<open>Store\<close>

abbreviation api_value :: "bool \<Rightarrow> addr \<times> byte list \<Rightarrow> size_t \<Rightarrow> kvs_value" where
  "api_value bounce val val_len \<equiv>
     \<lparr>kv_buf = Some (if bounce then take (unat val_len) (snd val) else snd val),
      kv_length = ucast val_len, actual_value_size = ucast val_len, kv_offset = 0\<rparr>"

abbreviation store_type :: "bool \<Rightarrow> kvs_store_type" where
  "store_type overwrite \<equiv> (if overwrite then KVS_STORE_POST else KVS_STORE_NOOVERWRITE)"

lemma store_rejected:
  assumes "engine s = Some e" "\<not> accepted_key e key key_len \<or> fst val = NULL"
  shows "snd (kv_engine_store ops key key_len val val_len ow s) = s"
    "fst (kv_engine_store ops key key_len val val_len ow s) =
       (if initialized e \<and> key_ok key key_len \<and> fst val \<noteq> NULL
        then KV_ERR_DEVICE_DEGRADED else KV_ERR_INVALID_PARAM)"
  using assms
  by (auto simp: kv_engine_store_def accepted_key_def key_ok_def Let_def check_device_health_def)

lemma store_run:
  assumes "engine s = Some e" "accepted_key e key key_len" "fst val \<noteq> NULL"
    and "(if bounce then dma_alloc val_len (heap s) else (NULL, heap s)) = (buf, m1)"
    and "bounce = (\<not> IS_DMA_ALIGNED (fst val))"
    and "i = shard_index e (the key) key_len"
    and "note_key (key_table e) key (ucast key_len) m1 = (tab, m2)"
    and "op_store_kvp ops (hnd (dc_keyspace (devices e ! i))) (api_key key key_len)
           (api_value bounce val val_len) (store_type ow) (lib s) = (r, w1)"
  shows "kv_engine_store ops key key_len val val_len ow s =
    (if bounce \<and> buf = NULL then (KV_ERR_NO_MEMORY, s\<lparr>heap := m1\<rparr>)
     else (map_kvs_result r,
           \<lparr>engine = Some (update_stats ((set_dev e i r)\<lparr>key_table := tab\<rparr>)
               False True False (r = KVS_SUCCESS) val_len),
            heap = (if buf \<noteq> NULL then dma_free buf m2 else m2), lib = w1\<rparr>))"
proof -
  from assms(2) obtain k where k: "key = Some k" "initialized e" "\<not> key_len < 4" "\<not> key_len > 255"
      "healthy (shard_dev e k key_len)"
    by (rule accepted_keyD)
  show ?thesis
  proof (cases "IS_DMA_ALIGNED (fst val)")
    case True
    then have "buf = NULL" "m1 = heap s" "\<not> bounce" using assms(4,5) by auto
    then show ?thesis
      using True assms(1,3,7,8) k unfolding assms(6) kv_engine_store_def by (simp add: Let_def)
  next
    case False
    then have "dma_alloc val_len (heap s) = (buf, m1)" "bounce" using assms(4,5) by auto
    then show ?thesis
      using False assms(1,3,7,8) k unfolding assms(6) kv_engine_store_def
      by (cases "buf = NULL") (simp_all add: Let_def)
  qed
qed

section \<open>Delete and exists\<close>

lemma delete_rejected:
  assumes "engine s = Some e" "\<not> accepted_key e key key_len"
  shows "kv_engine_delete ops key key_len s =
    (if initialized e \<and> key_ok key key_len then KV_ERR_DEVICE_DEGRADED else KV_ERR_INVALID_PARAM, s)"
  using assms
  by (auto simp: kv_engine_delete_def accepted_key_def key_ok_def Let_def check_device_health_def)

lemma delete_run:
  assumes "engine s = Some e" "accepted_key e key key_len" "i = shard_index e (the key) key_len"
    and "op_delete_kvp ops (hnd (dc_keyspace (devices e ! i))) (api_key key key_len) False (lib s) = (r, w1)"
    and "delete_key (key_table e) key (ucast key_len) (heap s) = (tab, m1)"
  shows "kv_engine_delete ops key key_len s =
    (map_kvs_result r,
     \<lparr>engine = Some (update_stats ((set_dev e i r)\<lparr>key_table := tab\<rparr>)
         False False True (r = KVS_SUCCESS) 0), heap = m1, lib = w1\<rparr>)"
  using assms
  by (auto simp: kv_engine_delete_def accepted_key_def key_ok_def Let_def)

lemma exists_rejected:
  assumes "engine s = Some e" "\<not> accepted_key e key key_len \<or> \<not> out"
  shows "kv_engine_exists ops key key_len out s =
    (if initialized e \<and> key_ok key key_len \<and> out then KV_ERR_DEVICE_DEGRADED
     else KV_ERR_INVALID_PARAM, None, s)"
  using assms
  by (auto simp: kv_engine_exists_def accepted_key_def key_ok_def Let_def check_device_health_def)

lemma exists_run:
  assumes "engine s = Some e" "accepted_key e key key_len" "i = shard_index e (the key) key_len"
    and "op_exist_kv_pair ops (hnd (dc_keyspace (devices e ! i))) (api_key key key_len) (lib s) = (r, b, w1)"
  shows "kv_engine_exists ops key key_len True s =
    (if r = KVS_SUCCESS then KV_SUCCESS else map_kvs_result r,
     if r = KVS_SUCCESS then Some (b \<noteq> 0 \<and> key_in_table (key_table e) key (ucast key_len)) else None,
     s\<lparr>engine := Some (set_dev e i r), lib := w1\<rparr>)"
  using assms
  by (auto simp: kv_engine_exists_def accepted_key_def key_ok_def Let_def)

section \<open>Retrieve\<close>

abbreviation retrieve_buffer :: kvs_value where
  "retrieve_buffer \<equiv> \<lparr>kv_buf = Some [], kv_length = of_nat KV_ENGINE_RETRIEVE_SIZE,
     actual_value_size = 0, kv_offset = 0\<rparr>"

abbreviation retry_buffer :: "kvs_value \<Rightarrow> kvs_value" where
  "retry_buffer v \<equiv> v\<lparr>kv_buf := Some [], kv_length := actual_value_size v, kv_offset := 0\<rparr>"

lemma retrieve_rejected:
  assumes "engine s = Some e" "\<not> accepted_key e key key_len \<or> \<not> outs"
  shows "kv_engine_retrieve ops key key_len outs del s =
    (if initialized e \<and> key_ok key key_len \<and> outs then KV_ERR_DEVICE_DEGRADED
     else KV_ERR_INVALID_PARAM, None, s)"
  using assms
  by (auto simp: kv_engine_retrieve_def accepted_key_def key_ok_def Let_def check_device_health_def)

lemma first_buffer_devices:
  "first_buffer e m = (buf, fp, e1, m1) \<Longrightarrow> devices e1 = devices e"
  by (auto simp: first_buffer_def Let_def split: option.splits prod.splits if_splits)

lemma drop_buffer_devices:
  "drop_buffer fp buf e m = (e1, m1) \<Longrightarrow> devices e1 = devices e"
  by (auto simp: drop_buffer_def split: if_splits)

lemma retrieve_run:
  assumes "engine s = Some e" "accepted_key e key key_len" "i = shard_index e (the key) key_len"
    and fb: "first_buffer e (heap s) = (buf, fp, e1, m1)"
    and "op_retrieve_kvp ops (hnd (dc_keyspace (devices e ! i))) (api_key key key_len) del
           retrieve_buffer (lib s) = (r, v, w1)"
  shows "kv_engine_retrieve ops key key_len True del s =
    (if buf = NULL then (KV_ERR_NO_MEMORY, None, s\<lparr>engine := Some e1, heap := m1\<rparr>)
     else if r = KVS_ERR_BUFFER_SMALL then
       (let (e2, m2) = drop_buffer fp buf e1 m1;
            (buf2, m3) = dma_alloc (ucast (actual_value_size v)) m2 in
        if buf2 = NULL then (KV_ERR_NO_MEMORY, None, \<lparr>engine = Some e2, heap = m3, lib = w1\<rparr>)
        else (let (r2, v2, w2) = op_retrieve_kvp ops (hnd (dc_keyspace (devices e ! i)))
                    (api_key key key_len) del (retry_buffer v) w1
              in retrieve_finish i key key_len del r2 v2 buf2 False e2 m3 w2))
     else retrieve_finish i key key_len del r v buf fp e1 m1 w1)"
proof -
  from assms(2) obtain k where k: "key = Some k" "initialized e" "\<not> key_len < 4" "\<not> key_len > 255"
      "key_len \<noteq> 0" "healthy (shard_dev e k key_len)"
    by (rule accepted_keyD)
  show ?thesis
    using assms(1,4,5) k(2-6) unfolding kv_engine_retrieve_def assms(3) k(1) option.sel
    by (simp add: Let_def)
qed

end
