(* ===== verification/Engine_Memory.thy ===== *)
theory Engine_Memory
  imports Engine_Cases
begin

text \<open>
  Heap ownership of an engine: which blocks belong to it, and that no operation leaks a block or
  frees one it does not own.  The heap splits into the blocks of the engine (with the entries of
  its key table), buffers that clients hold, blocks that an operation in progress has allocated,
  and the rest of the process, which nothing here may touch.
\<close>

section \<open>Owned blocks\<close>

text \<open>
  \<open>owned B t m\<close>: the blocks in \<open>B\<close> are live and different from each other and from the entries
  of the table; \<open>outside B t m\<close> is the heap without them.
\<close>

definition owned :: "addr list \<Rightarrow> hash_table_t \<Rightarrow> mem \<Rightarrow> bool" where
  "owned B t m \<longleftrightarrow> distinct B \<and> NULL \<notin> set B \<and> table_inv t m \<and> (\<forall>x\<in>set B. kt.rest t m x \<noteq> None)"

definition outside :: "addr list \<Rightarrow> hash_table_t \<Rightarrow> mem \<Rightarrow> addr \<Rightarrow> nat option" where
  "outside B t m = (\<lambda>x. if x \<in> set B then None else kt.rest t m x)"

lemma owned_mset:
  assumes "mset B' = mset B"
  shows "owned B' t m = owned B t m" "outside B' t m = outside B t m"
proof -
  have "set B' = set B" "distinct B' = distinct B"
    using assms by (metis set_mset_mset, metis mset_eq_imp_distinct_iff)
  then show "owned B' t m = owned B t m" "outside B' t m = outside B t m"
    by (simp_all add: owned_def outside_def)
qed

lemma owned_table:
  assumes "owned B t m" "table_inv t' m'" "kt.rest t' m' = kt.rest t m"
  shows "owned B t' m' \<and> outside B t' m' = outside B t m"
  using assms(1,2) unfolding owned_def outside_def assms(3) by simp

lemma owned_alloc:
  assumes o: "owned B t m" and law: "alloc_law n m a m'" and nn: "a \<noteq> NULL"
  shows "owned (a # B) t m'" "outside (a # B) t m' = outside B t m" "a \<notin> set B"
proof -
  note l = alloc_law_some [OF law nn]
  have ti: "table_inv t m" using o by (simp add: owned_def)
  have nt: "a \<notin> table_cells t" using kt.inv_cells [OF ti, of a] l by auto
  have ti': "table_inv t m'" by (rule kt.inv_frame [OF ti]) (use l nt in auto)
  have r: "kt.rest t m' = (kt.rest t m)(a := Some n)" "kt.rest t m a = None"
    using l nt by (auto simp: kt.rest_def)
  show nb: "a \<notin> set B" using o r(2) by (auto simp: owned_def)
  show "owned (a # B) t m'" using o ti' r nb nn by (simp add: owned_def)
  show "outside (a # B) t m' = outside B t m" using r nb by (auto simp: outside_def)
qed

lemma owned_alloc_null:
  assumes "owned B t m" "alloc_law n m NULL m'"
  shows "owned B t m' \<and> outside B t m' = outside B t m"
proof -
  note l = alloc_law_null [OF assms(2)]
  have ti: "table_inv t m" using assms(1) by (simp add: owned_def)
  have "table_inv t m'" by (rule kt.inv_frame [OF ti]) (use l in auto)
  then show ?thesis using l by (intro owned_table [OF assms(1)]) (auto simp: kt.rest_def)
qed

lemma owned_free:
  assumes "owned (a # B) t m"
  shows "owned B t (mem_free a m)" "outside B t (mem_free a m) = outside (a # B) t m"
    "bad_free (mem_free a m) = bad_free m"
proof -
  have ti: "table_inv t m" and a: "a \<noteq> NULL" "kt.rest t m a \<noteq> None" "a \<notin> set B"
    using assms by (auto simp: owned_def)
  have na: "a \<notin> table_cells t" "live m a \<noteq> None"
    using a(2) by (auto simp: kt.rest_def split: if_splits)
  have l: "live (mem_free a m) = (live m)(a := None)" using na a(1) by (auto simp: mem_free_def)
  have r: "kt.rest t (mem_free a m) = (kt.rest t m)(a := None)"
    using l na by (auto simp: kt.rest_def)
  have ti': "table_inv t (mem_free a m)" by (rule kt.inv_frame [OF ti]) (use l na in auto)
  show "bad_free (mem_free a m) = bad_free m" using na by (auto simp: mem_free_def)
  show "owned B t (mem_free a m)" using assms ti' r a(3) by (auto simp: owned_def)
  show "outside B t (mem_free a m) = outside (a # B) t m" using r by (auto simp: outside_def)
qed

section \<open>The blocks of an engine\<close>

definition opt_cell :: "addr \<Rightarrow> addr list" where
  "opt_cell a = (if a = NULL then [] else [a])"

definition path_cells :: "kv_device_ctx_t list \<Rightarrow> addr list" where
  "path_cells ctxs = concat (map (\<lambda>c. opt_cell (fst (dc_path c))) ctxs)"

definition probe_cells :: "health_probe_t option \<Rightarrow> addr list" where
  "probe_cells hp = (case hp of None \<Rightarrow> [] | Some p \<Rightarrow> [hp_addr p])"

definition ctx_cells :: "async_context_t \<Rightarrow> addr list" where
  "ctx_cells c = fst (ac_key_buffer c) # opt_cell (fst (ac_value_buffer c)) @ [ac_addr c]"

definition job_cells :: "(addr \<times> async_context_t) list \<Rightarrow> addr list" where
  "job_cells xs = concat (map (\<lambda>(a, c). ctx_cells c @ [a]) xs)"

definition worker_cells :: "async_context_t thread_pool_t option \<Rightarrow> addr list" where
  "worker_cells tp = (case tp of None \<Rightarrow> [] | Some p \<Rightarrow>
     job_cells (queue_items (tp_queue p)) @ [tp_threads p, tp_addr p])"

definition buffer_cells :: "dma_pool_t option \<Rightarrow> addr list" where
  "buffer_cells bp = (case bp of None \<Rightarrow> [] | Some p \<Rightarrow>
     pool_owned p @ [dp_all_buffers_addr p, dp_free_list_addr p, dp_addr p])"

definition mempool_cells :: "memory_pool_t option \<Rightarrow> addr list" where
  "mempool_cells mp = (case mp of None \<Rightarrow> [] | Some p \<Rightarrow> [mp_base p, mp_addr p])"

text \<open>All blocks but the entries of the key table, in the order in which cleanup frees them.\<close>

definition fixed_blocks :: "kv_engine \<Rightarrow> addr list" where
  "fixed_blocks e =
     probe_cells (health_probe e) @ worker_cells (workers e) @ buffer_cells (buffer_pool e) @
     mempool_cells (mem_pool e) @ path_cells (take (unat (num_devices e)) (devices e)) @
     opt_cell (fst (config_device_path e)) @ opt_cell (fst (config_emul_file e)) @ [en_addr e]"

text \<open>
  The queue of the workers is a linked list of well-formed contexts: the key buffer has the
  length it claims, and a retrieve has a callback, without which nobody would learn of its
  buffer.
\<close>

definition ctx_fits :: "async_context_t \<Rightarrow> bool" where
  "ctx_fits c \<longleftrightarrow> unat (ac_key_len c) \<le> length (snd (ac_key_buffer c))"

definition ctx_ok :: "async_context_t \<Rightarrow> bool" where
  "ctx_ok c \<longleftrightarrow> ctx_fits c \<and> (ac_op_type c = ASYNC_OP_RETRIEVE \<longrightarrow> ac_retrieve_callback c \<noteq> None)"

definition queue_ok :: "async_context_t thread_pool_t option \<Rightarrow> bool" where
  "queue_ok tp = (case tp of None \<Rightarrow> True | Some p \<Rightarrow>
     queue_repr (tp_queue p) (queue_items (tp_queue p)) \<and>
     (\<forall>(a, c)\<in>set (queue_items (tp_queue p)). ctx_ok c))"

text \<open>
  Buffers in the hands of clients: those of the pool are blocks of the engine anyway; the
  others are blocks of their own.  The free list of the pool and the client's buffers add up
  to what the pool owns.
\<close>

definition pool_blocks_of :: "kv_engine \<Rightarrow> addr list" where
  "pool_blocks_of e = (case buffer_pool e of None \<Rightarrow> [] | Some p \<Rightarrow> pool_owned p)"

definition heap_held :: "kv_engine \<Rightarrow> addr list \<Rightarrow> addr list" where
  "heap_held e hs = filter (\<lambda>b. b \<notin> set (pool_blocks_of e)) hs"

definition pool_ok :: "dma_pool_t option \<Rightarrow> addr list \<Rightarrow> bool" where
  "pool_ok bp hs = (case bp of None \<Rightarrow> True | Some p \<Rightarrow>
     dma_pool_inv p \<and>
     mset (pool_avail p) + mset (filter (\<lambda>b. b \<in> set (pool_owned p)) hs) = mset (pool_owned p))"

text \<open>
  The invariant: \<open>X\<close> are the blocks of an operation in progress, \<open>hs\<close> the buffers of clients,
  and \<open>F\<close> the rest of the heap.
\<close>

definition heap_ok ::
  "addr list \<Rightarrow> kv_engine \<Rightarrow> mem \<Rightarrow> addr list \<Rightarrow> (addr \<Rightarrow> nat option) \<Rightarrow> bool" where
  "heap_ok X e m hs F \<longleftrightarrow> \<not> bad_free m \<and>
     owned (X @ heap_held e hs @ fixed_blocks e) (key_table e) m \<and>
     outside (X @ heap_held e hs @ fixed_blocks e) (key_table e) m = F \<and>
     queue_ok (workers e) \<and> pool_ok (buffer_pool e) hs"

lemma heap_okD:
  assumes "heap_ok X e m hs F"
  shows "table_inv (key_table e) m" "owned (X @ heap_held e hs @ fixed_blocks e) (key_table e) m"
    "\<not> bad_free m" "queue_ok (workers e)" "pool_ok (buffer_pool e) hs"
  using assms by (simp_all add: heap_ok_def owned_def)

text \<open>Blocks may move between an operation and the engine.\<close>

lemma heap_ok_move:
  assumes "heap_ok X e m hs F" "mset (X' @ fixed_blocks e') = mset (X @ fixed_blocks e)"
    "key_table e' = key_table e" "buffer_pool e' = buffer_pool e" "queue_ok (workers e')"
  shows "heap_ok X' e' m hs F"
proof -
  have h: "heap_held e' hs = heap_held e hs" using assms(4) by (simp add: heap_held_def pool_blocks_of_def)
  have "mset (X' @ heap_held e hs @ fixed_blocks e') = mset (X @ heap_held e hs @ fixed_blocks e)"
    using assms(2) by simp
  from owned_mset [OF this] show ?thesis
    using assms(1,3,4,5) h by (simp add: heap_ok_def)
qed

lemma heap_ok_frame:
  assumes "heap_ok X e m hs F" "fixed_blocks e' = fixed_blocks e" "table_inv (key_table e') m'"
    "kt.rest (key_table e') m' = kt.rest (key_table e) m" "bad_free m' = bad_free m"
    "workers e' = workers e" "buffer_pool e' = buffer_pool e"
  shows "heap_ok X e' m' hs F"
proof -
  have h: "heap_held e' hs = heap_held e hs" using assms(7) by (simp add: heap_held_def pool_blocks_of_def)
  show ?thesis
    using owned_table [OF heap_okD(2) [OF assms(1)] assms(3,4)] assms(1,2,5,6,7) h
    by (simp add: heap_ok_def)
qed

lemma heap_ok_alloc:
  assumes "heap_ok X e m hs F" "alloc_law n m a m'" "a \<noteq> NULL"
  shows "heap_ok (a # X) e m' hs F" "a \<notin> set X" "a \<notin> set (heap_held e hs)" "a \<notin> set (fixed_blocks e)"
proof -
  note o = owned_alloc [OF heap_okD(2) [OF assms(1)] assms(2,3)]
  show "heap_ok (a # X) e m' hs F"
    using assms(1,2) o by (simp add: heap_ok_def alloc_law_def)
  show "a \<notin> set X" "a \<notin> set (heap_held e hs)" "a \<notin> set (fixed_blocks e)" using o(3) by simp_all
qed

lemma heap_ok_alloc_null:
  assumes "heap_ok X e m hs F" "alloc_law n m NULL m'"
  shows "heap_ok X e m' hs F"
  using owned_alloc_null [OF heap_okD(2) [OF assms(1)] assms(2)] assms
  by (simp add: heap_ok_def alloc_law_def)

lemma heap_ok_free:
  assumes "heap_ok (a # X) e m hs F"
  shows "heap_ok X e (mem_free a m) hs F"
  using owned_free [of a "X @ heap_held e hs @ fixed_blocks e" "key_table e" m] assms
  by (simp add: heap_ok_def)

lemma heap_ok_free_opt:
  assumes "heap_ok (opt_cell a @ X) e m hs F"
  shows "heap_ok X e (mem_free a m) hs F"
  using assms heap_ok_free [of a X e m hs F] by (cases "a = NULL") (simp_all add: opt_cell_def)

section \<open>Updates that keep the blocks\<close>

lemma path_cells_record [simp]:
  "path_cells (take n ((devices e)[i := device_record_result (devices e ! i) r])) =
     path_cells (take n (devices e))"
proof -
  have "map (\<lambda>c. opt_cell (fst (dc_path c))) ((devices e)[i := device_record_result (devices e ! i) r]) =
      map (\<lambda>c. opt_cell (fst (dc_path c))) (devices e)"
    by (cases "i < length (devices e)")
      (simp_all add: map_update list_update_same_conv list_update_beyond)
  then show ?thesis unfolding path_cells_def take_map [symmetric] by simp
qed

lemma fixed_blocks_set_dev [simp]:
  "fixed_blocks (set_dev e i r) = fixed_blocks e"
  by (simp add: fixed_blocks_def)

lemma fixed_blocks_update_stats [simp]:
  "fixed_blocks (update_stats e a b c d n) = fixed_blocks e"
  by (simp add: fixed_blocks_def)

lemma fixed_blocks_key_table [simp]:
  "fixed_blocks (e\<lparr>key_table := t\<rparr>) = fixed_blocks e"
  by (simp add: fixed_blocks_def)

section \<open>Keys as the table sees them\<close>

lemma key_ok_bytes:
  assumes "key_ok key key_len" "key = Some k" "unat key_len \<le> length k"
  shows "valid_key (take (unat key_len) k)" "of_nat (length (take (unat key_len) k)) = (ucast key_len :: u32)"
proof -
  have b: "4 \<le> unat key_len" "unat key_len \<le> 255"
    using assms(1) by (auto simp: key_ok_def word_less_nat_alt)
  then show "valid_key (take (unat key_len) k)" using assms(3) by (simp add: valid_key_def)
  show "of_nat (length (take (unat key_len) k)) = (ucast key_len :: u32)"
    using assms(3) by (simp add: min_def word_unat_eq_iff unat_of_nat unsigned_ucast_eq take_bit_eq_mod)
qed

lemma table_bytes:
  assumes "key_ok key key_len" "key = Some k" "unat key_len \<le> length k"
  shows "add_key t key (ucast key_len) m = table_add t (take (unat key_len) k) m"
    "key_in_table t key (ucast key_len) = table_isin t (take (unat key_len) k)"
    "delete_key t key (ucast key_len) m = table_del t (take (unat key_len) k) m"
proof -
  note b = key_ok_bytes [OF assms]
  have u: "unat (ucast key_len :: u32) = unat key_len"
    using valid_key_len(1) [OF b(1)] b(2) assms(3) by simp
  have f: "hash_find t k (ucast key_len) =
      hash_find t (take (unat key_len) k) (of_nat (length (take (unat key_len) k)))"
    unfolding b(2) hash_find_def u by simp
  have tk: "take (unat (ucast key_len :: u32)) (take (unat key_len) k) = take (unat key_len) k"
    "take (unat (ucast key_len :: u32)) k = take (unat key_len) k"
    unfolding u by simp_all
  show "add_key t key (ucast key_len) m = table_add t (take (unat key_len) k) m"
    "key_in_table t key (ucast key_len) = table_isin t (take (unat key_len) k)"
    "delete_key t key (ucast key_len) m = table_del t (take (unat key_len) k) m"
    unfolding b(2) assms(2) add_key_def key_in_table_def delete_key_def option.case
      f [unfolded b(2)] tk by simp_all
qed

lemma note_key_ok:
  assumes "key_ok key key_len" "key = Some k" "unat key_len \<le> length k"
    "table_inv t m" "note_key t key (ucast key_len) m = (t', m')"
  shows "table_inv t' m'" "kt.rest t' m' = kt.rest t m" "bad_free m' = bad_free m"
    "table_keys t' = insert (take (unat key_len) k) (table_keys t) \<or>
     table_keys t' = table_keys t \<and> take (unat key_len) k \<notin> table_keys t"
proof -
  note v = key_ok_bytes(1) [OF assms(1-3)] and b = table_bytes [OF assms(1-3)]
  have "table_inv t' m' \<and> kt.rest t' m' = kt.rest t m \<and> bad_free m' = bad_free m \<and>
    (table_keys t' = insert (take (unat key_len) k) (table_keys t) \<or>
     table_keys t' = table_keys t \<and> take (unat key_len) k \<notin> table_keys t)"
  proof (cases "key_in_table t key (ucast key_len)")
    case True
    then have "take (unat key_len) k \<in> table_keys t" using kt.isin_iff [OF assms(4) v] b(2) by simp
    then show ?thesis using True assms(4,5) by (auto simp: note_key_def)
  next
    case False
    then have "table_add t (take (unat key_len) k) m = (t', m')"
      using assms(5) b(1) by (simp add: note_key_def)
    then show ?thesis by (rule kt.add_ok [OF assms(4) v])
  qed
  then show "table_inv t' m'" "kt.rest t' m' = kt.rest t m" "bad_free m' = bad_free m"
    "table_keys t' = insert (take (unat key_len) k) (table_keys t) \<or>
     table_keys t' = table_keys t \<and> take (unat key_len) k \<notin> table_keys t"
    by blast+
qed

section \<open>Store, delete and exists\<close>

lemma store_heap:
  assumes e: "engine s = Some e" "heap_ok X e (heap s) hs F"
    and k: "\<And>k. key = Some k \<Longrightarrow> unat key_len \<le> length k"
    and st: "kv_engine_store ops key key_len val val_len ow s = (res, s')"
  shows "\<exists>e'. engine s' = Some e' \<and> heap_ok X e' (heap s') hs F \<and> workers e' = workers e"
proof (cases "accepted_key e key key_len \<and> fst val \<noteq> NULL")
  case False
  then have "s' = s" using store_rejected(1) [OF e(1), of key key_len val ops val_len ow] st by auto
  then show ?thesis using e by simp
next
  case True
  then have ko: "key_ok key key_len" by (simp add: accepted_key_def)
  then obtain kb where kb: "key = Some kb" by (auto simp: key_ok_def)
  define bounce i where "bounce = (\<not> IS_DMA_ALIGNED (fst val))" and "i = shard_index e (the key) key_len"
  obtain buf m1 where al: "(if bounce then dma_alloc val_len (heap s) else (NULL, heap s)) = (buf, m1)"
    by fastforce
  obtain tab m2 where nk: "note_key (key_table e) key (ucast key_len) m1 = (tab, m2)" by fastforce
  obtain r w1 where op: "op_store_kvp ops (hnd (dc_keyspace (devices e ! i))) (api_key key key_len)
      (api_value bounce val val_len) (store_type ow) (lib s) = (r, w1)" by fastforce
  note run = store_run [OF e(1) conjunct1 [OF True] conjunct2 [OF True] al bounce_def i_def nk op]
  have law: "alloc_law (unat val_len) (heap s) buf m1"
    using al dma_alloc_law by (auto simp: alloc_law_def split: if_splits)
  have h1: "heap_ok (opt_cell buf @ X) e m1 hs F"
    using heap_ok_alloc(1) [OF e(2) law] heap_ok_alloc_null [OF e(2)] law
    by (cases "buf = NULL") (simp_all add: opt_cell_def)
  show ?thesis
  proof (cases "bounce \<and> buf = NULL")
    case True
    then have "s' = s\<lparr>heap := m1\<rparr>" using run st by simp
    then show ?thesis using h1 True e(1) by (simp add: opt_cell_def)
  next
    case False
    let ?e = "update_stats ((set_dev e i r)\<lparr>key_table := tab\<rparr>) False True False (r = KVS_SUCCESS) val_len"
    have s': "s' = \<lparr>engine = Some ?e, heap = if buf \<noteq> NULL then dma_free buf m2 else m2, lib = w1\<rparr>"
      using run st False by auto
    have "heap_ok (opt_cell buf @ X) ?e m2 hs F"
      by (rule heap_ok_frame [OF h1])
        (use note_key_ok [OF ko kb k [OF kb] heap_okD(1) [OF h1] nk] in simp_all)
    then have "heap_ok X ?e (mem_free buf m2) hs F" by (rule heap_ok_free_opt)
    then show ?thesis using s' by (cases "buf = NULL") (simp_all add: dma_free_def)
  qed
qed

lemma delete_heap:
  assumes e: "engine s = Some e" "heap_ok X e (heap s) hs F"
    and k: "\<And>k. key = Some k \<Longrightarrow> unat key_len \<le> length k"
    and st: "kv_engine_delete ops key key_len s = (res, s')"
  shows "\<exists>e'. engine s' = Some e' \<and> heap_ok X e' (heap s') hs F \<and> workers e' = workers e"
proof (cases "accepted_key e key key_len")
  case False
  then show ?thesis using delete_rejected [OF e(1) False] st e by auto
next
  case True
  then have ko: "key_ok key key_len" by (simp add: accepted_key_def)
  then obtain kb where kb: "key = Some kb" by (auto simp: key_ok_def)
  define i where "i = shard_index e (the key) key_len"
  obtain r w1 where op: "op_delete_kvp ops (hnd (dc_keyspace (devices e ! i))) (api_key key key_len)
      False (lib s) = (r, w1)" by fastforce
  obtain tab m1 where dk: "delete_key (key_table e) key (ucast key_len) (heap s) = (tab, m1)" by fastforce
  have d: "table_inv tab m1 \<and> kt.rest tab m1 = kt.rest (key_table e) (heap s) \<and>
      bad_free m1 = bad_free (heap s) \<and> table_keys tab = table_keys (key_table e) - {take (unat key_len) kb}"
    using dk table_bytes(3) [OF ko kb k [OF kb]]
    by (intro kt.del_ok [OF heap_okD(1) [OF e(2)] key_ok_bytes(1) [OF ko kb k [OF kb]]]) simp
  let ?e = "update_stats ((set_dev e i r)\<lparr>key_table := tab\<rparr>) False False True (r = KVS_SUCCESS) 0"
  have s': "s' = \<lparr>engine = Some ?e, heap = m1, lib = w1\<rparr>"
    using delete_run [OF e(1) True i_def op dk] st by simp
  have "heap_ok X ?e m1 hs F"
    by (rule heap_ok_frame [OF e(2)]) (use d in simp_all)
  then show ?thesis using s' by simp
qed

lemma exists_heap:
  assumes e: "engine s = Some e" "heap_ok X e (heap s) hs F"
    and st: "kv_engine_exists ops key key_len out s = (res, b, s')"
  shows "\<exists>e'. engine s' = Some e' \<and> heap_ok X e' (heap s') hs F \<and> workers e' = workers e"
proof (cases "accepted_key e key key_len \<and> out")
  case False
  then show ?thesis using exists_rejected [OF e(1), of key key_len out ops] st e by auto
next
  case True
  define i where "i = shard_index e (the key) key_len"
  obtain r b' w1 where op: "op_exist_kv_pair ops (hnd (dc_keyspace (devices e ! i))) (api_key key key_len)
      (lib s) = (r, b', w1)" by (metis prod_cases3)
  have s': "s' = s\<lparr>engine := Some (set_dev e i r), lib := w1\<rparr>"
    using exists_run [OF e(1) conjunct1 [OF True] i_def op] st True by (auto split: if_splits)
  have "heap_ok X (set_dev e i r) (heap s) hs F"
    by (rule heap_ok_frame [OF e(2)]) (use heap_okD(1) [OF e(2)] in simp_all)
  then show ?thesis using s' by simp
qed

section \<open>Buffers\<close>

text \<open>Taking a buffer, from the pool or from the heap, and giving it back.\<close>

lemma dma_pool_owns_iff:
  assumes "dma_pool_inv p"
  shows "dma_pool_owns (Some p) buf \<longleftrightarrow> buf \<in> set (pool_owned p)"
proof -
  have "Some (the x) = x" if "x \<in> set (all_buffers p)" for x
    using assms that by (cases x) (auto simp: dma_pool_inv_def)
  then have "map (Some \<circ> the) (all_buffers p) = all_buffers p" by (simp add: map_idI)
  then have a: "all_buffers p = map Some (pool_owned p)" by (simp add: pool_owned_def)
  have l: "length (pool_owned p) = unat (dp_count p)" using assms by (rule length_pool_owned)
  have "NULL \<notin> set (pool_owned p)" using assms by (simp add: dma_pool_inv_def)
  then show ?thesis
    unfolding dma_pool_owns_def option.case a l [symmetric] by (auto simp: in_set_conv_nth)
qed

lemma fixed_blocks_pool:
  assumes "buffer_cells bp = buffer_cells (buffer_pool e)"
  shows "fixed_blocks (e\<lparr>buffer_pool := bp\<rparr>) = fixed_blocks e"
  using assms by (simp add: fixed_blocks_def)

lemma heap_ok_pool:
  assumes "heap_ok X e m hs F" "buffer_pool e = Some p" "pool_owned p' = pool_owned p"
    "buffer_cells (Some p') = buffer_cells (Some p)" "pool_ok (Some p') hs'"
    "filter (\<lambda>b. b \<notin> set (pool_owned p)) hs' = filter (\<lambda>b. b \<notin> set (pool_owned p)) hs"
  shows "heap_ok X (e\<lparr>buffer_pool := Some p'\<rparr>) m hs' F"
proof -
  have "heap_held (e\<lparr>buffer_pool := Some p'\<rparr>) hs' = heap_held e hs"
    using assms(2,3,6) by (simp add: heap_held_def pool_blocks_of_def)
  moreover have "fixed_blocks (e\<lparr>buffer_pool := Some p'\<rparr>) = fixed_blocks e"
    by (rule fixed_blocks_pool) (simp add: assms(2,4))
  ultimately show ?thesis using assms(1,5) by (simp add: heap_ok_def)
qed

lemma acquire_heap:
  assumes h: "heap_ok X e m hs F" and p: "buffer_pool e = Some p"
    and ac: "dma_pool_acquire p = (buf, p')"
  shows "if buf = NULL then p' = p
         else heap_ok X (e\<lparr>buffer_pool := Some p'\<rparr>) m (buf # hs) F \<and> buf \<in> set (pool_owned p')"
proof -
  have inv: "dma_pool_inv p"
    and bal: "mset (pool_avail p) + mset (filter (\<lambda>b. b \<in> set (pool_owned p)) hs) = mset (pool_owned p)"
    using heap_okD(5) [OF h] p by (simp_all add: pool_ok_def)
  show ?thesis
  proof (cases "pool_avail p")
    case Nil
    then show ?thesis using dma.acquire_empty [OF inv] ac by simp
  next
    case (Cons b bs)
    note a = acquire_some [OF inv Cons]
    have p': "buf = b" "p' = p\<lparr>top := top p - 1\<rparr>" using a(1) ac by auto
    have ow: "pool_owned p' = pool_owned p" by (simp add: p' pool_owned_def)
    have b: "b \<in> set (pool_owned p)" using bal Cons by (metis list.set_intros(1) mset_subset_eqD
          mset_subset_eq_add_left set_mset_mset)
    then have nn: "b \<noteq> NULL" using inv by (auto simp: dma_pool_inv_def)
    have "pool_ok (Some p') (b # hs)"
      using a(2,3) bal b Cons ow by (simp add: pool_ok_def p'(2))
    then have "heap_ok X (e\<lparr>buffer_pool := Some p'\<rparr>) m (b # hs) F"
      by (intro heap_ok_pool [OF h p ow]) (use b in \<open>simp_all add: buffer_cells_def pool_owned_def p'(2)\<close>)
    then show ?thesis using p'(1) nn b ow by simp
  qed
qed

lemma release_heap:
  assumes h: "heap_ok X e m hs F" and p: "buffer_pool e = Some p"
    and b: "buf \<in> set hs" "buf \<in> set (pool_owned p)"
  shows "heap_ok X (e\<lparr>buffer_pool := Some (dma_pool_release p buf)\<rparr>) m (remove1 buf hs) F"
proof -
  have inv: "dma_pool_inv p"
    and bal: "mset (pool_avail p) + mset (filter (\<lambda>b. b \<in> set (pool_owned p)) hs) = mset (pool_owned p)"
    using heap_okD(5) [OF h] p by (simp_all add: pool_ok_def)
  let ?f = "filter (\<lambda>b. b \<in> set (pool_owned p)) hs"
  have d: "distinct (pool_avail p @ ?f)"
    using inv bal by (metis dma_pool_inv_def mset_append mset_eq_imp_distinct_iff)
  then have na: "buf \<notin> set (pool_avail p)" using b by auto
  note r = release_some [OF inv b(2) na]
  have "mset ?f = add_mset buf (mset (remove1 buf ?f))" using b by simp
  then have "pool_ok (Some (dma_pool_release p buf)) (remove1 buf hs)"
    using r bal b by (simp add: pool_ok_def filter_remove1)
  moreover have "filter (\<lambda>b. b \<notin> set (pool_owned p)) (remove1 buf hs) =
      filter (\<lambda>b. b \<notin> set (pool_owned p)) hs"
    using b(2) by (simp add: filter_remove1 remove1_idem)
  ultimately show ?thesis
    by (intro heap_ok_pool [OF h p r(2)])
      (use r(2) in \<open>simp_all add: buffer_cells_def dma_pool_release_def\<close>)
qed

lemma heap_buffer_alloc:
  assumes h: "heap_ok X e m hs F" and al: "dma_alloc sz m = (buf, m')"
  shows "if buf = NULL then heap_ok X e m' hs F
         else heap_ok X e m' (buf # hs) F \<and> buf \<notin> set (pool_blocks_of e)"
proof (cases "buf = NULL")
  case True
  then show ?thesis using heap_ok_alloc_null [OF h] dma_alloc_law [OF al] by simp
next
  case False
  note a = heap_ok_alloc [OF h dma_alloc_law [OF al] False]
  have nb: "buf \<notin> set (pool_blocks_of e)"
    using a(4) by (auto simp: pool_blocks_of_def fixed_blocks_def buffer_cells_def split: option.splits)
  then have hh: "heap_held e (buf # hs) = buf # heap_held e hs" by (simp add: heap_held_def)
  have "mset (X @ heap_held e (buf # hs) @ fixed_blocks e) =
      mset ((buf # X) @ heap_held e hs @ fixed_blocks e)" by (simp add: hh)
  note o = owned_mset [OF this]
  have "pool_ok (buffer_pool e) (buf # hs)"
    using heap_okD(5) [OF h] nb by (auto simp: pool_ok_def pool_blocks_of_def split: option.splits)
  then show ?thesis using a(1) o False nb by (simp add: heap_ok_def)
qed

lemma heap_buffer_free:
  assumes h: "heap_ok X e m hs F" and b: "buf \<in> set hs" "buf \<notin> set (pool_blocks_of e)"
  shows "heap_ok X e (mem_free buf m) (remove1 buf hs) F"
proof -
  have hh: "mset (heap_held e hs) = add_mset buf (mset (heap_held e (remove1 buf hs)))"
    using b by (simp add: heap_held_def filter_remove1)
  have pk: "pool_ok (buffer_pool e) (remove1 buf hs)"
    using heap_okD(5) [OF h] b(2)
    by (auto simp: pool_ok_def pool_blocks_of_def filter_remove1 remove1_idem split: option.splits)
  have eq: "mset ((buf # X) @ heap_held e (remove1 buf hs) @ fixed_blocks e) =
      mset (X @ heap_held e hs @ fixed_blocks e)" by (simp add: hh)
  have "heap_ok (buf # X) e m (remove1 buf hs) F"
    using h pk owned_mset [OF eq] by (simp add: heap_ok_def)
  then show ?thesis by (rule heap_ok_free)
qed

text \<open>The buffer that a retrieve works with, and how it ends.\<close>

definition pool_origin :: "kv_engine \<Rightarrow> addr \<Rightarrow> bool" where
  "pool_origin e buf \<longleftrightarrow> buf \<in> set (pool_blocks_of e)"

lemma first_buffer_heap:
  assumes h: "heap_ok X e m hs F" and fb: "first_buffer e m = (buf, fp, e1, m1)"
  shows "heap_ok X e1 m1 (if buf = NULL then hs else buf # hs) F"
    "buf \<noteq> NULL \<Longrightarrow> fp = pool_origin e1 buf" "workers e1 = workers e"
proof -
  define be where "be = (case buffer_pool e of
      None \<Rightarrow> (NULL, e)
    | Some p \<Rightarrow> (let (b, p') = dma_pool_acquire p in (b, e\<lparr>buffer_pool := Some p'\<rparr>)))"
  obtain b e' where be: "be = (b, e')" by fastforce
  have pool: "if b = NULL then e' = e
      else heap_ok X e' m (b # hs) F \<and> pool_origin e' b \<and> workers e' = workers e"
  proof (cases "buffer_pool e")
    case None
    then show ?thesis using be by (simp add: be_def)
  next
    case (Some p)
    obtain x p' where ac: "dma_pool_acquire p = (x, p')" by fastforce
    have b: "b = x" "e' = e\<lparr>buffer_pool := Some p'\<rparr>" using be Some ac by (simp_all add: be_def)
    note a = acquire_heap [OF h Some ac]
    show ?thesis
    proof (cases "x = NULL")
      case True
      then show ?thesis using a b Some by simp
    next
      case False
      then show ?thesis using a b by (simp add: pool_origin_def pool_blocks_of_def)
    qed
  qed
  obtain a m2 where al: "dma_alloc (of_nat KV_ENGINE_RETRIEVE_SIZE) m = (a, m2)" by fastforce
  have out: "(buf, fp, e1, m1) = (if b \<noteq> NULL then (b, True, e', m) else (a, False, e', m2))"
    using fb be al by (auto simp: first_buffer_def be_def Let_def split: prod.splits)
  note ha = heap_buffer_alloc [OF h al]
  show "heap_ok X e1 m1 (if buf = NULL then hs else buf # hs) F"
    using out pool ha by (auto split: if_splits)
  show "buf \<noteq> NULL \<Longrightarrow> fp = pool_origin e1 buf"
    using out pool ha by (auto simp: pool_origin_def split: if_splits)
  show "workers e1 = workers e" using out pool by (auto split: if_splits)
qed

lemma drop_buffer_heap:
  assumes h: "heap_ok X e m hs F" and b: "buf \<in> set hs" "fp = pool_origin e buf"
    and db: "drop_buffer fp buf e m = (e', m')"
  shows "heap_ok X e' m' (remove1 buf hs) F" "workers e' = workers e"
proof -
  show "workers e' = workers e" using db by (auto simp: drop_buffer_def split: if_splits)
  show "heap_ok X e' m' (remove1 buf hs) F"
  proof (cases "buffer_pool e")
    case (Some p)
    then show ?thesis
      using b db release_heap [OF h Some b(1)] heap_buffer_free [OF h b(1)]
      by (auto simp: drop_buffer_def pool_origin_def pool_blocks_of_def dma_free_def split: if_splits)
  next
    case None
    then show ?thesis
      using b db heap_buffer_free [OF h b(1)]
      by (simp add: drop_buffer_def pool_origin_def pool_blocks_of_def dma_free_def)
  qed
qed

lemma free_buffer_heap:
  assumes h: "heap_ok X e m hs F" and b: "buf \<in> set hs"
    and fb: "kv_engine_free_buffer e buf m = (e', m')"
  shows "heap_ok X e' m' (remove1 buf hs) F" "workers e' = workers e"
proof -
  have "drop_buffer (pool_origin e buf) buf e m = (e', m')"
  proof (cases "buffer_pool e")
    case None
    then show ?thesis
      using fb by (simp add: drop_buffer_def kv_engine_free_buffer_def pool_origin_def pool_blocks_of_def)
  next
    case (Some p)
    have "dma_pool_owns (Some p) buf \<longleftrightarrow> pool_origin e buf"
      using heap_okD(5) [OF h] Some dma_pool_owns_iff
      by (simp add: pool_ok_def pool_origin_def pool_blocks_of_def)
    then show ?thesis
      using fb Some by (auto simp: drop_buffer_def kv_engine_free_buffer_def split: if_splits)
  qed
  from drop_buffer_heap [OF h b refl this] show "heap_ok X e' m' (remove1 buf hs) F"
    "workers e' = workers e" .
qed

lemma alloc_buffer_heap:
  assumes h: "heap_ok X e m hs F" and al: "kv_engine_alloc_buffer e sz m = (buf, e', m')"
  shows "heap_ok X e' m' (if buf = NULL then hs else buf # hs) F" "workers e' = workers e"
proof -
  obtain a m2 where da: "dma_alloc sz m = (a, m2)" by fastforce
  note ha = heap_buffer_alloc [OF h da]
  have "heap_ok X e' m' (if buf = NULL then hs else buf # hs) F \<and> workers e' = workers e"
  proof (cases "buffer_pool e")
    case None
    then show ?thesis using al da ha by (auto simp: kv_engine_alloc_buffer_def split: if_splits)
  next
    case (Some p)
    obtain x p' where ac: "dma_pool_acquire p = (x, p')" by fastforce
    note a = acquire_heap [OF h Some ac]
    have "e\<lparr>buffer_pool := Some p\<rparr> = e" using Some by simp
    then have same: "heap_ok X (e\<lparr>buffer_pool := Some p\<rparr>) mm hh F = heap_ok X e mm hh F" for mm hh
      by (rule arg_cong)
    show ?thesis
      using al da ha Some ac a same by (auto simp: kv_engine_alloc_buffer_def Let_def split: if_splits)
  qed
  then show "heap_ok X e' m' (if buf = NULL then hs else buf # hs) F" "workers e' = workers e"
    by simp_all
qed

text \<open>The buffers that a call hands out.\<close>

definition handed :: "(addr \<times> byte list \<times> size_t) option \<Rightarrow> addr list" where
  "handed out = (case out of None \<Rightarrow> [] | Some (b, _) \<Rightarrow> [b])"

lemma pool_origin_frame [simp]:
  "pool_origin (update_stats e a b c d n) buf = pool_origin e buf"
  "pool_origin (e\<lparr>key_table := t\<rparr>) buf = pool_origin e buf"
  "pool_origin (e\<lparr>devices := ds\<rparr>) buf = pool_origin e buf"
  by (simp_all add: pool_origin_def pool_blocks_of_def)

lemma retrieve_finish_heap:
  assumes h: "heap_ok X e m (buf # hs) F" and fp: "fp = pool_origin e buf"
    and ko: "key_ok key key_len" "key = Some k" "unat key_len \<le> length k"
    and fin: "retrieve_finish i key key_len del r v buf fp e m w = (res, out, s')"
  shows "\<exists>e'. engine s' = Some e' \<and> heap_ok X e' (heap s') (handed out @ hs) F \<and> workers e' = workers e"
proof -
  obtain tab m1 where dk: "(if del \<and> r = KVS_SUCCESS
      then delete_key (key_table (set_dev e i r)) key (ucast key_len) m
      else (key_table (set_dev e i r), m)) = (tab, m1)" by fastforce
  have d: "table_inv tab m1 \<and> kt.rest tab m1 = kt.rest (key_table e) m \<and> bad_free m1 = bad_free m"
  proof (cases "del \<and> r = KVS_SUCCESS")
    case True
    then show ?thesis
      using kt.del_ok [OF heap_okD(1) [OF h] key_ok_bytes(1) [OF ko]] dk table_bytes(3) [OF ko] by auto
  next
    case False
    then show ?thesis using dk heap_okD(1) [OF h] by auto
  qed
  let ?e = "(set_dev e i r)\<lparr>key_table := tab\<rparr>"
  have h2: "heap_ok X ?e m1 (buf # hs) F"
    by (rule heap_ok_frame [OF h]) (use d in simp_all)
  show ?thesis
  proof (cases "r = KVS_SUCCESS")
    case True
    let ?e2 = "update_stats ?e True False False True (ucast (actual_value_size v))"
    have s': "engine s' = Some ?e2" "heap s' = m1" "handed out = [buf]"
      using fin True unfolding retrieve_finish_def Let_def dk by (auto simp: handed_def)
    have "heap_ok X ?e2 m1 (buf # hs) F"
      by (rule heap_ok_frame [OF h2]) (use d in simp_all)
    then show ?thesis using s' by simp
  next
    case False
    obtain e3 m2 where db: "drop_buffer fp buf ?e m1 = (e3, m2)" by fastforce
    have o: "heap_ok X e3 m2 hs F" "workers e3 = workers e"
      using drop_buffer_heap [OF h2 _ _ db] fp by simp_all
    let ?e4 = "update_stats e3 True False False False 0"
    have s': "engine s' = Some ?e4" "heap s' = m2" "handed out = []"
      using fin False db unfolding retrieve_finish_def Let_def dk by (auto simp: handed_def)
    have "heap_ok X ?e4 m2 hs F"
      by (rule heap_ok_frame [OF o(1)]) (use heap_okD(1) [OF o(1)] in simp_all)
    then show ?thesis using s' o(2) by simp
  qed
qed

text \<open>
  A retrieve hands out one buffer on success and nothing otherwise; in every case the heap
  and the pool are otherwise as they were.
\<close>

lemma retrieve_heap:
  assumes e: "engine s = Some e" "heap_ok X e (heap s) hs F"
    and k: "\<And>k. key = Some k \<Longrightarrow> unat key_len \<le> length k"
    and st: "kv_engine_retrieve ops key key_len outs del s = (res, out, s')"
  shows "\<exists>e'. engine s' = Some e' \<and> heap_ok X e' (heap s') (handed out @ hs) F \<and> workers e' = workers e"
proof (cases "accepted_key e key key_len \<and> outs")
  case False
  then have "out = None" "s' = s" using retrieve_rejected [OF e(1), of key key_len outs ops del] st by auto
  then show ?thesis using e by (simp add: handed_def)
next
  case True
  then have ko: "key_ok key key_len" by (simp add: accepted_key_def)
  then obtain kb where kb: "key = Some kb" by (auto simp: key_ok_def)
  define i where "i = shard_index e (the key) key_len"
  obtain buf fp e1 m1 where fb: "first_buffer e (heap s) = (buf, fp, e1, m1)" by (metis prod_cases4)
  obtain r v w1 where op: "op_retrieve_kvp ops (hnd (dc_keyspace (devices e ! i))) (api_key key key_len) del
      retrieve_buffer (lib s) = (r, v, w1)" by (metis prod_cases3)
  note run = retrieve_run [OF e(1) conjunct1 [OF True] i_def fb op]
  note f = first_buffer_heap [OF e(2) fb]
  note fin = retrieve_finish_heap [OF _ _ ko kb k [OF kb]]
  consider (oom) "buf = NULL" | (small) "buf \<noteq> NULL" "r = KVS_ERR_BUFFER_SMALL"
    | (answer) "buf \<noteq> NULL" "r \<noteq> KVS_ERR_BUFFER_SMALL" by blast
  then show ?thesis
  proof cases
    case oom
    then show ?thesis using run st True f by (auto simp: handed_def)
  next
    case answer
    then have rf: "retrieve_finish i key key_len del r v buf fp e1 m1 w1 = (res, out, s')"
      using run st True by simp
    have "heap_ok X e1 m1 (buf # hs) F" using f(1) answer(1) by simp
    from fin [OF this f(2) [OF answer(1)] rf] show ?thesis using f(3) by simp
  next
    case small
    obtain e2 m2 where db: "drop_buffer fp buf e1 m1 = (e2, m2)" by fastforce
    have d: "heap_ok X e2 m2 hs F" "workers e2 = workers e"
      using drop_buffer_heap [OF f(1) _ f(2) [OF small(1)] db] small(1) f(3) by simp_all
    obtain buf2 m3 where al: "dma_alloc (ucast (actual_value_size v)) m2 = (buf2, m3)" by fastforce
    note a = heap_buffer_alloc [OF d(1) al]
    obtain r2 v2 w2 where op2: "op_retrieve_kvp ops (hnd (dc_keyspace (devices e ! i)))
        (api_key key key_len) del (retry_buffer v) w1 = (r2, v2, w2)" by (metis prod_cases3)
    show ?thesis
    proof (cases "buf2 = NULL")
      case True
      then show ?thesis
        using run st small \<open>accepted_key e key key_len \<and> outs\<close> db al a d(2) by (auto simp: handed_def)
    next
      case False
      then have rf: "retrieve_finish i key key_len del r2 v2 buf2 False e2 m3 w2 = (res, out, s')"
        using run st small True db al op2 by simp
      have "heap_ok X e2 m3 (buf2 # hs) F" "False = pool_origin e2 buf2"
        using a False by (simp_all add: pool_origin_def)
      from fin [OF this rf] show ?thesis using d(2) by simp
    qed
  qed
qed

end
