(* ===== verification/Async_Memory.thy ===== *)
theory Async_Memory
  imports Engine_Memory
begin

text \<open>
  The heap under asynchronous operations: a context travels from the caller through the queue,
  where its blocks belong to the engine, to a worker that runs it and frees it.
\<close>

section \<open>Asynchronous contexts\<close>

lemma opt_cell_simps [simp]: "opt_cell NULL = []" "a \<noteq> NULL \<Longrightarrow> opt_cell a = [a]"
  by (simp_all add: opt_cell_def)

lemma heap_ok_perm:
  assumes "heap_ok X e m hs F" "mset X' = mset X"
  shows "heap_ok X' e m hs F"
  by (rule heap_ok_move [OF assms(1)]) (use assms(2) heap_okD(4) [OF assms(1)] in simp_all)

lemma heap_ok_held_perm:
  assumes "heap_ok X e m hs F" "mset hs' = mset hs"
  shows "heap_ok X e m hs' F"
proof -
  have f: "mset (filter P hs') = mset (filter P hs)" for P using assms(2) by simp
  have "mset (X @ heap_held e hs' @ fixed_blocks e) = mset (X @ heap_held e hs @ fixed_blocks e)"
    using f by (simp add: heap_held_def)
  from owned_mset [OF this] show ?thesis
    using assms(1) f by (auto simp: heap_ok_def pool_ok_def split: option.splits)
qed

lemma context_create_heap:
  assumes h: "heap_ok X e m hs F" and k: "unat key_len \<le> length key"
    and cr: "async_context_create op key key_len val val_len cb ud ow m = (res, m')"
  shows "case res of None \<Rightarrow> heap_ok X e m' hs F
         | Some c \<Rightarrow> heap_ok (ctx_cells c @ X) e m' hs F \<and> ctx_fits c \<and> ac_op_type c = op"
proof -
  obtain c m1 where c: "malloc sizeof_async_context m = (c, m1)" by fastforce
  obtain kb m2 where kb: "malloc (unat key_len) m1 = (kb, m2)" by fastforce
  obtain vb m3 where vb: "malloc (unat val_len) m2 = (vb, m3)" by fastforce
  note laws = malloc_law [OF c] malloc_law [OF kb] malloc_law [OF vb]
  show ?thesis
  proof (cases "c = NULL")
    case True
    then show ?thesis using cr c heap_ok_alloc_null [OF h] laws(1) by (auto simp: async_context_create_def)
  next
    case cn: False
    note h1 = heap_ok_alloc(1) [OF h laws(1) cn]
    show ?thesis
    proof (cases "kb = NULL")
      case True
      then have "heap_ok (c # X) e m2 hs F" using heap_ok_alloc_null [OF h1] laws(2) by simp
      then show ?thesis
        using cr c kb cn True heap_ok_free by (auto simp: async_context_create_def)
    next
      case kn: False
      note h2 = heap_ok_alloc(1) [OF h1 laws(2) kn]
      show ?thesis
      proof (cases "fst val \<noteq> NULL \<and> val_len > 0")
        case False
        then obtain ctx where "res = Some ctx" "m' = m2" "ctx_cells ctx = [kb, c]"
            "ctx_fits ctx" "ac_op_type ctx = op"
          using cr c kb cn kn k by (auto simp: async_context_create_def ctx_cells_def ctx_fits_def)
        then show ?thesis using h2 by simp
      next
        case v: True
        show ?thesis
        proof (cases "vb = NULL")
          case True
          then have "heap_ok (kb # c # X) e m3 hs F" using heap_ok_alloc_null [OF h2] laws(3) by simp
          then have "heap_ok X e (mem_free c (mem_free kb m3)) hs F" by (intro heap_ok_free)
          then show ?thesis
            using cr c kb vb cn kn v True by (auto simp: async_context_create_def)
        next
          case vn: False
          note h3 = heap_ok_alloc(1) [OF h2 laws(3) vn]
          obtain ctx where r: "res = Some ctx" "m' = m3" "ctx_cells ctx = [kb, vb, c]"
              "ctx_fits ctx" "ac_op_type ctx = op"
            using cr c kb vb cn kn v vn k by (auto simp: async_context_create_def ctx_cells_def ctx_fits_def)
          have "heap_ok ([kb, vb, c] @ X) e m3 hs F" by (rule heap_ok_perm [OF h3]) simp
          then show ?thesis using r by simp
        qed
      qed
    qed
  qed
qed

lemma context_free_heap:
  assumes "heap_ok (ctx_cells c @ X) e m hs F"
  shows "heap_ok X e (async_context_free c m) hs F"
proof -
  have "heap_ok (opt_cell (fst (ac_value_buffer c)) @ ac_addr c # X) e (mem_free (fst (ac_key_buffer c)) m) hs F"
    using assms by (intro heap_ok_free) (simp add: ctx_cells_def)
  from heap_ok_free [OF heap_ok_free_opt [OF this]] show ?thesis
    unfolding async_context_free_def .
qed

section \<open>The queue\<close>

lemma job_cells_simps [simp]:
  "job_cells [] = []" "job_cells ((a, c) # xs) = ctx_cells c @ a # job_cells xs"
  "job_cells (xs @ ys) = job_cells xs @ job_cells ys"
  by (simp_all add: job_cells_def)

lemma queue_okD:
  assumes "queue_ok (Some p)"
  shows "queue_repr (tp_queue p) (queue_items (tp_queue p))"
    "\<forall>(a, c)\<in>set (queue_items (tp_queue p)). ctx_ok c"
  using assms by (auto simp: queue_ok_def)

lemma queue_okI:
  assumes "queue_repr (tp_queue p) xs" "\<forall>(a, c)\<in>set xs. ctx_ok c"
  shows "queue_ok (Some p)" "queue_items (tp_queue p) = xs"
  using assms queue_items_repr [OF assms(1)] by (auto simp: queue_ok_def)

lemma worker_cells_items:
  assumes "queue_items (tp_queue p) = xs"
  shows "worker_cells (Some p) = job_cells xs @ [tp_threads p, tp_addr p]"
  using assms by (simp add: worker_cells_def)

lemma item_in_cells: "a \<in> fst ` set xs \<Longrightarrow> a \<in> set (job_cells xs)"
  by (force simp: job_cells_def)

lemma mset_fixed_workers:
  "mset (fixed_blocks (e\<lparr>workers := w\<rparr>)) + mset (worker_cells (workers e)) =
     mset (fixed_blocks e) + mset (worker_cells w)"
  by (simp add: fixed_blocks_def)

lemma submit_heap:
  assumes h: "heap_ok (ctx_cells c @ X) e m hs F" and c: "ctx_ok c" and p: "workers e = Some p"
    and sb: "thread_pool_submit c p m = Some (rc, p', m')"
  shows "heap_ok (if rc = 0 then X else ctx_cells c @ X) (e\<lparr>workers := Some p'\<rparr>) m' hs F"
proof -
  define xs where "xs = queue_items (tp_queue p)"
  have q: "queue_repr (tp_queue p) xs" "\<forall>(a, c)\<in>set xs. ctx_ok c"
    using queue_okD [of p] heap_okD(4) [OF h] p by (auto simp: xs_def)
  have same: "e\<lparr>workers := Some p\<rparr> = e" using p by simp
  obtain a m1 where al: "malloc sizeof_work_item m = (a, m1)" by fastforce
  show ?thesis
  proof (cases "a = NULL")
    case True
    then have "rc = - 1" "p' = p" "m' = m1" using sb al by (simp_all add: thread_pool_submit_def)
    moreover have "heap_ok (ctx_cells c @ X) e m1 hs F"
      using heap_ok_alloc_null [OF h] malloc_law [OF al] True by simp
    ultimately show ?thesis unfolding \<open>p' = p\<close> same by simp
  next
    case False
    note h1 = heap_ok_alloc [OF h malloc_law [OF al] False]
    have "set (job_cells xs) \<subseteq> set (fixed_blocks e)"
      using p by (auto simp: fixed_blocks_def worker_cells_def xs_def)
    then have na: "a \<notin> fst ` set xs" using h1(4) item_in_cells by blast
    note fr = fresh_item [OF q(1) na False, of c]
    define p1 where "p1 = p\<lparr>tp_queue := new_item a c (tp_queue p)\<rparr>"
    consider (shut) "tp_shutdown p" "rc = - 1" "p' = p1\<lparr>tp_queue := free_item a (tp_queue p1)\<rparr>"
          "m' = mem_free a m1"
      | (enq) "\<not> queue_size (tp_queue p1) \<ge> queue_capacity p1" "rc = 0"
          "p' = p1\<lparr>tp_queue := enqueue a (tp_queue p1)\<rparr>" "m' = m1"
      using sb al False
      by (auto simp: thread_pool_submit_def submit_attempt_def p1_def Let_def split: if_splits)
    then show ?thesis
    proof cases
      case shut
      have r: "queue_repr (tp_queue p') xs"
        using free_item_repr [OF fr(1) na] shut(3) by (simp add: p1_def)
      note i = queue_okI [OF r q(2)]
      have "heap_ok (a # ctx_cells c @ X) (e\<lparr>workers := Some p'\<rparr>) m1 hs F"
        by (rule heap_ok_move [OF h1(1)])
          (use p i shut in \<open>simp_all add: fixed_blocks_def worker_cells_def xs_def p1_def\<close>)
      then show ?thesis using shut heap_ok_free by auto
    next
      case enq
      have "length xs < unat (queue_capacity p1)"
        using enq(1) wq.len_repr [OF fr(1)] by (simp add: p1_def word_le_nat_alt)
      moreover have "unat (queue_capacity p1) < 2 ^ LENGTH(32)" by (rule unsigned_less)
      ultimately have "length xs + 1 < 2 ^ 32" by simp
      from enqueue_repr [OF fr this] have r: "queue_repr (tp_queue p') (xs @ [(a, c)])"
        using enq(3) by (simp add: p1_def)
      have "\<forall>(b, d)\<in>set (xs @ [(a, c)]). ctx_ok d" using q(2) c by auto
      note i = queue_okI [OF r this]
      have "heap_ok X (e\<lparr>workers := Some p'\<rparr>) m1 hs F"
        by (rule heap_ok_move [OF h1(1)])
          (use p i enq in \<open>simp_all add: fixed_blocks_def worker_cells_def xs_def [symmetric] p1_def\<close>)
      then show ?thesis using enq by simp
    qed
  qed
qed

lemma submit_context_heap:
  assumes e: "engine s = Some e" "heap_ok X e (heap s) hs F" and w: "workers e \<noteq> None"
    and made: "case res of None \<Rightarrow> heap_ok X e m hs F
      | Some c \<Rightarrow> heap_ok (ctx_cells c @ X) e m hs F \<and> ctx_ok c"
    and sb: "submit_context e (res, m) s = Some (r, s')"
  shows "\<exists>e'. engine s' = Some e' \<and> heap_ok X e' (heap s') hs F"
proof (cases res)
  case None
  then show ?thesis using sb made e(1) by (auto simp: submit_context_def)
next
  case (Some c)
  obtain p where p: "workers e = Some p" using w by auto
  have c: "heap_ok (ctx_cells c @ X) e m hs F" "ctx_ok c" using made Some by simp_all
  obtain rc p' m' where t: "thread_pool_submit c p m = Some (rc, p', m')"
    using sb Some p by (auto simp: submit_context_def split: option.splits)
  note h = submit_heap [OF c p t]
  show ?thesis
  proof (cases "rc = 0")
    case True
    then show ?thesis using sb Some p t h by (auto simp: submit_context_def)
  next
    case False
    then have "heap_ok X (e\<lparr>workers := Some p'\<rparr>) (async_context_free c m') hs F"
      using h context_free_heap by simp
    then show ?thesis using sb Some p t False by (auto simp: submit_context_def)
  qed
qed

text \<open>The three asynchronous calls.\<close>

lemma store_async_heap:
  assumes e: "engine s = Some e" "heap_ok X e (heap s) hs F"
    and k: "\<And>k. key = Some k \<Longrightarrow> unat key_len \<le> length k"
    and st: "kv_engine_store_async key key_len val val_len cb ud ow s = Some (r, s')"
  shows "\<exists>e'. engine s' = Some e' \<and> heap_ok X e' (heap s') hs F"
proof (cases "s' = s")
  case True
  then show ?thesis using e by simp
next
  case False
  obtain kb where kb: "key = Some kb" and w: "workers e \<noteq> None"
    and sb: "submit_context e (async_context_create ASYNC_OP_STORE kb key_len val val_len cb ud ow
        (heap s)) s = Some (r, s')"
    using st e(1) False by (auto simp: kv_engine_store_async_def split: if_splits)
  obtain res m where cr: "async_context_create ASYNC_OP_STORE kb key_len val val_len cb ud ow
      (heap s) = (res, m)" by fastforce
  have "case res of None \<Rightarrow> heap_ok X e m hs F
      | Some c \<Rightarrow> heap_ok (ctx_cells c @ X) e m hs F \<and> ctx_ok c"
    using context_create_heap [OF e(2) k [OF kb] cr] by (cases res) (simp_all add: ctx_ok_def)
  from submit_context_heap [OF e w this] show ?thesis using sb cr by simp
qed

lemma delete_async_heap:
  assumes e: "engine s = Some e" "heap_ok X e (heap s) hs F"
    and k: "\<And>k. key = Some k \<Longrightarrow> unat key_len \<le> length k"
    and st: "kv_engine_delete_async key key_len cb ud s = Some (r, s')"
  shows "\<exists>e'. engine s' = Some e' \<and> heap_ok X e' (heap s') hs F"
proof (cases "s' = s")
  case True
  then show ?thesis using e by simp
next
  case False
  obtain kb where kb: "key = Some kb" and w: "workers e \<noteq> None"
    and sb: "submit_context e (async_context_create ASYNC_OP_DELETE kb key_len (NULL, []) 0 cb ud False
        (heap s)) s = Some (r, s')"
    using st e(1) False by (auto simp: kv_engine_delete_async_def split: if_splits)
  obtain res m where cr: "async_context_create ASYNC_OP_DELETE kb key_len (NULL, []) 0 cb ud False
      (heap s) = (res, m)" by fastforce
  have "case res of None \<Rightarrow> heap_ok X e m hs F
      | Some c \<Rightarrow> heap_ok (ctx_cells c @ X) e m hs F \<and> ctx_ok c"
    using context_create_heap [OF e(2) k [OF kb] cr] by (cases res) (simp_all add: ctx_ok_def)
  from submit_context_heap [OF e w this] show ?thesis using sb cr by simp
qed

lemma ctx_cells_callback [simp]:
  "ctx_cells (c\<lparr>ac_retrieve_callback := cb\<rparr>) = ctx_cells c"
  "ctx_fits (c\<lparr>ac_retrieve_callback := cb\<rparr>) = ctx_fits c"
  by (simp_all add: ctx_cells_def ctx_fits_def)

lemma retrieve_async_heap:
  assumes e: "engine s = Some e" "heap_ok X e (heap s) hs F"
    and k: "\<And>k. key = Some k \<Longrightarrow> unat key_len \<le> length k"
    and cb: "cb \<noteq> None"
    and st: "kv_engine_retrieve_async key key_len cb ud s = Some (r, s')"
  shows "\<exists>e'. engine s' = Some e' \<and> heap_ok X e' (heap s') hs F"
proof (cases "s' = s")
  case True
  then show ?thesis using e by simp
next
  case False
  have a: "key \<noteq> None" "workers e \<noteq> None"
    using st e(1) False by (auto simp: kv_engine_retrieve_async_def split: if_splits)
  then obtain kb where kb: "key = Some kb" by auto
  obtain res m where cr: "async_context_create ASYNC_OP_RETRIEVE kb key_len (NULL, []) 0 None ud False
      (heap s) = (res, m)" by fastforce
  let ?res = "map_option (\<lambda>ctx. ctx\<lparr>ac_retrieve_callback := cb\<rparr>) res"
  have sb: "submit_context e (?res, m) s = Some (r, s')"
    using st e(1) False a kb cr by (auto simp: kv_engine_retrieve_async_def split: if_splits)
  have "case ?res of None \<Rightarrow> heap_ok X e m hs F
      | Some c \<Rightarrow> heap_ok (ctx_cells c @ X) e m hs F \<and> ctx_ok c"
    using context_create_heap [OF e(2) k [OF kb] cr] cb by (cases res) (simp_all add: ctx_ok_def)
  from submit_context_heap [OF e a(2) this sb] show ?thesis .
qed

section \<open>Workers\<close>

text \<open>The buffers that completions hand to their callbacks.\<close>

definition handed_all :: "completion list \<Rightarrow> addr list" where
  "handed_all cs = concat (map (\<lambda>c. handed (co_value c)) cs)"

lemma handed_all_simps [simp]:
  "handed_all [] = []" "handed_all (c # cs) = handed (co_value c) @ handed_all cs"
  "handed_all (cs @ ds) = handed_all cs @ handed_all ds"
  by (simp_all add: handed_all_def)

lemma handed_None [simp]: "handed None = []"
  by (simp add: handed_def)

lemma handed_complete [simp]:
  "handed_all (complete cb r None ud) = []"
  "handed_all (complete (Some cb') r v ud) = handed v"
  by (simp_all add: complete_def split: option.splits)

lemma worker_func_heap:
  assumes e: "engine s = Some e" "heap_ok (ctx_cells c @ X) e (heap s) hs F" and c: "ctx_ok c"
    and run: "async_worker_func ops c s = (cs, s')"
  shows "\<exists>e'. engine s' = Some e' \<and> heap_ok X e' (heap s') (handed_all cs @ hs) F \<and> workers e' = workers e"
proof -
  have k: "\<And>k. Some (snd (ac_key_buffer c)) = Some k \<Longrightarrow> unat (ac_key_len c) \<le> length k"
    using c by (simp add: ctx_ok_def ctx_fits_def)
  have "\<exists>s1 e1. s' = s1\<lparr>heap := async_context_free c (heap s1)\<rparr> \<and> engine s1 = Some e1 \<and>
      heap_ok (ctx_cells c @ X) e1 (heap s1) (handed_all cs @ hs) F \<and> workers e1 = workers e"
  proof (cases "ac_op_type c")
    case ASYNC_OP_STORE
    obtain r s1 where st: "kv_engine_store ops (Some (snd (ac_key_buffer c))) (ac_key_len c)
        (ac_value_buffer c) (ac_value_len c) (ac_overwrite c) s = (r, s1)" by fastforce
    have "cs = complete (ac_callback c) r None (ac_user_data c)"
      "s' = s1\<lparr>heap := async_context_free c (heap s1)\<rparr>"
      using run ASYNC_OP_STORE st by (simp_all add: async_worker_func_def)
    then show ?thesis using store_heap [OF e k st] by auto
  next
    case ASYNC_OP_DELETE
    obtain r s1 where st: "kv_engine_delete ops (Some (snd (ac_key_buffer c))) (ac_key_len c) s = (r, s1)"
      by fastforce
    have "cs = complete (ac_callback c) r None (ac_user_data c)"
      "s' = s1\<lparr>heap := async_context_free c (heap s1)\<rparr>"
      using run ASYNC_OP_DELETE st by (simp_all add: async_worker_func_def)
    then show ?thesis using delete_heap [OF e k st] by auto
  next
    case ASYNC_OP_RETRIEVE
    obtain r v s1 where st: "kv_engine_retrieve ops (Some (snd (ac_key_buffer c))) (ac_key_len c)
        True False s = (r, v, s1)" by (metis prod_cases3)
    obtain cb where "ac_retrieve_callback c = Some cb"
      using c ASYNC_OP_RETRIEVE by (auto simp: ctx_ok_def)
    then have "handed_all cs = handed v" "s' = s1\<lparr>heap := async_context_free c (heap s1)\<rparr>"
      using run ASYNC_OP_RETRIEVE st by (auto simp: async_worker_func_def)
    then show ?thesis using retrieve_heap [OF e k st] by auto
  qed
  then obtain s1 e1 where s1: "s' = s1\<lparr>heap := async_context_free c (heap s1)\<rparr>" "engine s1 = Some e1"
      "heap_ok (ctx_cells c @ X) e1 (heap s1) (handed_all cs @ hs) F" "workers e1 = workers e" by blast
  from context_free_heap [OF s1(3)] show ?thesis using s1 by simp
qed

text \<open>One round of a worker takes one item off the queue and frees all its blocks.\<close>

lemma queue_size_items:
  "queue_ok (Some p) \<Longrightarrow> unat (queue_size (tp_queue p)) = length (queue_items (tp_queue p))"
  using queue_okD(1) wq.len_repr by blast

text \<open>What a worker finds when it takes the head of the queue, and when it frees the item.\<close>

lemma worker_takes:
  assumes h: "heap_ok [] e m hs F" and p: "workers e = Some p"
    and xs: "queue_items (tp_queue p) = (a, c) # ys"
  obtains p' where "worker_attempt p = (Got a, p')" "wi_job (the (nodes (tp_queue p') a)) = c"
    "heap_ok (ctx_cells c @ [a]) (set_workers p' e) m hs F" "ctx_ok c"
    "queue_repr (tp_queue p') ys" "\<forall>(b, d)\<in>set ys. ctx_ok d" "a \<notin> fst ` set ys"
proof -
  have qok: "queue_ok (Some p)" using heap_okD(4) [OF h] p by simp
  note q = queue_okD [OF qok, unfolded xs]
  note dq = dequeue_repr [OF q(1)]
  obtain q' where q': "dequeue (tp_queue p) = (a, q')" using dq(1) by (metis prod.collapse)
  define p' where "p' = p\<lparr>tp_queue := q'\<rparr>"
  have r': "queue_repr (tp_queue p') ys" using dq(2) q' by (simp add: p'_def)
  have cok: "ctx_ok c" and ysok: "\<forall>(b, d)\<in>set ys. ctx_ok d" using q(2) by auto
  note i = queue_okI [OF r' ysok]
  have "queue_size (tp_queue p) \<noteq> 0" using queue_size_items [OF qok] xs by auto
  then have wa: "worker_attempt p = (Got a, p')" using q' by (simp add: worker_attempt_def p'_def)
  have job: "wi_job (the (nodes (tp_queue p') a)) = c"
    using q(1) dequeue_nodes [OF q'] by (auto simp: queue_repr_def p'_def)
  have "heap_ok (ctx_cells c @ [a]) (set_workers p' e) m hs F"
    by (rule heap_ok_move [OF h])
      (use p i xs in \<open>simp_all add: set_workers_def fixed_blocks_def worker_cells_def p'_def\<close>)
  moreover have "a \<notin> fst ` set ys" using q(1) by (auto simp: queue_repr_def)
  ultimately show thesis by (rule that [OF wa job _ cok r' ysok])
qed

lemma release_item_heap:
  assumes e: "engine s = Some e" "heap_ok [a] e (heap s) hs F" "workers e = Some p"
    and q: "queue_repr (tp_queue p) ys" "\<forall>(b, d)\<in>set ys. ctx_ok d" "a \<notin> fst ` set ys"
  obtains e' p' where "engine (release_item a s) = Some e'" "workers e' = Some p'"
    "heap_ok [] e' (heap (release_item a s)) hs F" "unat (queue_size (tp_queue p')) = length ys"
proof -
  define p' where "p' = p\<lparr>tp_queue := free_item a (tp_queue p)\<rparr>"
  have r: "queue_repr (tp_queue p') ys" using free_item_repr [OF q(1,3)] by (simp add: p'_def)
  note i = queue_okI [OF r q(2)] and j = queue_okI [OF q(1,2)]
  have "heap_ok [a] (e\<lparr>workers := Some p'\<rparr>) (heap s) hs F"
    by (rule heap_ok_move [OF e(2)])
      (use e(3) i j(2) in \<open>simp_all add: fixed_blocks_def worker_cells_def p'_def\<close>)
  from heap_ok_free [OF this] show thesis
    by (intro that [of "e\<lparr>workers := Some p'\<rparr>" p'])
      (use e wq.len_repr [OF r] in \<open>simp_all add: release_item_def p'_def\<close>)
qed

lemma worker_round_heap:
  assumes e: "engine s = Some e" "heap_ok [] e (heap s) hs F"
    and run: "worker_round ops s = (cs, s')"
  shows "\<exists>e'. engine s' = Some e' \<and> heap_ok [] e' (heap s') (handed_all cs @ hs) F \<and>
    (\<forall>p. workers e = Some p \<longrightarrow> (\<exists>p'. workers e' = Some p' \<and>
       unat (queue_size (tp_queue p')) = unat (queue_size (tp_queue p)) - 1))"
proof (cases "workers e")
  case None
  then show ?thesis using run e by (simp add: worker_round_def)
next
  case (Some p)
  have len: "unat (queue_size (tp_queue p)) = length (queue_items (tp_queue p))"
    using queue_size_items heap_okD(4) [OF e(2)] Some by simp
  show ?thesis
  proof (cases "queue_items (tp_queue p)")
    case Nil
    then have z: "queue_size (tp_queue p) = 0" using len by (simp add: unat_eq_zero)
    then have "cs = []" "s' = s"
      using run e(1) Some by (auto simp: worker_round_def worker_attempt_def split: if_splits)
    then show ?thesis using e Some z by simp
  next
    case (Cons x ys)
    obtain a c where "x = (a, c)" by fastforce
    note xs = Cons [unfolded this]
    obtain p' where t: "worker_attempt p = (Got a, p')" "wi_job (the (nodes (tp_queue p') a)) = c"
        "heap_ok (ctx_cells c @ [a]) (set_workers p' e) (heap s) hs F" "ctx_ok c"
        "queue_repr (tp_queue p') ys" "\<forall>(b, d)\<in>set ys. ctx_ok d" "a \<notin> fst ` set ys"
      using worker_takes [OF e(2) Some xs] by blast
    obtain cs1 s1 where wf: "async_worker_func ops c (s\<lparr>engine := Some (set_workers p' e)\<rparr>) = (cs1, s1)"
      by fastforce
    obtain e1 where e1: "engine s1 = Some e1" "heap_ok [a] e1 (heap s1) (handed_all cs1 @ hs) F"
        "workers e1 = Some p'"
      using worker_func_heap [OF _ _ t(4) wf, of "set_workers p' e" "[a]" hs F] t(3)
      by (auto simp: set_workers_def)
    have out: "cs = cs1" "s' = release_item a s1"
      using run e(1) Some t(1,2) wf by (simp_all add: worker_round_def)
    obtain e' p2 where "engine (release_item a s1) = Some e'" "workers e' = Some p2"
        "heap_ok [] e' (heap (release_item a s1)) (handed_all cs1 @ hs) F"
        "unat (queue_size (tp_queue p2)) = length ys"
      by (rule release_item_heap [OF e1 t(5-7)])
    then show ?thesis using out len xs Some by simp
  qed
qed

lemma worker_rounds_heap:
  assumes "engine s = Some e" "heap_ok [] e (heap s) hs F" "workers e = Some p"
    "worker_rounds ops n s = (cs, s')"
  shows "\<exists>e' p'. engine s' = Some e' \<and> heap_ok [] e' (heap s') (handed_all cs @ hs) F \<and>
    workers e' = Some p' \<and> unat (queue_size (tp_queue p')) = unat (queue_size (tp_queue p)) - n"
  using assms
proof (induction n arbitrary: s e hs p cs)
  case (Suc n)
  obtain c1 s1 where r1: "worker_round ops s = (c1, s1)" by fastforce
  obtain ds where r2: "worker_rounds ops n s1 = (ds, s')" "cs = c1 @ ds"
    using Suc.prems(4) r1 by (auto split: prod.splits)
  obtain e1 p1 where e1: "engine s1 = Some e1" "heap_ok [] e1 (heap s1) (handed_all c1 @ hs) F"
      "workers e1 = Some p1" "unat (queue_size (tp_queue p1)) = unat (queue_size (tp_queue p)) - 1"
    using worker_round_heap [OF Suc.prems(1,2) r1] Suc.prems(3) by blast
  obtain e' p' where f: "engine s' = Some e'"
      "heap_ok [] e' (heap s') (handed_all ds @ handed_all c1 @ hs) F" "workers e' = Some p'"
      "unat (queue_size (tp_queue p')) = unat (queue_size (tp_queue p1)) - n"
    using Suc.IH [OF e1(1-3) r2(1)] by blast
  have "heap_ok [] e' (heap s') (handed_all cs @ hs) F"
    by (rule heap_ok_held_perm [OF f(2)]) (simp add: r2(2))
  then show ?case using f e1(4) by auto
qed simp

end
