(* ===== verification/Engine_Lifetime.thy ===== *)
theory Engine_Lifetime
  imports Async_Memory
begin

text \<open>
  The heap over the life of an engine: initialisation hands all the blocks it allocates to the
  engine, and cleanup frees every one of them exactly once.
\<close>

section \<open>Cleanup\<close>

lemma owned_free_all_ind:
  "owned (A @ B) t m \<Longrightarrow> owned B t (mem_free_all A m) \<and>
     outside B t (mem_free_all A m) = outside (A @ B) t m \<and> bad_free (mem_free_all A m) = bad_free m"
proof (induction A arbitrary: m)
  case (Cons a A)
  have o: "owned (a # A @ B) t m" using Cons.prems by simp
  from Cons.IH [OF owned_free(1) [OF o]] owned_free(2,3) [OF o] show ?case by simp
qed simp

lemma owned_free_all:
  assumes "owned (A @ B) t m"
  shows "owned B t (mem_free_all A m)" "outside B t (mem_free_all A m) = outside (A @ B) t m"
    "bad_free (mem_free_all A m) = bad_free m"
  using owned_free_all_ind [OF assms] by simp_all

lemma close_devices_frees:
  assumes "close_devices ops ctxs m w = (m', w')"
  shows "m' = mem_free_all (path_cells ctxs) m"
  using assms
proof (induction ops ctxs m w rule: close_devices.induct)
  case (2 ops ctx ctxs m w)
  obtain c m1 w1 where cd: "kv_engine_close_device ops ctx m w = (c, m1, w1)" by (metis prod_cases3)
  then have "m1 = mem_free_all (opt_cell (fst (dc_path ctx))) m"
    by (auto simp: kv_engine_close_device_def Let_def opt_cell_def)
  then show ?case using 2 cd by (simp add: path_cells_def mem_free_all_append)
qed (simp add: path_cells_def)

lemma free_leftover_empty:
  "queue_size (tp_queue p) = 0 \<Longrightarrow>
     thread_pool_destroy c (Some p) m = mem_free_all [tp_threads p, tp_addr p] m"
  by (simp add: thread_pool_destroy_def Let_def)

lemma memory_pool_destroy_frees:
  "memory_pool_destroy mp m = mem_free_all (mempool_cells mp) m"
  by (auto simp: memory_pool_destroy_def mempool_cells_def split: option.splits)

lemma health_probe_destroy_frees:
  "health_probe_destroy hp m = mem_free_all (probe_cells hp) m"
  by (simp add: health_probe_destroy_def probe_cells_def split: option.splits)

lemma pool_all_buffers:
  assumes "dma_pool_inv p"
  shows "all_buffers p = map Some (pool_owned p)"
proof -
  have "Some (the x) = x" if "x \<in> set (all_buffers p)" for x
    using assms that by (cases x) (auto simp: dma_pool_inv_def)
  then show ?thesis by (simp add: pool_owned_def map_idI)
qed

lemma buffer_pool_destroy_frees:
  assumes "pool_ok bp hs" "NULL \<notin> set (buffer_cells bp)"
  shows "dma_pool_destroy bp m = mem_free_all (buffer_cells bp) m"
proof (cases bp)
  case None
  then show ?thesis by (simp add: dma_pool_destroy_def buffer_cells_def)
next
  case (Some p)
  have "all_buffers p = map Some (pool_owned p)"
    using assms(1) Some pool_all_buffers by (simp add: pool_ok_def)
  then show ?thesis
    using Some assms(2) dma_pool_destroy_frees [of p m] by (simp add: buffer_cells_def pool_blocks_def)
qed

lemma owned_free_table:
  assumes "owned B t m" "free_table t m = (t', m')"
  shows "owned B t' m' \<and> outside B t' m' = outside B t m \<and> bad_free m' = bad_free m \<and> ht_head t' = []"
proof -
  have ti: "table_inv t m" using assms(1) by (simp add: owned_def)
  note f = free_table_live [OF ti]
  have t': "ht_head t' = []" using assms(2) by (auto simp: free_table_def)
  then have "table_inv t' m'" "kt.rest t' m' = live m'"
    by (simp_all add: table_inv_def kt.rest_def table_cells_def)
  then show ?thesis using owned_table [OF assms(1), of t' m'] f assms(2) t' by simp
qed

lemma mem_free_opt: "mem_free a m = mem_free_all (opt_cell a) m"
  by (cases "a = NULL") (simp_all add: opt_cell_def)

text \<open>
  Freeing an engine whose queue is empty: what is left of the heap are the buffers that
  clients hold and the rest of the process.
\<close>

lemma teardown:
  assumes h: "heap_ok [] e m hs F"
    and pr: "health_probe e = None"
    and q: "\<And>p. workers e = Some p \<Longrightarrow> queue_size (tp_queue p) = 0"
    and cd: "close_devices ops (take (unat (num_devices e)) (devices e))
      (memory_pool_destroy (mem_pool e) (dma_pool_destroy (buffer_pool e)
        (thread_pool_destroy async_context_free (workers e) m))) w = (m5, w1)"
    and ft: "free_table (key_table e) m5 = (tab, m6)"
    and m': "m' = mem_free (en_addr e) (mem_free (fst (config_emul_file e))
      (mem_free (fst (config_device_path e)) m6))"
  shows "\<not> bad_free m' \<and> (\<forall>x. x \<notin> set hs \<longrightarrow> live m' x = F x)"
proof -
  let ?paths = "path_cells (take (unat (num_devices e)) (devices e))"
  let ?A = "worker_cells (workers e) @ buffer_cells (buffer_pool e) @ mempool_cells (mem_pool e) @ ?paths"
  let ?C = "opt_cell (fst (config_device_path e)) @ opt_cell (fst (config_emul_file e)) @ [en_addr e]"
  have fb: "fixed_blocks e = ?A @ ?C" using pr by (simp add: fixed_blocks_def probe_cells_def)
  have "mset (?A @ ?C @ heap_held e hs) = mset (heap_held e hs @ fixed_blocks e)" by (simp add: fb)
  note o0 = owned_mset [OF this]
  have o: "owned (?A @ ?C @ heap_held e hs) (key_table e) m"
    "outside (?A @ ?C @ heap_held e hs) (key_table e) m = F" "\<not> bad_free m"
    using h o0 by (simp_all add: heap_ok_def)
  have nn: "NULL \<notin> set (buffer_cells (buffer_pool e))" using o(1) by (simp add: owned_def)
  have "thread_pool_destroy async_context_free (workers e) m = mem_free_all (worker_cells (workers e)) m"
  proof (cases "workers e")
    case None
    then show ?thesis by (simp add: thread_pool_destroy_def worker_cells_def)
  next
    case (Some p)
    have "queue_items (tp_queue p) = []" using q [OF Some] by (simp add: queue_items_def)
    then show ?thesis using free_leftover_empty [OF q [OF Some]] Some by (simp add: worker_cells_def)
  qed
  then have m5: "m5 = mem_free_all ?A m"
    using close_devices_frees [OF cd] memory_pool_destroy_frees
      buffer_pool_destroy_frees [OF heap_okD(5) [OF h] nn] by (simp add: mem_free_all_append)
  note f1 = owned_free_all [OF o(1)]
  note f2 = owned_free_table [OF f1(1) [folded m5] ft]
  have m6: "m' = mem_free_all ?C m6"
    using f2 by (simp add: m' mem_free_opt mem_free_all_append opt_cell_def)
  have "owned (?C @ heap_held e hs) tab m6" using f2 by simp
  note f3 = owned_free_all [OF this]
  have "outside (heap_held e hs) tab m' = F"
    using f3(2) f2 f1(2) o(2) by (simp add: m5 m6)
  moreover have "kt.rest tab m' = live m'"
    using f2 by (simp add: kt.rest_def table_cells_def)
  ultimately have "\<forall>x. x \<notin> set (heap_held e hs) \<longrightarrow> live m' x = F x"
    by (auto simp: outside_def)
  then show ?thesis
    using f3(3) f2 f1(3) o(3) m5 m6 by (auto simp: heap_held_def)
qed

text \<open>What no operation on keys changes.\<close>

definition shape :: "kv_engine \<Rightarrow> health_probe_t option \<times> nat \<times> u32 \<times> bool" where
  "shape e = (health_probe e, length (devices e), num_devices e, initialized e)"

definition shape_of :: "'w sys \<Rightarrow> (health_probe_t option \<times> nat \<times> u32 \<times> bool) option" where
  "shape_of s = map_option shape (engine s)"

lemma store_shape [frame]: "shape_of (snd (kv_engine_store ops key n val vn ow s)) = shape_of s"
  by (auto simp: kv_engine_store_def shape_of_def shape_def Let_def split: option.splits prod.splits)

lemma delete_shape [frame]: "shape_of (snd (kv_engine_delete ops key n s)) = shape_of s"
  by (auto simp: kv_engine_delete_def shape_of_def shape_def Let_def split: option.splits prod.splits)

lemma drop_buffer_shape: "shape (fst (drop_buffer fp b e m)) = shape e"
  by (simp add: drop_buffer_def shape_def)

lemma retrieve_finish_shape:
  "shape_of (snd (snd (retrieve_finish i key n del r v b fp e m w))) = Some (shape e)"
  using drop_buffer_shape
  by (auto simp: retrieve_finish_def shape_of_def shape_def Let_def drop_buffer_def split: prod.splits)

lemma first_buffer_shape: "first_buffer e m = (b, fp, e1, m1) \<Longrightarrow> shape e1 = shape e"
  by (auto simp: first_buffer_def shape_def Let_def split: option.splits prod.splits if_splits)

lemma retrieve_shape [frame]:
  "shape_of (snd (snd (kv_engine_retrieve ops key n outs del s))) = shape_of s"
proof (cases "engine s")
  case None
  then show ?thesis by (simp add: kv_engine_retrieve_def shape_of_def shape_def)
next
  case (Some e)
  obtain b fp e1 m1 where fb: "first_buffer e (heap s) = (b, fp, e1, m1)" by (metis prod_cases4)
  note p = first_buffer_shape [OF fb]
  obtain e2 m2 where db: "drop_buffer fp b e1 m1 = (e2, m2)" by fastforce
  have p2: "shape e2 = shape e" using drop_buffer_shape [of fp b e1 m1] db p by simp
  have s: "shape_of s = Some (shape e)" using Some by (simp add: shape_of_def shape_def)
  show ?thesis
    unfolding s kv_engine_retrieve_def Some option.case Let_def fb prod.case db
    using p p2 Some
    by (simp add: retrieve_finish_shape split: prod.split) (simp add: shape_of_def shape_def)
qed

lemma shape_of_heap [simp]: "shape_of (s\<lparr>heap := m\<rparr>) = shape_of s"
  by (simp add: shape_of_def shape_def)

lemma worker_func_shape: "shape_of (snd (async_worker_func ops c s)) = shape_of s"
  by (cases "ac_op_type c") (simp_all add: async_worker_func_def Let_def case_prod_unfold frame)

lemma worker_round_shape: "shape_of (snd (worker_round ops s)) = shape_of s"
proof (cases "engine s")
  case None
  then show ?thesis by (simp add: worker_round_def)
next
  case (Some e)
  have r: "shape_of (release_item a t) = shape_of t" for a t
    by (cases "engine t") (simp_all add: release_item_def shape_of_def shape_def)
  have "shape_of (s\<lparr>engine := Some (set_workers p e)\<rparr>) = shape_of s" for p
    using Some by (simp add: shape_of_def shape_def set_workers_def)
  then show ?thesis
    using Some
    by (simp add: worker_round_def Let_def case_prod_unfold worker_func_shape r
        split: option.split worker_outcome.split)
qed

lemma worker_rounds_shape: "shape_of (snd (worker_rounds ops n s)) = shape_of s"
proof (induction n arbitrary: s)
  case (Suc n)
  show ?case using Suc.IH worker_round_shape [of ops s] by (auto split: prod.splits) (metis snd_conv)
qed simp

lemma join_workers_heap:
  assumes e: "engine s = Some e" "heap_ok [] e (heap s) hs F" and j: "join_workers ops s = (cs, s')"
  shows "\<exists>e'. engine s' = Some e' \<and> heap_ok [] e' (heap s') (handed_all cs @ hs) F \<and>
    (\<forall>p. workers e' = Some p \<longrightarrow> queue_size (tp_queue p) = 0) \<and> health_probe e' = health_probe e"
proof (cases "workers e")
  case None
  then show ?thesis using j e by (simp add: join_workers_def)
next
  case (Some p)
  let ?e = "set_workers (begin_shutdown p) e"
  have "queue_ok (Some (begin_shutdown p))"
    using heap_okD(4) [OF e(2)] Some by (simp add: queue_ok_def begin_shutdown_def)
  then have h: "heap_ok [] ?e (heap s) hs F"
    by (intro heap_ok_move [OF e(2)])
      (use Some in \<open>simp_all add: set_workers_def begin_shutdown_def fixed_blocks_def worker_cells_def\<close>)
  have wr: "worker_rounds ops (unat (queue_size (tp_queue p))) (s\<lparr>engine := Some ?e\<rparr>) = (cs, s')"
    using j e(1) Some by (simp add: join_workers_def)
  have pr: "shape_of s' = Some (shape e)"
    using worker_rounds_shape [of ops "unat (queue_size (tp_queue p))" "s\<lparr>engine := Some ?e\<rparr>"] wr
    by (simp add: shape_of_def shape_def set_workers_def)
  from worker_rounds_heap [OF _ _ _ wr, of ?e hs F "begin_shutdown p"] h obtain e' p' where
    "engine s' = Some e'" "heap_ok [] e' (heap s') (handed_all cs @ hs) F" "workers e' = Some p'"
    "unat (queue_size (tp_queue p')) = 0"
    by (auto simp: set_workers_def begin_shutdown_def)
  then show ?thesis using pr by (simp add: unat_eq_zero shape_of_def shape_def)
qed

text \<open>
  Cleanup: no invalid free, and apart from buffers that clients hold the heap is exactly the
  part that never belonged to the engine.
\<close>

lemma cleanup_heap:
  assumes e: "engine s = Some e" "heap_ok [] e (heap s) hs F"
    and cl: "kv_engine_cleanup ops s = (cs, s')"
  shows "engine s' = None \<and> \<not> bad_free (heap s') \<and>
    (\<forall>x. x \<notin> set (handed_all cs @ hs) \<longrightarrow> live (heap s') x = F x)"
proof -
  let ?e0 = "e\<lparr>health_probe := None\<rparr>"
  have "heap_ok (probe_cells (health_probe e)) ?e0 (heap s) hs F"
    by (rule heap_ok_move [OF e(2)]) (use heap_okD(4) [OF e(2)] in \<open>simp_all add: fixed_blocks_def probe_cells_def\<close>)
  then have h0: "heap_ok [] ?e0 (health_probe_destroy (health_probe e) (heap s)) hs F"
    by (cases "health_probe e") (auto simp: health_probe_destroy_def probe_cells_def intro: heap_ok_free)
  let ?s1 = "s\<lparr>heap := health_probe_destroy (health_probe e) (heap s), engine := Some ?e0\<rparr>"
  obtain cs1 s2 where j: "join_workers ops ?s1 = (cs1, s2)" by fastforce
  obtain e2 where e2: "engine s2 = Some e2" "heap_ok [] e2 (heap s2) (handed_all cs1 @ hs) F"
      "\<And>p. workers e2 = Some p \<Longrightarrow> queue_size (tp_queue p) = 0" "health_probe e2 = None"
    using join_workers_heap [OF _ _ j, of ?e0 hs F] h0 by auto
  obtain m5 w1 where cd: "close_devices ops (take (unat (num_devices e2)) (devices e2))
      (memory_pool_destroy (mem_pool e2) (dma_pool_destroy (buffer_pool e2)
        (thread_pool_destroy async_context_free (workers e2) (heap s2)))) (lib s2) = (m5, w1)" by fastforce
  obtain tab m6 where ft: "free_table (key_table e2) m5 = (tab, m6)" by fastforce
  have s': "cs = cs1" "engine s' = None" "heap s' = mem_free (en_addr e2) (mem_free (fst (config_emul_file e2))
      (mem_free (fst (config_device_path e2)) m6))"
    using cl e(1) j e2(1) cd ft by (auto simp: kv_engine_cleanup_def Let_def)
  from teardown [OF e2(2) e2(4) e2(3) cd ft s'(3)] show ?thesis using s' by simp
qed

section \<open>Initialisation\<close>

text \<open>Between two heaps exactly the blocks \<open>A\<close> have been allocated.\<close>

definition acquired :: "addr list \<Rightarrow> mem \<Rightarrow> mem \<Rightarrow> bool" where
  "acquired A m m' \<longleftrightarrow> distinct A \<and> NULL \<notin> set A \<and> bad_free m' = bad_free m \<and>
     (\<forall>x. if x \<in> set A then live m x = None \<and> live m' x \<noteq> None else live m' x = live m x)"

lemma acquired_refl: "live m' = live m \<Longrightarrow> bad_free m' = bad_free m \<Longrightarrow> acquired [] m m'"
  by (simp add: acquired_def)

lemma acquired_trans:
  assumes "acquired A m m1" "acquired B m1 m2"
  shows "acquired (A @ B) m m2"
proof -
  have a: "\<And>x. x \<in> set A \<Longrightarrow> live m x = None \<and> live m1 x \<noteq> None" "\<And>x. x \<notin> set A \<Longrightarrow> live m1 x = live m x"
    and b: "\<And>x. x \<in> set B \<Longrightarrow> live m1 x = None \<and> live m2 x \<noteq> None" "\<And>x. x \<notin> set B \<Longrightarrow> live m2 x = live m1 x"
    using assms by (auto simp: acquired_def split: if_splits)
  have "set A \<inter> set B = {}" using a(1) b(1) by fastforce
  moreover have "\<forall>x. if x \<in> set (A @ B) then live m x = None \<and> live m2 x \<noteq> None else live m2 x = live m x"
    using a b by (metis Un_iff set_append)
  ultimately show ?thesis using assms unfolding acquired_def by simp
qed

lemma acquired_mset: "acquired A m m' \<Longrightarrow> mset B = mset A \<Longrightarrow> acquired B m m'"
  using mset_eq_setD [of B A] mset_eq_imp_distinct_iff [of B A] by (simp add: acquired_def)

lemma acquired_alloc: "alloc_law n m a m' \<Longrightarrow> acquired (opt_cell a) m m'"
  by (auto simp: acquired_def alloc_law_def opt_cell_def)

lemma acquired_strdup_opt: "strdup_opt t m = (c, m') \<Longrightarrow> acquired (opt_cell (fst c)) m m'"
  by (cases t; cases c) (auto simp: strdup_opt_def intro: acquired_refl acquired_alloc dest: strdup_law)

lemma acquired_open_all:
  assumes "open_all ops ps opened m w = (KV_SUCCESS, ctxs, m', w')"
  shows "\<exists>new. ctxs = opened @ new \<and> length new = length ps \<and> acquired (path_cells new) m m'"
  using assms
proof (induction ps arbitrary: opened m w)
  case Nil
  then show ?case using acquired_refl by (auto simp: path_cells_def)
next
  case (Cons p ps)
  obtain r ctx m1 w1 where od: "kv_engine_open_device ops zero_ctx p (length opened) m w = (r, ctx, m1, w1)"
    by (metis prod_cases4)
  have r: "r = KV_SUCCESS" using Cons.prems od by (auto split: if_splits prod.splits)
  have "open_all ops ps (opened @ [ctx]) m1 w1 = (KV_SUCCESS, ctxs, m', w')" using Cons.prems od r by simp
  from Cons.IH [OF this] obtain new where n: "ctxs = (opened @ [ctx]) @ new" "length new = length ps" "acquired (path_cells new) m1 m'"
    by blast
  have "acquired (opt_cell (fst (dc_path ctx))) m m1"
    by (rule acquired_alloc [OF open_device_success(7)]) (use od r in simp)
  from acquired_trans [OF this n(3)] show ?case
    using n by (intro exI [of _ "ctx # new"]) (simp add: path_cells_def)
qed

lemma acquired_memory_pool:
  assumes "memory_pool_create sz m = (Some p, m')"
  shows "acquired (mempool_cells (Some p)) m m'"
  using memory_pool_create_pool [OF assms] by (auto simp: acquired_def mempool_cells_def)

lemma acquired_thread_pool:
  assumes "(if b then thread_pool_create created n depth m else (None, m)) = (tp, m')"
  shows "acquired (worker_cells tp) m m' \<and> queue_ok tp"
proof (cases tp)
  case None
  then have "live m' = live m \<and> bad_free m' = bad_free m"
    using assms thread_pool_create_fail [of created n depth m m'] by (cases b) auto
  then show ?thesis using None by (simp add: worker_cells_def queue_ok_def acquired_refl)
next
  case (Some p)
  then have c: "thread_pool_create created n depth m = (Some p, m')" using assms by (cases b) auto
  note o = thread_pool_create_ok [OF c]
  have q: "queue_items (tp_queue p) = []" "queue_repr (tp_queue p) []"
    using o(1) empty_queue_repr queue_items_repr [OF empty_queue_repr] by simp_all
  have "acquired [tp_threads p, tp_addr p] m m'" using o(6-12) by (auto simp: acquired_def)
  then show ?thesis using Some q by (simp add: worker_cells_def queue_ok_def)
qed

lemma dma_pool_create_None:
  assumes "dma_pool_create bsz n m = (None, m')" "\<not> bad_free m'" "\<not> bad_free m"
  shows "live m' = live m"
proof -
  have "bad_free m'" if "dma_pool_fill 0 (unat n)
      \<lparr>dp_addr = a, dp_free_list_addr = f, dp_all_buffers_addr = b,
       free_list = replicate (unat n) None, all_buffers = replicate (unat n) None,
       top = - 1, buffer_size = bsz, dp_count = n\<rparr> m3 = (None, m')" "b \<noteq> NULL" for a f b m3
    using that by (auto intro: dma_pool_fill_fail_bad)
  then show ?thesis
    using assms(1,2)
    by (auto simp: dma_pool_create_def Let_def mem_free_def alloc_law_def
        dest!: malloc_law split: prod.splits if_splits)
qed

lemma acquired_dma_pool:
  assumes "(if b then dma_pool_create bsz n m else (None, m)) = (bp, m')" "\<not> bad_free m'" "\<not> bad_free m"
  shows "acquired (buffer_cells bp) m m' \<and> pool_ok bp []"
proof (cases bp)
  case None
  then have "live m' = live m"
    using assms dma_pool_create_None [of bsz n m m'] by (cases b) auto
  then show ?thesis using None assms(2,3) by (simp add: buffer_cells_def pool_ok_def acquired_refl)
next
  case (Some p)
  then have c: "dma_pool_create bsz n m = (Some p, m')" using assms(1) by (cases b) auto
  note o = dma_pool_create_ok [OF c]
  have "acquired (pool_blocks p) m m'" using o(1-5,13) by (simp add: acquired_def)
  then have "acquired (buffer_cells bp) m m'"
    by (rule acquired_mset) (simp add: Some buffer_cells_def pool_blocks_def)
  then show ?thesis using dma_pool_create_inv [OF c] Some by (simp add: pool_ok_def)
qed

lemma acquired_probe:
  assumes "health_probe_create ok m = (hp, m')"
  shows "acquired (probe_cells hp) m m'"
proof -
  obtain p m1 where al: "malloc sizeof_health_probe m = (p, m1)" by fastforce
  note law = malloc_law [OF al]
  show ?thesis
    using assms al acquired_alloc [OF law] alloc_then_free [OF law] law
    by (auto simp: health_probe_create_def probe_cells_def alloc_law_def
        intro: acquired_refl split: if_splits)
qed

text \<open>A successful initialisation, step by step.\<close>

lemma init_success:
  assumes "kv_engine_init ops os out cfg_ptr s = (KV_SUCCESS, s')"
  obtains cfg eng m1 cpath m2 cemul m3 paths ctxs m4 w1 p m5 tp m6 bp m7 hp m8 where
    "cfg_ptr = Some cfg" "malloc sizeof_kv_engine (heap s) = (eng, m1)" "eng \<noteq> NULL"
    "strdup_opt (device_path cfg) m1 = (cpath, m2)" "strdup_opt (emul_config_file cfg) m2 = (cemul, m3)"
    "kv_engine_resolve_device_paths cfg = (KV_SUCCESS, paths)"
    "open_all ops paths [] m3 (lib s) = (KV_SUCCESS, ctxs, m4, w1)"
    "memory_pool_create (if memory_pool_size cfg > 0 then memory_pool_size cfg else 16 * 1024 * 1024) m4 =
       (Some p, m5)"
    "(if num_worker_threads cfg > 0
      then thread_pool_create (os_threads os) (num_worker_threads cfg) (queue_depth cfg) m5
      else (None, m5)) = (tp, m6)"
    "(if dma_pool_count cfg > 0
      then dma_pool_create (of_nat KV_ENGINE_RETRIEVE_SIZE) (ucast (dma_pool_count cfg)) m6
      else (None, m6)) = (bp, m7)"
    "health_probe_create (os_probe_thread os) m7 = (hp, m8)"
    "s' = \<lparr>engine = Some \<lparr>en_addr = eng,
                 devices = ctxs @ replicate (KV_MAX_DEVICES - length ctxs) zero_ctx,
                 num_devices = of_nat (length ctxs), config = cfg,
                 config_device_path = cpath, config_emul_file = cemul,
                 mem_pool = Some p, buffer_pool = bp, workers = tp, stats = zero_stats,
                 key_table = \<lparr>ht_head = []\<rparr>, initialized = True, health_probe = hp\<rparr>,
            heap = m8, lib = w1\<rparr>"
proof -
  obtain cfg where cfg: "cfg_ptr = Some cfg" and out
    using assms by (cases cfg_ptr) (auto simp: kv_engine_init_def split: if_splits)
  obtain eng m1 where e: "malloc sizeof_kv_engine (heap s) = (eng, m1)" by fastforce
  obtain cpath m2 where cp: "strdup_opt (device_path cfg) m1 = (cpath, m2)" by fastforce
  obtain cemul m3 where ce: "strdup_opt (emul_config_file cfg) m2 = (cemul, m3)" by fastforce
  obtain r paths where rp: "kv_engine_resolve_device_paths cfg = (r, paths)" by fastforce
  obtain r2 ctxs m4 w1 where oa: "open_all ops paths [] m3 (lib s) = (r2, ctxs, m4, w1)"
    by (metis prod_cases4)
  obtain mp m5 where mp: "memory_pool_create (if memory_pool_size cfg > 0 then memory_pool_size cfg
      else 16 * 1024 * 1024) m4 = (mp, m5)" by fastforce
  obtain tp m6 where tp: "(if num_worker_threads cfg > 0
      then thread_pool_create (os_threads os) (num_worker_threads cfg) (queue_depth cfg) m5
      else (None, m5)) = (tp :: async_context_t thread_pool_t option, m6)" by fastforce
  obtain bp m7 where bp: "(if dma_pool_count cfg > 0
      then dma_pool_create (of_nat KV_ENGINE_RETRIEVE_SIZE) (ucast (dma_pool_count cfg)) m6
      else (None, m6)) = (bp, m7)" by fastforce
  obtain hp m8 where hp: "health_probe_create (os_probe_thread os) m7 = (hp, m8)" by fastforce
  note run = assms [unfolded kv_engine_init_def cfg option.case Let_def e prod.case cp ce rp oa mp tp bp
      create_table_def hp]
  have "eng \<noteq> NULL" "r = KV_SUCCESS" "r2 = KV_SUCCESS" using run \<open>out\<close> by (auto split: if_splits prod.splits)
  moreover have "mp \<noteq> None" using run \<open>out\<close> calculation by (auto split: if_splits prod.splits)
  then obtain p where "mp = Some p" by auto
  ultimately show thesis
    using that [OF cfg e _ cp ce _ _ _ tp bp hp] rp oa mp run \<open>out\<close>
    by (auto split: if_splits prod.splits)
qed

lemma init_heap:
  assumes "kv_engine_init ops os out cfg_ptr s = (KV_SUCCESS, s')"
    "\<not> bad_free (heap s)" "\<not> bad_free (heap s')"
  shows "\<exists>e. engine s' = Some e \<and> heap_ok [] e (heap s') [] (live (heap s)) \<and> initialized e"
  using assms(1)
proof (rule init_success, goal_cases)
  case (1 cfg eng m1 cpath m2 cemul m3 paths ctxs m4 w1 p m5 tp m6 bp m7 hp m8)
  note a1 = acquired_alloc [OF malloc_law [OF 1(2)]] and a2 = acquired_strdup_opt [OF 1(4)]
    and a3 = acquired_strdup_opt [OF 1(5)] and a5 = acquired_memory_pool [OF 1(8)]
    and a6 = acquired_thread_pool [OF 1(9)] and a8 = acquired_probe [OF 1(11)]
  have a4: "acquired (path_cells ctxs) m3 m4" using acquired_open_all [OF 1(7)] by auto
  have b: "bad_free m6 = bad_free (heap s)" "bad_free m7 = bad_free (heap s')"
    using a1 a2 a3 a4 a5 a6 a8 1(12) by (simp_all add: acquired_def)
  note a7 = acquired_dma_pool [OF 1(10), unfolded b, OF assms(3,2)]
  let ?e = "the (engine s')"
  have le: "length ctxs \<le> KV_MAX_DEVICES"
    using 1(6,7) acquired_open_all [OF 1(7)]
    by (auto simp: kv_engine_resolve_device_paths_def KV_MAX_DEVICES_def split: if_splits option.splits
        dest!: collect_paths_some [THEN iffD1] arg_cong [of _ _ length])
  then have n: "unat (of_nat (length ctxs) :: u32) = length ctxs"
    by (simp add: unat_of_nat KV_MAX_DEVICES_def)
  have "acquired (opt_cell eng @ opt_cell (fst cpath) @ opt_cell (fst cemul) @ path_cells ctxs @
      mempool_cells (Some p) @ worker_cells tp @ buffer_cells bp @ probe_cells hp) (heap s) m8"
    using acquired_trans [OF a1 acquired_trans [OF a2 acquired_trans [OF a3 acquired_trans [OF a4
      acquired_trans [OF a5 acquired_trans [OF conjunct1 [OF a6] acquired_trans [OF conjunct1 [OF a7] a8]]]]]]]
    by simp
  then have "acquired (fixed_blocks ?e) (heap s) m8"
    by (rule acquired_mset) (use 1(3,12) n in \<open>simp add: fixed_blocks_def\<close>)
  then have "owned (fixed_blocks ?e) \<lparr>ht_head = []\<rparr> m8 \<and> outside (fixed_blocks ?e) \<lparr>ht_head = []\<rparr> m8 = live (heap s)"
    by (auto simp: acquired_def owned_def outside_def table_inv_def kt.rest_def table_cells_def fun_eq_iff
        split: if_splits)
  then show ?case
    using a6 a7 assms(3) 1(12) by (simp add: heap_ok_def heap_held_def)
qed

section \<open>Adding a device\<close>

lemma path_cells_snoc [simp]: "path_cells (xs @ [c]) = path_cells xs @ opt_cell (fst (dc_path c))"
  by (simp add: path_cells_def)

lemma add_device_heap:
  assumes e: "engine s = Some e" "heap_ok [] e (heap s) hs F" "devices_ok e"
    and ad: "kv_engine_add_device ops path s = (r, s')"
  shows "\<exists>e'. engine s' = Some e' \<and> heap_ok [] e' (heap s') hs F \<and> devices_ok e'"
proof (cases "s' = s")
  case True
  then show ?thesis using e by auto
next
  case False
  define n where "n = unat (num_devices e)"
  obtain pa where pa: "path = Some pa" "initialized e" "n < KV_MAX_DEVICES"
    using ad e(1) False by (auto simp: kv_engine_add_device_def n_def Let_def split: if_splits)
  obtain r1 ctx m1 w1 where od: "kv_engine_open_device ops (devices e ! n) pa n (heap s) (lib s) =
      (r1, ctx, m1, w1)" by (metis prod_cases4)
  let ?e1 = "e\<lparr>devices := (devices e)[n := ctx]\<rparr>"
  have run: "(r, s') = (if r1 \<noteq> KV_SUCCESS then (r1, \<lparr>engine = Some ?e1, heap = m1, lib = w1\<rparr>)
      else (KV_SUCCESS, \<lparr>engine = Some (?e1\<lparr>num_devices := num_devices e + 1\<rparr>), heap = m1, lib = w1\<rparr>))"
    using ad e(1) False pa od by (auto simp: kv_engine_add_device_def n_def Let_def split: if_splits)
  have lt: "n < length (devices e)" using pa(3) e(3) by (simp add: devices_ok_def)
  have q: "queue_ok (workers e)" using heap_okD(4) [OF e(2)] .
  show ?thesis
  proof (cases "r1 = KV_SUCCESS")
    case False
    have "m1 = heap s" using open_device_failure(2) [OF od False] .
    moreover have "heap_ok [] ?e1 (heap s) hs F"
      by (rule heap_ok_move [OF e(2)]) (use q in \<open>simp_all add: fixed_blocks_def n_def\<close>)
    ultimately show ?thesis using run False e(3) by (simp add: devices_ok_def)
  next
    case True
    have law: "alloc_law (length pa + 1) (heap s) (fst (dc_path ctx)) m1"
      using open_device_success(7) [OF od [unfolded True]] .
    have h1: "heap_ok (opt_cell (fst (dc_path ctx))) e m1 hs F"
      using heap_ok_alloc(1) [OF e(2) law] heap_ok_alloc_null [OF e(2)] law
      by (cases "fst (dc_path ctx) = NULL") (simp_all add: opt_cell_def)
    have n1: "unat (num_devices e + 1) = n + 1"
      unfolding n_def by (rule unat_suc_no_wrap) (use pa(3) in \<open>simp add: n_def KV_MAX_DEVICES_def\<close>)
    let ?e2 = "?e1\<lparr>num_devices := num_devices e + 1\<rparr>"
    have "path_cells (take (n + 1) ((devices e)[n := ctx])) =
        path_cells (take n (devices e)) @ opt_cell (fst (dc_path ctx))"
      using lt by (simp add: take_Suc_conv_app_nth)
    then have "heap_ok [] ?e2 m1 hs F"
      by (intro heap_ok_move [OF h1]) (use q n1 in \<open>simp_all add: fixed_blocks_def n_def\<close>)
    moreover have "devices_ok ?e2" using e(3) n1 pa(3) by (simp add: devices_ok_def)
    ultimately show ?thesis using run True by simp
  qed
qed

section \<open>Clients\<close>

text \<open>
  Calls of a client, and rounds of the workers in between.  A client passes buffers of the
  length it claims, gives a callback to an asynchronous retrieve, and frees only buffers it
  holds (here by position).
\<close>

datatype engine_call =
    Store "byte list" size_t "addr \<times> byte list" size_t bool
  | Retrieve "byte list" size_t bool
  | Delete "byte list" size_t
  | Exists "byte list" size_t
  | Alloc_Buffer size_t
  | Free_Buffer nat
  | Store_Async "byte list" size_t "addr \<times> byte list" size_t "nat option" addr bool
  | Retrieve_Async "byte list" size_t nat addr
  | Delete_Async "byte list" size_t "nat option" addr
  | Worker
  | Reset_Stats
  | Add_Device string

fun call_ok :: "engine_call \<Rightarrow> bool" where
  "call_ok (Store k n v vn ow) \<longleftrightarrow> unat n \<le> length k \<and> unat vn \<le> length (snd v)"
| "call_ok (Retrieve k n d) \<longleftrightarrow> unat n \<le> length k"
| "call_ok (Delete k n) \<longleftrightarrow> unat n \<le> length k"
| "call_ok (Exists k n) \<longleftrightarrow> unat n \<le> length k"
| "call_ok (Store_Async k n v vn cb ud ow) \<longleftrightarrow> unat n \<le> length k \<and> unat vn \<le> length (snd v)"
| "call_ok (Retrieve_Async k n cb ud) \<longleftrightarrow> unat n \<le> length k"
| "call_ok (Delete_Async k n cb ud) \<longleftrightarrow> unat n \<le> length k"
| "call_ok _ \<longleftrightarrow> True"

text \<open>
  One call, on the state of the process and the list of buffers the client holds.  A call that
  blocks on a full queue leaves the state alone: it takes effect when it is repeated.
\<close>

definition after_submit :: "(kv_result_t \<times> 'w sys) option \<Rightarrow> 'w sys \<Rightarrow> 'w sys" where
  "after_submit res s = (case res of None \<Rightarrow> s | Some (r, s') \<Rightarrow> s')"

fun client :: "'w kvs_ops \<Rightarrow> engine_call \<Rightarrow> 'w sys \<times> addr list \<Rightarrow> 'w sys \<times> addr list" where
  "client ops (Store k n v vn ow) (s, hs) = (snd (kv_engine_store ops (Some k) n v vn ow s), hs)"
| "client ops (Retrieve k n d) (s, hs) =
     (let (r, out, s') = kv_engine_retrieve ops (Some k) n True d s in (s', handed out @ hs))"
| "client ops (Delete k n) (s, hs) = (snd (kv_engine_delete ops (Some k) n s), hs)"
| "client ops (Exists k n) (s, hs) = (snd (snd (kv_engine_exists ops (Some k) n True s)), hs)"
| "client ops (Alloc_Buffer sz) (s, hs) = (case engine s of
      None \<Rightarrow> (s, hs)
    | Some e \<Rightarrow> (let (b, e', m') = kv_engine_alloc_buffer e sz (heap s) in
        (s\<lparr>engine := Some e', heap := m'\<rparr>, if b = NULL then hs else b # hs)))"
| "client ops (Free_Buffer i) (s, hs) = (case engine s of
      None \<Rightarrow> (s, hs)
    | Some e \<Rightarrow> if i < length hs then
        let (e', m') = kv_engine_free_buffer e (hs ! i) (heap s) in
        (s\<lparr>engine := Some e', heap := m'\<rparr>, remove1 (hs ! i) hs)
      else (s, hs))"
| "client ops (Store_Async k n v vn cb ud ow) (s, hs) =
     (after_submit (kv_engine_store_async (Some k) n v vn cb ud ow s) s, hs)"
| "client ops (Retrieve_Async k n cb ud) (s, hs) =
     (after_submit (kv_engine_retrieve_async (Some k) n (Some cb) ud s) s, hs)"
| "client ops (Delete_Async k n cb ud) (s, hs) =
     (after_submit (kv_engine_delete_async (Some k) n cb ud s) s, hs)"
| "client ops Worker (s, hs) = (let (cs, s') = worker_round ops s in (s', handed_all cs @ hs))"
| "client ops Reset_Stats (s, hs) = (kv_engine_reset_stats s, hs)"
| "client ops (Add_Device p) (s, hs) = (snd (kv_engine_add_device ops (Some p) s), hs)"

definition client_inv :: "(addr \<Rightarrow> nat option) \<Rightarrow> 'w sys \<times> addr list \<Rightarrow> bool" where
  "client_inv F sh \<longleftrightarrow> (\<exists>e. engine (fst sh) = Some e \<and> heap_ok [] e (heap (fst sh)) (snd sh) F \<and> devices_ok e)"

lemma exists_shape [frame]:
  "shape_of (snd (snd (kv_engine_exists ops key n out s))) = shape_of s"
  by (auto simp: kv_engine_exists_def shape_of_def shape_def Let_def split: option.splits prod.splits)

lemma alloc_buffer_shape: "kv_engine_alloc_buffer e sz m = (b, e', m') \<Longrightarrow> shape e' = shape e"
  by (auto simp: kv_engine_alloc_buffer_def shape_def Let_def split: option.splits prod.splits if_splits)

lemma free_buffer_shape: "kv_engine_free_buffer e b m = (e', m') \<Longrightarrow> shape e' = shape e"
  by (auto simp: kv_engine_free_buffer_def shape_def split: option.splits if_splits)

lemma submit_context_shape:
  assumes "engine s = Some e"
  shows "shape_of (after_submit (submit_context e made s) s) = shape_of s"
proof (cases "submit_context e made s")
  case None
  then show ?thesis by (simp add: after_submit_def)
next
  case (Some rs)
  obtain c m where made: "made = (c, m)" by fastforce
  have "\<exists>w. map_option shape (engine (snd rs)) = Some (shape (e\<lparr>workers := w\<rparr>))"
    using Some assms made
    by (cases c) (auto simp: submit_context_def shape_def Let_def split: option.splits if_splits)
  then show ?thesis using Some assms by (cases rs) (auto simp: after_submit_def shape_of_def shape_def)
qed

lemma after_submit_Some [simp]: "after_submit (Some (r, s')) s = s'"
  by (simp add: after_submit_def)

lemma store_async_shape [frame]:
  "shape_of (after_submit (kv_engine_store_async key n v vn cb ud ow s) s) = shape_of s"
  by (cases "engine s") (simp_all add: kv_engine_store_async_def submit_context_shape)

lemma retrieve_async_shape [frame]:
  "shape_of (after_submit (kv_engine_retrieve_async key n cb ud s) s) = shape_of s"
  by (cases "engine s") (simp_all add: kv_engine_retrieve_async_def submit_context_shape case_prod_unfold Let_def)

lemma delete_async_shape [frame]:
  "shape_of (after_submit (kv_engine_delete_async key n cb ud s) s) = shape_of s"
  by (cases "engine s") (simp_all add: kv_engine_delete_async_def submit_context_shape)

lemma client_shape:
  assumes "\<And>p. c \<noteq> Add_Device p"
  shows "shape_of (fst (client ops c (s, hs))) = shape_of s"
proof (cases c)
  case (Alloc_Buffer sz)
  then show ?thesis
    using alloc_buffer_shape
    by (cases "engine s") (auto simp: shape_of_def split: prod.splits)
next
  case (Free_Buffer i)
  then show ?thesis
    using free_buffer_shape
    by (cases "engine s") (auto simp: shape_of_def split: prod.splits)
next
  case Reset_Stats
  then show ?thesis by (cases "engine s") (simp_all add: kv_engine_reset_stats_def shape_of_def shape_def)
next
  case (Add_Device p)
  then show ?thesis using assms by blast
qed (simp_all add: frame case_prod_unfold Let_def worker_round_shape)

lemma devices_ok_shape: "shape e' = shape e \<Longrightarrow> devices_ok e' = devices_ok e"
  by (simp add: shape_def devices_ok_def)

text \<open>Every call keeps the invariant.\<close>

lemma client_heap:
  assumes e: "engine s = Some e" "heap_ok [] e (heap s) hs F"
    and ok: "call_ok c" "\<And>p. c \<noteq> Add_Device p" and step: "client ops c (s, hs) = (s', hs')"
  shows "\<exists>e'. engine s' = Some e' \<and> heap_ok [] e' (heap s') hs' F"
proof (cases c)
  case (Store k n v vn ow)
  then show ?thesis
    using step ok(1) store_heap [OF e, of "Some k" n ops v vn ow]
    by (cases "kv_engine_store ops (Some k) n v vn ow s") auto
next
  case (Retrieve k n d)
  then show ?thesis
    using step ok(1) retrieve_heap [OF e, of "Some k" n ops True d]
    by (cases "kv_engine_retrieve ops (Some k) n True d s") auto
next
  case (Delete k n)
  then show ?thesis
    using step ok(1) delete_heap [OF e, of "Some k" n ops]
    by (cases "kv_engine_delete ops (Some k) n s") auto
next
  case (Exists k n)
  then show ?thesis
    using step exists_heap [OF e, of ops "Some k" n True]
    by (cases "kv_engine_exists ops (Some k) n True s") auto
next
  case (Alloc_Buffer sz)
  then show ?thesis
    using step e(1) alloc_buffer_heap [OF e(2), of sz]
    by (cases "kv_engine_alloc_buffer e sz (heap s)") auto
next
  case (Free_Buffer i)
  then show ?thesis
    using step e free_buffer_heap [OF e(2), of "hs ! i"]
    by (cases "kv_engine_free_buffer e (hs ! i) (heap s)") (auto split: if_splits)
next
  case (Store_Async k n v vn cb ud ow)
  then show ?thesis
    using step ok(1) e store_async_heap [OF e, of "Some k" n v vn cb ud ow]
    by (cases "kv_engine_store_async (Some k) n v vn cb ud ow s") (auto simp: after_submit_def)
next
  case (Retrieve_Async k n cb ud)
  then show ?thesis
    using step ok(1) e retrieve_async_heap [OF e, of "Some k" n "Some cb" ud]
    by (cases "kv_engine_retrieve_async (Some k) n (Some cb) ud s") (auto simp: after_submit_def)
next
  case (Delete_Async k n cb ud)
  then show ?thesis
    using step ok(1) e delete_async_heap [OF e, of "Some k" n cb ud]
    by (cases "kv_engine_delete_async (Some k) n cb ud s") (auto simp: after_submit_def)
next
  case Worker
  then show ?thesis
    using step worker_round_heap [OF e, of ops] by (cases "worker_round ops s") auto
next
  case Reset_Stats
  have "heap_ok [] (e\<lparr>stats := zero_stats\<rparr>) (heap s) hs F"
    by (rule heap_ok_move [OF e(2)]) (use heap_okD(4) [OF e(2)] in \<open>simp_all add: fixed_blocks_def\<close>)
  then show ?thesis using step Reset_Stats e(1) by (auto simp: kv_engine_reset_stats_def)
next
  case (Add_Device p)
  then show ?thesis using ok(2) by blast
qed

lemma client_keeps:
  assumes "client_inv F sh" "call_ok c"
  shows "client_inv F (client ops c sh)"
proof -
  obtain s hs where sh: "sh = (s, hs)" by fastforce
  obtain e where e: "engine s = Some e" "heap_ok [] e (heap s) hs F" "devices_ok e"
    using assms(1) sh by (auto simp: client_inv_def)
  obtain s' hs' where step: "client ops c (s, hs) = (s', hs')" by fastforce
  show ?thesis
  proof (cases "\<exists>p. c = Add_Device p")
    case True
    then obtain p where p: "c = Add_Device p" by blast
    obtain r where "kv_engine_add_device ops (Some p) s = (r, s')" "hs' = hs"
      using step p by (metis client.simps(12) prod.collapse prod.inject)
    then show ?thesis
      using add_device_heap [OF e] unfolding sh step client_inv_def by simp
  next
    case False
    then have na: "\<And>p. c \<noteq> Add_Device p" by blast
    obtain e' where e': "engine s' = Some e'" "heap_ok [] e' (heap s') hs' F"
      using client_heap [OF e(1,2) assms(2) na step] by blast
    have "shape e' = shape e"
      using client_shape [OF na, of ops s hs] step e(1) e'(1) by (simp add: shape_of_def)
    then have "devices_ok e'" using devices_ok_shape e(3) by blast
    then show ?thesis
      using e' unfolding sh step client_inv_def by simp
  qed
qed

lemma clients_keep:
  assumes "client_inv F sh" "\<forall>c\<in>set calls. call_ok c"
  shows "client_inv F (fold (client ops) calls sh)"
  using assms
proof (induction calls arbitrary: sh)
  case (Cons c calls)
  then show ?case using client_keeps [of F sh c ops] by simp
qed simp

section \<open>Properties\<close>

text \<open>A configuration and a heap for concrete instances.\<close>

definition demo_cfg :: kv_engine_config_t where
  "demo_cfg = \<lparr>device_path = Some ''d0'', emul_config_file = None, memory_pool_size = 4096,
     queue_depth = 4, num_worker_threads = 1, enable_stats = 1,
     device_paths = replicate 8 None, cfg_num_devices = 0, dma_pool_count = 1\<rparr>"

definition demo_os :: os_answers where
  "demo_os = \<lparr>os_threads = [True], os_mutex_init = 0, os_probe_thread = True\<rparr>"

definition demo_heap :: mem where
  "demo_heap = \<lparr>live = (\<lambda>_. None),
     proposals = [16, 32, 48, 64, 80, 96, 112, 128, 144, 160, 8192, 176, 192, 12288, 208, 224, 240, 256],
     bad_free = False\<rparr>"

text \<open>Every initialisation that succeeds leaves between one and eight devices.\<close>

lemma init_devices:
  assumes "kv_engine_init ops os out cfg_ptr s = (KV_SUCCESS, s')" "engine s' = Some e"
    "\<And>cfg. cfg_ptr = Some cfg \<Longrightarrow> length (device_paths cfg) = KV_MAX_DEVICES"
  shows "devices_ok e"
  using assms(1)
proof (rule init_success, goal_cases)
  case (1 cfg eng m1 cpath m2 cemul m3 paths ctxs m4 w1 p m5 tp m6 bp m7 hp m8)
  have "length ctxs = length paths" using acquired_open_all [OF 1(7)] by auto
  moreover have "0 < length paths \<and> length paths \<le> KV_MAX_DEVICES"
    using resolve_success [OF 1(6)] assms(3) [OF 1(1)] by simp
  moreover have "unat (of_nat (length ctxs) :: u32) = length ctxs"
    using calculation by (simp add: unat_of_nat KV_MAX_DEVICES_def)
  ultimately show ?case using 1(12) assms(2) by (auto simp: devices_ok_def)
qed


lemma demo_init:
  "fst (kv_engine_init yes_ops demo_os True (Some demo_cfg) \<lparr>engine = None, heap = demo_heap, lib = ()\<rparr>)
     = KV_SUCCESS"
  "\<not> bad_free (heap (snd (kv_engine_init yes_ops demo_os True (Some demo_cfg)
     \<lparr>engine = None, heap = demo_heap, lib = ()\<rparr>)))"
  by (simp_all add: kv_engine_init_def demo_heap_def demo_cfg_def demo_os_def yes_ops_def
      kv_engine_resolve_device_paths_def kv_engine_open_device_def
      strdup_opt_def strdup_def malloc_def dma_alloc_def posix_memalign_def IS_DMA_ALIGNED_def
      DMA_ALIGNMENT_def memory_pool_create_def thread_pool_create_def dma_pool_create_def
      create_table_def health_probe_create_def KV_ENGINE_RETRIEVE_SIZE_def Let_def)

abbreviation demo_start :: "unit sys" where
  "demo_start \<equiv> \<lparr>engine = None, heap = demo_heap, lib = ()\<rparr>"

abbreviation demo_engine :: "unit sys" where
  "demo_engine \<equiv> snd (kv_engine_init yes_ops demo_os True (Some demo_cfg) demo_start)"

definition demo_calls :: "engine_call list" where
  "demo_calls = [Store [1, 2, 3, 4] 4 (17, [9, 9]) 2 True, Retrieve [1, 2, 3, 4] 4 False, Free_Buffer 0,
     Store_Async [5, 6, 7, 8] 4 (17, [7]) 1 (Some 1) 0 True, Worker, Delete [1, 2, 3, 4] 4]"


text \<open>C5: the error paths of \<open>kv_engine_init\<close> leak: when the device paths are refused, the call
  fails and the copy of \<open>device_path\<close> made for the engine stays allocated, although the engine
  that owned it has been freed.\<close>

theorem init_failure_leaks_config:
  assumes "kv_engine_resolve_device_paths cfg = (r, ps)" "r \<noteq> KV_SUCCESS"
    "device_path cfg = Some p" "emul_config_file cfg = None"
    "proposals (heap s) = a # b # rest" "a \<noteq> NULL" "b \<noteq> NULL" "a \<noteq> b"
    "live (heap s) a = None" "live (heap s) b = None"
  shows "\<exists>s'. kv_engine_init ops os True (Some cfg) s = (r, s') \<and> engine s' = engine s \<and>
    live (heap s') = (live (heap s))(b := Some (length p + 1))"
  using assms
  by (auto simp: kv_engine_init_def malloc_def strdup_opt_def strdup_def mem_free_def fun_upd_twist
      fun_upd_idem)

theorem init_failure_leaks_config_witness:
  "\<exists>s'. kv_engine_init yes_ops demo_os True (Some (demo_cfg\<lparr>cfg_num_devices := 9\<rparr>)) demo_start =
      (KV_ERR_INVALID_PARAM, s') \<and> engine s' = None \<and> live (heap s') = (\<lambda>_. None)(32 := Some 3)"
proof -
  let ?cfg = "demo_cfg\<lparr>cfg_num_devices := 9\<rparr>"
  have "kv_engine_resolve_device_paths ?cfg = (KV_ERR_INVALID_PARAM, [])"
    by (simp add: kv_engine_resolve_device_paths_def KV_MAX_DEVICES_def demo_cfg_def)
  from init_failure_leaks_config [OF this, of "''d0''" demo_start 16 32
      "[48, 64, 80, 96, 112, 128, 144, 160, 8192, 176, 192, 12288, 208, 224, 240, 256]" yes_ops demo_os]
  show ?thesis by (simp add: demo_cfg_def demo_heap_def numeral_3_eq_3)
qed

end
