(* ===== verification/Ordered_Map.thy ===== *)
theory Ordered_Map
  imports Prelude
begin

text \<open>
  The \<open>std::map\<close> that the emulator keeps its keys and its open iterators in: the elements in
  the order of a comparison object.  The operations are those the emulator calls; they are
  written with the comparison only, as the container is, and the locale shows that on an
  ordered sequence they are the operations of a finite map.
\<close>

section \<open>The container\<close>

definition lower_bound :: "('k \<Rightarrow> 'k \<Rightarrow> bool) \<Rightarrow> 'k \<Rightarrow> ('k \<times> 'v) list \<Rightarrow> ('k \<times> 'v) list" where
  "lower_bound lt k xs = dropWhile (\<lambda>p. lt (fst p) k) xs"

definition before :: "('k \<Rightarrow> 'k \<Rightarrow> bool) \<Rightarrow> 'k \<Rightarrow> ('k \<times> 'v) list \<Rightarrow> ('k \<times> 'v) list" where
  "before lt k xs = takeWhile (\<lambda>p. lt (fst p) k) xs"

text \<open>Two keys are the same element when neither comes before the other.\<close>

definition map_find :: "('k \<Rightarrow> 'k \<Rightarrow> bool) \<Rightarrow> 'k \<Rightarrow> ('k \<times> 'v) list \<Rightarrow> 'v option" where
  "map_find lt k xs = (case lower_bound lt k xs of
      [] \<Rightarrow> None
    | p # ps \<Rightarrow> if lt k (fst p) then None else Some (snd p))"

definition after :: "('k \<Rightarrow> 'k \<Rightarrow> bool) \<Rightarrow> 'k \<Rightarrow> ('k \<times> 'v) list \<Rightarrow> ('k \<times> 'v) list" where
  "after lt k xs = (case lower_bound lt k xs of
      [] \<Rightarrow> []
    | p # ps \<Rightarrow> if lt k (fst p) then p # ps else ps)"

definition map_put :: "('k \<Rightarrow> 'k \<Rightarrow> bool) \<Rightarrow> 'k \<Rightarrow> 'v \<Rightarrow> ('k \<times> 'v) list \<Rightarrow> ('k \<times> 'v) list" where
  "map_put lt k v xs = before lt k xs @ (k, v) # after lt k xs"

definition map_erase :: "('k \<Rightarrow> 'k \<Rightarrow> bool) \<Rightarrow> 'k \<Rightarrow> ('k \<times> 'v) list \<Rightarrow> ('k \<times> 'v) list" where
  "map_erase lt k xs = before lt k xs @ after lt k xs"

definition map_ordered :: "('k \<Rightarrow> 'k \<Rightarrow> bool) \<Rightarrow> ('k \<times> 'v) list \<Rightarrow> bool" where
  "map_ordered lt xs \<longleftrightarrow> sorted_wrt (\<lambda>p q. lt (fst p) (fst q)) xs"

lemma map_ordered_Nil [simp]: "map_ordered lt []"
  by (simp add: map_ordered_def)

lemma map_find_Nil [simp]: "map_find lt k [] = None"
  by (simp add: map_find_def lower_bound_def)

lemma before_lower_bound: "before lt k xs @ lower_bound lt k xs = xs"
  by (simp add: before_def lower_bound_def)

section \<open>It is a finite map\<close>

locale strict_comparison =
  fixes lt :: "'k \<Rightarrow> 'k \<Rightarrow> bool"
  assumes less_irrefl: "\<not> lt a a"
    and less_trans: "lt a b \<Longrightarrow> lt b c \<Longrightarrow> lt a c"
    and less_total: "\<not> lt a b \<Longrightarrow> \<not> lt b a \<Longrightarrow> a = b"
begin

lemma less_asym: "lt a b \<Longrightarrow> \<not> lt b a"
  using less_irrefl less_trans by blast

lemma ordered_parts:
  assumes "map_ordered lt xs"
  shows "\<forall>p\<in>set (before lt k xs). lt (fst p) k"
    and "\<forall>p\<in>set (lower_bound lt k xs). \<not> lt (fst p) k"
    and "\<forall>p\<in>set (after lt k xs). lt k (fst p)"
    and "map_ordered lt (before lt k xs)"
    and "map_ordered lt (after lt k xs)"
    and "\<forall>p\<in>set (before lt k xs). \<forall>q\<in>set (after lt k xs). lt (fst p) (fst q)"
proof -
  show b: "\<forall>p\<in>set (before lt k xs). lt (fst p) k"
    by (auto simp: before_def dest: set_takeWhileD)
  have s: "sorted_wrt (\<lambda>p q. lt (fst p) (fst q)) (before lt k xs @ lower_bound lt k xs)"
    using assms by (simp add: before_lower_bound map_ordered_def)
  then have lb: "map_ordered lt (lower_bound lt k xs)"
    and "map_ordered lt (before lt k xs)"
    by (simp_all add: sorted_wrt_append map_ordered_def)
  then show "map_ordered lt (before lt k xs)" by simp
  have hd: "lower_bound lt k xs \<noteq> [] \<Longrightarrow> \<not> lt (fst (hd (lower_bound lt k xs))) k"
    unfolding lower_bound_def by (rule hd_dropWhile)
  show "\<forall>p\<in>set (lower_bound lt k xs). \<not> lt (fst p) k"
    using hd lb less_trans by (cases "lower_bound lt k xs") (auto simp: map_ordered_def)
  show a: "\<forall>p\<in>set (after lt k xs). lt k (fst p)"
    using hd lb less_trans less_total
    by (cases "lower_bound lt k xs")
      (fastforce simp: map_ordered_def after_def split: if_splits)+
  show "map_ordered lt (after lt k xs)"
    using lb by (cases "lower_bound lt k xs") (auto simp: map_ordered_def after_def)
  show "\<forall>p\<in>set (before lt k xs). \<forall>q\<in>set (after lt k xs). lt (fst p) (fst q)"
    using a b less_trans by blast
qed

lemma parts_cases:
  assumes "map_ordered lt xs"
  obtains v where "xs = before lt k xs @ (k, v) # after lt k xs" "map_find lt k xs = Some v"
  | "xs = before lt k xs @ after lt k xs" "map_find lt k xs = None"
proof (cases "lower_bound lt k xs")
  case Nil
  then have "xs = before lt k xs @ after lt k xs" "map_find lt k xs = None"
    using before_lower_bound [of lt k xs] by (simp_all add: after_def map_find_def)
  then show ?thesis by (rule that(2))
next
  case (Cons p ps)
  have x: "xs = before lt k xs @ p # ps"
    using before_lower_bound [of lt k xs] Cons by simp
  show ?thesis
  proof (cases "lt k (fst p)")
    case True
    then have "xs = before lt k xs @ after lt k xs" "map_find lt k xs = None"
      using x Cons by (simp_all add: after_def map_find_def)
    then show ?thesis by (rule that(2))
  next
    case False
    then have "fst p = k"
      using ordered_parts(2) [OF assms, of k] Cons less_total by simp
    then have "p = (k, snd p)" by (cases p) simp
    then have "xs = before lt k xs @ (k, snd p) # after lt k xs" "map_find lt k xs = Some (snd p)"
      using x Cons False by (simp_all add: after_def map_find_def)
    then show ?thesis by (rule that(1))
  qed
qed

lemma ordered_distinct: "map_ordered lt xs \<Longrightarrow> distinct (map fst xs)"
  by (induction xs) (auto simp: map_ordered_def less_irrefl dest: less_asym)

lemma map_of_ordered_parts:
  assumes "map_ordered lt xs" "k' \<noteq> k"
  shows "map_of (before lt k xs @ (k, v) # after lt k xs) k' =
           map_of (before lt k xs @ after lt k xs) k'"
  using assms by (simp add: map_of_append map_add_def split: option.splits)

lemma map_of_parts_None:
  assumes "map_ordered lt xs"
  shows "map_of (before lt k xs) k = None" "map_of (after lt k xs) k = None"
  using ordered_parts(1,3) [OF assms, of k] by (auto simp: map_of_eq_None_iff less_irrefl)

theorem map_find_map_of:
  assumes "map_ordered lt xs"
  shows "map_find lt k xs = map_of xs k"
proof (rule parts_cases [OF assms, of k])
  fix v assume x: "xs = before lt k xs @ (k, v) # after lt k xs" and v: "map_find lt k xs = Some v"
  have "map_of xs k = map_of (before lt k xs @ (k, v) # after lt k xs) k"
    by (rule arg_cong [OF x, of "\<lambda>z. map_of z k"])
  then show ?thesis
    using v map_of_parts_None(1) [OF assms, of k] by (simp add: map_add_def)
next
  assume x: "xs = before lt k xs @ after lt k xs" and v: "map_find lt k xs = None"
  have "map_of xs k = map_of (before lt k xs @ after lt k xs) k"
    by (rule arg_cong [OF x, of "\<lambda>z. map_of z k"])
  then show ?thesis
    using v map_of_parts_None [OF assms, of k] by (simp add: map_add_def)
qed

lemma put_ordered:
  assumes "map_ordered lt xs"
  shows "map_ordered lt (map_put lt k v xs)"
  using ordered_parts [OF assms, of k]
  by (simp add: map_put_def map_ordered_def sorted_wrt_append)

lemma erase_ordered:
  assumes "map_ordered lt xs"
  shows "map_ordered lt (map_erase lt k xs)"
  using ordered_parts [OF assms, of k]
  by (simp add: map_erase_def map_ordered_def sorted_wrt_append)

lemma map_of_erase:
  assumes "map_ordered lt xs"
  shows "map_of (map_erase lt k xs) = (map_of xs)(k := None)"
proof
  fix k'
  show "map_of (map_erase lt k xs) k' = ((map_of xs)(k := None)) k'"
  proof (cases "k' = k")
    case True
    then show ?thesis
      using map_of_parts_None [OF assms, of k] by (simp add: map_erase_def map_of_append map_add_None)
  next
    case False
    have "map_of xs k' = map_of (before lt k xs @ after lt k xs) k'"
      using parts_cases [OF assms, of k] map_of_ordered_parts [OF assms False] by metis
    then show ?thesis using False by (simp add: map_erase_def)
  qed
qed

lemma map_of_put:
  assumes "map_ordered lt xs"
  shows "map_of (map_put lt k v xs) = (map_of xs)(k \<mapsto> v)"
proof
  fix k'
  show "map_of (map_put lt k v xs) k' = ((map_of xs)(k \<mapsto> v)) k'"
  proof (cases "k' = k")
    case True
    then show ?thesis
      using map_of_parts_None [OF assms, of k]
      by (simp add: map_put_def map_of_append map_add_Some_iff)
  next
    case False
    then show ?thesis
      using map_of_ordered_parts [OF assms False] map_of_erase [OF assms, of k]
      by (simp add: map_put_def map_erase_def fun_upd_def fun_eq_iff)
  qed
qed

theorem find_put:
  assumes "map_ordered lt xs"
  shows "map_find lt k' (map_put lt k v xs) = (if k' = k then Some v else map_find lt k' xs)"
  using assms by (simp add: map_find_map_of put_ordered map_of_put)

theorem find_erase:
  assumes "map_ordered lt xs"
  shows "map_find lt k' (map_erase lt k xs) = (if k' = k then None else map_find lt k' xs)"
  using assms by (simp add: map_find_map_of erase_ordered map_of_erase)

lemma ordered_split:
  assumes "map_ordered lt (xs @ p # ys)"
  shows "lower_bound lt (fst p) (xs @ p # ys) = p # ys" "before lt (fst p) (xs @ p # ys) = xs"
  using assms by (auto simp: lower_bound_def before_def map_ordered_def sorted_wrt_append less_irrefl)

lemma lower_bound_filter:
  assumes "map_ordered lt xs"
  shows "lower_bound lt k xs = filter (\<lambda>p. \<not> lt (fst p) k) xs"
proof -
  have "filter (\<lambda>p. \<not> lt (fst p) k) (before lt k xs @ lower_bound lt k xs) = lower_bound lt k xs"
    using ordered_parts(1,2) [OF assms, of k] by (simp add: filter_empty_conv)
  then show ?thesis by (simp add: before_lower_bound)
qed

end

end
