(* ===== verification/Kvs_Adi.thy ===== *)
theory Kvs_Adi
  imports Kvs_Interface Ordered_Map
begin

text \<open>
  The data of the device layer (kvs_adi.h, kvs_adi_internal.h), the check of keys and values
  that every command goes through (kvs_utils.h) and the order in which the emulator keeps its
  keys (kv_emulator.hpp).  The layouts of \<open>kv_key\<close> and \<open>kv_value\<close> are those of \<open>kvs_key\<close> and
  \<open>kvs_value\<close>: the driver casts the pointers of one to the other.
\<close>

section \<open>Constants and options\<close>

definition SAMSUNG_KV_MIN_KEY_LEN :: nat where "SAMSUNG_KV_MIN_KEY_LEN = 4"
definition SAMSUNG_KV_MAX_KEY_LEN :: nat where "SAMSUNG_KV_MAX_KEY_LEN = 255"
definition SAMSUNG_KV_MIN_VALUE_LEN :: nat where "SAMSUNG_KV_MIN_VALUE_LEN = 0"
definition SAMSUNG_KV_MAX_VALUE_LEN :: nat where "SAMSUNG_KV_MAX_VALUE_LEN = 2 * 1024 * 1024"
definition SAMSUNG_MAX_ITERATORS :: nat where "SAMSUNG_MAX_ITERATORS = 16"
definition SAMSUNG_MAX_KEYSPACE_CNT :: nat where "SAMSUNG_MAX_KEYSPACE_CNT = 2"
definition KV_ALIGNMENT_UNIT :: u32 where "KV_ALIGNMENT_UNIT = 512"

lemmas adi_const_defs = SAMSUNG_KV_MIN_KEY_LEN_def SAMSUNG_KV_MAX_KEY_LEN_def
  SAMSUNG_KV_MIN_VALUE_LEN_def SAMSUNG_KV_MAX_VALUE_LEN_def SAMSUNG_MAX_ITERATORS_def
  SAMSUNG_MAX_KEYSPACE_CNT_def KV_ALIGNMENT_UNIT_def

datatype kv_delete_option = KV_DELETE_OPT_DEFAULT | KV_DELETE_OPT_ERROR

datatype kv_iterator_option =
    KV_ITERATOR_OPT_KEY | KV_ITERATOR_OPT_KV | KV_ITERATOR_OPT_KV_WITH_DELETE

datatype kv_purge_option =
    KV_PURGE_OPT_DEFAULT | KV_PURGE_OPT_KV_ERASE | KV_PURGE_OPT_CRYPTO_ERASE

datatype kv_retrieve_option = KV_RETRIEVE_OPT_DEFAULT | KV_RETRIEVE_OPT_DELETE

datatype kv_sanitize_option =
    RESERVED | RESERVED1 | KV_SANITIZE_OPT_KV_ERASE | KV_SANITIZE_OPT_OVERWRITE
  | KV_SANITIZE_OPT_CRYPTO_ERASE

datatype kv_store_option =
    KV_STORE_OPT_DEFAULT | KV_STORE_OPT_COMPRESS | KV_STORE_OPT_IDEMPOTENT
  | KV_STORE_OPT_UPDATE_ONLY | KV_STORE_OPT_APPEND

section \<open>Iterators\<close>

type_synonym kv_iterator_handle = u8

record kv_group_condition =
  bitmask :: u32
  bit_pattern :: u32

text \<open>An entry of the table that \<open>kv_list_iterators\<close> reports.\<close>

record kv_iterator =
  handle_id :: u8
  it_status :: u8
  it_type :: kv_iterator_option
  it_keyspace :: u8
  it_prefix :: u32
  it_bitmask :: u32
  is_eof :: u8

text \<open>The buffer that an iteration step fills: \<open>it_size\<close> is its size on entry, the bytes used on exit.\<close>

record kv_iterator_list =
  num_entries :: u32
  it_end :: bool
  it_size :: u32
  it_list :: "byte list"

text \<open>
  The state of an open iterator.  \<open>current_key\<close> holds the \<open>keylength\<close> bytes of the key from
  which the next step goes on.
\<close>

record iterator_state =
  it_op :: kv_iterator_option
  it_cond :: kv_group_condition
  it_ksid :: u8
  has_fixed_keylen :: bool
  current_key :: "byte list"
  at_end :: bool

section \<open>Validation of requests\<close>

definition validate_key_value :: "kvs_key \<Rightarrow> kvs_value option \<Rightarrow> adi_result" where
  "validate_key_value key val =
     (if kk_buf key = None then ADI_ERR_KEY_INVALID
      else if unat (kk_length key) > SAMSUNG_KV_MAX_KEY_LEN \<or> unat (kk_length key) < SAMSUNG_KV_MIN_KEY_LEN
      then ADI_ERR_KEY_LENGTH_INVALID
      else case val of
             None \<Rightarrow> ADI_SUCCESS
           | Some v \<Rightarrow>
               if unat (kv_length v) < SAMSUNG_KV_MIN_VALUE_LEN \<or>
                  unat (kv_length v) > SAMSUNG_KV_MAX_VALUE_LEN
               then ADI_ERR_VALUE_LENGTH_INVALID
               else if kv_offset v AND (KV_ALIGNMENT_UNIT - 1) \<noteq> 0
               then ADI_ERR_MISALIGNED_VALUE_OFFSET
               else ADI_SUCCESS)"

lemma validate_key_ok:
  "good_key k \<Longrightarrow> validate_key_value k None = ADI_SUCCESS"
  by (auto simp: validate_key_value_def good_key_def adi_const_defs KVS_MIN_KEY_LENGTH_def
      KVS_MAX_KEY_LENGTH_def)

lemma validate_key_value_ok:
  assumes "good_key k" "kv_offset v = 0" "unat (kv_length v) \<le> KVS_MAX_VALUE_LENGTH"
  shows "validate_key_value k (Some v) = ADI_SUCCESS"
  using assms
  by (auto simp: validate_key_value_def good_key_def adi_const_defs KVS_MIN_KEY_LENGTH_def
      KVS_MAX_KEY_LENGTH_def KVS_MAX_VALUE_LENGTH_def)

lemma validate_success_iff:
  "validate_key_value k v = ADI_SUCCESS \<longleftrightarrow>
     kk_buf k \<noteq> None \<and> 4 \<le> unat (kk_length k) \<and> unat (kk_length k) \<le> 255 \<and>
     (\<forall>x. v = Some x \<longrightarrow> unat (kv_length x) \<le> 2097152 \<and> kv_offset x AND 511 = 0)"
  by (auto simp: validate_key_value_def adi_const_defs split: option.splits)

section \<open>The order of the keys\<close>

text \<open>The sign of \<open>memcmp\<close> on two blocks of the same size.\<close>

fun memcmp :: "byte list \<Rightarrow> byte list \<Rightarrow> int" where
  "memcmp (x # xs) (y # ys) = (if x < y then -1 else if y < x then 1 else memcmp xs ys)"
| "memcmp xs ys = 0"

definition prefix_word :: "byte list \<Rightarrow> u32" where
  "prefix_word k = of_nat (le_nat (take 4 k))"

definition CmpEmulPrefix :: "byte list \<Rightarrow> byte list \<Rightarrow> bool" where
  "CmpEmulPrefix a b =
     (let intA = prefix_word a; intB = prefix_word b in
      if intA = intB
      then if length a < length b then True
           else if length b < length a then False
           else memcmp (drop 4 a) (drop 4 b) < 0
      else intA < intB)"

lemma unat_prefix_word: "unat (prefix_word k) = le_nat (take 4 k)"
proof -
  have "le_nat (take 4 k) < 256 ^ length (take 4 k)" by (rule le_nat_bound)
  also have "\<dots> \<le> 256 ^ 4" by (rule power_increasing) simp_all
  finally show ?thesis by (simp add: prefix_word_def unat_of_nat take_bit_nat_eq_self)
qed

lemma memcmp_self: "memcmp xs xs = 0"
  by (induction xs) simp_all

lemma memcmp_zero: "length xs = length ys \<Longrightarrow> memcmp xs ys = 0 \<Longrightarrow> xs = ys"
  by (induction xs ys rule: memcmp.induct) (auto split: if_splits)

lemma memcmp_total:
  "length xs = length ys \<Longrightarrow> \<not> memcmp xs ys < 0 \<Longrightarrow> \<not> memcmp ys xs < 0 \<Longrightarrow> xs = ys"
  by (induction xs ys rule: memcmp.induct) (auto split: if_splits)

lemma memcmp_trans:
  "length xs = length ys \<Longrightarrow> length ys = length zs \<Longrightarrow>
     memcmp xs ys < 0 \<Longrightarrow> memcmp ys zs < 0 \<Longrightarrow> memcmp xs zs < 0"
proof (induction xs ys arbitrary: zs rule: memcmp.induct)
  case (1 x xs y ys)
  from 1(3) obtain z zs' where z: "zs = z # zs'" by (cases zs) auto
  with 1 show ?case by (auto split: if_splits)
qed simp_all

lemma prefix_word_length_eq:
  assumes "prefix_word a = prefix_word b" "length a = length b"
  shows "take 4 a = take 4 b"
  using assms by (intro le_nat_inj) (simp_all flip: unat_prefix_word)

interpretation key_order: strict_comparison CmpEmulPrefix
proof unfold_locales
  fix a b c :: "byte list"
  show "\<not> CmpEmulPrefix a a" by (simp add: CmpEmulPrefix_def memcmp_self)
  show "CmpEmulPrefix a c" if "CmpEmulPrefix a b" "CmpEmulPrefix b c"
    using that memcmp_trans [of "drop 4 a" "drop 4 b" "drop 4 c"]
    by (auto simp: CmpEmulPrefix_def Let_def split: if_splits)
  show "a = b" if n: "\<not> CmpEmulPrefix a b" "\<not> CmpEmulPrefix b a"
  proof -
    have p: "prefix_word a = prefix_word b" and l: "length a = length b"
      and d: "\<not> memcmp (drop 4 a) (drop 4 b) < 0" "\<not> memcmp (drop 4 b) (drop 4 a) < 0"
      using n by (auto simp: CmpEmulPrefix_def Let_def split: if_splits)
    have "drop 4 a = drop 4 b" by (rule memcmp_total [OF _ d]) (simp add: l)
    then show ?thesis
      using prefix_word_length_eq [OF p l] by (metis append_take_drop_id)
  qed
qed

text \<open>The iterators are kept in the order of their numbers.\<close>

interpretation handle_order: strict_comparison "(<) :: int \<Rightarrow> int \<Rightarrow> bool"
  by unfold_locales auto

end
