(* ===== verification/Emulator.thy ===== *)
theory Emulator
  imports Kvs_Adi
begin

text \<open>
  The in-memory store of the emulator (kv_emulator.cpp): one ordered map per key space, the
  table of open iterators, and the 64-bit account of the space that is left.  Latency
  simulation does not change the answers and is left out.  An operation whose C++ body would
  access memory outside an object is \<open>None\<close>.
\<close>

section \<open>State\<close>

type_synonym emulator_map = "(byte list \<times> byte list) list"

record emulator =
  m_capacity :: u64
  m_available :: u64
  m_map :: "emulator_map list"
  m_it_map :: "(int \<times> iterator_state) list"
  m_iterator_list :: "kv_iterator list"

definition no_iterator :: kv_iterator where
  "no_iterator = \<lparr>handle_id = 0, it_status = 0, it_type = KV_ITERATOR_OPT_KEY, it_keyspace = 0,
     it_prefix = 0, it_bitmask = 0, is_eof = 0\<rparr>"

definition kv_emulator :: "u64 \<Rightarrow> emulator" where
  "kv_emulator capacity = \<lparr>m_capacity = capacity, m_available = capacity,
     m_map = replicate SAMSUNG_MAX_KEYSPACE_CNT [], m_it_map = [],
     m_iterator_list = replicate SAMSUNG_MAX_ITERATORS no_iterator\<rparr>"

abbreviation key_map :: "u8 \<Rightarrow> emulator \<Rightarrow> emulator_map" where
  "key_map ks e \<equiv> m_map e ! unat ks"

abbreviation set_key_map :: "u8 \<Rightarrow> emulator_map \<Rightarrow> emulator \<Rightarrow> emulator" where
  "set_key_map ks m e \<equiv> e\<lparr>m_map := (m_map e)[unat ks := m]\<rparr>"

section \<open>Keys and values\<close>

text \<open>The third component is what the call writes to its output parameter, if it does.\<close>

definition emul_store :: "u8 \<Rightarrow> kvs_key \<Rightarrow> kvs_value \<Rightarrow> kv_store_option \<Rightarrow> emulator \<Rightarrow>
    adi_result \<times> u32 option \<times> emulator" where
  "emul_store ks key val opt e =
     (let klen = ucast (kk_length key) :: u32; vlen = kv_length val in
      if m_capacity e \<le> 0 \<and> m_available e < ucast (vlen + klen)
      then (ADI_ERR_DEV_CAPACITY, None, e)
      else if opt \<noteq> KV_STORE_OPT_DEFAULT \<and> opt \<noteq> KV_STORE_OPT_IDEMPOTENT
      then (ADI_ERR_OPTION_INVALID, None, e)
      else
        let m = map_put CmpEmulPrefix (key_bytes key) (value_bytes val) (key_map ks e) in
        case map_find CmpEmulPrefix (key_bytes key) (key_map ks e) of
          Some old \<Rightarrow>
            if opt = KV_STORE_OPT_IDEMPOTENT then (ADI_ERR_KEY_EXIST, None, e)
            else (ADI_SUCCESS, Some vlen,
                  set_key_map ks m (e\<lparr>m_available := m_available e - (ucast vlen + of_nat (length old))\<rparr>))
        | None \<Rightarrow>
            (ADI_SUCCESS, Some (klen + vlen),
             set_key_map ks m (e\<lparr>m_available := m_available e - ucast (klen + vlen)\<rparr>)))"

definition emul_retrieve :: "u8 \<Rightarrow> kvs_key \<Rightarrow> kv_retrieve_option \<Rightarrow> kvs_value \<Rightarrow> emulator \<Rightarrow>
    adi_result \<times> kvs_value" where
  "emul_retrieve ks key opt val e =
     (if opt \<noteq> KV_RETRIEVE_OPT_DEFAULT then (ADI_ERR_OPTION_INVALID, val)
      else case map_find CmpEmulPrefix (key_bytes key) (key_map ks e) of
             None \<Rightarrow> (ADI_ERR_KEY_NOT_EXIST, val)
           | Some d \<Rightarrow>
               let dlen = of_nat (length d) :: u32; off = kv_offset val in
               if off \<noteq> 0 \<and> off \<ge> dlen then (ADI_ERR_VALUE_OFFSET_INVALID, val)
               else
                 let copylen = min (dlen - off) (kv_length val);
                     copied = take (unat copylen) (drop (unat off) d) in
                 (if kv_length val < dlen - off then ADI_ERR_BUFFER_SMALL else ADI_SUCCESS,
                  val\<lparr>kv_buf := map_option (\<lambda>b. copied @ drop (unat copylen) b) (kv_buf val),
                      kv_length := copylen, actual_value_size := dlen\<rparr>))"

text \<open>The loop of \<open>kv_exist\<close>: bit \<open>i\<close> of the buffer says whether key \<open>i\<close> is there.\<close>

primrec exist_bits :: "emulator_map \<Rightarrow> kvs_key list \<Rightarrow> nat \<Rightarrow> u8 list \<Rightarrow> u8 list" where
  "exist_bits m [] bitpos buffers = buffers"
| "exist_bits m (k # ks) bitpos buffers =
     exist_bits m ks (Suc bitpos)
       (if map_find CmpEmulPrefix (key_bytes k) m \<noteq> None
        then buffers[bitpos div 8 := buffers ! (bitpos div 8) OR push_bit (bitpos mod 8) 1]
        else buffers)"

definition emul_exist :: "u8 \<Rightarrow> kvs_key list \<Rightarrow> u32 \<Rightarrow> u8 list \<Rightarrow> u32 \<Rightarrow> emulator \<Rightarrow>
    adi_result \<times> u8 list \<times> u32" where
  "emul_exist ks keys keycount buffers buffer_size e =
     (if keycount = 0 then (ADI_SUCCESS, buffers, buffer_size)
      else
        let bytes_to_write = (keycount - 1) div 8 + 1 in
        if bytes_to_write > buffer_size then (ADI_ERR_BUFFER_SMALL, buffers, buffer_size)
        else (ADI_SUCCESS,
              exist_bits (key_map ks e) (take (unat keycount) keys) 0
                (replicate (unat bytes_to_write) 0 @ drop (unat bytes_to_write) buffers),
              bytes_to_write))"

definition emul_purge :: "u8 \<Rightarrow> kv_purge_option \<Rightarrow> emulator \<Rightarrow> adi_result \<times> emulator" where
  "emul_purge ks opt e =
     (if opt \<noteq> KV_PURGE_OPT_DEFAULT then (ADI_ERR_OPTION_INVALID, e)
      else (ADI_SUCCESS, set_key_map ks [] (e\<lparr>m_available := m_capacity e\<rparr>)))"

definition emul_delete :: "u8 \<Rightarrow> kvs_key \<Rightarrow> kv_delete_option \<Rightarrow> emulator \<Rightarrow>
    adi_result \<times> u32 option \<times> emulator" where
  "emul_delete ks key opt e =
     (if kk_buf key = None then (ADI_ERR_KEY_INVALID, None, e)
      else if opt \<noteq> KV_DELETE_OPT_DEFAULT \<and> opt \<noteq> KV_DELETE_OPT_ERROR
      then (ADI_ERR_OPTION_INVALID, None, e)
      else case map_find CmpEmulPrefix (key_bytes key) (key_map ks e) of
             Some v \<Rightarrow>
               let len = ucast (kk_length key) + of_nat (length v) :: u32 in
               (ADI_SUCCESS, Some len,
                set_key_map ks (map_erase CmpEmulPrefix (key_bytes key) (key_map ks e))
                  (e\<lparr>m_available := m_available e + ucast len\<rparr>))
           | None \<Rightarrow>
               (if opt = KV_DELETE_OPT_ERROR then ADI_ERR_KEY_NOT_EXIST else ADI_SUCCESS, None, e))"

section \<open>Iterators\<close>

text \<open>The smallest iterator number that is not in use.\<close>

definition free_itid :: "(int \<times> iterator_state) list \<Rightarrow> nat option" where
  "free_itid m = List.find (\<lambda>i. map_find (<) (int i) m = None) [1 ..< Suc SAMSUNG_MAX_ITERATORS]"

text \<open>
  \<open>kv_open_iterator\<close>, with the handle it stores.  A free number exists when fewer than
  \<open>SAMSUNG_MAX_ITERATORS\<close> are in use; past the end of the table the write is out of bounds.
\<close>

definition emul_open_iterator :: "u8 \<Rightarrow> kv_iterator_option \<Rightarrow> kv_group_condition \<Rightarrow> bool \<Rightarrow>
    emulator \<Rightarrow> (adi_result \<times> kv_iterator_handle \<times> emulator) option" where
  "emul_open_iterator ks opt cond keylen_fixed e =
     (if length (m_it_map e) \<ge> SAMSUNG_MAX_ITERATORS
      then Some (ADI_ERR_TOO_MANY_ITERATORS_OPEN, 0, e)
      else case List.find (\<lambda>i. it_prefix (m_iterator_list e ! i) = bit_pattern cond \<and>
                   it_bitmask (m_iterator_list e ! i) = bitmask cond \<and>
                   it_status (m_iterator_list e ! i) = 1) [0 ..< SAMSUNG_MAX_ITERATORS] of
             Some i \<Rightarrow> Some (ADI_ERR_ITERATOR_ALREADY_OPEN, of_nat (i + 1), e)
           | None \<Rightarrow>
               (case free_itid (m_it_map e) of
                  None \<Rightarrow> None
                | Some itid \<Rightarrow>
                    let iH = \<lparr>it_op = opt, it_cond = cond, it_ksid = ks, has_fixed_keylen = keylen_fixed,
                              current_key = to_le 4 (unat (bit_pattern cond AND bitmask cond)),
                              at_end = False\<rparr>;
                        entry = \<lparr>handle_id = of_nat itid, it_status = 1, it_type = opt, it_keyspace = ks,
                                 it_prefix = bit_pattern cond, it_bitmask = bitmask cond, is_eof = 0\<rparr>
                    in Some (ADI_SUCCESS, of_nat itid,
                        e\<lparr>m_it_map := map_put (<) (int itid) iH (m_it_map e),
                          m_iterator_list := (m_iterator_list e)[itid - 1 := entry]\<rparr>)))"

text \<open>The bytes of one entry in the iteration buffer.\<close>

definition entry_bytes :: "bool \<Rightarrow> bool \<Rightarrow> byte list \<times> byte list \<Rightarrow> byte list" where
  "entry_bytes fixed include_value p =
     (if fixed then [] else to_le 4 (length (fst p))) @ fst p @
     (if include_value then to_le 4 (length (snd p)) @ snd p else [])"

definition matches :: "kv_group_condition \<Rightarrow> byte list \<Rightarrow> bool" where
  "matches c k \<longleftrightarrow>
     bitmask c = 0 \<or> prefix_word k AND bitmask c = bit_pattern c AND bitmask c"

text \<open>
  The loop of \<open>kv_iterator_next_set\<close> over the elements from the current key on: the bytes
  written, the number of entries, the elements it has not passed, the end flag and the key to
  go on from.
\<close>

fun next_loop :: "kv_group_condition \<Rightarrow> bool \<Rightarrow> bool \<Rightarrow> nat \<Rightarrow> emulator_map \<Rightarrow> byte list \<Rightarrow> nat \<Rightarrow>
    byte list \<times> nat \<times> emulator_map \<times> bool \<times> byte list option" where
  "next_loop c fixed incl room [] buf n = (buf, n, [], True, None)"
| "next_loop c fixed incl room (p # ps) buf n =
     (if \<not> matches c (fst p) then (buf, n, p # ps, True, None)
      else if length buf + length (entry_bytes fixed incl p) > room
      then (buf, n, p # ps, False, Some (fst p))
      else next_loop c fixed incl room ps (buf @ entry_bytes fixed incl p) (Suc n))"

definition emul_iterator_next_set :: "kv_iterator_handle \<Rightarrow> kv_iterator_list \<Rightarrow> emulator \<Rightarrow>
    adi_result \<times> kv_iterator_list \<times> emulator" where
  "emul_iterator_next_set h l e =
     (if h = 0 then (ADI_ERR_PARAM_INVALID, l, e)
      else case map_find (<) (uint h) (m_it_map e) of
             None \<Rightarrow> (ADI_ERR_ITERATOR_NOT_EXIST, l, e)
           | Some iH \<Rightarrow>
               let include_value = (it_op iH = KV_ITERATOR_OPT_KV \<or> it_op iH = KV_ITERATOR_OPT_KV_WITH_DELETE);
                   m = key_map (it_ksid iH) e;
                   from_key = lower_bound CmpEmulPrefix (current_key iH) m;
                   (buf, n, rest, ended, saved) =
                     next_loop (it_cond iH) (has_fixed_keylen iH) include_value (unat (it_size l)) from_key [] 0;
                   e1 = (if it_op iH = KV_ITERATOR_OPT_KV_WITH_DELETE
                         then set_key_map (it_ksid iH) (before CmpEmulPrefix (current_key iH) m @ rest) e else e);
                   e2 = (case saved of None \<Rightarrow> e1
                         | Some k \<Rightarrow> e1\<lparr>m_it_map := map_put (<) (uint h) (iH\<lparr>current_key := k\<rparr>) (m_it_map e1)\<rparr>)
               in (ADI_SUCCESS,
                   \<lparr>num_entries = of_nat n, it_end = ended, it_size = of_nat (length buf),
                    it_list = buf @ drop (length buf) (it_list l)\<rparr>,
                   e2\<lparr>m_iterator_list := (m_iterator_list e2)[unat h - 1 :=
                       (m_iterator_list e2 ! (unat h - 1))\<lparr>is_eof := if ended then 1 else 0\<rparr>]\<rparr>))"

text \<open>The other way to iterate, one pair at a time; \<open>None\<close> where it copies past the end of a block.\<close>

definition set_iter :: "kv_iterator_handle \<Rightarrow> iterator_state \<Rightarrow> emulator \<Rightarrow> emulator" where
  "set_iter h iH e = e\<lparr>m_it_map := map_put (<) (uint h) iH (m_it_map e)\<rparr>"

definition set_eof :: "kv_iterator_handle \<Rightarrow> u8 \<Rightarrow> emulator \<Rightarrow> emulator" where
  "set_eof h b e = e\<lparr>m_iterator_list := (m_iterator_list e)[unat h - 1 :=
     (m_iterator_list e ! (unat h - 1))\<lparr>is_eof := b\<rparr>]\<rparr>"

definition emul_iterator_next :: "kv_iterator_handle \<Rightarrow> kvs_key \<Rightarrow> kvs_value \<Rightarrow> emulator \<Rightarrow>
    (adi_result \<times> kvs_key \<times> kvs_value \<times> emulator) option" where
  "emul_iterator_next h key val e =
     (if h = 0 \<or> kk_buf key = None \<or> kv_buf val = None then Some (ADI_ERR_PARAM_INVALID, key, val, e)
      else case map_find (<) (uint h) (m_it_map e) of
        None \<Rightarrow> Some (ADI_ERR_ITERATOR_NOT_EXIST, key, val, e)
      | Some iH \<Rightarrow>
        let m = key_map (it_ksid iH) e; ended = set_iter h (iH\<lparr>at_end := True\<rparr>) e in
        if at_end iH then Some (ADI_SUCCESS, key, val, e)
        else case lower_bound CmpEmulPrefix (current_key iH) m of
          [] \<Rightarrow> Some (ADI_SUCCESS, key, val, ended)
        | (k, v) # ps \<Rightarrow>
          let include_value = (it_op iH = KV_ITERATOR_OPT_KV \<or> it_op iH = KV_ITERATOR_OPT_KV_WITH_DELETE) in
          if prefix_word k AND bitmask (it_cond iH) \<noteq> bit_pattern (it_cond iH)
          then Some (ADI_SUCCESS, key, val, ended)
          else
            let key1 = key\<lparr>kk_length := of_nat (length k)\<rparr> in
            if include_value \<and> length v > unat (kv_length val)
            then Some (ADI_ERR_BUFFER_SMALL, key1,
                   val\<lparr>actual_value_size := of_nat (length v), kv_length := 0, kv_offset := 0\<rparr>,
                   set_iter h (iH\<lparr>current_key := k\<rparr>) e)
            else if length k > length (the (kk_buf key)) then None
            else
              let key2 = key1\<lparr>kk_buf := Some (k @ drop (length k) (the (kk_buf key)))\<rparr>;
                  val2 = (if include_value
                          then val\<lparr>kv_buf := Some (v @ drop (length v) (the (kv_buf val))),
                                   kv_length := of_nat (length v), actual_value_size := of_nat (length v),
                                   kv_offset := 0\<rparr>
                          else val);
                  e2 = (if it_op iH = KV_ITERATOR_OPT_KV_WITH_DELETE
                        then set_key_map (it_ksid iH) (before CmpEmulPrefix (current_key iH) m @ ps) e else e)
              in case ps of
                   [] \<Rightarrow> Some (ADI_SUCCESS, key2, val2, set_eof h 1 (set_iter h (iH\<lparr>at_end := True\<rparr>) e2))
                 | (k', v') # _ \<Rightarrow>
                     if length k > length k' then None
                     else Some (ADI_SUCCESS, key2, val2,
                            set_eof h 0 (set_iter h (iH\<lparr>current_key := take (length k) k'\<rparr>) e2)))"

definition emul_close_iterator :: "kv_iterator_handle \<Rightarrow> emulator \<Rightarrow> (adi_result \<times> emulator) option" where
  "emul_close_iterator h e =
     (if h = 0 then Some (ADI_ERR_PARAM_INVALID, e)
      else if unat h > SAMSUNG_MAX_ITERATORS then None
      else Some (ADI_SUCCESS,
             e\<lparr>m_it_map := map_erase (<) (uint h) (m_it_map e),
               m_iterator_list := (m_iterator_list e)[unat h - 1 :=
                 (m_iterator_list e ! (unat h - 1))\<lparr>it_status := 0\<rparr>]\<rparr>))"

definition htobe32 :: "u32 \<Rightarrow> u32" where
  "htobe32 w = of_nat (le_nat (rev (to_le 4 (unat w))))"

definition emul_list_iterators :: "kv_iterator list \<Rightarrow> u32 \<Rightarrow> emulator \<Rightarrow> adi_result \<times> kv_iterator list \<times> u32" where
  "emul_list_iterators iter_list count e =
     (let n = min count (of_nat SAMSUNG_MAX_ITERATORS) in
      (ADI_SUCCESS,
       map (\<lambda>it. it\<lparr>it_prefix := htobe32 (it_prefix it), it_bitmask := htobe32 (it_bitmask it)\<rparr>)
         (take (unat n) (m_iterator_list e)) @ drop (unat n) iter_list,
       n))"

text \<open>The loop of \<open>kv_delete_group\<close>: the space it gives back and the elements it leaves.\<close>

fun group_loop :: "kv_group_condition \<Rightarrow> emulator_map \<Rightarrow> u64 \<Rightarrow> u64 \<times> emulator_map" where
  "group_loop c [] avail = (avail, [])"
| "group_loop c (p # ps) avail =
     (if (prefix_word (fst p) AND bitmask c) AND bit_pattern c \<noteq> bitmask c AND bit_pattern c
      then (avail, p # ps)
      else group_loop c ps (avail + of_nat (length (fst p) + length (snd p))))"

definition emul_delete_group :: "u8 \<Rightarrow> kv_group_condition \<Rightarrow> emulator \<Rightarrow> adi_result \<times> emulator" where
  "emul_delete_group ks c e =
     (let m = key_map ks e;
          minkey = to_le 4 (unat (bitmask c AND bit_pattern c));
          (avail, rest) = group_loop c (lower_bound CmpEmulPrefix minkey m) (m_available e) in
      (ADI_SUCCESS, set_key_map ks (before CmpEmulPrefix minkey m @ rest) (e\<lparr>m_available := avail\<rparr>)))"

definition get_total_capacity :: "emulator \<Rightarrow> u64" where
  "get_total_capacity e = m_capacity e"

definition get_available :: "emulator \<Rightarrow> u64" where
  "get_available e = m_available e"

end
