(* ===== verification/Emulator_Store.thy ===== *)
theory Emulator_Store
  imports Emulator
begin

text \<open>
  What the emulator's store promises: its maps stay ordered and within the size limits, its
  iterator table stays consistent, and the operations on keys act on the content of a key
  space as on a finite map.
\<close>

section \<open>Well-formedness\<close>

definition map_ok :: "emulator_map \<Rightarrow> bool" where
  "map_ok m \<longleftrightarrow> map_ordered CmpEmulPrefix m \<and>
     (\<forall>p\<in>set m. length (fst p) \<le> 255 \<and> length (snd p) \<le> 2097152)"

definition iters_ok :: "(int \<times> iterator_state) list \<Rightarrow> kv_iterator list \<Rightarrow> bool" where
  "iters_ok m t \<longleftrightarrow> map_ordered (<) m \<and> length t = 16 \<and>
     (\<forall>p\<in>set m. 1 \<le> fst p \<and> fst p \<le> 16 \<and> unat (it_ksid (snd p)) < 2) \<and>
     (\<forall>i<16. it_status (t ! i) = 1 \<longleftrightarrow> int i + 1 \<in> fst ` set m)"

definition emul_ok :: "emulator \<Rightarrow> bool" where
  "emul_ok e \<longleftrightarrow> length (m_map e) = 2 \<and> (\<forall>m\<in>set (m_map e). map_ok m) \<and>
     iters_ok (m_it_map e) (m_iterator_list e)"

definition emul_content :: "u8 \<Rightarrow> emulator \<Rightarrow> byte list \<Rightarrow> byte list option" where
  "emul_content ks e = map_of (key_map ks e)"

lemma key_map_ok: "emul_ok e \<Longrightarrow> unat ks < 2 \<Longrightarrow> map_ok (key_map ks e)"
  by (simp add: emul_ok_def)

lemma map_ok_ordered: "map_ok m \<Longrightarrow> map_ordered CmpEmulPrefix m"
  by (simp add: map_ok_def)

lemma find_content:
  assumes "emul_ok e" "unat ks < 2"
  shows "map_find CmpEmulPrefix k (key_map ks e) = emul_content ks e k"
  using key_order.map_find_map_of [OF map_ok_ordered [OF key_map_ok [OF assms]]]
  by (simp add: emul_content_def)

lemma content_length:
  assumes "emul_ok e" "unat ks < 2" "emul_content ks e k = Some v"
  shows "length v \<le> 2097152"
  using key_map_ok [OF assms(1,2)] map_of_SomeD [of "key_map ks e" k v] assms(3)
  by (auto simp: map_ok_def emul_content_def)

lemma set_after: "set (after lt k xs) \<subseteq> set xs"
proof -
  have "set (after lt k xs) \<subseteq> set (lower_bound lt k xs)"
    by (cases "lower_bound lt k xs") (auto simp: after_def)
  also have "\<dots> \<subseteq> set xs" by (auto simp: lower_bound_def dest: set_dropWhileD)
  finally show ?thesis .
qed

lemma set_before: "set (before lt k xs) \<subseteq> set xs"
  by (auto simp: before_def dest: set_takeWhileD)

lemma map_ok_put:
  assumes "map_ok m" "length k \<le> 255" "length v \<le> 2097152"
  shows "map_ok (map_put CmpEmulPrefix k v m)"
  using assms key_order.put_ordered [of m k v] set_after [of CmpEmulPrefix k m]
    set_before [of CmpEmulPrefix k m]
  by (auto simp: map_ok_def map_put_def)

lemma map_ok_erase:
  assumes "map_ok m" shows "map_ok (map_erase CmpEmulPrefix k m)"
  using assms key_order.erase_ordered [of m k] set_after [of CmpEmulPrefix k m]
    set_before [of CmpEmulPrefix k m]
  by (auto simp: map_ok_def map_erase_def)

lemma map_ok_Nil [simp]: "map_ok []"
  by (simp add: map_ok_def)

lemma emul_ok_set_map:
  "emul_ok e \<Longrightarrow> map_ok m \<Longrightarrow> emul_ok (set_key_map ks m (e\<lparr>m_available := a\<rparr>))"
  using set_update_subset_insert [of "m_map e" "unat ks" m] by (auto simp: emul_ok_def)

lemma emul_ok_new: "emul_ok (kv_emulator capacity)"
  by (auto simp: emul_ok_def kv_emulator_def adi_const_defs iters_ok_def no_iterator_def
      simp del: replicate_numeral)

section \<open>The operations on keys\<close>

lemma length_value_bytes: "length (value_bytes v) \<le> unat (kv_length v)"
  by (simp add: value_bytes_def)

lemma length_key_bytes: "length (key_bytes k) \<le> unat (kk_length k)"
  by (simp add: key_bytes_def)

lemma emul_store_cases:
  obtains (refused) r where "r \<noteq> ADI_SUCCESS" "emul_store ks k v opt e = (r, None, e)"
  | (stored) c a where "emul_store ks k v opt e =
      (ADI_SUCCESS, Some c, set_key_map ks
         (map_put CmpEmulPrefix (key_bytes k) (value_bytes v) (key_map ks e)) (e\<lparr>m_available := a\<rparr>))"
    "opt = KV_STORE_OPT_DEFAULT \<or> (opt = KV_STORE_OPT_IDEMPOTENT \<and>
       map_find CmpEmulPrefix (key_bytes k) (key_map ks e) = None)"
proof (cases "(\<exists>r. r \<noteq> ADI_SUCCESS \<and> emul_store ks k v opt e = (r, None, e))")
  case True
  then show ?thesis using refused by blast
next
  case False
  then show ?thesis
    using stored
    by (auto simp: emul_store_def Let_def split: if_splits option.splits)
qed

lemma emul_store_ok:
  assumes "emul_ok e" "validate_key_value k (Some v) = ADI_SUCCESS"
  shows "emul_ok (snd (snd (emul_store ks k v opt e)))"
proof (cases rule: emul_store_cases [of ks k v opt e])
  case (stored c a)
  have "unat ks < 2 \<Longrightarrow> map_ok (map_put CmpEmulPrefix (key_bytes k) (value_bytes v) (key_map ks e))"
    using assms length_key_bytes [of k] length_value_bytes [of v]
    by (intro map_ok_put key_map_ok) (auto simp: validate_success_iff)
  moreover have "\<not> unat ks < 2 \<Longrightarrow> (m_map e)[unat ks := m] = m_map e" for m
    using assms(1) by (simp add: emul_ok_def list_update_beyond)
  ultimately show ?thesis
    using stored assms(1) emul_ok_set_map [OF assms(1)] by (cases "unat ks < 2") (auto simp: emul_ok_def)
qed (use assms in simp)

lemma content_set_map:
  assumes "emul_ok e" "unat ks < 2"
  shows "emul_content ks' (set_key_map ks m (e\<lparr>m_available := a\<rparr>)) =
           (if ks' = ks then map_of m else emul_content ks' e)"
  using assms by (auto simp: emul_content_def emul_ok_def word_unat_eq_iff nth_list_update)

theorem emul_store_content:
  assumes "emul_ok e" "unat ks < 2" "emul_store ks k v opt e = (r, c, e')"
  shows "emul_content ks e' = (if r = ADI_SUCCESS then (emul_content ks e)(key_bytes k \<mapsto> value_bytes v)
                               else emul_content ks e)"
    and "ks' \<noteq> ks \<Longrightarrow> emul_content ks' e' = emul_content ks' e"
    and "opt = KV_STORE_OPT_IDEMPOTENT \<Longrightarrow> emul_content ks e (key_bytes k) \<noteq> None \<Longrightarrow> r \<noteq> ADI_SUCCESS"
proof -
  have put: "map_of (map_put CmpEmulPrefix (key_bytes k) (value_bytes v) (key_map ks e)) =
      (emul_content ks e)(key_bytes k \<mapsto> value_bytes v)"
    using key_order.map_of_put [OF map_ok_ordered [OF key_map_ok [OF assms(1,2)]]]
    by (simp add: emul_content_def)
  have "r \<noteq> ADI_SUCCESS \<and> e' = e \<or>
     (\<exists>a. r = ADI_SUCCESS \<and> e' = set_key_map ks
         (map_put CmpEmulPrefix (key_bytes k) (value_bytes v) (key_map ks e)) (e\<lparr>m_available := a\<rparr>) \<and>
      (opt = KV_STORE_OPT_DEFAULT \<or> emul_content ks e (key_bytes k) = None))"
    using assms(3) find_content [OF assms(1,2), of "key_bytes k"]
    by (cases rule: emul_store_cases [of ks k v opt e]) auto
  then show "emul_content ks e' = (if r = ADI_SUCCESS then (emul_content ks e)(key_bytes k \<mapsto> value_bytes v)
                               else emul_content ks e)"
    and "ks' \<noteq> ks \<Longrightarrow> emul_content ks' e' = emul_content ks' e"
    and "opt = KV_STORE_OPT_IDEMPOTENT \<Longrightarrow> emul_content ks e (key_bytes k) \<noteq> None \<Longrightarrow> r \<noteq> ADI_SUCCESS"
    using content_set_map [OF assms(1,2)] put by (elim disjE exE conjE; simp)+
qed

theorem emul_store_succeeds:
  assumes "emul_ok e" "unat ks < 2" "m_capacity e \<noteq> 0"
  shows "fst (emul_store ks k v KV_STORE_OPT_DEFAULT e) = ADI_SUCCESS"
    and "fst (emul_store ks k v KV_STORE_OPT_IDEMPOTENT e) =
           (if emul_content ks e (key_bytes k) = None then ADI_SUCCESS else ADI_ERR_KEY_EXIST)"
  using assms find_content [OF assms(1,2), of "key_bytes k"]
  by (auto simp: emul_store_def Let_def split: option.splits)

theorem emul_delete_content:
  assumes "emul_ok e" "unat ks < 2" "emul_delete ks k opt e = (r, c, e')"
  shows "emul_content ks e' = (if r = ADI_SUCCESS then (emul_content ks e)(key_bytes k := None)
                               else emul_content ks e)"
    and "ks' \<noteq> ks \<Longrightarrow> emul_content ks' e' = emul_content ks' e"
    and "emul_ok e'"
proof -
  note f = find_content [OF assms(1,2), of "key_bytes k"]
  have er: "map_of (map_erase CmpEmulPrefix (key_bytes k) (key_map ks e)) =
      (emul_content ks e)(key_bytes k := None)"
    using key_order.map_of_erase [OF map_ok_ordered [OF key_map_ok [OF assms(1,2)]]]
    by (simp add: emul_content_def)
  have "e' = e \<and> (r = ADI_SUCCESS \<longrightarrow> emul_content ks e (key_bytes k) = None) \<or>
     (\<exists>a. r = ADI_SUCCESS \<and> e' = set_key_map ks
         (map_erase CmpEmulPrefix (key_bytes k) (key_map ks e)) (e\<lparr>m_available := a\<rparr>))"
    using assms(3) f by (auto simp: emul_delete_def Let_def split: if_splits option.splits)
  then show "emul_content ks e' = (if r = ADI_SUCCESS then (emul_content ks e)(key_bytes k := None)
                               else emul_content ks e)"
    and "ks' \<noteq> ks \<Longrightarrow> emul_content ks' e' = emul_content ks' e"
    and "emul_ok e'"
    using assms(1) emul_ok_set_map [OF assms(1) map_ok_erase [OF key_map_ok [OF assms(1,2)]]]
      content_set_map [OF assms(1,2)] er
    by (elim disjE exE conjE; auto)+
qed

lemma emul_delete_succeeds:
  "kk_buf k \<noteq> None \<Longrightarrow> fst (emul_delete ks k KV_DELETE_OPT_DEFAULT e) = ADI_SUCCESS"
  by (simp add: emul_delete_def Let_def split: option.split)

text \<open>A retrieve without offset gives back the stored bytes, cut to the caller's buffer.\<close>

theorem emul_retrieve_value:
  assumes "emul_ok e" "unat ks < 2" "kv_offset v = 0" "kv_buf v = Some b"
    "emul_content ks e (key_bytes k) = Some d"
  shows "emul_retrieve ks k KV_RETRIEVE_OPT_DEFAULT v e =
     (if unat (kv_length v) < length d then ADI_ERR_BUFFER_SMALL else ADI_SUCCESS,
      v\<lparr>kv_buf := Some (take (unat (kv_length v)) d @ drop (min (length d) (unat (kv_length v))) b),
        kv_length := of_nat (min (length d) (unat (kv_length v))),
        actual_value_size := of_nat (length d)\<rparr>)"
proof -
  have d: "unat (of_nat (length d) :: u32) = length d"
    using content_length [OF assms(1,2,5)] by (simp add: unat_of_nat take_bit_nat_eq_self)
  have m: "unat (min (of_nat (length d)) (kv_length v) :: u32) = min (length d) (unat (kv_length v))"
    using d by (auto simp: min_def word_le_nat_alt)
  then have m': "min (of_nat (length d)) (kv_length v) =
      (of_nat (min (length d) (unat (kv_length v))) :: u32)"
    by (metis of_nat_unat)
  have u: "unat (of_nat (min (length d) (unat (kv_length v))) :: u32) = min (length d) (unat (kv_length v))"
    using m m' by simp
  have t: "take (min (length d) n) d = take n d" for n
    by (simp add: min_def)
  show ?thesis
    using assms find_content [OF assms(1,2), of "key_bytes k"]
    by (simp add: emul_retrieve_def Let_def m' u t word_less_nat_alt d)
qed

lemma emul_retrieve_missing:
  assumes "emul_ok e" "unat ks < 2" "emul_content ks e (key_bytes k) = None"
  shows "emul_retrieve ks k KV_RETRIEVE_OPT_DEFAULT v e = (ADI_ERR_KEY_NOT_EXIST, v)"
  using assms find_content [OF assms(1,2), of "key_bytes k"] by (simp add: emul_retrieve_def)

lemma emul_exist_one:
  assumes "emul_ok e" "unat ks < 2" "n \<noteq> 0"
  shows "emul_exist ks [k] 1 [b] n e =
     (ADI_SUCCESS, [if emul_content ks e (key_bytes k) \<noteq> None then 1 else 0], 1)"
  using assms find_content [OF assms(1,2), of "key_bytes k"]
  by (auto simp: emul_exist_def Let_def word_le_nat_alt word_less_nat_alt unat_gt_0 unat_eq_zero)

lemma emul_purge_ok:
  "emul_ok e \<Longrightarrow> emul_ok (snd (emul_purge ks opt e))"
  using emul_ok_set_map [of e "[]"] by (simp add: emul_purge_def)

end
