(* ===== verification/Emul_Namespace.thy ===== *)
theory Emul_Namespace
  imports Emulator_Store
begin

text \<open>
  The namespace of an emulated device (kv_namespace.cpp), which checks key space identifiers
  and keeps the account of free space, and the execution of a queued command against it
  (io_cmd.cpp).  A device has one namespace; its store is the emulator, or a stub that answers
  every call with success when the namespace is bypassed.
\<close>

section \<open>Namespaces\<close>

record namespace =
  m_nsid :: u32
  ns_capacity :: u64
  unallocated_capacity :: u64
  m_purging_in_progress :: bool
  m_emul :: emulator
  bypassed :: bool

text \<open>The purge flag is not initialised by the constructor; \<open>False\<close> stands for what it holds.\<close>

definition kv_namespace_internal :: "u32 \<Rightarrow> u64 \<Rightarrow> namespace" where
  "kv_namespace_internal nsid cap = \<lparr>m_nsid = nsid, ns_capacity = cap, unallocated_capacity = cap,
     m_purging_in_progress = False, m_emul = kv_emulator cap, bypassed = False\<rparr>"

definition swap_device :: "bool \<Rightarrow> namespace \<Rightarrow> namespace" where
  "swap_device usedummy ns = ns\<lparr>bypassed := usedummy\<rparr>"

definition bad_keyspace :: "u8 \<Rightarrow> bool" where
  "bad_keyspace ks \<longleftrightarrow> unat ks \<ge> SAMSUNG_MAX_KEYSPACE_CNT"

definition ns_get_total_capacity :: "namespace \<Rightarrow> u64" where
  "ns_get_total_capacity ns = (if bypassed ns then -1 else get_total_capacity (m_emul ns))"

definition ns_get_available :: "namespace \<Rightarrow> u64" where
  "ns_get_available ns = (if bypassed ns then -1 else get_available (m_emul ns))"

definition get_consumed_space :: "namespace \<Rightarrow> u64 \<times> namespace" where
  "get_consumed_space ns =
     (ns_get_total_capacity ns - ns_get_available ns,
      ns\<lparr>ns_capacity := ns_get_total_capacity ns, unallocated_capacity := ns_get_available ns\<rparr>)"

definition ns_get_stat :: "namespace \<Rightarrow> (u32 \<times> u64 \<times> u64) \<times> namespace" where
  "ns_get_stat ns =
     (let ns' = ns\<lparr>unallocated_capacity := ns_get_available ns\<rparr> in
      ((m_nsid ns', ns_capacity ns', unallocated_capacity ns'), ns'))"

definition ns_purge :: "u8 \<Rightarrow> kv_purge_option \<Rightarrow> namespace \<Rightarrow> adi_result \<times> namespace" where
  "ns_purge ks opt ns =
     (let ns1 = ns\<lparr>m_purging_in_progress := True\<rparr> in
      if bad_keyspace ks then (ADI_ERR_KEYSPACE_INVALID, ns1)
      else
        let (res, e) = (if bypassed ns1 then (ADI_SUCCESS, m_emul ns1) else emul_purge ks opt (m_emul ns1));
            ns2 = ns1\<lparr>m_emul := e\<rparr>;
            ns3 = (if res = ADI_SUCCESS then ns2\<lparr>unallocated_capacity := ns_capacity ns2\<rparr> else ns2)
        in (res, ns3\<lparr>m_purging_in_progress := False\<rparr>))"

text \<open>The commands pass a counter that starts at zero for the bytes consumed or recovered.\<close>

definition counted :: "u32 option \<Rightarrow> u64" where
  "counted c = (case c of None \<Rightarrow> 0 | Some n \<Rightarrow> ucast n)"

definition ns_store :: "u8 \<Rightarrow> kvs_key option \<Rightarrow> kvs_value option \<Rightarrow> kv_store_option \<Rightarrow> namespace \<Rightarrow>
    adi_result \<times> namespace" where
  "ns_store ks key val opt ns =
     (case (key, val) of
        (Some k, Some v) \<Rightarrow>
          if bad_keyspace ks then (ADI_ERR_KEYSPACE_INVALID, ns)
          else
            let (res, consumed, e) =
                  (if bypassed ns then (ADI_SUCCESS, None, m_emul ns) else emul_store ks k v opt (m_emul ns));
                ns1 = ns\<lparr>m_emul := e\<rparr>
            in (res, if res = ADI_SUCCESS
                     then ns1\<lparr>unallocated_capacity := unallocated_capacity ns1 - counted consumed\<rparr> else ns1)
      | _ \<Rightarrow> (ADI_ERR_PARAM_INVALID, ns))"

definition ns_delete :: "u8 \<Rightarrow> kvs_key option \<Rightarrow> kv_delete_option \<Rightarrow> namespace \<Rightarrow> adi_result \<times> namespace" where
  "ns_delete ks key opt ns =
     (case key of
        None \<Rightarrow> (ADI_ERR_PARAM_INVALID, ns)
      | Some k \<Rightarrow>
          if bad_keyspace ks then (ADI_ERR_KEYSPACE_INVALID, ns)
          else
            let (res, recovered, e) =
                  (if bypassed ns then (ADI_SUCCESS, None, m_emul ns) else emul_delete ks k opt (m_emul ns));
                ns1 = ns\<lparr>m_emul := e\<rparr>
            in (res, if res = ADI_SUCCESS
                     then ns1\<lparr>unallocated_capacity := unallocated_capacity ns1 + counted recovered\<rparr> else ns1))"

definition ns_exist :: "u8 \<Rightarrow> kvs_key list \<Rightarrow> u32 \<Rightarrow> u8 list \<Rightarrow> u32 \<Rightarrow> namespace \<Rightarrow>
    adi_result \<times> u8 list \<times> u32" where
  "ns_exist ks keys keycount buf sz ns =
     (if keys = [] then (ADI_ERR_PARAM_INVALID, buf, sz)
      else if bad_keyspace ks then (ADI_ERR_KEYSPACE_INVALID, buf, sz)
      else if bypassed ns then (ADI_SUCCESS, buf, sz)
      else emul_exist ks keys keycount buf sz (m_emul ns))"

definition ns_retrieve :: "u8 \<Rightarrow> kvs_key option \<Rightarrow> kv_retrieve_option \<Rightarrow> kvs_value option \<Rightarrow> namespace \<Rightarrow>
    adi_result \<times> kvs_value option" where
  "ns_retrieve ks key opt val ns =
     (case (key, val) of
        (Some k, Some v) \<Rightarrow>
          if bad_keyspace ks then (ADI_ERR_KEYSPACE_INVALID, val)
          else if bypassed ns then (ADI_SUCCESS, val)
          else map_prod id Some (emul_retrieve ks k opt v (m_emul ns))
      | _ \<Rightarrow> (ADI_ERR_PARAM_INVALID, val))"

definition ns_open_iterator :: "u8 \<Rightarrow> kv_iterator_option \<Rightarrow> kv_group_condition \<Rightarrow> bool \<Rightarrow>
    kv_iterator_handle \<Rightarrow> namespace \<Rightarrow> (adi_result \<times> kv_iterator_handle \<times> namespace) option" where
  "ns_open_iterator ks opt cond keylen_fixed h ns =
     (if bad_keyspace ks then Some (ADI_ERR_KEYSPACE_INVALID, h, ns)
      else if bypassed ns then Some (ADI_SUCCESS, h, ns)
      else map_option (\<lambda>(r, h', e). (r, h', ns\<lparr>m_emul := e\<rparr>))
             (emul_open_iterator ks opt cond keylen_fixed (m_emul ns)))"

definition ns_close_iterator :: "kv_iterator_handle \<Rightarrow> namespace \<Rightarrow> (adi_result \<times> namespace) option" where
  "ns_close_iterator h ns =
     (if bypassed ns then Some (ADI_SUCCESS, ns)
      else map_option (\<lambda>(r, e). (r, ns\<lparr>m_emul := e\<rparr>)) (emul_close_iterator h (m_emul ns)))"

definition ns_iterator_next_set :: "kv_iterator_handle \<Rightarrow> kv_iterator_list option \<Rightarrow> namespace \<Rightarrow>
    adi_result \<times> kv_iterator_list option \<times> namespace" where
  "ns_iterator_next_set h l ns =
     (if h = 0 \<or> l = None then (ADI_ERR_PARAM_INVALID, l, ns)
      else if bypassed ns then (ADI_SUCCESS, l, ns)
      else let (r, l', e) = emul_iterator_next_set h (the l) (m_emul ns) in
           (r, Some l', ns\<lparr>m_emul := e\<rparr>))"

definition ns_iterator_next :: "kv_iterator_handle \<Rightarrow> kvs_key option \<Rightarrow> kvs_value option \<Rightarrow> namespace \<Rightarrow>
    (adi_result \<times> kvs_key option \<times> kvs_value option \<times> namespace) option" where
  "ns_iterator_next h key val ns =
     (if h = 0 \<or> key = None \<or> val = None then Some (ADI_ERR_PARAM_INVALID, key, val, ns)
      else if bypassed ns then Some (ADI_SUCCESS, key, val, ns)
      else map_option (\<lambda>(r, k, v, e). (r, Some k, Some v, ns\<lparr>m_emul := e\<rparr>))
             (emul_iterator_next h (the key) (the val) (m_emul ns)))"

definition ns_list_iterators :: "kv_iterator list \<Rightarrow> u32 \<Rightarrow> namespace \<Rightarrow> adi_result \<times> kv_iterator list \<times> u32" where
  "ns_list_iterators l n ns =
     (if bypassed ns then (ADI_SUCCESS, l, n) else emul_list_iterators l n (m_emul ns))"

definition ns_delete_group :: "u8 \<Rightarrow> kv_group_condition option \<Rightarrow> namespace \<Rightarrow> adi_result \<times> namespace" where
  "ns_delete_group ks cond ns =
     (case cond of
        None \<Rightarrow> (ADI_ERR_PARAM_INVALID, ns)
      | Some c \<Rightarrow>
          if bad_keyspace ks then (ADI_ERR_KEYSPACE_INVALID, ns)
          else if bypassed ns then (ADI_SUCCESS, ns)
          else let (r, e) = emul_delete_group ks c (m_emul ns) in (r, ns\<lparr>m_emul := e\<rparr>))"

section \<open>Commands\<close>

text \<open>The operation of a command with the parameters that its \<open>command\<close> union holds.\<close>

datatype cmd_opcode_t =
    KV_OPC_GET kv_retrieve_option
  | KV_OPC_STORE kv_store_option
  | KV_OPC_DELETE kv_delete_option
  | KV_OPC_DELETE_GROUP kv_group_condition
  | KV_OPC_PURGE kv_purge_option
  | KV_OPC_CHECK_KEY_EXIST u32
  | KV_OPC_OPEN_ITERATOR kv_iterator_option kv_group_condition
  | KV_OPC_CLOSE_ITERATOR kv_iterator_handle
  | KV_OPC_ITERATE_NEXT kv_iterator_handle
  | KV_OPC_ITERATE_NEXT_SINGLE_KV kv_iterator_handle
  | KV_OPC_SANITIZE_DEVICE kv_sanitize_option

text \<open>
  The context of a command: the keys its key pointer refers to (none for the null pointer), the
  objects it writes its results to, and the context of its completion callback.
\<close>

record io_cmd =
  c_opcode :: cmd_opcode_t
  c_ks_id :: u8
  c_keys :: "kvs_key list"
  c_value :: "kvs_value option"
  c_retcode :: adi_result
  c_hiter :: kv_iterator_handle
  c_buffer :: "u8 list"
  c_buffer_size :: u32
  c_buffer_count :: u32
  c_iter_list :: "kv_iterator_list option"
  c_post :: "nat option"

abbreviation c_key :: "io_cmd \<Rightarrow> kvs_key option" where
  "c_key c \<equiv> (case c_keys c of [] \<Rightarrow> None | k # _ \<Rightarrow> Some k)"

definition execute_cmd :: "bool \<Rightarrow> io_cmd \<Rightarrow> namespace \<Rightarrow> (io_cmd \<times> namespace) option" where
  "execute_cmd keylen_fixed c ns = (case c_opcode c of
      KV_OPC_GET opt \<Rightarrow>
        let (r, v) = ns_retrieve (c_ks_id c) (c_key c) opt (c_value c) ns in
        Some (c\<lparr>c_retcode := r, c_value := v\<rparr>, ns)
    | KV_OPC_STORE opt \<Rightarrow>
        let (r, ns') = ns_store (c_ks_id c) (c_key c) (c_value c) opt ns in
        Some (c\<lparr>c_retcode := r\<rparr>, ns')
    | KV_OPC_DELETE opt \<Rightarrow>
        let (r, ns') = ns_delete (c_ks_id c) (c_key c) opt ns in
        Some (c\<lparr>c_retcode := r\<rparr>, ns')
    | KV_OPC_DELETE_GROUP cond \<Rightarrow>
        let (r, ns') = ns_delete_group (c_ks_id c) (Some cond) ns in
        Some (c\<lparr>c_retcode := r\<rparr>, ns')
    | KV_OPC_PURGE opt \<Rightarrow>
        let (r, ns') = ns_purge (c_ks_id c) opt ns in
        Some (c\<lparr>c_retcode := r\<rparr>, ns')
    | KV_OPC_CHECK_KEY_EXIST keycount \<Rightarrow>
        let (r, buf, sz) = ns_exist (c_ks_id c) (c_keys c) keycount (c_buffer c) (c_buffer_size c) ns in
        Some (c\<lparr>c_retcode := r, c_buffer := buf, c_buffer_size := sz, c_buffer_count := keycount\<rparr>, ns)
    | KV_OPC_OPEN_ITERATOR opt cond \<Rightarrow>
        map_option (\<lambda>(r, h, ns'). (c\<lparr>c_retcode := r, c_hiter := h\<rparr>, ns'))
          (ns_open_iterator (c_ks_id c) opt cond keylen_fixed (c_hiter c) ns)
    | KV_OPC_CLOSE_ITERATOR h \<Rightarrow>
        map_option (\<lambda>(r, ns'). (c\<lparr>c_retcode := r, c_hiter := 0\<rparr>, ns')) (ns_close_iterator h ns)
    | KV_OPC_ITERATE_NEXT h \<Rightarrow>
        let (r, l, ns') = ns_iterator_next_set h (c_iter_list c) ns in
        Some (c\<lparr>c_retcode := r, c_iter_list := l\<rparr>, ns')
    | KV_OPC_ITERATE_NEXT_SINGLE_KV h \<Rightarrow>
        map_option (\<lambda>(r, k, v, ns'). (c\<lparr>c_retcode := r, c_keys := (case k of None \<Rightarrow> [] | Some k' \<Rightarrow> [k']),
                                        c_value := v\<rparr>, ns'))
          (ns_iterator_next h (c_key c) (c_value c) ns)
    | KV_OPC_SANITIZE_DEVICE opt \<Rightarrow>
        let (r, ns') = ns_purge (c_ks_id c) KV_PURGE_OPT_DEFAULT ns in
        Some (c\<lparr>c_retcode := r\<rparr>, ns'))"

section \<open>Lemmas\<close>

abbreviation ns_content :: "u8 \<Rightarrow> namespace \<Rightarrow> byte list \<Rightarrow> byte list option" where
  "ns_content ks ns \<equiv> emul_content ks (m_emul ns)"

definition ns_ok :: "namespace \<Rightarrow> bool" where
  "ns_ok ns \<longleftrightarrow> emul_ok (m_emul ns) \<and> \<not> bypassed ns \<and> m_capacity (m_emul ns) \<noteq> 0"

lemma ns_ok_new: "cap \<noteq> 0 \<Longrightarrow> ns_ok (kv_namespace_internal nsid cap)"
  by (simp add: ns_ok_def kv_namespace_internal_def emul_ok_new) (simp add: kv_emulator_def)

lemma emul_store_capacity [frame]:
  "m_capacity (snd (snd (emul_store ks k v opt e))) = m_capacity e"
  by (auto simp: emul_store_def Let_def split: option.splits)

lemma emul_delete_capacity [frame]:
  "m_capacity (snd (snd (emul_delete ks k opt e))) = m_capacity e"
  by (auto simp: emul_delete_def Let_def split: option.splits)

lemma ns_store_eq:
  assumes "ns_ok ns" "unat ks < 2" "emul_store ks k v opt (m_emul ns) = (r, c, e)"
  shows "\<exists>u. ns_store ks (Some k) (Some v) opt ns = (r, ns\<lparr>m_emul := e, unallocated_capacity := u\<rparr>)"
  using assms by (cases "r = ADI_SUCCESS")
    (auto simp: ns_store_def ns_ok_def bad_keyspace_def adi_const_defs intro: exI [of _ "unallocated_capacity ns"])

lemma ns_delete_eq:
  assumes "ns_ok ns" "unat ks < 2" "emul_delete ks k opt (m_emul ns) = (r, c, e)"
  shows "\<exists>u. ns_delete ks (Some k) opt ns = (r, ns\<lparr>m_emul := e, unallocated_capacity := u\<rparr>)"
  using assms by (cases "r = ADI_SUCCESS")
    (auto simp: ns_delete_def ns_ok_def bad_keyspace_def adi_const_defs intro: exI [of _ "unallocated_capacity ns"])

lemma ns_ok_update:
  "ns_ok ns \<Longrightarrow> emul_ok e \<Longrightarrow> m_capacity e = m_capacity (m_emul ns) \<Longrightarrow>
     ns_ok (ns\<lparr>m_emul := e, unallocated_capacity := u\<rparr>)"
  by (simp add: ns_ok_def)

end
