(* ===== verification/Emul_Device.thy ===== *)
theory Emul_Device
  imports Emul_Namespace
begin

text \<open>
  The emulated device (kv_device.cpp) with its submission and completion queues (queue.cpp) and
  the functions of the device interface that forward to it (kvs_adi.cpp).  The threads that
  serve the queues are steps of the model: \<open>process_submitted_command\<close> is one round of the
  submission thread, \<open>process_interrupt\<close> one round of the interrupt thread.  A call that has to
  wait is \<open>None\<close>, and so is one that uses a queue that has been deleted.
\<close>

section \<open>Queues (queue.cpp)\<close>

record kv_queue =
  queue_id :: u16
  queue_size :: u16
  completion_queue_id :: u16
  queue_type :: u16

definition SUBMISSION_Q_TYPE :: u16 where "SUBMISSION_Q_TYPE = 0"
definition COMPLETION_Q_TYPE :: u16 where "COMPLETION_Q_TYPE = 1"

record ioqueue =
  queinfo :: kv_queue
  q_cmds :: "io_cmd list"
  q_shutdown :: bool
  q_out :: "u16 option"
  q_interrupts :: bool

definition emul_ioqueue :: "kv_queue \<Rightarrow> u16 option \<Rightarrow> ioqueue" where
  "emul_ioqueue info out = \<lparr>queinfo = info, q_cmds = [], q_shutdown = False, q_out = out,
     q_interrupts = False\<rparr>"

definition q_full :: "ioqueue \<Rightarrow> bool" where
  "q_full q \<longleftrightarrow> length (q_cmds q) \<ge> unat (queue_size (queinfo q))"

definition io_enqueue :: "io_cmd \<Rightarrow> bool \<Rightarrow> ioqueue \<Rightarrow> (adi_result \<times> ioqueue) option" where
  "io_enqueue cmd block q =
     (if q_shutdown q then Some (ADI_ERR_QUEUE_IN_SHUTDOWN, q)
      else if q_full q then (if \<not> block then Some (ADI_ERR_QUEUE_IS_FULL, q) else None)
      else Some (ADI_SUCCESS, q\<lparr>q_cmds := q_cmds q @ [cmd]\<rparr>))"

definition io_dequeue :: "bool \<Rightarrow> ioqueue \<Rightarrow> (adi_result \<times> io_cmd option \<times> ioqueue) option" where
  "io_dequeue block q =
     (if q_cmds q = [] \<and> \<not> q_shutdown q
      then (if \<not> block then Some (ADI_SUCCESS, None, q) else None)
      else if q_shutdown q then Some (ADI_ERR_QUEUE_IN_SHUTDOWN, None, q)
      else Some (ADI_SUCCESS, Some (hd (q_cmds q)), q\<lparr>q_cmds := tl (q_cmds q)\<rparr>))"

primrec poll_loop :: "nat \<Rightarrow> ioqueue \<Rightarrow> io_cmd list \<Rightarrow> adi_result \<times> io_cmd list \<times> ioqueue" where
  "poll_loop 0 q acc = (ADI_SUCCESS, acc, q)"
| "poll_loop (Suc n) q acc =
     (case io_dequeue False q of
        None \<Rightarrow> (ADI_SUCCESS, acc, q)
      | Some (r, c, q') \<Rightarrow>
          if r \<noteq> ADI_SUCCESS then (r, acc, q')
          else poll_loop n q' (acc @ (case c of None \<Rightarrow> [] | Some cmd \<Rightarrow> [cmd])))"

text \<open>The commands it gives back are those whose completion callback it runs, in order.\<close>

definition io_poll_completion :: "u32 \<Rightarrow> ioqueue \<Rightarrow> adi_result \<times> io_cmd list \<times> ioqueue" where
  "io_poll_completion num_events q =
     (if queue_type (queinfo q) \<noteq> COMPLETION_Q_TYPE then (ADI_ERR_QUEUE_CQID_INVALID, [], q)
      else
        let (res, done_cmds, q') = poll_loop (unat (max (min num_events 128) 1)) q [] in
        if res \<noteq> ADI_SUCCESS then (res, done_cmds, q')
        else (if q_cmds q' = [] then ADI_SUCCESS else ADI_WRN_MORE, done_cmds, q'))"

definition terminate :: "ioqueue \<Rightarrow> ioqueue" where
  "terminate q = q\<lparr>q_shutdown := True, q_cmds := []\<rparr>"

section \<open>Devices (kv_device.cpp)\<close>

record kv_dev =
  d_capacity :: u64
  m_is_poll :: bool
  m_has_fixed_keylen :: bool
  m_ns :: namespace
  m_ioque_list :: "(u16 \<times> ioqueue) list"
  m_sq_to_cq_pairs :: "(u16 \<times> u16) list"
  queue_count :: u16
  utilization :: u16

text \<open>
  The configuration file as a lookup of keys in sections (kv_config::getkv), the empty string
  where a key is missing.
\<close>

type_synonym kv_config = "string \<Rightarrow> string \<Rightarrow> string"

definition tolower :: "char \<Rightarrow> char" where
  "tolower c = (let n = of_char c :: nat in if 65 \<le> n \<and> n \<le> 90 then char_of (n + 32) else c)"

definition strcasecmp_eq :: "string \<Rightarrow> string \<Rightarrow> bool" where
  "strcasecmp_eq a b \<longleftrightarrow> map tolower a = map tolower b"

definition is_digit :: "char \<Rightarrow> bool" where
  "is_digit c \<longleftrightarrow> (let n = of_char c :: nat in 48 \<le> n \<and> n \<le> 57)"

definition is_space :: "char \<Rightarrow> bool" where
  "is_space c \<longleftrightarrow> (let n = of_char c :: nat in n = 32 \<or> 9 \<le> n \<and> n \<le> 13)"

definition digits_value :: "string \<Rightarrow> nat" where
  "digits_value s = foldl (\<lambda>n c. 10 * n + (of_char c - 48)) 0 s"

text \<open>
  \<open>std::stoull\<close> in base ten: the number and the rest of the string.  A minus sign is accepted
  and negates modulo \<open>2\<^sup>6\<^sup>4\<close>; \<open>None\<close> where it throws.
\<close>

definition stoull :: "string \<Rightarrow> (u64 \<times> string) option" where
  "stoull s =
     (let s1 = dropWhile is_space s;
          neg = (s1 \<noteq> [] \<and> hd s1 = CHR ''-'');
          s2 = (if s1 \<noteq> [] \<and> (hd s1 = CHR ''-'' \<or> hd s1 = CHR ''+'') then tl s1 else s1);
          ds = takeWhile is_digit s2; n = digits_value ds in
      if ds = [] \<or> n \<ge> 2 ^ 64 then None
      else Some (if neg then - of_nat n else of_nat n, dropWhile is_digit s2))"

primrec contains :: "string \<Rightarrow> string \<Rightarrow> bool" where
  "contains pat [] \<longleftrightarrow> pat = []"
| "contains pat (c # cs) \<longleftrightarrow> take (length pat) (c # cs) = pat \<or> contains pat cs"

definition GB :: u64 where "GB = 1024 * 1024 * 1024"

text \<open>The capacity that a configuration string asks for: a number followed by a unit.\<close>

definition configured_capacity :: "string \<Rightarrow> u64 option" where
  "configured_capacity cap_str =
     (if cap_str = [] then Some (512 * GB)
      else map_option (\<lambda>(n, rest).
             let unit_str = map tolower rest; c = (if n \<le> 0 then 4 * GB else n) in
             if contains ''gb'' unit_str then c * GB else c * (1024 * 1024)) (stoull cap_str))"

definition kv_device_internal :: "kv_config \<Rightarrow> bool \<Rightarrow> kv_dev option" where
  "kv_device_internal getkv is_polling =
     (case configured_capacity (getkv ''general'' ''capacity'') of
        None \<Rightarrow> None
      | Some cap \<Rightarrow>
          let poll = getkv ''general'' ''polling'' in
          Some \<lparr>d_capacity = cap,
            m_is_poll = (if strcasecmp_eq poll ''false'' then False
                         else if strcasecmp_eq poll ''true'' then True else is_polling),
            m_has_fixed_keylen = \<not> strcasecmp_eq (getkv ''general'' ''keylen_fixed'') ''false'',
            m_ns = kv_namespace_internal 0 cap,
            m_ioque_list = [], m_sq_to_cq_pairs = [], queue_count = 2, utilization = 0\<rparr>)"

definition get_ioqueue :: "u16 \<Rightarrow> kv_dev \<Rightarrow> ioqueue option" where
  "get_ioqueue qid d = map_of (m_ioque_list d) qid"

definition set_ioqueue :: "u16 \<Rightarrow> ioqueue \<Rightarrow> kv_dev \<Rightarrow> kv_dev" where
  "set_ioqueue qid q d = d\<lparr>m_ioque_list := map (\<lambda>p. if fst p = qid then (qid, q) else p) (m_ioque_list d)\<rparr>"

definition qid_exist :: "u16 \<Rightarrow> kv_dev \<Rightarrow> bool" where
  "qid_exist qid d \<longleftrightarrow> get_ioqueue qid d \<noteq> None"

text \<open>A queue handle: its queue's identifier and whether its device and queue pointers are set.\<close>

record kv_queue_handle =
  h_qid :: u16
  h_dev :: bool
  h_queue :: bool

definition create_queue :: "kv_queue option \<Rightarrow> kv_dev \<Rightarrow> adi_result \<times> kv_queue_handle option \<times> kv_dev" where
  "create_queue info d =
     (case info of
        None \<Rightarrow> (ADI_ERR_PARAM_INVALID, None, d)
      | Some qi \<Rightarrow>
          if length (m_ioque_list d) = 64 * 1024 - 1 then (ADI_ERR_QUEUE_MAX_QUEUE, None, d)
          else if unat (queue_size qi) > 64 * 1024 - 1 then (ADI_ERR_QUEUE_QSIZE_INVALID, None, d)
          else if qid_exist (queue_id qi) d
          then (if queue_type qi = SUBMISSION_Q_TYPE then ADI_ERR_QUEUE_QID_INVALID
                else ADI_ERR_QUEUE_CQID_INVALID, None, d)
          else if queue_type qi = SUBMISSION_Q_TYPE \<and> get_ioqueue (completion_queue_id qi) d = None
          then (ADI_ERR_QUEUE_CQID_INVALID, None, d)
          else
            let sub = (queue_type qi = SUBMISSION_Q_TYPE);
                que = emul_ioqueue qi (if sub then Some (completion_queue_id qi) else None) in
            (ADI_SUCCESS, Some \<lparr>h_qid = queue_id qi, h_dev = True, h_queue = True\<rparr>,
             d\<lparr>queue_count := queue_count d + 1,
               m_ioque_list := (queue_id qi, que) # m_ioque_list d,
               m_sq_to_cq_pairs := (if sub then (queue_id qi, completion_queue_id qi) # m_sq_to_cq_pairs d
                                    else m_sq_to_cq_pairs d)\<rparr>))"

definition get_paired_SQ_ids :: "u16 \<Rightarrow> kv_dev \<Rightarrow> u16 list" where
  "get_paired_SQ_ids cq d = map fst (filter (\<lambda>p. snd p = cq) (m_sq_to_cq_pairs d))"

definition remove_queue :: "u16 \<Rightarrow> kv_dev \<Rightarrow> adi_result \<times> kv_dev" where
  "remove_queue qid d =
     (case get_ioqueue qid d of
        None \<Rightarrow> (ADI_ERR_QUEUE_QID_INVALID, d)
      | Some que \<Rightarrow>
          if queue_type (queinfo que) = COMPLETION_Q_TYPE \<and>
             list_ex (\<lambda>sq. qid_exist sq d) (get_paired_SQ_ids qid d)
          then (ADI_ERR_QUEUE_DELETION_INVALID, d)
          else (ADI_SUCCESS,
                d\<lparr>m_ioque_list := filter (\<lambda>p. fst p \<noteq> qid) (m_ioque_list d),
                  m_sq_to_cq_pairs := filter (\<lambda>p. fst p \<noteq> qid) (m_sq_to_cq_pairs d),
                  queue_count := queue_count d - 1\<rparr>))"

definition dev_delete_queue :: "kv_queue_handle option \<Rightarrow> kv_dev \<Rightarrow> adi_result \<times> kv_dev" where
  "dev_delete_queue h d =
     (case h of None \<Rightarrow> (ADI_ERR_PARAM_INVALID, d) | Some q \<Rightarrow> remove_queue (h_qid q) d)"

definition dev_get_queue_handles :: "u16 \<Rightarrow> kv_dev \<Rightarrow> adi_result \<times> u16 list \<times> u16" where
  "dev_get_queue_handles que_cnt d =
     (let qids = take (unat que_cnt) (map fst (m_ioque_list d)) in
      (if length (m_ioque_list d) > unat que_cnt then ADI_WRN_MORE else ADI_SUCCESS,
       qids, of_nat (length qids)))"

definition get_cqid_from_sqid :: "u16 \<Rightarrow> kv_dev \<Rightarrow> u16" where
  "get_cqid_from_sqid sqid d = (case map_of (m_sq_to_cq_pairs d) sqid of Some cq \<Rightarrow> cq | None \<Rightarrow> 0)"

text \<open>
  The utilization in hundredths of a percent is computed in floating point; the function of
  consumed bytes and capacity is a parameter.
\<close>

definition update_capacity_consumed :: "(u64 \<Rightarrow> u64 \<Rightarrow> u16) \<Rightarrow> kv_dev \<Rightarrow> kv_dev" where
  "update_capacity_consumed percent d =
     (let (consumed, ns) = get_consumed_space (m_ns d); capacity = ns_get_total_capacity ns in
      d\<lparr>m_ns := ns, d_capacity := capacity, utilization := percent consumed capacity\<rparr>)"

definition dev_get_device_info :: "(u64 \<Rightarrow> u64 \<Rightarrow> u16) \<Rightarrow> kv_dev \<Rightarrow> adi_result \<times> u64 \<times> kv_dev" where
  "dev_get_device_info percent d =
     (let d' = update_capacity_consumed percent d in (ADI_SUCCESS, d_capacity d', d'))"

definition dev_get_device_stat :: "(u64 \<Rightarrow> u64 \<Rightarrow> u16) \<Rightarrow> kv_dev \<Rightarrow> adi_result \<times> u16 \<times> kv_dev" where
  "dev_get_device_stat percent d =
     (let d' = update_capacity_consumed percent d in (ADI_SUCCESS, utilization d', d'))"

subsection \<open>Submitting commands\<close>

definition submit_io :: "kv_queue_handle option \<Rightarrow> io_cmd \<Rightarrow> kv_dev \<Rightarrow> (adi_result \<times> kv_dev) option" where
  "submit_io h cmd d =
     (case h of
        None \<Rightarrow> Some (ADI_ERR_PARAM_INVALID, d)
      | Some qh \<Rightarrow>
          if \<not> h_queue qh then Some (ADI_ERR_QUEUE_QID_INVALID, d)
          else case get_ioqueue (h_qid qh) d of
                 None \<Rightarrow> None
               | Some q \<Rightarrow>
                   if queue_type (queinfo q) \<noteq> SUBMISSION_Q_TYPE then Some (ADI_ERR_QUEUE_QID_INVALID, d)
                   else map_option (\<lambda>(r, q'). (r, set_ioqueue (h_qid qh) q' d)) (io_enqueue cmd True q))"

text \<open>A namespace handle is whether its namespace pointer is set; \<open>None\<close> is the null handle.\<close>

type_synonym kv_namespace_handle = bool

definition new_io_cmd :: "cmd_opcode_t \<Rightarrow> nat option \<Rightarrow> io_cmd" where
  "new_io_cmd op post = \<lparr>c_opcode = op, c_ks_id = 0, c_keys = [], c_value = None,
     c_retcode = ADI_SUCCESS, c_hiter = 0, c_buffer = [], c_buffer_size = 0, c_buffer_count = 0,
     c_iter_list = None, c_post = post\<rparr>"

text \<open>\<open>kv_sanitize\<close> leaves the key space of its command unset, so it is an argument here.\<close>

definition dev_sanitize :: "u8 \<Rightarrow> kv_queue_handle option \<Rightarrow> kv_sanitize_option \<Rightarrow> nat option \<Rightarrow> kv_dev \<Rightarrow>
    (adi_result \<times> kv_dev) option" where
  "dev_sanitize uninit h opt post d =
     (if opt \<noteq> KV_SANITIZE_OPT_KV_ERASE \<and> opt \<noteq> KV_SANITIZE_OPT_CRYPTO_ERASE \<and> opt \<noteq> KV_SANITIZE_OPT_OVERWRITE
      then Some (ADI_ERR_OPTION_INVALID, d)
      else case h of
             None \<Rightarrow> Some (ADI_ERR_PARAM_INVALID, d)
           | Some qh \<Rightarrow>
               if \<not> h_queue qh then Some (ADI_ERR_QUEUE_QID_INVALID, d)
               else submit_io h ((new_io_cmd (KV_OPC_SANITIZE_DEVICE opt) post)\<lparr>c_ks_id := uninit\<rparr>) d)"

definition dev_purge :: "kv_queue_handle option \<Rightarrow> kv_namespace_handle option \<Rightarrow> u8 \<Rightarrow> kv_purge_option \<Rightarrow>
    nat option \<Rightarrow> kv_dev \<Rightarrow> (adi_result \<times> kv_dev) option" where
  "dev_purge h nsh ks opt post d =
     (case (h, nsh) of
        (Some qh, Some ns) \<Rightarrow>
          if bad_keyspace ks then Some (ADI_ERR_KEYSPACE_INVALID, d)
          else if \<not> h_dev qh then Some (ADI_ERR_DEV_NOT_EXIST, d)
          else if \<not> ns then Some (ADI_ERR_NS_INVALID, d)
          else if \<not> h_queue qh then Some (ADI_ERR_QUEUE_QID_INVALID, d)
          else submit_io h ((new_io_cmd (KV_OPC_PURGE opt) post)\<lparr>c_ks_id := ks\<rparr>) d
      | _ \<Rightarrow> Some (ADI_ERR_PARAM_INVALID, d))"

definition dev_open_iterator :: "kv_queue_handle option \<Rightarrow> kv_namespace_handle option \<Rightarrow> u8 \<Rightarrow>
    kv_iterator_option \<Rightarrow> kv_group_condition option \<Rightarrow> nat option \<Rightarrow> kv_dev \<Rightarrow> (adi_result \<times> kv_dev) option" where
  "dev_open_iterator h nsh ks opt cond post d =
     (case (h, nsh, cond) of
        (Some qh, Some ns, Some c) \<Rightarrow>
          if bad_keyspace ks then Some (ADI_ERR_KEYSPACE_INVALID, d)
          else if \<not> ns then Some (ADI_ERR_NS_INVALID, d)
          else if \<not> h_dev qh then Some (ADI_ERR_DEV_NOT_EXIST, d)
          else if \<not> h_queue qh then Some (ADI_ERR_QUEUE_QID_INVALID, d)
          else submit_io h ((new_io_cmd (KV_OPC_OPEN_ITERATOR opt c) post)\<lparr>c_ks_id := ks\<rparr>) d
      | _ \<Rightarrow> Some (ADI_ERR_PARAM_INVALID, d))"

definition dev_close_iterator :: "kv_queue_handle option \<Rightarrow> kv_namespace_handle option \<Rightarrow> nat option \<Rightarrow>
    kv_iterator_handle \<Rightarrow> kv_dev \<Rightarrow> (adi_result \<times> kv_dev) option" where
  "dev_close_iterator h nsh post it d =
     (case (h, nsh) of
        (Some qh, Some ns) \<Rightarrow>
          if it = 0 then Some (ADI_ERR_PARAM_INVALID, d)
          else if \<not> ns then Some (ADI_ERR_NS_INVALID, d)
          else if \<not> h_dev qh then Some (ADI_ERR_DEV_NOT_EXIST, d)
          else if \<not> h_queue qh then Some (ADI_ERR_QUEUE_QID_INVALID, d)
          else submit_io h ((new_io_cmd (KV_OPC_CLOSE_ITERATOR it) post)\<lparr>c_hiter := it\<rparr>) d
      | _ \<Rightarrow> Some (ADI_ERR_PARAM_INVALID, d))"

definition dev_iterator_next_set :: "kv_queue_handle option \<Rightarrow> kv_namespace_handle option \<Rightarrow>
    kv_iterator_handle \<Rightarrow> nat option \<Rightarrow> kv_iterator_list option \<Rightarrow> kv_dev \<Rightarrow> (adi_result \<times> kv_dev) option" where
  "dev_iterator_next_set h nsh it post l d =
     (case (h, nsh) of
        (Some qh, Some ns) \<Rightarrow>
          if it = 0 then Some (ADI_ERR_PARAM_INVALID, d)
          else if \<not> h_queue qh then Some (ADI_ERR_QUEUE_QID_INVALID, d)
          else if \<not> h_dev qh then Some (ADI_ERR_DEV_NOT_EXIST, d)
          else if \<not> ns then Some (ADI_ERR_NS_INVALID, d)
          else submit_io h ((new_io_cmd (KV_OPC_ITERATE_NEXT it) post)\<lparr>c_hiter := it, c_iter_list := l\<rparr>) d
      | _ \<Rightarrow> Some (ADI_ERR_PARAM_INVALID, d))"

definition dev_iterator_next :: "kv_queue_handle option \<Rightarrow> kv_namespace_handle option \<Rightarrow>
    kv_iterator_handle \<Rightarrow> nat option \<Rightarrow> kvs_key option \<Rightarrow> kvs_value option \<Rightarrow> kv_dev \<Rightarrow>
    (adi_result \<times> kv_dev) option" where
  "dev_iterator_next h nsh it post key val d =
     (case (h, nsh) of
        (Some qh, Some ns) \<Rightarrow>
          if it = 0 then Some (ADI_ERR_PARAM_INVALID, d)
          else if \<not> h_queue qh then Some (ADI_ERR_QUEUE_QID_INVALID, d)
          else if \<not> h_dev qh then Some (ADI_ERR_DEV_NOT_EXIST, d)
          else if \<not> ns then Some (ADI_ERR_NS_INVALID, d)
          else submit_io h ((new_io_cmd (KV_OPC_ITERATE_NEXT_SINGLE_KV it) post)
                 \<lparr>c_hiter := it, c_keys := (case key of None \<Rightarrow> [] | Some k \<Rightarrow> [k]), c_value := val\<rparr>) d
      | _ \<Rightarrow> Some (ADI_ERR_PARAM_INVALID, d))"

text \<open>Listing the iterators does not go through the queue.\<close>

definition dev_list_iterators :: "kv_queue_handle option \<Rightarrow> kv_namespace_handle option \<Rightarrow>
    kv_iterator list option \<Rightarrow> u32 \<Rightarrow> kv_dev \<Rightarrow> adi_result \<times> kv_iterator list option \<times> u32" where
  "dev_list_iterators h nsh l n d =
     (case (h, nsh, l) of
        (Some qh, Some ns, Some its) \<Rightarrow>
          if \<not> h_queue qh then (ADI_ERR_QUEUE_QID_INVALID, l, n)
          else if \<not> h_dev qh then (ADI_ERR_DEV_NOT_EXIST, l, n)
          else if \<not> ns then (ADI_ERR_NS_INVALID, l, n)
          else let (r, its', n') = ns_list_iterators its n (m_ns d) in (r, Some its', n')
      | _ \<Rightarrow> (ADI_ERR_PARAM_INVALID, l, n))"

definition dev_delete :: "kv_queue_handle option \<Rightarrow> kv_namespace_handle option \<Rightarrow> u8 \<Rightarrow> kvs_key option \<Rightarrow>
    kv_delete_option \<Rightarrow> nat option \<Rightarrow> kv_dev \<Rightarrow> (adi_result \<times> kv_dev) option" where
  "dev_delete h nsh ks key opt post d =
     (case (h, nsh, key) of
        (Some qh, Some ns, Some k) \<Rightarrow>
          let res = validate_key_value k None in
          if res \<noteq> ADI_SUCCESS then Some (res, d)
          else if bad_keyspace ks then Some (ADI_ERR_KEYSPACE_INVALID, d)
          else if \<not> h_dev qh then Some (ADI_ERR_DEV_NOT_EXIST, d)
          else if \<not> h_queue qh then Some (ADI_ERR_QUEUE_QID_INVALID, d)
          else if \<not> ns then Some (ADI_ERR_NS_INVALID, d)
          else submit_io h ((new_io_cmd (KV_OPC_DELETE opt) post)\<lparr>c_keys := [k], c_ks_id := ks\<rparr>) d
      | _ \<Rightarrow> Some (ADI_ERR_PARAM_INVALID, d))"

definition dev_delete_group :: "kv_queue_handle option \<Rightarrow> kv_namespace_handle option \<Rightarrow> u8 \<Rightarrow>
    kv_group_condition option \<Rightarrow> nat option \<Rightarrow> kv_dev \<Rightarrow> (adi_result \<times> kv_dev) option" where
  "dev_delete_group h nsh ks cond post d =
     (case (h, nsh, cond) of
        (Some qh, Some ns, Some c) \<Rightarrow>
          if \<not> h_dev qh then Some (ADI_ERR_DEV_NOT_EXIST, d)
          else if bad_keyspace ks then Some (ADI_ERR_KEYSPACE_INVALID, d)
          else if \<not> h_queue qh then Some (ADI_ERR_QUEUE_QID_INVALID, d)
          else if \<not> ns then Some (ADI_ERR_NS_INVALID, d)
          else submit_io h ((new_io_cmd (KV_OPC_DELETE_GROUP c) post)\<lparr>c_ks_id := ks\<rparr>) d
      | _ \<Rightarrow> Some (ADI_ERR_PARAM_INVALID, d))"

text \<open>The first key of an array that does not pass the check.\<close>

primrec validate_keys :: "kvs_key list \<Rightarrow> adi_result" where
  "validate_keys [] = ADI_SUCCESS"
| "validate_keys (k # ks) =
     (let res = validate_key_value k None in if res \<noteq> ADI_SUCCESS then res else validate_keys ks)"

definition dev_exist :: "kv_queue_handle option \<Rightarrow> kv_namespace_handle option \<Rightarrow> u8 \<Rightarrow> kvs_key list option \<Rightarrow>
    u32 \<Rightarrow> nat option \<Rightarrow> u32 \<Rightarrow> u8 list option \<Rightarrow> kv_dev \<Rightarrow> (adi_result \<times> kv_dev) option" where
  "dev_exist h nsh ks keys key_cnt post buffer_size buffer d =
     (case (h, nsh, keys, buffer) of
        (Some qh, Some ns, Some kl, Some buf) \<Rightarrow>
          let res = validate_keys (take (unat key_cnt) kl) in
          if res \<noteq> ADI_SUCCESS then Some (res, d)
          else if bad_keyspace ks then Some (ADI_ERR_KEYSPACE_INVALID, d)
          else if \<not> h_queue qh then Some (ADI_ERR_QUEUE_QID_INVALID, d)
          else if \<not> h_dev qh then Some (ADI_ERR_DEV_NOT_EXIST, d)
          else if \<not> ns then Some (ADI_ERR_NS_INVALID, d)
          else submit_io h ((new_io_cmd (KV_OPC_CHECK_KEY_EXIST key_cnt) post)
                 \<lparr>c_keys := kl, c_buffer := buf, c_buffer_size := buffer_size, c_ks_id := ks\<rparr>) d
      | _ \<Rightarrow> Some (ADI_ERR_PARAM_INVALID, d))"

definition dev_retrieve :: "kv_queue_handle option \<Rightarrow> kv_namespace_handle option \<Rightarrow> u8 \<Rightarrow> kvs_key option \<Rightarrow>
    kv_retrieve_option \<Rightarrow> nat option \<Rightarrow> kvs_value option \<Rightarrow> kv_dev \<Rightarrow> (adi_result \<times> kv_dev) option" where
  "dev_retrieve h nsh ks key opt post val d =
     (case (h, nsh, key, val) of
        (Some qh, Some ns, Some k, Some v) \<Rightarrow>
          let res = validate_key_value k val in
          if res \<noteq> ADI_SUCCESS then Some (res, d)
          else if bad_keyspace ks then Some (ADI_ERR_KEYSPACE_INVALID, d)
          else if \<not> h_dev qh then Some (ADI_ERR_DEV_NOT_EXIST, d)
          else if \<not> h_queue qh then Some (ADI_ERR_QUEUE_QID_INVALID, d)
          else if \<not> ns then Some (ADI_ERR_NS_INVALID, d)
          else submit_io h ((new_io_cmd (KV_OPC_GET opt) post)\<lparr>c_keys := [k], c_value := val, c_ks_id := ks\<rparr>) d
      | _ \<Rightarrow> Some (ADI_ERR_PARAM_INVALID, d))"

definition dev_store :: "kv_queue_handle option \<Rightarrow> kv_namespace_handle option \<Rightarrow> u8 \<Rightarrow> kvs_key option \<Rightarrow>
    kvs_value option \<Rightarrow> kv_store_option \<Rightarrow> nat option \<Rightarrow> kv_dev \<Rightarrow> (adi_result \<times> kv_dev) option" where
  "dev_store h nsh ks key val opt post d =
     (case (h, nsh, key, val) of
        (Some qh, Some ns, Some k, Some v) \<Rightarrow>
          let res = validate_key_value k val in
          if res \<noteq> ADI_SUCCESS then Some (res, d)
          else if bad_keyspace ks then Some (ADI_ERR_KEYSPACE_INVALID, d)
          else if \<not> h_dev qh then Some (ADI_ERR_DEV_NOT_EXIST, d)
          else if \<not> h_queue qh then Some (ADI_ERR_QUEUE_QID_INVALID, d)
          else if \<not> ns then Some (ADI_ERR_NS_INVALID, d)
          else submit_io h ((new_io_cmd (KV_OPC_STORE opt) post)\<lparr>c_keys := [k], c_value := val, c_ks_id := ks\<rparr>) d
      | _ \<Rightarrow> Some (ADI_ERR_PARAM_INVALID, d))"

definition dev_poll_completion :: "kv_queue_handle option \<Rightarrow> u32 \<Rightarrow> kv_dev \<Rightarrow>
    (adi_result \<times> io_cmd list \<times> kv_dev) option" where
  "dev_poll_completion h num_events d =
     (case h of
        None \<Rightarrow> Some (ADI_ERR_PARAM_INVALID, [], d)
      | Some qh \<Rightarrow>
          if \<not> h_queue qh then Some (ADI_ERR_QUEUE_QID_INVALID, [], d)
          else case get_ioqueue (h_qid qh) d of
                 None \<Rightarrow> None
               | Some q \<Rightarrow>
                   if queue_type (queinfo q) \<noteq> COMPLETION_Q_TYPE then Some (ADI_ERR_QUEUE_QID_INVALID, [], d)
                   else let (r, cs, q') = io_poll_completion num_events q in
                        Some (r, cs, set_ioqueue (h_qid qh) q' d))"

definition dev_set_interrupt_handler :: "kv_queue_handle option \<Rightarrow> kv_dev \<Rightarrow> (adi_result \<times> kv_dev) option" where
  "dev_set_interrupt_handler h d =
     (case h of
        None \<Rightarrow> Some (ADI_ERR_PARAM_INVALID, d)
      | Some qh \<Rightarrow>
          if \<not> h_queue qh then Some (ADI_ERR_QUEUE_QID_INVALID, d)
          else case get_ioqueue (h_qid qh) d of
                 None \<Rightarrow> None
               | Some q \<Rightarrow>
                   if queue_type (queinfo q) \<noteq> COMPLETION_Q_TYPE then Some (ADI_ERR_QUEUE_QID_INVALID, d)
                   else if m_is_poll d then Some (ADI_ERR_OPTION_INVALID, d)
                   else Some (ADI_SUCCESS, set_ioqueue (h_qid qh) (q\<lparr>q_interrupts := True\<rparr>) d))"

subsection \<open>The threads of the queues\<close>

text \<open>
  One round of the thread of a submission queue: take a command, execute it and put it on the
  completion queue.  The thread waits on an empty queue and on a full completion queue.
\<close>

definition process_submitted_command :: "u16 \<Rightarrow> kv_dev \<Rightarrow> kv_dev option" where
  "process_submitted_command sq d =
     (case get_ioqueue sq d of
        None \<Rightarrow> None
      | Some q \<Rightarrow>
          (case io_dequeue True q of
             None \<Rightarrow> None
           | Some (r, None, q') \<Rightarrow> Some (set_ioqueue sq q' d)
           | Some (r, Some cmd, q') \<Rightarrow>
               (case execute_cmd (m_has_fixed_keylen d) cmd (m_ns d) of
                  None \<Rightarrow> None
                | Some (cmd', ns') \<Rightarrow>
                    let d1 = (set_ioqueue sq q' d)\<lparr>m_ns := ns'\<rparr> in
                    (case q_out q' of
                       None \<Rightarrow> Some d1
                     | Some cq \<Rightarrow>
                         (case get_ioqueue cq d1 of
                            None \<Rightarrow> None
                          | Some out \<Rightarrow>
                              map_option (\<lambda>(_, out'). set_ioqueue cq out' d1) (io_enqueue cmd' True out))))))"

text \<open>
  One round of the thread that serves interrupts on a completion queue, which exists only when
  an interrupt handler has been installed.  It gives back the command whose callback it runs.
\<close>

definition process_interrupt :: "u16 \<Rightarrow> kv_dev \<Rightarrow> (io_cmd option \<times> kv_dev) option" where
  "process_interrupt cq d =
     (case get_ioqueue cq d of
        None \<Rightarrow> None
      | Some q \<Rightarrow>
          if \<not> q_interrupts q then None
          else map_option (\<lambda>(_, cmd, q'). (cmd, set_ioqueue cq q' d)) (io_dequeue True q))"

section \<open>The device interface (kvs_adi.cpp)\<close>

definition kv_purge :: "kv_queue_handle option \<Rightarrow> kv_namespace_handle option \<Rightarrow> u8 \<Rightarrow> kv_purge_option \<Rightarrow>
    nat option \<Rightarrow> kv_dev \<Rightarrow> (adi_result \<times> kv_dev) option" where
  "kv_purge h nsh ks opt post d =
     (if h = None \<or> nsh = None then Some (ADI_ERR_PARAM_INVALID, d) else dev_purge h nsh ks opt post d)"

definition kv_open_iterator :: "kv_queue_handle option \<Rightarrow> kv_namespace_handle option \<Rightarrow> u8 \<Rightarrow>
    kv_iterator_option \<Rightarrow> kv_group_condition option \<Rightarrow> nat option \<Rightarrow> kv_dev \<Rightarrow> (adi_result \<times> kv_dev) option" where
  "kv_open_iterator h nsh ks opt cond post d =
     (if h = None \<or> nsh = None \<or> cond = None then Some (ADI_ERR_PARAM_INVALID, d)
      else dev_open_iterator h nsh ks opt
             (Some \<lparr>bitmask = htobe32 (bitmask (the cond)), bit_pattern = htobe32 (bit_pattern (the cond))\<rparr>) post d)"

definition kv_close_iterator :: "kv_queue_handle option \<Rightarrow> kv_namespace_handle option \<Rightarrow>
    kv_iterator_handle \<Rightarrow> nat option \<Rightarrow> kv_dev \<Rightarrow> (adi_result \<times> kv_dev) option" where
  "kv_close_iterator h nsh it post d =
     (if h = None \<or> nsh = None \<or> it = 0 then Some (ADI_ERR_PARAM_INVALID, d)
      else dev_close_iterator h nsh post it d)"

definition kv_iterator_next :: "kv_queue_handle option \<Rightarrow> kv_namespace_handle option \<Rightarrow>
    kv_iterator_handle \<Rightarrow> kv_iterator_list option \<Rightarrow> nat option \<Rightarrow> kv_dev \<Rightarrow> (adi_result \<times> kv_dev) option" where
  "kv_iterator_next h nsh it l post d =
     (if h = None \<or> nsh = None \<or> it = 0 \<or> l = None then Some (ADI_ERR_PARAM_INVALID, d)
      else dev_iterator_next_set h nsh it post l d)"

definition kv_delete :: "kv_queue_handle option \<Rightarrow> kv_namespace_handle option \<Rightarrow> u8 \<Rightarrow> kvs_key option \<Rightarrow>
    kv_delete_option \<Rightarrow> nat option \<Rightarrow> kv_dev \<Rightarrow> (adi_result \<times> kv_dev) option" where
  "kv_delete h nsh ks key opt post d =
     (if h = None \<or> nsh = None \<or> key = None then Some (ADI_ERR_PARAM_INVALID, d)
      else dev_delete h nsh ks key opt post d)"

definition kv_delete_group :: "kv_queue_handle option \<Rightarrow> kv_namespace_handle option \<Rightarrow> u8 \<Rightarrow>
    kv_group_condition option \<Rightarrow> nat option \<Rightarrow> kv_dev \<Rightarrow> (adi_result \<times> kv_dev) option" where
  "kv_delete_group h nsh ks cond post d =
     (if h = None \<or> nsh = None \<or> cond = None then Some (ADI_ERR_PARAM_INVALID, d)
      else dev_delete_group h nsh ks cond post d)"

definition kv_exist :: "kv_queue_handle option \<Rightarrow> kv_namespace_handle option \<Rightarrow> u8 \<Rightarrow> kvs_key list option \<Rightarrow>
    u32 \<Rightarrow> u32 \<Rightarrow> u8 list option \<Rightarrow> nat option \<Rightarrow> kv_dev \<Rightarrow> (adi_result \<times> kv_dev) option" where
  "kv_exist h nsh ks keys key_cnt buffer_size buffer post d =
     (if h = None \<or> nsh = None \<or> keys = None \<or> buffer = None then Some (ADI_ERR_PARAM_INVALID, d)
      else dev_exist h nsh ks keys key_cnt post buffer_size buffer d)"

definition kv_retrieve :: "kv_queue_handle option \<Rightarrow> kv_namespace_handle option \<Rightarrow> u8 \<Rightarrow> kvs_key option \<Rightarrow>
    kv_retrieve_option \<Rightarrow> kvs_value option \<Rightarrow> nat option \<Rightarrow> kv_dev \<Rightarrow> (adi_result \<times> kv_dev) option" where
  "kv_retrieve h nsh ks key opt val post d =
     (if h = None \<or> nsh = None \<or> key = None \<or> val = None then Some (ADI_ERR_PARAM_INVALID, d)
      else dev_retrieve h nsh ks key opt post val d)"

definition kv_store :: "kv_queue_handle option \<Rightarrow> kv_namespace_handle option \<Rightarrow> u8 \<Rightarrow> kvs_key option \<Rightarrow>
    kvs_value option \<Rightarrow> kv_store_option \<Rightarrow> nat option \<Rightarrow> kv_dev \<Rightarrow> (adi_result \<times> kv_dev) option" where
  "kv_store h nsh ks key val opt post d =
     (if h = None \<or> nsh = None \<or> key = None \<or> val = None then Some (ADI_ERR_PARAM_INVALID, d)
      else dev_store h nsh ks key val opt post d)"

definition get_queued_commands_count :: "kv_queue_handle option \<Rightarrow> kv_dev \<Rightarrow> u32" where
  "get_queued_commands_count h d =
     (case h of
        None \<Rightarrow> 0
      | Some qh \<Rightarrow> if h_queue qh then (case get_ioqueue (h_qid qh) d of
                     Some q \<Rightarrow> of_nat (length (q_cmds q)) | None \<Rightarrow> 0) else 0)"

end
