(* ===== verification/Emul_Driver.thy ===== *)
theory Emul_Driver
  imports Emul_Device
begin

text \<open>
  The driver that connects the KVS API to the emulated device (kvemuldriver.cpp), on its
  synchronous paths: it submits a command, waits until the interrupt thread has run the
  completion callback, and translates the result.  A call that waits for ever is \<open>None\<close>.
\<close>

section \<open>State and start-up\<close>

record kv_driver =
  drv_dev :: kv_dev
  nsH :: "kv_namespace_handle option"
  sqH :: "kv_queue_handle option"
  cqH :: "kv_queue_handle option"
  int_handler :: bool
  queuedepth :: int

text \<open>
  \<open>KvEmulator::create_queue\<close>; the static counter of queue identifiers is threaded through.  The
  results of creating the queue and of installing the interrupt handler are not looked at.
\<close>

definition drv_create_queue :: "int \<Rightarrow> u16 \<Rightarrow> int \<Rightarrow> int \<Rightarrow> int \<Rightarrow> kv_dev \<Rightarrow>
    (int \<times> kv_queue_handle option \<times> bool \<times> kv_dev) option" where
  "drv_create_queue qdepth qtype cqid is_polling qid d =
     (let qid' = qid + 1;
          qinfo = \<lparr>queue_id = of_int qid', queue_size = of_int qdepth, completion_queue_id = of_int cqid,
                   queue_type = qtype\<rparr>;
          (ret, h, d1) = create_queue (Some qinfo) d in
      if qtype = COMPLETION_Q_TYPE \<and> is_polling = 0
      then map_option (\<lambda>(_, d2). (qid', h, True, d2)) (dev_set_interrupt_handler h d1)
      else Some (qid', h, False, d1))"

definition drv_init :: "kv_config \<Rightarrow> int \<Rightarrow> int \<Rightarrow> int \<Rightarrow> (kvs_result \<times> kv_driver \<times> int) option" where
  "drv_init getkv depth is_polling qid =
     (case kv_device_internal getkv (is_polling = 1) of
        None \<Rightarrow> None
      | Some d \<Rightarrow>
          (case drv_create_queue depth COMPLETION_Q_TYPE 0 is_polling qid d of
             None \<Rightarrow> None
           | Some (cqid, cq, ih, d1) \<Rightarrow>
               (case drv_create_queue depth SUBMISSION_Q_TYPE cqid is_polling cqid d1 of
                  None \<Rightarrow> None
                | Some (sqid, sq, _, d2) \<Rightarrow>
                    Some (convert_return_code (adi_result_code ADI_SUCCESS),
                          \<lparr>drv_dev = d2, nsH = Some True, sqH = sq, cqH = cq, int_handler = ih,
                           queuedepth = depth\<rparr>, sqid))))"

section \<open>Waiting for a command\<close>

text \<open>
  The submission thread and the interrupt thread run; the callback \<open>on_io_complete\<close> wakes the
  caller only if the driver has an interrupt handler.
\<close>

definition await_interrupt :: "kv_driver \<Rightarrow> (io_cmd \<times> kv_driver) option" where
  "await_interrupt drv =
     (case (sqH drv, cqH drv) of
        (Some sq, Some cq) \<Rightarrow>
          (case process_submitted_command (h_qid sq) (drv_dev drv) of
             None \<Rightarrow> None
           | Some d1 \<Rightarrow>
               (case process_interrupt (h_qid cq) d1 of
                  Some (Some cmd, d2) \<Rightarrow>
                    if int_handler drv then Some (cmd, drv\<lparr>drv_dev := d2\<rparr>) else None
                | _ \<Rightarrow> None))
      | _ \<Rightarrow> None)"

text \<open>Without an interrupt handler, iterator calls poll the completion queue themselves.\<close>

definition await_poll :: "kv_driver \<Rightarrow> (io_cmd \<times> kv_driver) option" where
  "await_poll drv =
     (case sqH drv of
        None \<Rightarrow> None
      | Some sq \<Rightarrow>
          (case process_submitted_command (h_qid sq) (drv_dev drv) of
             None \<Rightarrow> None
           | Some d1 \<Rightarrow>
               (case dev_poll_completion (cqH drv) 0 d1 of
                  Some (_, cmd # _, d2) \<Rightarrow> Some (cmd, drv\<lparr>drv_dev := d2\<rparr>)
                | _ \<Rightarrow> None)))"

text \<open>The common part of the calls: submit, fail at once if refused, otherwise wait.\<close>

definition sync_io :: "(adi_result \<times> kv_dev) option \<Rightarrow> kv_driver \<Rightarrow> (adi_result \<times> io_cmd option \<times> kv_driver) option" where
  "sync_io submitted drv =
     (case submitted of
        None \<Rightarrow> None
      | Some (ret, d) \<Rightarrow>
          let drv1 = drv\<lparr>drv_dev := d\<rparr> in
          if ret \<noteq> ADI_SUCCESS then Some (ret, None, drv1)
          else map_option (\<lambda>(cmd, drv2). (c_retcode cmd, Some cmd, drv2)) (await_interrupt drv1))"

abbreviation convert_code :: "adi_result \<Rightarrow> kvs_result" where
  "convert_code r \<equiv> convert_return_code (adi_result_code r)"

section \<open>Entry points\<close>

definition trans_store_cmd_opt :: "kvs_store_type \<Rightarrow> kv_store_option" where
  "trans_store_cmd_opt st = (case st of
      KVS_STORE_POST \<Rightarrow> KV_STORE_OPT_DEFAULT
    | KVS_STORE_UPDATE_ONLY \<Rightarrow> KV_STORE_OPT_UPDATE_ONLY
    | KVS_STORE_NOOVERWRITE \<Rightarrow> KV_STORE_OPT_IDEMPOTENT
    | KVS_STORE_APPEND \<Rightarrow> KV_STORE_OPT_APPEND)"

definition store_tuple :: "u8 \<Rightarrow> kvs_key \<Rightarrow> kvs_value \<Rightarrow> kvs_store_type \<Rightarrow> kv_driver \<Rightarrow>
    (kvs_result \<times> kv_driver) option" where
  "store_tuple ks key val st drv =
     (let option_adi = (case st of
            KVS_STORE_POST \<Rightarrow> KV_STORE_OPT_DEFAULT
          | KVS_STORE_UPDATE_ONLY \<Rightarrow> KV_STORE_OPT_UPDATE_ONLY
          | KVS_STORE_NOOVERWRITE \<Rightarrow> KV_STORE_OPT_IDEMPOTENT
          | KVS_STORE_APPEND \<Rightarrow> KV_STORE_OPT_APPEND) in
      map_option (\<lambda>(ret, _, drv'). (convert_code ret, drv'))
        (sync_io (kv_store (sqH drv) (nsH drv) ks (Some key) (Some val) option_adi (Some 0) (drv_dev drv)) drv))"

text \<open>The completion callback takes the offset off the actual size, in the caller's own value.\<close>

definition retrieve_tuple :: "u8 \<Rightarrow> kvs_key \<Rightarrow> kvs_value \<Rightarrow> bool \<Rightarrow> kv_driver \<Rightarrow>
    (kvs_result \<times> kvs_value \<times> kv_driver) option" where
  "retrieve_tuple ks key val delete_it drv =
     (let option_adi = (if \<not> delete_it then KV_RETRIEVE_OPT_DEFAULT else KV_RETRIEVE_OPT_DELETE) in
      map_option (\<lambda>(ret, cmd, drv').
          (convert_code ret,
           case cmd of
             Some c \<Rightarrow> (case c_value c of
                 Some v \<Rightarrow> v\<lparr>actual_value_size := actual_value_size v - kv_offset v\<rparr> | None \<Rightarrow> val)
           | None \<Rightarrow> val,
           drv'))
        (sync_io (kv_retrieve (sqH drv) (nsH drv) ks (Some key) option_adi (Some val) (Some 0) (drv_dev drv)) drv))"

definition delete_tuple :: "u8 \<Rightarrow> kvs_key \<Rightarrow> bool \<Rightarrow> kv_driver \<Rightarrow> (kvs_result \<times> kv_driver) option" where
  "delete_tuple ks key delete_error drv =
     (let option_adi = (if \<not> delete_error then KV_DELETE_OPT_DEFAULT else KV_DELETE_OPT_ERROR) in
      map_option (\<lambda>(ret, _, drv'). (convert_code ret, drv'))
        (sync_io (kv_delete (sqH drv) (nsH drv) ks (Some key) option_adi (Some 0) (drv_dev drv)) drv))"

definition exist_tuple :: "u8 \<Rightarrow> u32 \<Rightarrow> kvs_key list \<Rightarrow> u32 \<Rightarrow> u8 list \<Rightarrow> kv_driver \<Rightarrow>
    (kvs_result \<times> u8 list \<times> kv_driver) option" where
  "exist_tuple ks key_cnt keys len buf drv =
     map_option (\<lambda>(ret, cmd, drv').
         (convert_code ret, case cmd of Some c \<Rightarrow> c_buffer c | None \<Rightarrow> buf, drv'))
       (sync_io (kv_exist (sqH drv) (nsH drv) ks (Some keys) key_cnt len (Some buf) (Some 0) (drv_dev drv)) drv)"

text \<open>The iterator calls wait with or without interrupts.\<close>

definition iter_io :: "(adi_result \<times> kv_dev) option \<Rightarrow> kv_driver \<Rightarrow> (adi_result \<times> io_cmd option \<times> kv_driver) option" where
  "iter_io submitted drv =
     (case submitted of
        None \<Rightarrow> None
      | Some (ret, d) \<Rightarrow>
          let drv1 = drv\<lparr>drv_dev := d\<rparr> in
          if ret \<noteq> ADI_SUCCESS then Some (ret, None, drv1)
          else map_option (\<lambda>(cmd, drv2). (c_retcode cmd, Some cmd, drv2))
                 (if \<not> int_handler drv then await_poll drv1 else await_interrupt drv1))"

definition drv_create_iterator :: "u8 \<Rightarrow> bool \<Rightarrow> u32 \<Rightarrow> u32 \<Rightarrow> kv_iterator_handle \<Rightarrow> kv_driver \<Rightarrow>
    (kvs_result \<times> kv_iterator_handle \<times> kv_driver) option" where
  "drv_create_iterator ks keys_only bm pat h drv =
     (let option_adi = (if keys_only then KV_ITERATOR_OPT_KEY else KV_ITERATOR_OPT_KV) in
      map_option (\<lambda>(ret, cmd, drv'). (convert_code ret, case cmd of Some c \<Rightarrow> c_hiter c | None \<Rightarrow> h, drv'))
        (iter_io (kv_open_iterator (sqH drv) (nsH drv) ks option_adi
                    (Some \<lparr>bitmask = bm, bit_pattern = pat\<rparr>) (Some 0) (drv_dev drv)) drv))"

text \<open>The result of closing the iterator is dropped.\<close>

definition drv_delete_iterator :: "kv_iterator_handle \<Rightarrow> kv_driver \<Rightarrow> (kvs_result \<times> kv_driver) option" where
  "drv_delete_iterator h drv =
     map_option (\<lambda>(ret, cmd, drv'). (if cmd = None then convert_code ret else KVS_SUCCESS, drv'))
       (iter_io (kv_close_iterator (sqH drv) (nsH drv) h (Some 0) (drv_dev drv)) drv)"

definition iterator_next :: "kv_iterator_handle \<Rightarrow> kv_iterator_list \<Rightarrow> kv_driver \<Rightarrow>
    (kvs_result \<times> kv_iterator_list \<times> kv_driver) option" where
  "iterator_next h l drv =
     map_option (\<lambda>(ret, cmd, drv').
         (convert_code ret, case cmd of Some c \<Rightarrow> (case c_iter_list c of Some l' \<Rightarrow> l' | None \<Rightarrow> l) | None \<Rightarrow> l, drv'))
       (sync_io (kv_iterator_next (sqH drv) (nsH drv) h (Some l) (Some 0) (drv_dev drv)) drv)"

definition get_used_size :: "(u64 \<Rightarrow> u64 \<Rightarrow> u16) \<Rightarrow> kv_driver \<Rightarrow> kvs_result \<times> u32 \<times> kv_driver" where
  "get_used_size percent drv =
     (let (ret, u, d) = dev_get_device_stat percent (drv_dev drv) in
      (convert_code ret, ucast u, drv\<lparr>drv_dev := d\<rparr>))"

definition get_total_size :: "(u64 \<Rightarrow> u64 \<Rightarrow> u16) \<Rightarrow> kv_driver \<Rightarrow> kvs_result \<times> u64 \<times> kv_driver" where
  "get_total_size percent drv =
     (let (ret, c, d) = dev_get_device_info percent (drv_dev drv) in
      (convert_code ret, c, drv\<lparr>drv_dev := d\<rparr>))"

definition process_completions :: "kv_driver \<Rightarrow> (io_cmd list \<times> kv_driver) option" where
  "process_completions drv =
     map_option (\<lambda>(_, cs, d). (cs, drv\<lparr>drv_dev := d\<rparr>)) (dev_poll_completion (cqH drv) 0 (drv_dev drv))"

text \<open>Destroying the driver: the queues go first; if one cannot be deleted the process exits.\<close>

definition drv_destroy :: "kv_driver \<Rightarrow> kv_dev option" where
  "drv_destroy drv =
     (let (r1, d1) = dev_delete_queue (sqH drv) (drv_dev drv) in
      if r1 \<noteq> ADI_SUCCESS then None
      else let (r2, d2) = dev_delete_queue (cqH drv) d1 in
           if r2 \<noteq> ADI_SUCCESS then None else Some d2)"

section \<open>An idle driver answers\<close>

text \<open>
  The state between two calls: both queues exist, are empty and have room, the interrupt thread
  runs, and the namespace is well formed.
\<close>

definition sq_info_ok :: "u16 \<Rightarrow> ioqueue \<Rightarrow> bool" where
  "sq_info_ok cq q \<longleftrightarrow> queue_type (queinfo q) = SUBMISSION_Q_TYPE \<and> queue_size (queinfo q) \<noteq> 0 \<and>
     \<not> q_shutdown q \<and> q_out q = Some cq"

definition cq_info_ok :: "ioqueue \<Rightarrow> bool" where
  "cq_info_ok q \<longleftrightarrow> queue_type (queinfo q) = COMPLETION_Q_TYPE \<and> queue_size (queinfo q) \<noteq> 0 \<and>
     \<not> q_shutdown q \<and> q_interrupts q"

definition drv_ok :: "kv_driver \<Rightarrow> bool" where
  "drv_ok drv \<longleftrightarrow> nsH drv = Some True \<and> int_handler drv \<and>
     (\<exists>sq cq qs qc. sqH drv = Some \<lparr>h_qid = sq, h_dev = True, h_queue = True\<rparr> \<and>
        cqH drv = Some \<lparr>h_qid = cq, h_dev = True, h_queue = True\<rparr> \<and> sq \<noteq> cq \<and>
        get_ioqueue sq (drv_dev drv) = Some qs \<and> sq_info_ok cq qs \<and> q_cmds qs = [] \<and>
        get_ioqueue cq (drv_dev drv) = Some qc \<and> cq_info_ok qc \<and> q_cmds qc = []) \<and>
     ns_ok (m_ns (drv_dev drv))"

lemma get_set_ioqueue [simp]:
  "get_ioqueue q (set_ioqueue q' x d) =
     (if q = q' \<and> get_ioqueue q' d \<noteq> None then Some x else get_ioqueue q d)"
proof -
  have "map_of (map (\<lambda>p. if fst p = q' then (q', x) else p) xs) q =
      (if q = q' \<and> map_of xs q' \<noteq> None then Some x else map_of xs q)" for xs :: "(u16 \<times> ioqueue) list"
    by (induction xs) auto
  then show ?thesis by (simp add: get_ioqueue_def set_ioqueue_def)
qed

lemma set_ioqueue_ns [simp]: "m_ns (set_ioqueue q x d) = m_ns d"
  "m_has_fixed_keylen (set_ioqueue q x d) = m_has_fixed_keylen d"
  by (simp_all add: set_ioqueue_def)

lemma get_ioqueue_ns [simp]: "get_ioqueue q (d\<lparr>m_ns := n\<rparr>) = get_ioqueue q d"
  by (simp add: get_ioqueue_def)

lemma set_ioqueue_ns_comm:
  "set_ioqueue q x (d\<lparr>m_ns := n\<rparr>) = (set_ioqueue q x d)\<lparr>m_ns := n\<rparr>"
  by (simp add: set_ioqueue_def)

lemma set_ioqueue_same [simp]: "set_ioqueue q x (set_ioqueue q y d) = set_ioqueue q x d"
  by (simp add: set_ioqueue_def comp_def if_distrib [of fst] cong: if_cong)

text \<open>
  On an idle driver a command that passes submission is executed and completed: the caller gets
  the executed command, and the driver is idle again with the namespace the command left.
\<close>

lemma sync_io_executes:
  assumes ok: "drv_ok drv"
    and ex: "execute_cmd (m_has_fixed_keylen (drv_dev drv)) cmd (m_ns (drv_dev drv)) = Some (cmd', ns')"
    and ns': "ns_ok ns'"
  shows "\<exists>drv'. sync_io (submit_io (sqH drv) cmd (drv_dev drv)) drv = Some (c_retcode cmd', Some cmd', drv') \<and>
     drv_ok drv' \<and> m_ns (drv_dev drv') = ns'"
proof -
  obtain sq cq qs qc where h: "sqH drv = Some \<lparr>h_qid = sq, h_dev = True, h_queue = True\<rparr>"
      "cqH drv = Some \<lparr>h_qid = cq, h_dev = True, h_queue = True\<rparr>" "sq \<noteq> cq"
    and q: "get_ioqueue sq (drv_dev drv) = Some qs" "sq_info_ok cq qs" "q_cmds qs = []"
      "get_ioqueue cq (drv_dev drv) = Some qc" "cq_info_ok qc" "q_cmds qc = []"
    using ok unfolding drv_ok_def by blast
  have sz: "0 < unat (queue_size (queinfo qs))" "0 < unat (queue_size (queinfo qc))"
    using q by (auto simp: sq_info_ok_def cq_info_ok_def unat_gt_0)
  have room: "io_enqueue c True qs = Some (ADI_SUCCESS, qs\<lparr>q_cmds := [c]\<rparr>)"
      "io_enqueue c True qc = Some (ADI_SUCCESS, qc\<lparr>q_cmds := [c]\<rparr>)" for c
    using q sz by (auto simp: io_enqueue_def q_full_def sq_info_ok_def cq_info_ok_def)
  let ?qs = "qs\<lparr>q_cmds := [cmd]\<rparr>" and ?d = "drv_dev drv"
  have sub: "submit_io (sqH drv) cmd ?d = Some (ADI_SUCCESS, set_ioqueue sq ?qs ?d)"
    using h q room by (simp add: submit_io_def sq_info_ok_def)
  have emp: "qs\<lparr>q_cmds := []\<rparr> = qs" "qc\<lparr>q_cmds := []\<rparr> = qc" using q(3,6) by simp_all
  let ?d1 = "set_ioqueue cq (qc\<lparr>q_cmds := [cmd']\<rparr>) ((set_ioqueue sq qs ?d)\<lparr>m_ns := ns'\<rparr>)"
  have w: "process_submitted_command sq (set_ioqueue sq ?qs ?d) = Some ?d1"
    using h(3) q ex room(2)
    by (simp add: emp process_submitted_command_def io_dequeue_def sq_info_ok_def Let_def)
  let ?d2 = "set_ioqueue cq qc ((set_ioqueue sq qs ?d)\<lparr>m_ns := ns'\<rparr>)"
  have i: "process_interrupt cq ?d1 = Some (Some cmd', ?d2)"
    using h(3) q by (simp add: emp process_interrupt_def io_dequeue_def cq_info_ok_def)
  have "drv_ok (drv\<lparr>drv_dev := ?d2\<rparr>)" "m_ns ?d2 = ns'"
    using ok h q ns' by (auto simp: drv_ok_def)
  then show ?thesis
    using sub w i h ok by (simp add: sync_io_def await_interrupt_def drv_ok_def)
qed

section \<open>The entry points on an idle driver\<close>

abbreviation drv_emul :: "kv_driver \<Rightarrow> emulator" where
  "drv_emul drv \<equiv> m_emul (m_ns (drv_dev drv))"

lemma convert_code_success [simp]: "convert_code r = KVS_SUCCESS \<longleftrightarrow> r = ADI_SUCCESS"
  by (rule convert_of_adi_success)

lemma drv_okD:
  assumes "drv_ok drv"
  shows "nsH drv = Some True" "\<exists>qh. sqH drv = Some qh \<and> h_dev qh \<and> h_queue qh"
    "ns_ok (m_ns (drv_dev drv))" "emul_ok (drv_emul drv)"
  using assms by (auto simp: drv_ok_def ns_ok_def)

lemma sync_io_refused: "r \<noteq> ADI_SUCCESS \<Longrightarrow> sync_io (Some (r, drv_dev drv)) drv = Some (r, None, drv)"
  by (simp add: sync_io_def)

lemma not_bad_keyspace: "unat ks < 2 \<Longrightarrow> \<not> bad_keyspace ks"
  by (simp add: bad_keyspace_def adi_const_defs)

lemma trans_store_cmd_opt_eq:
  "(case st of KVS_STORE_POST \<Rightarrow> KV_STORE_OPT_DEFAULT | KVS_STORE_UPDATE_ONLY \<Rightarrow> KV_STORE_OPT_UPDATE_ONLY
     | KVS_STORE_NOOVERWRITE \<Rightarrow> KV_STORE_OPT_IDEMPOTENT | KVS_STORE_APPEND \<Rightarrow> KV_STORE_OPT_APPEND) =
   trans_store_cmd_opt st"
  by (simp add: trans_store_cmd_opt_def)

lemma store_tuple_invalid:
  assumes "drv_ok drv" "validate_key_value k (Some v) \<noteq> ADI_SUCCESS"
  shows "store_tuple ks k v st drv = Some (convert_code (validate_key_value k (Some v)), drv)"
  using drv_okD [OF assms(1)] assms(2)
  by (auto simp: store_tuple_def kv_store_def dev_store_def sync_io_refused)

lemma store_tuple_valid:
  assumes ok: "drv_ok drv" and v: "validate_key_value k (Some v) = ADI_SUCCESS" and ks: "unat ks < 2"
    and st: "emul_store ks k v (trans_store_cmd_opt st) (drv_emul drv) = (r, c, e)"
  shows "\<exists>drv'. store_tuple ks k v st drv = Some (convert_code r, drv') \<and> drv_ok drv' \<and> drv_emul drv' = e"
proof -
  let ?cmd = "(new_io_cmd (KV_OPC_STORE (trans_store_cmd_opt st)) (Some 0))
      \<lparr>c_keys := [k], c_value := Some v, c_ks_id := ks\<rparr>"
  have sub: "kv_store (sqH drv) (nsH drv) ks (Some k) (Some v) (trans_store_cmd_opt st) (Some 0) (drv_dev drv) =
      submit_io (sqH drv) ?cmd (drv_dev drv)"
    using drv_okD [OF ok] v ks by (auto simp: kv_store_def dev_store_def not_bad_keyspace)
  obtain u where n: "ns_store ks (Some k) (Some v) (trans_store_cmd_opt st) (m_ns (drv_dev drv)) =
      (r, (m_ns (drv_dev drv))\<lparr>m_emul := e, unallocated_capacity := u\<rparr>)"
    using ns_store_eq [OF drv_okD(3) [OF ok] ks st] by blast
  have ex: "execute_cmd (m_has_fixed_keylen (drv_dev drv)) ?cmd (m_ns (drv_dev drv)) =
      Some (?cmd\<lparr>c_retcode := r\<rparr>, (m_ns (drv_dev drv))\<lparr>m_emul := e, unallocated_capacity := u\<rparr>)"
    using n by (simp add: execute_cmd_def new_io_cmd_def)
  have "ns_ok ((m_ns (drv_dev drv))\<lparr>m_emul := e, unallocated_capacity := u\<rparr>)"
    using ns_ok_update [OF drv_okD(3) [OF ok]] emul_store_ok [OF drv_okD(4) [OF ok] v, of ks "trans_store_cmd_opt st"]
      emul_store_capacity [of ks k v "trans_store_cmd_opt st" "drv_emul drv"] st by simp
  from sync_io_executes [OF ok ex this] show ?thesis
    by (auto simp: store_tuple_def trans_store_cmd_opt_eq sub)
qed

lemma delete_tuple_invalid:
  assumes "drv_ok drv" "validate_key_value k None \<noteq> ADI_SUCCESS"
  shows "delete_tuple ks k err drv = Some (convert_code (validate_key_value k None), drv)"
  using drv_okD [OF assms(1)] assms(2)
  by (auto simp: delete_tuple_def kv_delete_def dev_delete_def sync_io_refused)

lemma delete_tuple_valid:
  assumes ok: "drv_ok drv" and v: "validate_key_value k None = ADI_SUCCESS" and ks: "unat ks < 2"
    and st: "emul_delete ks k (if err then KV_DELETE_OPT_ERROR else KV_DELETE_OPT_DEFAULT) (drv_emul drv) = (r, c, e)"
  shows "\<exists>drv'. delete_tuple ks k err drv = Some (convert_code r, drv') \<and> drv_ok drv' \<and> drv_emul drv' = e"
proof -
  let ?opt = "if \<not> err then KV_DELETE_OPT_DEFAULT else KV_DELETE_OPT_ERROR"
  let ?cmd = "(new_io_cmd (KV_OPC_DELETE ?opt) (Some 0))\<lparr>c_keys := [k], c_ks_id := ks\<rparr>"
  have st': "emul_delete ks k ?opt (drv_emul drv) = (r, c, e)" using st by (cases err) simp_all
  have sub: "kv_delete (sqH drv) (nsH drv) ks (Some k) ?opt (Some 0) (drv_dev drv) =
      submit_io (sqH drv) ?cmd (drv_dev drv)"
    using drv_okD [OF ok] v ks by (auto simp: kv_delete_def dev_delete_def not_bad_keyspace)
  obtain u where n: "ns_delete ks (Some k) ?opt (m_ns (drv_dev drv)) =
      (r, (m_ns (drv_dev drv))\<lparr>m_emul := e, unallocated_capacity := u\<rparr>)"
    using ns_delete_eq [OF drv_okD(3) [OF ok] ks st'] by blast
  have ex: "execute_cmd (m_has_fixed_keylen (drv_dev drv)) ?cmd (m_ns (drv_dev drv)) =
      Some (?cmd\<lparr>c_retcode := r\<rparr>, (m_ns (drv_dev drv))\<lparr>m_emul := e, unallocated_capacity := u\<rparr>)"
    using n by (simp add: execute_cmd_def new_io_cmd_def)
  have "ns_ok ((m_ns (drv_dev drv))\<lparr>m_emul := e, unallocated_capacity := u\<rparr>)"
    using ns_ok_update [OF drv_okD(3) [OF ok]] emul_delete_content(3) [OF drv_okD(4) [OF ok] ks st']
      emul_delete_capacity [of ks k ?opt "drv_emul drv"] st' by simp
  from sync_io_executes [OF ok ex this] show ?thesis
    by (auto simp: delete_tuple_def sub)
qed

lemma retrieve_tuple_invalid:
  assumes "drv_ok drv" "validate_key_value k (Some v) \<noteq> ADI_SUCCESS"
  shows "retrieve_tuple ks k v del drv = Some (convert_code (validate_key_value k (Some v)), v, drv)"
  using drv_okD [OF assms(1)] assms(2)
  by (auto simp: retrieve_tuple_def kv_retrieve_def dev_retrieve_def sync_io_refused)

lemma retrieve_tuple_valid:
  assumes ok: "drv_ok drv" and v: "validate_key_value k (Some v) = ADI_SUCCESS" and ks: "unat ks < 2"
    and st: "emul_retrieve ks k (if del then KV_RETRIEVE_OPT_DELETE else KV_RETRIEVE_OPT_DEFAULT) v (drv_emul drv) = (r, v')"
  shows "\<exists>drv'. retrieve_tuple ks k v del drv =
       Some (convert_code r, v'\<lparr>actual_value_size := actual_value_size v' - kv_offset v'\<rparr>, drv') \<and>
     drv_ok drv' \<and> drv_emul drv' = drv_emul drv"
proof -
  let ?opt = "if \<not> del then KV_RETRIEVE_OPT_DEFAULT else KV_RETRIEVE_OPT_DELETE"
  let ?cmd = "(new_io_cmd (KV_OPC_GET ?opt) (Some 0))\<lparr>c_keys := [k], c_value := Some v, c_ks_id := ks\<rparr>"
  have st': "emul_retrieve ks k ?opt v (drv_emul drv) = (r, v')" using st by (cases del) simp_all
  have sub: "kv_retrieve (sqH drv) (nsH drv) ks (Some k) ?opt (Some v) (Some 0) (drv_dev drv) =
      submit_io (sqH drv) ?cmd (drv_dev drv)"
    using drv_okD [OF ok] v ks by (auto simp: kv_retrieve_def dev_retrieve_def not_bad_keyspace)
  have ex: "execute_cmd (m_has_fixed_keylen (drv_dev drv)) ?cmd (m_ns (drv_dev drv)) =
      Some (?cmd\<lparr>c_retcode := r, c_value := Some v'\<rparr>, m_ns (drv_dev drv))"
    using st' ks drv_okD(3) [OF ok]
    by (simp add: execute_cmd_def new_io_cmd_def ns_retrieve_def not_bad_keyspace ns_ok_def)
  from sync_io_executes [OF ok ex drv_okD(3) [OF ok]] show ?thesis
    by (auto simp: retrieve_tuple_def sub)
qed

lemma exist_tuple_one_invalid:
  assumes "drv_ok drv" "validate_key_value k None \<noteq> ADI_SUCCESS"
  shows "exist_tuple ks 1 [k] n b drv = Some (convert_code (validate_key_value k None), b, drv)"
  using drv_okD [OF assms(1)] assms(2)
  by (auto simp: exist_tuple_def kv_exist_def dev_exist_def sync_io_refused)

lemma exist_tuple_one_valid:
  assumes ok: "drv_ok drv" and v: "validate_key_value k None = ADI_SUCCESS" and ks: "unat ks < 2" and n: "n \<noteq> 0"
  shows "\<exists>drv'. exist_tuple ks 1 [k] n [b] drv =
       Some (KVS_SUCCESS, [if emul_content ks (drv_emul drv) (key_bytes k) \<noteq> None then 1 else 0], drv') \<and>
     drv_ok drv' \<and> drv_emul drv' = drv_emul drv"
proof -
  let ?cmd = "(new_io_cmd (KV_OPC_CHECK_KEY_EXIST 1) (Some 0))
      \<lparr>c_keys := [k], c_buffer := [b], c_buffer_size := n, c_ks_id := ks\<rparr>"
  let ?b = "[if emul_content ks (drv_emul drv) (key_bytes k) \<noteq> None then 1 else 0] :: u8 list"
  have sub: "kv_exist (sqH drv) (nsH drv) ks (Some [k]) 1 n (Some [b]) (Some 0) (drv_dev drv) =
      submit_io (sqH drv) ?cmd (drv_dev drv)"
    using drv_okD [OF ok] v ks by (auto simp: kv_exist_def dev_exist_def not_bad_keyspace)
  have ex: "execute_cmd (m_has_fixed_keylen (drv_dev drv)) ?cmd (m_ns (drv_dev drv)) =
      Some (?cmd\<lparr>c_retcode := ADI_SUCCESS, c_buffer := ?b, c_buffer_size := 1, c_buffer_count := 1\<rparr>,
            m_ns (drv_dev drv))"
    using emul_exist_one [OF drv_okD(4) [OF ok] ks n, of k b] ks drv_okD(3) [OF ok]
    by (simp add: execute_cmd_def new_io_cmd_def ns_exist_def not_bad_keyspace ns_ok_def)
  from sync_io_executes [OF ok ex drv_okD(3) [OF ok]] show ?thesis
    by (auto simp: exist_tuple_def sub)
qed

section \<open>A new driver is idle\<close>

text \<open>
  Opening a device gives an idle driver when the configuration does not ask for polling and the
  queue depth fits into 16 bits.
\<close>

lemma drv_init_ok:
  assumes dev: "kv_device_internal getkv False = Some d" "\<not> m_is_poll d" "d_capacity d \<noteq> 0"
    and depth: "0 < depth" "depth < 65536"
  shows "\<exists>drv. drv_init getkv depth 0 qid = Some (KVS_SUCCESS, drv, qid + 2) \<and> drv_ok drv \<and>
     drv_emul drv = kv_emulator (d_capacity d)"
proof -
  have d: "m_ioque_list d = []" "m_ns d = kv_namespace_internal 0 (d_capacity d)"
    using dev(1) by (auto simp: kv_device_internal_def Let_def split: option.splits)
  have ne: "(of_int (qid + 2) :: u16) \<noteq> of_int (qid + 1)"
    by (simp flip: diff_eq_eq)
  have sz: "(of_int depth :: u16) \<noteq> 0"
    using depth by (auto simp: word_of_int_eq_0_iff dest: zdvd_imp_le)
  let ?cq = "\<lparr>queue_id = of_int (qid + 1), queue_size = of_int depth, completion_queue_id = 0,
              queue_type = COMPLETION_Q_TYPE\<rparr> :: kv_queue"
  let ?sq = "\<lparr>queue_id = of_int (qid + 2), queue_size = of_int depth, completion_queue_id = of_int (qid + 1),
              queue_type = SUBMISSION_Q_TYPE\<rparr> :: kv_queue"
  let ?qc = "(emul_ioqueue ?cq None)\<lparr>q_interrupts := True\<rparr>"
  let ?d1 = "d\<lparr>queue_count := queue_count d + 1, m_ioque_list := [(of_int (qid + 1), ?qc)]\<rparr>"
  let ?hc = "Some \<lparr>h_qid = of_int (qid + 1), h_dev = True, h_queue = True\<rparr>"
  let ?hs = "Some \<lparr>h_qid = of_int (qid + 2), h_dev = True, h_queue = True\<rparr>"
  have types: "SUBMISSION_Q_TYPE \<noteq> COMPLETION_Q_TYPE"
    by (simp add: SUBMISSION_Q_TYPE_def COMPLETION_Q_TYPE_def)
  have u16: "unat (x :: u16) \<le> 65535" for x
    using unsigned_less [of x, where ?'a = nat] by simp
  have c1: "drv_create_queue depth COMPLETION_Q_TYPE 0 0 qid d = Some (qid + 1, ?hc, True, ?d1)"
    using d types u16 [of "of_int depth"] dev(2)
    by (simp add: drv_create_queue_def create_queue_def qid_exist_def get_ioqueue_def Let_def
        dev_set_interrupt_handler_def set_ioqueue_def emul_ioqueue_def not_less)
  let ?d2 = "?d1\<lparr>queue_count := queue_count d + 2,
      m_ioque_list := [(of_int (qid + 2), emul_ioqueue ?sq (Some (of_int (qid + 1)))), (of_int (qid + 1), ?qc)],
      m_sq_to_cq_pairs := (of_int (qid + 2), of_int (qid + 1)) # m_sq_to_cq_pairs d\<rparr>"
  have c2: "drv_create_queue depth SUBMISSION_Q_TYPE (qid + 1) 0 (qid + 1) ?d1 = Some (qid + 2, ?hs, False, ?d2)"
    using types ne u16 [of "of_int depth"]
    by (simp add: drv_create_queue_def create_queue_def qid_exist_def get_ioqueue_def Let_def not_less
        add_ac)
  show ?thesis
    using dev c1 c2 ne sz d(2) ns_ok_new [of "d_capacity d" 0]
    by (auto simp: drv_init_def drv_ok_def get_ioqueue_def sq_info_ok_def cq_info_ok_def emul_ioqueue_def
        kv_namespace_internal_def)
qed

end
