(* ===== verification/Kvs_Meta.thy ===== *)
theory Kvs_Meta
  imports Kvs_Adi
begin

text \<open>
  The records that the KVS API keeps in the metadata key space (cfrontend.cpp,
  private_types.h): their encoding as byte strings and the keys they are stored under.  A C
  string is the list of its characters without the terminator.
\<close>

section \<open>Metadata of a key space\<close>

record ks_metadata =
  md_keyspace_id :: u8
  md_opened :: u8
  md_key_order :: u8
  md_capacity :: u64
  md_free_size :: u64
  md_kv_count :: u64
  md_name :: string

definition get_key_space_payload_size :: nat where
  "get_key_space_payload_size = 1 + 1 + 1 + 8 + 8 + 8"

text \<open>The payload is little endian whatever the host is; on the hosts modelled here the swap is the identity.\<close>

definition construct_key_space_metadata_payload :: "ks_metadata \<Rightarrow> byte list" where
  "construct_key_space_metadata_payload c =
     to_le 1 (unat (md_keyspace_id c)) @ to_le 1 (unat (md_opened c)) @ to_le 1 (unat (md_key_order c)) @
     to_le 8 (unat (md_capacity c)) @ to_le 8 (unat (md_free_size c)) @ to_le 8 (unat (md_kv_count c))"

definition payload_int :: "nat \<Rightarrow> nat \<Rightarrow> byte list \<Rightarrow> 'a::len word" where
  "payload_int pos n p = of_nat (le_nat (take n (drop pos p)))"

definition parse_key_space_metadata_payload :: "ks_metadata \<Rightarrow> byte list \<Rightarrow> ks_metadata" where
  "parse_key_space_metadata_payload c p =
     c\<lparr>md_keyspace_id := payload_int 0 1 p, md_opened := payload_int 1 1 p, md_key_order := payload_int 2 1 p,
       md_capacity := payload_int 3 8 p, md_free_size := payload_int 11 8 p, md_kv_count := payload_int 19 8 p\<rparr>"

lemma length_metadata_payload:
  "length (construct_key_space_metadata_payload c) = get_key_space_payload_size"
  by (simp add: construct_key_space_metadata_payload_def get_key_space_payload_size_def)

lemma unat_lt_bytes: "n * 8 = LENGTH('a) \<Longrightarrow> unat (w :: 'a::len word) mod 256 ^ n = unat w"
proof -
  assume n: "n * 8 = LENGTH('a)"
  have "(256 :: nat) ^ n = (2 ^ 8) ^ n" by simp
  also have "\<dots> = 2 ^ (n * 8)" by (simp only: power_mult [symmetric] mult.commute)
  also have "\<dots> = 2 ^ LENGTH('a)" using n by simp
  finally show ?thesis by simp
qed

lemma parse_constructed_metadata:
  "parse_key_space_metadata_payload c (construct_key_space_metadata_payload d @ rest) = d\<lparr>md_name := md_name c\<rparr>"
proof -
  have u8: "unat (x :: u8) mod 256 = unat x" for x
    using unat_lt_bytes [of 1 x] by simp
  have u64: "unat (x :: u64) mod 18446744073709551616 = unat x" for x
    using unat_lt_bytes [of 8 x] by simp
  show ?thesis
    by (cases c; cases d)
      (simp add: parse_key_space_metadata_payload_def construct_key_space_metadata_payload_def payload_int_def
        u8 u64 del: to_le.simps)
qed

text \<open>C18: Parsing a metadata payload gives back the metadata it was constructed from, whatever
  bytes follow it in the buffer; the name is not part of the payload and is kept.\<close>

theorem metadata_payload_roundtrip:
  "parse_key_space_metadata_payload c (construct_key_space_metadata_payload d @ rest) = d\<lparr>md_name := md_name c\<rparr>"
  by (rule parse_constructed_metadata)

section \<open>The list of key spaces\<close>

definition MAX_KEYSPACE_NAME_LEN :: nat where "MAX_KEYSPACE_NAME_LEN = 255"
definition MAX_CONT_PATH_LEN :: nat where "MAX_CONT_PATH_LEN = 255"
definition KS_MAX_CONT :: nat where "KS_MAX_CONT = 1"
definition META_DATA_KEYSPACE_ID :: u8 where "META_DATA_KEYSPACE_ID = 0"
definition USER_DATA_KEYSPACE_START_ID :: u8 where "USER_DATA_KEYSPACE_START_ID = 1"

record ks_list_entry =
  names_buffer :: "byte list"
  entry_keyspace_id :: u8

record ks_list =
  ks_num :: u8
  entries :: "ks_list_entry list"

definition calloc_ks_list :: ks_list where
  "calloc_ks_list = \<lparr>ks_num = 0,
     entries = replicate KS_MAX_CONT \<lparr>names_buffer = replicate (MAX_CONT_PATH_LEN + 1) 0, entry_keyspace_id = 0\<rparr>\<rparr>"

definition construct_entry :: "ks_list_entry \<Rightarrow> byte list" where
  "construct_entry e = entry_keyspace_id e # take (MAX_KEYSPACE_NAME_LEN + 1) (names_buffer e)"

definition construct_key_space_list_payload :: "ks_list \<Rightarrow> byte list" where
  "construct_key_space_list_payload l =
     ks_num l # concat (map construct_entry (take (unat (ks_num l)) (entries l)))"

text \<open>
  The loop that reads the entries; it writes past the table, hence \<open>None\<close>, when the count is
  larger than the table.  It copies and skips one byte less per name than the writer stores.
\<close>

fun parse_entries :: "nat \<Rightarrow> nat \<Rightarrow> byte list \<Rightarrow> ks_list_entry list \<Rightarrow> ks_list_entry list option" where
  "parse_entries idx 0 p es = Some es"
| "parse_entries idx (Suc n) p es =
     (if idx \<ge> length es \<or> p = [] then None
      else
        let e = es ! idx;
            name = take MAX_CONT_PATH_LEN (tl p);
            e' = e\<lparr>entry_keyspace_id := hd p,
                   names_buffer := name @ drop MAX_CONT_PATH_LEN (names_buffer e)\<rparr>
        in parse_entries (Suc idx) n (drop MAX_CONT_PATH_LEN (tl p)) (es[idx := e']))"

definition parse_key_space_list_payload :: "byte list \<Rightarrow> u32 \<Rightarrow> ks_list \<Rightarrow> ks_list option" where
  "parse_key_space_list_payload p data_len l =
     (if unat data_len < 1 then Some (l\<lparr>ks_num := 0\<rparr>)
      else map_option (\<lambda>es. \<lparr>ks_num = hd p, entries = es\<rparr>)
             (parse_entries 0 (unat (hd p)) (tl p) (entries l)))"

definition contain_keyspace :: "ks_list \<Rightarrow> u8 \<Rightarrow> bool" where
  "contain_keyspace l ks \<longleftrightarrow> list_ex (\<lambda>e. entry_keyspace_id e = ks) (take (unat (ks_num l)) (entries l))"

definition search_an_available_keyspace_id :: "ks_list \<Rightarrow> u8" where
  "search_an_available_keyspace_id l = USER_DATA_KEYSPACE_START_ID"

lemmas meta_const_defs = MAX_KEYSPACE_NAME_LEN_def MAX_CONT_PATH_LEN_def KS_MAX_CONT_def
  META_DATA_KEYSPACE_ID_def USER_DATA_KEYSPACE_START_ID_def

section \<open>Names and keys\<close>

definition c_bytes :: "string \<Rightarrow> byte list" where
  "c_bytes s = map of_char s"

text \<open>The bytes that \<open>snprintf (buf, n, "%s", s)\<close> leaves in a buffer of \<open>n\<close> bytes.\<close>

definition snprintf_s :: "nat \<Rightarrow> string \<Rightarrow> byte list" where
  "snprintf_s n s = (if n = 0 then [] else take (n - 1) (c_bytes s) @ [0])"

text \<open>
  The key under which a key space's metadata is stored: the name is printed into a buffer that
  has no room for the terminator, so its last character is lost.
\<close>

definition meta_key :: "string \<Rightarrow> kvs_key" where
  "meta_key name =
     (let klen = length name mod 2 ^ 16 in \<lparr>kk_buf = Some (snprintf_s klen name), kk_length = of_nat klen\<rparr>)"

definition KEY_SPACE_LIST_KEY_NAME :: string where
  "KEY_SPACE_LIST_KEY_NAME = ''key_space_list''"

definition list_key :: kvs_key where
  "list_key = \<lparr>kk_buf = Some (snprintf_s (length KEY_SPACE_LIST_KEY_NAME + 1) KEY_SPACE_LIST_KEY_NAME),
     kk_length = of_nat (length KEY_SPACE_LIST_KEY_NAME + 1)\<rparr>"

text \<open>The C string in a buffer, and equality of the first \<open>n\<close> characters of two strings.\<close>

definition c_string :: "byte list \<Rightarrow> byte list" where
  "c_string b = takeWhile (\<lambda>x. x \<noteq> 0) b"

definition strncmp_eq :: "nat \<Rightarrow> byte list \<Rightarrow> byte list \<Rightarrow> bool" where
  "strncmp_eq n a b \<longleftrightarrow> take n a = take n b"

lemma length_c_bytes [simp]: "length (c_bytes s) = length s"
  by (simp add: c_bytes_def)

lemma length_snprintf_s: "0 < n \<Longrightarrow> n \<le> length s + 1 \<Longrightarrow> length (snprintf_s n s) = n"
  by (simp add: snprintf_s_def)

lemma meta_key_bytes:
  assumes "0 < length name" "length name < 65536"
  shows "key_bytes (meta_key name) = c_bytes (butlast name) @ [0]"
proof -
  have "unat (of_nat (length name) :: u16) = length name"
    using assms by (simp add: unat_of_nat take_bit_nat_eq_self)
  then show ?thesis
    using assms
    by (cases name rule: rev_cases) (simp_all add: key_bytes_def meta_key_def snprintf_s_def c_bytes_def Let_def)
qed

lemma good_meta_key:
  assumes "4 \<le> length name" "length name \<le> 255"
  shows "good_key (meta_key name)"
proof -
  have "unat (of_nat (length name) :: u16) = length name"
    using assms by (simp add: unat_of_nat take_bit_nat_eq_self)
  then show ?thesis
    using assms length_snprintf_s [of "length name" name]
    by (cases name) (simp_all add: good_key_def meta_key_def Let_def KVS_MIN_KEY_LENGTH_def KVS_MAX_KEY_LENGTH_def)
qed

lemma good_list_key: "good_key list_key"
  by (simp add: good_key_def list_key_def snprintf_s_def KEY_SPACE_LIST_KEY_NAME_def KVS_MIN_KEY_LENGTH_def
      KVS_MAX_KEY_LENGTH_def c_bytes_def)

section \<open>The list survives storing and reading\<close>

definition entry_ok :: "ks_list_entry \<Rightarrow> bool" where
  "entry_ok e \<longleftrightarrow> length (names_buffer e) = 256 \<and> last (names_buffer e) = 0"

lemma length_construct_entry: "entry_ok e \<Longrightarrow> length (construct_entry e) = 257"
  by (simp add: construct_entry_def entry_ok_def meta_const_defs)

text \<open>C19: A key-space list with at most the one entry that the table has room for comes back
  from the device as it was stored, whatever the table held before beyond its terminator.\<close>

theorem ks_list_payload_roundtrip:
  assumes "length (entries l) = KS_MAX_CONT" "unat (ks_num l) \<le> KS_MAX_CONT"
    "\<forall>e\<in>set (entries l). entry_ok e"
  shows "map_option (\<lambda>m. (ks_num m, take (unat (ks_num m)) (entries m)))
       (parse_key_space_list_payload (construct_key_space_list_payload l @ rest)
          (of_nat (length (construct_key_space_list_payload l))) calloc_ks_list) =
     Some (ks_num l, take (unat (ks_num l)) (entries l))"
proof -
  obtain e where e: "entries l = [e]"
    using assms(1) by (auto simp: KS_MAX_CONT_def length_Suc_conv)
  define nb where "nb = names_buffer e"
  have le: "length nb = 256" "last nb = 0"
    using assms(3) e by (auto simp: entry_ok_def nb_def)
  have "nb \<noteq> []" using le(1) by auto
  then have nb: "nb = butlast nb @ [0]" "length (butlast nb) = 255"
    using append_butlast_last_id [of nb] le by simp_all
  have t: "take 255 (nb @ rest) @ [0] = nb"
    using le nb by (simp add: butlast_conv_take)
  have z: "drop 255 (replicate 256 (0 :: byte)) = [0]"
    by (simp add: drop_replicate del: replicate_numeral)
  consider "ks_num l = 0" | "ks_num l = 1"
    using assms(2) by (auto simp: KS_MAX_CONT_def le_Suc_eq word_unat_eq_iff)
  then show ?thesis
  proof cases
    case 1
    then show ?thesis by (simp add: construct_key_space_list_payload_def parse_key_space_list_payload_def)
  next
    case 2
    let ?p = "entry_keyspace_id e # nb"
    have c: "construct_key_space_list_payload l = 1 # ?p"
      using 2 e le by (simp add: construct_key_space_list_payload_def construct_entry_def meta_const_defs nb_def)
    have "parse_entries 0 1 (?p @ rest) (entries calloc_ks_list) = Some [e]"
      using t z by (simp add: calloc_ks_list_def meta_const_defs nb_def del: replicate_numeral)
    then show ?thesis
      using 2 e le by (simp add: c parse_key_space_list_payload_def unat_of_nat take_bit_nat_eq_self)
  qed
qed

theorem ks_list_payload_roundtrip_witness:
  "let e = \<lparr>names_buffer = c_bytes ''volume'' @ replicate 250 0, entry_keyspace_id = 1\<rparr>;
       l = \<lparr>ks_num = 1, entries = [e]\<rparr> in
   map_option (\<lambda>m. (ks_num m, take (unat (ks_num m)) (entries m)))
     (parse_key_space_list_payload (construct_key_space_list_payload l @ [255, 255])
        (of_nat (length (construct_key_space_list_payload l))) calloc_ks_list) = Some (1, [e])"
  using ks_list_payload_roundtrip [of "\<lparr>ks_num = 1, entries = [\<lparr>names_buffer = c_bytes ''volume'' @ replicate 250 0,
      entry_keyspace_id = 1\<rparr>]\<rparr>" "[255, 255]"]
  by (simp add: entry_ok_def c_bytes_def KS_MAX_CONT_def Let_def last_append del: replicate_numeral)

end
