(* ===== verification/Kvs_Api.thy ===== *)
theory Kvs_Api
  imports Emul_Driver Kvs_Meta
begin

text \<open>
  The KVS API over the emulator driver (cfrontend.cpp built with \<open>WITH_EMU\<close>): the global
  environment, devices, key spaces with their metadata, key-value calls and iterators, on the
  synchronous paths.  Handles are numbers, 0 is the null handle.  The allocations of the
  key-space calls may fail: the environment says for each of them whether it succeeds.  A call
  that does not return is \<open>None\<close>.
\<close>

section \<open>Environment\<close>

text \<open>What the process sees of its host: environment variables and configuration files.\<close>

record host =
  getenv :: "string \<Rightarrow> string option"
  file_exists :: "string \<Rightarrow> bool"
  file_readable :: "string \<Rightarrow> bool"
  config_of :: "string \<Rightarrow> kv_config"

record device_handle =
  dh_driver :: kv_driver
  dh_path :: string
  dh_open_ks :: "nat list"

record key_space_handle =
  kh_keyspace_id :: u8
  kh_dev :: nat
  kh_name :: string

record g_env =
  g_initialized :: bool
  g_queuedepth :: int
  g_is_polling :: int
  opened_device_num :: int
  open_devices :: "nat list"
  list_open_ks :: "nat list"
  configfile :: string
  dev_table :: "nat \<Rightarrow> device_handle option"
  ks_table :: "nat \<Rightarrow> key_space_handle option"
  next_handle :: nat
  static_qid :: int
  env_host :: host
  malloc_ok :: "nat \<Rightarrow> bool"
  malloc_count :: nat

definition initial_env :: "host \<Rightarrow> (nat \<Rightarrow> bool) \<Rightarrow> g_env" where
  "initial_env h ok = \<lparr>g_initialized = False, g_queuedepth = 0, g_is_polling = 0, opened_device_num = 0,
     open_devices = [], list_open_ks = [], configfile = [], dev_table = (\<lambda>_. None), ks_table = (\<lambda>_. None),
     next_handle = 1, static_qid = -1, env_host = h, malloc_ok = ok, malloc_count = 0\<rparr>"

definition kvs_malloc :: "g_env \<Rightarrow> bool \<times> g_env" where
  "kvs_malloc g = (malloc_ok g (malloc_count g), g\<lparr>malloc_count := malloc_count g + 1\<rparr>)"

definition new_handle :: "g_env \<Rightarrow> nat \<times> g_env" where
  "new_handle g = (next_handle g, g\<lparr>next_handle := next_handle g + 1\<rparr>)"

text \<open>\<open>atoi\<close>: an optional sign and the leading digits, 0 if there are none.\<close>

definition atoi :: "string \<Rightarrow> int" where
  "atoi s =
     (let s1 = dropWhile is_space s;
          neg = (s1 \<noteq> [] \<and> hd s1 = CHR ''-'');
          s2 = (if s1 \<noteq> [] \<and> (hd s1 = CHR ''-'' \<or> hd s1 = CHR ''+'') then tl s1 else s1);
          n = int (digits_value (takeWhile is_digit s2))
      in if neg then - n else n)"

record kvs_init_options =
  opt_use_dpdk :: int
  opt_max_cachesize_mb :: u64
  opt_queuedepth :: u32
  opt_emul_config_file :: string

definition init_default_option :: kvs_init_options where
  "init_default_option = \<lparr>opt_use_dpdk = 0, opt_max_cachesize_mb = 0, opt_queuedepth = 64,
     opt_emul_config_file = ''../kvssd_emul.conf''\<rparr>"

definition init_env_from_environ :: "host \<Rightarrow> kvs_init_options \<Rightarrow> kvs_init_options" where
  "init_env_from_environ h o0 =
     (let o1 = (case getenv h ''KVSSD_QUEUE_DEPTH'' of
                  None \<Rightarrow> o0 | Some s \<Rightarrow> o0\<lparr>opt_queuedepth := of_int (atoi s)\<rparr>)
      in case getenv h ''KVSSD_EMU_CONFIGFILE'' of
           None \<Rightarrow> o1 | Some s \<Rightarrow> o1\<lparr>opt_emul_config_file := s\<rparr>)"

definition CFG_PATH :: string where "CFG_PATH = ''../env_init.conf''"

definition init_env_from_cfgfile :: "host \<Rightarrow> kvs_init_options \<Rightarrow> kvs_init_options" where
  "init_env_from_cfgfile h o0 =
     (let cfg = config_of h CFG_PATH;
          queue_depth = atoi (cfg ''aio'' ''queue_depth'');
          o1 = (if queue_depth = 0 then o0 else o0\<lparr>opt_queuedepth := of_int queue_depth\<rparr>);
          cfg_file_path = cfg ''emu'' ''cfg_file''
      in if cfg_file_path \<noteq> [] then o1\<lparr>opt_emul_config_file := cfg_file_path\<rparr> else o1)"

text \<open>The queue depth goes from \<open>uint32_t\<close> to \<open>int\<close>; the file name is cut to its 256-byte field.\<close>

definition kvs_init_env :: "kvs_init_options \<Rightarrow> g_env \<Rightarrow> kvs_result \<times> g_env" where
  "kvs_init_env opts g =
     (if g_initialized g then (KVS_SUCCESS, g)
      else
        let g1 = g\<lparr>g_queuedepth := (if opt_queuedepth opts > 0 then sint (opt_queuedepth opts) else 256)\<rparr>;
            f = opt_emul_config_file opts in
        if \<not> file_exists (env_host g) f then (KVS_ERR_OPTION_INVALID, g1)
        else if \<not> file_readable (env_host g) f then (KVS_ERR_OPTION_INVALID, g1)
        else
          let g2 = g1\<lparr>configfile := take 255 f\<rparr> in
          if opt_max_cachesize_mb opts > 0 then (KVS_ERR_OPTION_INVALID, g2)
          else (KVS_SUCCESS, g2\<lparr>g_initialized := True\<rparr>))"

definition init_env :: "g_env \<Rightarrow> kvs_result \<times> g_env" where
  "init_env g =
     (if g_initialized g then (KVS_SUCCESS, g)
      else
        let opts = init_env_from_cfgfile (env_host g) (init_env_from_environ (env_host g) init_default_option);
            (ret, g1) = kvs_init_env opts g in
        (ret, if ret = KVS_SUCCESS then g1\<lparr>g_initialized := True\<rparr> else g1))"

section \<open>Devices\<close>

definition path_opened :: "string \<Rightarrow> g_env \<Rightarrow> bool" where
  "path_opened p g \<longleftrightarrow> list_ex (\<lambda>d. map_option dh_path (dev_table g d) = Some p) (open_devices g)"

definition device_opened :: "nat \<Rightarrow> g_env \<Rightarrow> bool" where
  "device_opened d g \<longleftrightarrow> d \<in> set (open_devices g)"

definition MAX_DEV_PATH_LEN :: nat where "MAX_DEV_PATH_LEN = 256"

text \<open>
  The handle of a device exists before its driver is initialised; it is entered into the table
  here once the driver is.  If the path cannot be copied the handle is deleted and the driver
  stays behind; if the metadata handle cannot be allocated the device is taken off the list
  again and \<open>kvs_close_device\<close> refuses it.
\<close>

definition kvs_open_device :: "string option \<Rightarrow> g_env \<Rightarrow> (kvs_result \<times> nat \<times> g_env) option" where
  "kvs_open_device uri g =
     (let (ret, g1) = init_env g in
      if ret \<noteq> KVS_SUCCESS then Some (ret, 0, g1)
      else case uri of
        None \<Rightarrow> Some (KVS_ERR_PARAM_INVALID, 0, g1)
      | Some p \<Rightarrow>
        if length p = 0 \<or> min (length p) MAX_DEV_PATH_LEN > MAX_DEV_PATH_LEN - 1
        then Some (KVS_ERR_PARAM_INVALID, 0, g1)
        else if path_opened p g1 then Some (KVS_ERR_SYS_IO, 0, g1)
        else case drv_init (config_of (env_host g1) (configfile g1)) (g_queuedepth g1) (g_is_polling g1) (static_qid g1) of
          None \<Rightarrow> None
        | Some (r, drv, qid) \<Rightarrow>
          let g2 = g1\<lparr>static_qid := qid\<rparr> in
          if r \<noteq> KVS_SUCCESS then Some (r, 0, g2)
          else
            let (ok1, g3) = kvs_malloc g2 in
            if \<not> ok1 then Some (KVS_ERR_SYS_IO, 0, g3)
            else
              let (d, g4) = new_handle g3;
                  g5 = g4\<lparr>dev_table := (dev_table g4)(d \<mapsto> \<lparr>dh_driver = drv, dh_path = p, dh_open_ks = []\<rparr>),
                          open_devices := open_devices g4 @ [d]\<rparr>;
                  (ok2, g6) = kvs_malloc g5 in
              if \<not> ok2 then Some (KVS_ERR_SYS_IO, 0, g6\<lparr>open_devices := removeAll d (open_devices g6)\<rparr>)
              else Some (r, d, g6\<lparr>opened_device_num := opened_device_num g6 + 1\<rparr>))"

definition remove_key_space_from_g_env :: "nat \<Rightarrow> g_env \<Rightarrow> g_env" where
  "remove_key_space_from_g_env k g = g\<lparr>list_open_ks := remove1 k (list_open_ks g)\<rparr>"

text \<open>
  Closing the last device closes all devices that are left, with the mutex still held: if there
  are any, the nested call waits for ever.
\<close>

definition kvs_close_device :: "nat \<Rightarrow> g_env \<Rightarrow> (kvs_result \<times> g_env) option" where
  "kvs_close_device d g =
     (if d = 0 then Some (KVS_ERR_PARAM_INVALID, g)
      else if \<not> device_opened d g then Some (KVS_ERR_DEV_NOT_OPENED, g)
      else case dev_table g d of
        None \<Rightarrow> None
      | Some dh \<Rightarrow>
        let g1 = fold (\<lambda>k g. (remove_key_space_from_g_env k g)\<lparr>ks_table := (ks_table g)(k := None)\<rparr>) (dh_open_ks dh) g in
        case drv_destroy (dh_driver dh) of
          None \<Rightarrow> None
        | Some _ \<Rightarrow>
          let g2 = g1\<lparr>open_devices := removeAll d (open_devices g1), dev_table := (dev_table g1)(d := None),
                      opened_device_num := opened_device_num g1 - 1\<rparr> in
          if opened_device_num g2 = 0
          then (if open_devices g2 = [] then Some (KVS_SUCCESS, g2\<lparr>g_initialized := False\<rparr>) else None)
          else Some (KVS_SUCCESS, g2))"

definition set_driver :: "nat \<Rightarrow> kv_driver \<Rightarrow> g_env \<Rightarrow> g_env" where
  "set_driver d drv g = g\<lparr>dev_table := (dev_table g)(d := map_option (dh_driver_update (\<lambda>_. drv)) (dev_table g d))\<rparr>"

text \<open>Run a driver call on a device; a handle without a device is a dangling pointer.\<close>

definition on_driver :: "nat \<Rightarrow> (kv_driver \<Rightarrow> ('a \<times> kv_driver) option) \<Rightarrow> g_env \<Rightarrow> ('a \<times> g_env) option" where
  "on_driver d f g =
     (case dev_table g d of
        None \<Rightarrow> None
      | Some dh \<Rightarrow> map_option (\<lambda>(r, drv). (r, set_driver d drv g)) (f (dh_driver dh)))"

definition kvs_get_device_capacity :: "(u64 \<Rightarrow> u64 \<Rightarrow> u16) \<Rightarrow> nat \<Rightarrow> g_env \<Rightarrow> (kvs_result \<times> u64 \<times> g_env) option" where
  "kvs_get_device_capacity percent d g =
     (if d = 0 then Some (KVS_ERR_PARAM_INVALID, 0, g)
      else if \<not> device_opened d g then Some (KVS_ERR_DEV_NOT_OPENED, 0, g)
      else map_option (\<lambda>((r, c), g'). (r, c, g'))
             (on_driver d (\<lambda>drv. let (r, c, drv') = get_total_size percent drv in Some ((r, c), drv')) g))"

definition kvs_get_device_utilization :: "(u64 \<Rightarrow> u64 \<Rightarrow> u16) \<Rightarrow> nat \<Rightarrow> g_env \<Rightarrow> (kvs_result \<times> u32 \<times> g_env) option" where
  "kvs_get_device_utilization percent d g =
     (if d = 0 then Some (KVS_ERR_PARAM_INVALID, 0, g)
      else if \<not> device_opened d g then Some (KVS_ERR_DEV_NOT_OPENED, 0, g)
      else map_option (\<lambda>((r, u), g'). (r, u, g'))
             (on_driver d (\<lambda>drv. let (r, u, drv') = get_used_size percent drv in Some ((r, u), drv')) g))"

definition KVS_OPTIMAL_VALUE_LENGTH :: nat where "KVS_OPTIMAL_VALUE_LENGTH = 4096"

record kvs_device =
  dv_capacity :: u64
  dv_unalloc_capacity :: u64
  dv_max_value_len :: u32
  dv_max_key_len :: u32
  dv_optimal_value_len :: u32

definition kvs_get_device_info :: "(u64 \<Rightarrow> u64 \<Rightarrow> u16) \<Rightarrow> nat \<Rightarrow> g_env \<Rightarrow> (kvs_result \<times> kvs_device option \<times> g_env) option" where
  "kvs_get_device_info percent d g =
     (if d = 0 then Some (KVS_ERR_PARAM_INVALID, None, g)
      else if \<not> device_opened d g then Some (KVS_ERR_DEV_NOT_OPENED, None, g)
      else map_option (\<lambda>((r, c), g').
             (r, Some \<lparr>dv_capacity = c, dv_unalloc_capacity = 0, dv_max_value_len = of_nat KVS_MAX_VALUE_LENGTH,
                       dv_max_key_len = of_nat KVS_MAX_KEY_LENGTH,
                       dv_optimal_value_len = of_nat KVS_OPTIMAL_VALUE_LENGTH\<rparr>, g'))
             (on_driver d (\<lambda>drv. let (r, c, drv') = get_total_size percent drv in Some ((r, c), drv')) g))"

definition get_length_limit :: "nat \<Rightarrow> nat \<Rightarrow> g_env \<Rightarrow> kvs_result \<times> u32 option" where
  "get_length_limit n d g =
     (if d = 0 then (KVS_ERR_PARAM_INVALID, None)
      else if \<not> device_opened d g then (KVS_ERR_DEV_NOT_OPENED, None)
      else (KVS_SUCCESS, Some (of_nat n)))"

definition kvs_get_min_key_length :: "nat \<Rightarrow> g_env \<Rightarrow> kvs_result \<times> u32 option" where
  "kvs_get_min_key_length = get_length_limit KVS_MIN_KEY_LENGTH"

definition kvs_get_max_key_length :: "nat \<Rightarrow> g_env \<Rightarrow> kvs_result \<times> u32 option" where
  "kvs_get_max_key_length = get_length_limit KVS_MAX_KEY_LENGTH"

definition kvs_get_min_value_length :: "nat \<Rightarrow> g_env \<Rightarrow> kvs_result \<times> u32 option" where
  "kvs_get_min_value_length = get_length_limit 0"

definition kvs_get_max_value_length :: "nat \<Rightarrow> g_env \<Rightarrow> kvs_result \<times> u32 option" where
  "kvs_get_max_value_length = get_length_limit KVS_MAX_VALUE_LENGTH"

definition kvs_get_optimal_value_length :: "nat \<Rightarrow> g_env \<Rightarrow> kvs_result \<times> u32 option" where
  "kvs_get_optimal_value_length = get_length_limit KVS_OPTIMAL_VALUE_LENGTH"

section \<open>The metadata key space\<close>

abbreviation mk_value :: "byte list \<Rightarrow> nat \<Rightarrow> kvs_value" where
  "mk_value b n \<equiv> \<lparr>kv_buf = Some b, kv_length = of_nat n, actual_value_size = 0, kv_offset = 0\<rparr>"

definition exist_key_space_entry :: "nat \<Rightarrow> string \<Rightarrow> g_env \<Rightarrow> (kvs_result \<times> u8 \<times> g_env) option" where
  "exist_key_space_entry d name g =
     (let (ok1, g1) = kvs_malloc g in
      if \<not> ok1 then Some (KVS_ERR_SYS_IO, 0, g1)
      else
        let (ok2, g2) = kvs_malloc g1 in
        if \<not> ok2 then None
        else map_option (\<lambda>((r, b), g'). (r, hd b, g'))
               (on_driver d (\<lambda>drv. map_option (\<lambda>(r, b, drv'). ((r, b), drv'))
                  (exist_tuple META_DATA_KEYSPACE_ID 1 [meta_key name] 1 [0] drv)) g2))"

text \<open>The buffer of the retrieve is rounded up to a multiple of 4 bytes.\<close>

definition retrieve_key_space_metadata :: "nat \<Rightarrow> ks_metadata \<Rightarrow> g_env \<Rightarrow> (kvs_result \<times> ks_metadata \<times> g_env) option" where
  "retrieve_key_space_metadata d c g =
     (let vlen = ((get_key_space_payload_size - 1) div 4 + 1) * 4;
          (ok1, g1) = kvs_malloc g; (ok2, g2) = kvs_malloc g1 in
      if \<not> ok1 \<or> \<not> ok2 then Some (KVS_ERR_SYS_IO, c, g2)
      else map_option (\<lambda>((r, v), g').
             if r \<noteq> KVS_SUCCESS then (r, c, g') else (r, parse_key_space_metadata_payload c (the (kv_buf v)), g'))
             (on_driver d (\<lambda>drv. map_option (\<lambda>(r, v, drv'). ((r, v), drv'))
                (retrieve_tuple META_DATA_KEYSPACE_ID (meta_key (md_name c)) (mk_value [] vlen) False drv)) g2))"

definition store_key_space_metadata :: "nat \<Rightarrow> ks_metadata \<Rightarrow> kvs_store_type \<Rightarrow> g_env \<Rightarrow> (kvs_result \<times> g_env) option" where
  "store_key_space_metadata d c st g =
     (let (ok1, g1) = kvs_malloc g; (ok2, g2) = kvs_malloc g1 in
      if \<not> ok1 \<or> \<not> ok2 then Some (KVS_ERR_SYS_IO, g2)
      else on_driver d (store_tuple META_DATA_KEYSPACE_ID (meta_key (md_name c))
             (mk_value (construct_key_space_metadata_payload c) get_key_space_payload_size) st) g2)"

definition sizeof_ks_list :: nat where "sizeof_ks_list = 1 + KS_MAX_CONT * (MAX_CONT_PATH_LEN + 1 + 1)"

definition retrieve_key_space_list :: "nat \<Rightarrow> g_env \<Rightarrow> (kvs_result \<times> ks_list \<times> g_env) option" where
  "retrieve_key_space_list d g =
     (let vlen = (sizeof_ks_list + 3) div 4 * 4;
          (ok1, g1) = kvs_malloc g; (ok2, g2) = kvs_malloc g1 in
      if \<not> ok1 \<or> \<not> ok2 then Some (KVS_ERR_SYS_IO, calloc_ks_list, g2)
      else case on_driver d (\<lambda>drv. map_option (\<lambda>(r, v, drv'). ((r, v), drv'))
                (retrieve_tuple META_DATA_KEYSPACE_ID list_key (mk_value [] vlen) False drv)) g2 of
             None \<Rightarrow> None
           | Some ((r, v), g3) \<Rightarrow>
               if r \<noteq> KVS_SUCCESS
               then Some (if r = KVS_ERR_KEY_NOT_EXIST then KVS_SUCCESS else r, calloc_ks_list, g3)
               else map_option (\<lambda>l. (r, l, g3))
                      (parse_key_space_list_payload (the (kv_buf v)) (kv_length v) calloc_ks_list))"

definition store_key_space_list :: "nat \<Rightarrow> ks_list \<Rightarrow> g_env \<Rightarrow> (kvs_result \<times> g_env) option" where
  "store_key_space_list d l g =
     (let (ok1, g1) = kvs_malloc g; (ok2, g2) = kvs_malloc g1; p = construct_key_space_list_payload l in
      if \<not> ok1 \<or> \<not> ok2 then Some (KVS_ERR_SYS_IO, g2)
      else on_driver d (store_tuple META_DATA_KEYSPACE_ID list_key (mk_value p (length p)) KVS_STORE_POST) g2)"

definition same_name :: "string \<Rightarrow> ks_list_entry \<Rightarrow> bool" where
  "same_name name e \<longleftrightarrow> strncmp_eq MAX_KEYSPACE_NAME_LEN (c_bytes name) (c_string (names_buffer e))"

definition add_to_key_space_list :: "nat \<Rightarrow> string \<Rightarrow> u8 \<Rightarrow> g_env \<Rightarrow> (kvs_result \<times> u8 \<times> g_env) option" where
  "add_to_key_space_list d name keyspace_id g =
     (let (ok, g1) = kvs_malloc g in
      if \<not> ok then Some (KVS_ERR_SYS_IO, keyspace_id, g1)
      else case retrieve_key_space_list d g1 of
        None \<Rightarrow> None
      | Some (r, l, g2) \<Rightarrow>
        if r \<noteq> KVS_SUCCESS then Some (r, keyspace_id, g2)
        else if unat (ks_num l) \<ge> KS_MAX_CONT then Some (KVS_ERR_SYS_IO, keyspace_id, g2)
        else if list_ex (same_name name) (take (unat (ks_num l)) (entries l)) then Some (KVS_ERR_KS_EXIST, keyspace_id, g2)
        else if keyspace_id \<noteq> 0 \<and> contain_keyspace l keyspace_id then Some (KVS_ERR_SYS_IO, keyspace_id, g2)
        else
          let ks_id = (if keyspace_id = 0 then search_an_available_keyspace_id l else keyspace_id);
              idx = unat (ks_num l);
              nb = names_buffer (entries l ! idx);
              printed = snprintf_s (min (length name) MAX_KEYSPACE_NAME_LEN + 1) name;
              e = \<lparr>names_buffer = printed @ drop (length printed) nb, entry_keyspace_id = ks_id\<rparr>;
              l' = \<lparr>ks_num = ks_num l + 1, entries = (entries l)[idx := e]\<rparr> in
          map_option (\<lambda>(r, g3). (r, if r = KVS_SUCCESS then ks_id else keyspace_id, g3)) (store_key_space_list d l' g2))"

definition remove_from_key_space_list :: "nat \<Rightarrow> string \<Rightarrow> g_env \<Rightarrow> (kvs_result \<times> u8 \<times> g_env) option" where
  "remove_from_key_space_list d name g =
     (let (ok, g1) = kvs_malloc g in
      if \<not> ok then Some (KVS_ERR_SYS_IO, 0, g1)
      else case retrieve_key_space_list d g1 of
        None \<Rightarrow> None
      | Some (r, l, g2) \<Rightarrow>
        if r \<noteq> KVS_SUCCESS then Some (r, 0, g2)
        else
          let n = unat (ks_num l); es = take n (entries l); idx = length (takeWhile (\<lambda>e. \<not> same_name name e) es) in
          if idx \<ge> n then Some (KVS_ERR_KS_NOT_EXIST, 0, g2)
          else
            let es' = take idx es @ drop (idx + 1) es;
                l' = \<lparr>ks_num = ks_num l - 1, entries = es' @ drop (n - 1) (entries l)\<rparr> in
            map_option (\<lambda>(r, g3). (r, if r = KVS_SUCCESS then entry_keyspace_id (es ! idx) else 0, g3))
              (store_key_space_list d l' g2))"

definition delete_key_space_entry :: "nat \<Rightarrow> string \<Rightarrow> g_env \<Rightarrow> (kvs_result \<times> g_env) option" where
  "delete_key_space_entry d name g =
     (let (ok, g1) = kvs_malloc g in
      if \<not> ok then Some (KVS_ERR_SYS_IO, g1)
      else on_driver d (delete_tuple META_DATA_KEYSPACE_ID (meta_key name) True) g1)"

section \<open>Key spaces\<close>

datatype kvs_key_order = KVS_KEY_ORDER_NONE | KVS_KEY_ORDER_ASCEND | KVS_KEY_ORDER_DESCEND

primrec key_order_code :: "kvs_key_order \<Rightarrow> u8" where
  "key_order_code KVS_KEY_ORDER_NONE = 0"
| "key_order_code KVS_KEY_ORDER_ASCEND = 1"
| "key_order_code KVS_KEY_ORDER_DESCEND = 2"

definition create_key_space_entry :: "nat \<Rightarrow> string \<Rightarrow> u8 \<Rightarrow> u64 \<Rightarrow> kvs_key_order \<Rightarrow> g_env \<Rightarrow> (kvs_result \<times> g_env) option" where
  "create_key_space_entry d name ks cap_size ord g =
     store_key_space_metadata d
       \<lparr>md_keyspace_id = ks, md_opened = 0, md_key_order = key_order_code ord, md_capacity = cap_size,
        md_free_size = 0, md_kv_count = 0, md_name = name\<rparr> KVS_STORE_NOOVERWRITE g"

definition kvs_create_key_space :: "nat \<Rightarrow> (string \<times> u32) option \<Rightarrow> u64 \<Rightarrow> kvs_key_order \<Rightarrow> g_env \<Rightarrow>
    (kvs_result \<times> g_env) option" where
  "kvs_create_key_space d ksname size_b ord g =
     (case ksname of
        None \<Rightarrow> Some (KVS_ERR_PARAM_INVALID, g)
      | Some (name, name_len) \<Rightarrow>
        if d = 0 then Some (KVS_ERR_PARAM_INVALID, g)
        else if of_nat (length name) \<noteq> name_len \<or> length name = 0 \<or> length name > MAX_KEYSPACE_NAME_LEN
        then Some (KVS_ERR_KS_NAME, g)
        else if \<not> device_opened d g then Some (KVS_ERR_DEV_NOT_EXIST, g)
        else if ord \<noteq> KVS_KEY_ORDER_NONE then Some (KVS_ERR_OPTION_INVALID, g)
        else case add_to_key_space_list d name 0 g of
          None \<Rightarrow> None
        | Some (r, ks, g1) \<Rightarrow>
          if r \<noteq> KVS_SUCCESS then Some (r, g1)
          else case create_key_space_entry d name ks size_b ord g1 of
            None \<Rightarrow> None
          | Some (r, g2) \<Rightarrow>
            if r \<noteq> KVS_SUCCESS
            then map_option (\<lambda>(_, _, g3). (r, g3)) (remove_from_key_space_list d name g2)
            else Some (r, g2))"

definition key_space_name_opened :: "nat \<Rightarrow> string \<Rightarrow> g_env \<Rightarrow> bool" where
  "key_space_name_opened d name g \<longleftrightarrow>
     (case dev_table g d of
        None \<Rightarrow> False
      | Some dh \<Rightarrow> list_ex (\<lambda>k. map_option kh_name (ks_table g k) = Some name) (dh_open_ks dh))"

definition kvs_delete_key_space :: "nat \<Rightarrow> string option \<Rightarrow> g_env \<Rightarrow> (kvs_result \<times> g_env) option" where
  "kvs_delete_key_space d ksname g =
     (case ksname of
        None \<Rightarrow> Some (KVS_ERR_PARAM_INVALID, g)
      | Some name \<Rightarrow>
        if d = 0 then Some (KVS_ERR_PARAM_INVALID, g)
        else if \<not> device_opened d g then Some (KVS_ERR_DEV_NOT_EXIST, g)
        else if key_space_name_opened d name g then Some (KVS_ERR_SYS_IO, g)
        else case remove_from_key_space_list d name g of
          None \<Rightarrow> None
        | Some (r, ks, g1) \<Rightarrow>
          if r \<noteq> KVS_SUCCESS then Some (r, g1)
          else case delete_key_space_entry d name g1 of
            None \<Rightarrow> None
          | Some (r, g2) \<Rightarrow>
            if r \<noteq> KVS_SUCCESS then map_option (\<lambda>(_, _, g3). (r, g3)) (add_to_key_space_list d name ks g2)
            else Some (KVS_SUCCESS, g2))"

abbreviation no_metadata :: "string \<Rightarrow> ks_metadata" where
  "no_metadata name \<equiv> \<lparr>md_keyspace_id = 0, md_opened = 0, md_key_order = 0, md_capacity = 0, md_free_size = 0,
     md_kv_count = 0, md_name = name\<rparr>"

text \<open>\<open>_open_key_space\<close> on the device and name of a handle, with the key space it finds.\<close>

definition open_key_space :: "nat \<Rightarrow> string \<Rightarrow> g_env \<Rightarrow> (kvs_result \<times> u8 \<times> g_env) option" where
  "open_key_space d name g =
     (case retrieve_key_space_metadata d (no_metadata name) g of
        None \<Rightarrow> None
      | Some (r, c, g1) \<Rightarrow>
          if r \<noteq> KVS_SUCCESS then Some (r, 0, g1)
          else map_option (\<lambda>(r, g2). (r, md_keyspace_id c, g2))
                 (store_key_space_metadata d (c\<lparr>md_opened := 1\<rparr>) KVS_STORE_POST g1))"

definition kvs_open_key_space :: "nat \<Rightarrow> string option \<Rightarrow> g_env \<Rightarrow> (kvs_result \<times> nat \<times> g_env) option" where
  "kvs_open_key_space d ksname g =
     (case ksname of
        None \<Rightarrow> Some (KVS_ERR_PARAM_INVALID, 0, g)
      | Some name \<Rightarrow>
        if d = 0 then Some (KVS_ERR_PARAM_INVALID, 0, g)
        else if name = [] then Some (KVS_ERR_KS_NAME, 0, g)
        else if length name mod 2 ^ 16 < KVS_MIN_KEY_LENGTH \<or> length name mod 2 ^ 16 > KVS_MAX_KEY_LENGTH
        then Some (KVS_ERR_KS_NAME, 0, g)
        else if \<not> device_opened d g then Some (KVS_ERR_DEV_NOT_EXIST, 0, g)
        else if key_space_name_opened d name g then Some (KVS_ERR_KS_OPEN, 0, g)
        else case exist_key_space_entry d name g of
          None \<Rightarrow> None
        | Some (r, ex, g1) \<Rightarrow>
          if r \<noteq> KVS_SUCCESS then Some (r, 0, g1)
          else if ex = 0 then Some (KVS_ERR_KS_NOT_EXIST, 0, g1)
          else
            let (ok, g2) = kvs_malloc g1; name' = take MAX_CONT_PATH_LEN name in
            if \<not> ok then Some (KVS_ERR_SYS_IO, 0, g2)
            else case open_key_space d name' g2 of
              None \<Rightarrow> None
            | Some (r, ks, g3) \<Rightarrow>
              if r \<noteq> KVS_SUCCESS then Some (r, 0, g3)
              else
                let (k, g4) = new_handle g3 in
                Some (KVS_SUCCESS, k,
                  g4\<lparr>ks_table := (ks_table g4)(k \<mapsto> \<lparr>kh_keyspace_id = ks, kh_dev = d, kh_name = name'\<rparr>),
                    dev_table := (dev_table g4)(d := map_option (dh_open_ks_update (\<lambda>l. l @ [k])) (dev_table g4 d)),
                    list_open_ks := list_open_ks g4 @ [k]\<rparr>))"

text \<open>The handle of an open key space, or why there is none.\<close>

definition check_key_space_handle :: "nat \<Rightarrow> g_env \<Rightarrow> kvs_result" where
  "check_key_space_handle k g =
     (if k = 0 then KVS_ERR_PARAM_INVALID
      else if k \<notin> set (list_open_ks g) then KVS_ERR_KS_NOT_OPEN
      else case ks_table g k of
             None \<Rightarrow> KVS_ERR_PARAM_INVALID
           | Some kh \<Rightarrow> if kh_dev kh = 0 then KVS_ERR_PARAM_INVALID
                        else if \<not> device_opened (kh_dev kh) g then KVS_ERR_DEV_NOT_OPENED
                        else KVS_SUCCESS)"

abbreviation ks_of :: "nat \<Rightarrow> g_env \<Rightarrow> key_space_handle" where
  "ks_of k g \<equiv> the (ks_table g k)"

definition close_key_space :: "nat \<Rightarrow> g_env \<Rightarrow> (kvs_result \<times> g_env) option" where
  "close_key_space k g =
     (case retrieve_key_space_metadata (kh_dev (ks_of k g)) (no_metadata (kh_name (ks_of k g))) g of
        None \<Rightarrow> None
      | Some (r, c, g1) \<Rightarrow>
          if r \<noteq> KVS_SUCCESS then Some (r, g1)
          else store_key_space_metadata (kh_dev (ks_of k g)) (c\<lparr>md_opened := 0\<rparr>) KVS_STORE_POST g1)"

definition kvs_close_key_space :: "nat \<Rightarrow> g_env \<Rightarrow> (kvs_result \<times> g_env) option" where
  "kvs_close_key_space k g =
     (let r = check_key_space_handle k g in
      if r \<noteq> KVS_SUCCESS then Some (r, g)
      else case close_key_space k g of
        None \<Rightarrow> None
      | Some (r, g1) \<Rightarrow>
        if r \<noteq> KVS_SUCCESS then Some (r, g1)
        else
          let d = kh_dev (ks_of k g) in
          Some (r, g1\<lparr>dev_table := (dev_table g1)(d := map_option (dh_open_ks_update (removeAll k)) (dev_table g1 d)),
                     list_open_ks := removeAll k (list_open_ks g1), ks_table := (ks_table g1)(k := None)\<rparr>))"

record kvs_key_space =
  kso_opened :: bool
  kso_capacity :: u64
  kso_free_size :: u64
  kso_count :: u64
  kso_name :: string

definition kvs_get_key_space_info :: "nat \<Rightarrow> g_env \<Rightarrow> (kvs_result \<times> kvs_key_space option \<times> g_env) option" where
  "kvs_get_key_space_info k g =
     (let r = check_key_space_handle k g in
      if r \<noteq> KVS_SUCCESS then Some (r, None, g)
      else map_option (\<lambda>(r, c, g').
             (r, if r \<noteq> KVS_SUCCESS then None
                 else Some \<lparr>kso_opened = (md_opened c \<noteq> 0), kso_capacity = md_capacity c,
                            kso_free_size = md_free_size c, kso_count = md_kv_count c,
                            kso_name = take MAX_CONT_PATH_LEN (kh_name (ks_of k g))\<rparr>, g'))
             (retrieve_key_space_metadata (kh_dev (ks_of k g)) (no_metadata (kh_name (ks_of k g))) g))"

text \<open>
  \<open>kvs_list_key_spaces\<close>: the loop from \<open>index - 1\<close> on over the entries, with the caller's name
  lengths; it gives the names copied so far and the result.
\<close>

fun list_names :: "nat \<Rightarrow> ks_list_entry list \<Rightarrow> u32 list \<Rightarrow> nat \<Rightarrow> kvs_result \<times> byte list list" where
  "list_names items [] lens cnt = (KVS_SUCCESS, [])"
| "list_names items (e # es) lens cnt =
     (if cnt \<ge> items then (if items = 0 then KVS_ERR_SYS_IO else KVS_SUCCESS, [])
      else if lens = [] \<or> length (c_string (names_buffer e)) > unat (hd lens) then (KVS_ERR_SYS_IO, [])
      else let (r, ns) = list_names items es (tl lens) (cnt + 1) in (r, c_string (names_buffer e) # ns))"

definition sizeof_kvs_key_space_name :: nat where "sizeof_kvs_key_space_name = 16"

definition kvs_list_key_spaces :: "nat \<Rightarrow> u32 \<Rightarrow> u32 \<Rightarrow> u32 list \<Rightarrow> g_env \<Rightarrow>
    (kvs_result \<times> byte list list \<times> g_env) option" where
  "kvs_list_key_spaces d index buffer_size lens g =
     (if d = 0 then Some (KVS_ERR_PARAM_INVALID, [], g)
      else if unat index < 1 \<or> unat index > KS_MAX_CONT then Some (KVS_ERR_KS_INDEX, [], g)
      else if \<not> device_opened d g then Some (KVS_ERR_DEV_NOT_EXIST, [], g)
      else
        let (ok, g1) = kvs_malloc g in
        if \<not> ok then Some (KVS_ERR_SYS_IO, [], g1)
        else case retrieve_key_space_list d g1 of
          None \<Rightarrow> None
        | Some (r, l, g2) \<Rightarrow>
          if r \<noteq> KVS_SUCCESS then Some (r, [], g2)
          else if unat index > unat (ks_num l) \<and> ks_num l \<noteq> 0 then Some (KVS_ERR_KS_INDEX, [], g2)
          else
            let (r, ns) = list_names (unat buffer_size div sizeof_kvs_key_space_name)
                  (drop (unat index - 1) (take (unat (ks_num l)) (entries l))) (drop (unat index - 1) lens) 0
            in Some (r, ns, g2))"

section \<open>Key-value pairs\<close>

definition KVS_ALIGNMENT_UNIT :: u32 where "KVS_ALIGNMENT_UNIT = 512"
definition KVS_VALUE_LENGTH_ALIGNMENT_UNIT :: u32 where "KVS_VALUE_LENGTH_ALIGNMENT_UNIT = 4"

definition validate_kv_pair :: "kvs_key option \<Rightarrow> kvs_value option \<Rightarrow> nat \<Rightarrow> kvs_result" where
  "validate_kv_pair key val max_val =
     (let rk = (case key of
                  None \<Rightarrow> KVS_SUCCESS
                | Some k \<Rightarrow>
                    if unat (kk_length k) < KVS_MIN_KEY_LENGTH \<or> unat (kk_length k) > KVS_MAX_KEY_LENGTH
                    then KVS_ERR_KEY_LENGTH_INVALID
                    else if kk_buf k = None then KVS_ERR_PARAM_INVALID else KVS_SUCCESS) in
      if rk \<noteq> KVS_SUCCESS then rk
      else case val of
             None \<Rightarrow> KVS_SUCCESS
           | Some v \<Rightarrow>
               if unat (kv_length v) > max_val then KVS_ERR_VALUE_LENGTH_INVALID
               else if kv_offset v AND (KVS_ALIGNMENT_UNIT - 1) \<noteq> 0 then KVS_ERR_VALUE_OFFSET_MISALIGNED
               else if kv_buf v = None \<and> kv_length v > 0 then KVS_ERR_PARAM_INVALID
               else KVS_SUCCESS)"

definition validate_request :: "kvs_key \<Rightarrow> kvs_value option \<Rightarrow> kvs_result" where
  "validate_request k v = validate_kv_pair (Some k) v KVS_MAX_VALUE_LENGTH"

definition kvs_store_kvp :: "nat \<Rightarrow> kvs_key option \<Rightarrow> kvs_value option \<Rightarrow> kvs_store_type option \<Rightarrow> g_env \<Rightarrow>
    (kvs_result \<times> g_env) option" where
  "kvs_store_kvp k key val opt g =
     (let r = check_key_space_handle k g in
      if r \<noteq> KVS_SUCCESS then Some (r, g)
      else case (key, val, opt) of
        (Some kk, Some v, Some st) \<Rightarrow>
          let r = validate_request kk val in
          if r \<noteq> KVS_SUCCESS then Some (r, g)
          else on_driver (kh_dev (ks_of k g)) (store_tuple (kh_keyspace_id (ks_of k g)) kk v st) g
      | _ \<Rightarrow> Some (KVS_ERR_PARAM_INVALID, g))"

definition kvs_retrieve_kvp :: "nat \<Rightarrow> kvs_key option \<Rightarrow> bool option \<Rightarrow> kvs_value option \<Rightarrow> g_env \<Rightarrow>
    (kvs_result \<times> kvs_value option \<times> g_env) option" where
  "kvs_retrieve_kvp k key opt val g =
     (let r = check_key_space_handle k g in
      if r \<noteq> KVS_SUCCESS then Some (r, val, g)
      else case (key, val, opt) of
        (Some kk, Some v, Some del) \<Rightarrow>
          let r = validate_request kk val in
          if r \<noteq> KVS_SUCCESS then Some (r, val, g)
          else if kv_length v AND (KVS_VALUE_LENGTH_ALIGNMENT_UNIT - 1) \<noteq> 0 then Some (KVS_ERR_PARAM_INVALID, val, g)
          else map_option (\<lambda>((r, v'), g'). (r, Some v', g'))
                 (on_driver (kh_dev (ks_of k g)) (\<lambda>drv. map_option (\<lambda>(r, v', drv'). ((r, v'), drv'))
                    (retrieve_tuple (kh_keyspace_id (ks_of k g)) kk v del drv)) g)
      | _ \<Rightarrow> Some (KVS_ERR_PARAM_INVALID, val, g))"

definition kvs_delete_kvp :: "nat \<Rightarrow> kvs_key option \<Rightarrow> bool option \<Rightarrow> g_env \<Rightarrow> (kvs_result \<times> g_env) option" where
  "kvs_delete_kvp k key opt g =
     (let r = check_key_space_handle k g in
      if r \<noteq> KVS_SUCCESS then Some (r, g)
      else case (key, opt) of
        (Some kk, Some err) \<Rightarrow>
          let r = validate_request kk None in
          if r \<noteq> KVS_SUCCESS then Some (r, g)
          else on_driver (kh_dev (ks_of k g)) (delete_tuple (kh_keyspace_id (ks_of k g)) kk err) g
      | _ \<Rightarrow> Some (KVS_ERR_PARAM_INVALID, g))"

primrec validate_each :: "kvs_key list \<Rightarrow> kvs_result" where
  "validate_each [] = KVS_SUCCESS"
| "validate_each (k # ks) =
     (let r = validate_kv_pair (Some k) None 0 in if r \<noteq> KVS_SUCCESS then r else validate_each ks)"

definition kvs_exist_kv_pairs :: "nat \<Rightarrow> u32 \<Rightarrow> kvs_key list option \<Rightarrow> (u32 \<times> u8 list option) option \<Rightarrow> g_env \<Rightarrow>
    (kvs_result \<times> u8 list \<times> g_env) option" where
  "kvs_exist_kv_pairs k key_cnt keys lst g =
     (case (keys, lst) of
        (Some kl, Some (len, Some buf)) \<Rightarrow>
          if key_cnt \<le> 0 then Some (KVS_ERR_PARAM_INVALID, buf, g)
          else
            let r = validate_each (take (unat key_cnt) kl) in
            if r \<noteq> KVS_SUCCESS then Some (r, buf, g)
            else
              let r = check_key_space_handle k g in
              if r \<noteq> KVS_SUCCESS then Some (r, buf, g)
              else if len \<le> 0 then Some (KVS_ERR_BUFFER_SMALL, buf, g)
              else map_option (\<lambda>((r, b), g'). (r, b, g'))
                     (on_driver (kh_dev (ks_of k g)) (\<lambda>drv. map_option (\<lambda>(r, b, drv'). ((r, b), drv'))
                        (exist_tuple (kh_keyspace_id (ks_of k g)) key_cnt kl len buf drv)) g)
      | _ \<Rightarrow> Some (KVS_ERR_PARAM_INVALID, [], g))"

record kvs_kvp_info =
  info_key_len :: u16
  info_key :: "byte list"
  info_value_len :: u32

definition kvs_get_kvp_info :: "nat \<Rightarrow> kvs_key option \<Rightarrow> g_env \<Rightarrow> (kvs_result \<times> kvs_kvp_info option \<times> g_env) option" where
  "kvs_get_kvp_info k key g =
     (let r = check_key_space_handle k g in
      if r \<noteq> KVS_SUCCESS then Some (r, None, g)
      else case key of
        None \<Rightarrow> Some (KVS_ERR_PARAM_INVALID, None, g)
      | Some kk \<Rightarrow>
        let (ok, g1) = kvs_malloc g in
        if \<not> ok then Some (KVS_ERR_SYS_IO, None, g1)
        else map_option (\<lambda>(r, v, g2).
               (r, if r \<noteq> KVS_SUCCESS then None
                   else Some \<lparr>info_key_len = kk_length kk, info_key = key_bytes kk,
                              info_value_len = actual_value_size (the v)\<rparr>, g2))
               (kvs_retrieve_kvp k key (Some False) (Some (mk_value [] KVS_MAX_VALUE_LENGTH)) g1))"

section \<open>Iterators\<close>

record kvs_key_group_filter =
  f_bitmask :: "u8 list"
  f_bit_pattern :: "u8 list"

definition be_word :: "u8 list \<Rightarrow> u32" where
  "be_word b = ucast (b ! 3) OR push_bit 8 (ucast (b ! 2)) OR push_bit 16 (ucast (b ! 1)) OR push_bit 24 (ucast (b ! 0))"

definition filter2context :: "kvs_key_group_filter \<Rightarrow> u32 \<times> u32" where
  "filter2context f = (be_word (f_bitmask f), be_word (f_bit_pattern f))"

text \<open>Ones from the highest bit down, then only zeros.\<close>

definition is_valid_bitmask :: "u32 \<Rightarrow> bool" where
  "is_valid_bitmask m =
     (let cnt = length (takeWhile (\<lambda>i. bit m (31 - i)) [0 ..< 32]) in
      if cnt = 32 then True
      else list_all (\<lambda>i. \<not> bit m (31 - i)) [cnt + 1 ..< 32])"

definition kvs_create_iterator :: "nat \<Rightarrow> bool option \<Rightarrow> kvs_key_group_filter option \<Rightarrow> kv_iterator_handle \<Rightarrow> g_env \<Rightarrow>
    (kvs_result \<times> kv_iterator_handle \<times> g_env) option" where
  "kvs_create_iterator k keys_only fltr h g =
     (let r = check_key_space_handle k g in
      if r \<noteq> KVS_SUCCESS then Some (r, h, g)
      else case (keys_only, fltr) of
        (Some ko, Some f) \<Rightarrow>
          let (bm, pat) = filter2context f in
          if \<not> is_valid_bitmask bm then Some (KVS_ERR_ITERATOR_FILTER_INVALID, h, g)
          else map_option (\<lambda>((r, h'), g'). (r, h', g'))
                 (on_driver (kh_dev (ks_of k g)) (\<lambda>drv. map_option (\<lambda>(r, h', drv'). ((r, h'), drv'))
                    (drv_create_iterator (kh_keyspace_id (ks_of k g)) ko bm pat h drv)) g)
      | _ \<Rightarrow> Some (KVS_ERR_PARAM_INVALID, h, g))"

definition kvs_delete_iterator :: "nat \<Rightarrow> kv_iterator_handle \<Rightarrow> g_env \<Rightarrow> (kvs_result \<times> g_env) option" where
  "kvs_delete_iterator k h g =
     (let r = check_key_space_handle k g in
      if r \<noteq> KVS_SUCCESS then Some (r, g)
      else on_driver (kh_dev (ks_of k g)) (drv_delete_iterator h) g)"

definition KVS_ITERATOR_BUFFER_SIZE :: u32 where "KVS_ITERATOR_BUFFER_SIZE = 32 * 1024"

definition kvs_iterate_next :: "nat \<Rightarrow> kv_iterator_handle \<Rightarrow> kv_iterator_list option \<Rightarrow> g_env \<Rightarrow>
    (kvs_result \<times> kv_iterator_list option \<times> g_env) option" where
  "kvs_iterate_next k h lst g =
     (case lst of
        None \<Rightarrow> Some (KVS_ERR_PARAM_INVALID, lst, g)
      | Some l \<Rightarrow>
        let r = check_key_space_handle k g in
        if r \<noteq> KVS_SUCCESS then Some (r, lst, g)
        else if it_size l \<noteq> KVS_ITERATOR_BUFFER_SIZE then Some (KVS_ERR_SYS_IO, lst, g)
        else map_option (\<lambda>((r, l'), g'). (r, Some l', g'))
               (on_driver (kh_dev (ks_of k g)) (\<lambda>drv. map_option (\<lambda>(r, l', drv'). ((r, l'), drv'))
                  (iterator_next h l drv)) g))"

definition kvs_delete_key_group :: "nat \<Rightarrow> kvs_key_group_filter option \<Rightarrow> g_env \<Rightarrow> kvs_result \<times> g_env" where
  "kvs_delete_key_group k f g = (KVS_ERR_SYS_IO, g)"

end
