(* ===== verification/Engine_Refinement.thy ===== *)
theory Engine_Refinement
  imports Engine_Memory
begin

text \<open>
  The engine over a KVS library is a map from keys to values.  The abstract specification is a
  relation on maps, one clause per operation; over every library that satisfies the contract of
  \<open>kvs_library\<close> each call of the engine is a step of that relation.
\<close>

section \<open>The specification\<close>

datatype kv_call =
    Put "byte list" "addr \<times> byte list" bool
  | Get "byte list"
  | Del "byte list"
  | Has "byte list"

datatype kv_reply =
    Done kv_result_t
  | Got_Value kv_result_t "byte list option"
  | Found kv_result_t "bool option"

type_synonym kv_map = "byte list \<Rightarrow> byte list option"

text \<open>
  A call that reports success has its effect, one that reports an error has none.  A store
  without overwriting succeeds only for an absent key; a successful retrieve returns the stored
  value; \<open>kv_engine_exists\<close> never invents a key.
\<close>

fun map_step :: "kv_call \<Rightarrow> kv_reply \<Rightarrow> kv_map \<Rightarrow> kv_map \<Rightarrow> bool" where
  "map_step (Put k v ow) (Done r) M M' \<longleftrightarrow>
     (if r = KV_SUCCESS then M' = M(k := Some (snd v)) \<and> (\<not> ow \<longrightarrow> M k = None) else M' = M)"
| "map_step (Get k) (Got_Value r out) M M' \<longleftrightarrow>
     M' = M \<and> (if r = KV_SUCCESS then M k \<noteq> None \<and> out = M k else out = None)"
| "map_step (Del k) (Done r) M M' \<longleftrightarrow> M' = (if r = KV_SUCCESS then M(k := None) else M)"
| "map_step (Has k) (Found r b) M M' \<longleftrightarrow>
     M' = M \<and> (if r = KV_SUCCESS then \<exists>x. b = Some x \<and> (x \<longrightarrow> M k \<noteq> None) else b = None)"
| "map_step _ _ M M' \<longleftrightarrow> False"

text \<open>A call of the engine with a key and a value of the length they have.\<close>

fun perform :: "'w kvs_ops \<Rightarrow> kv_call \<Rightarrow> 'w sys \<Rightarrow> kv_reply \<times> 'w sys" where
  "perform ops (Put k v ow) s =
     (let (r, s') = kv_engine_store ops (Some k) (of_nat (length k)) v (of_nat (length (snd v))) ow s
      in (Done r, s'))"
| "perform ops (Get k) s =
     (let (r, out, s') = kv_engine_retrieve ops (Some k) (of_nat (length k)) True False s
      in (Got_Value r (map_option (\<lambda>(b, x, n). take (unat n) x) out), s'))"
| "perform ops (Del k) s =
     (let (r, s') = kv_engine_delete ops (Some k) (of_nat (length k)) s in (Done r, s'))"
| "perform ops (Has k) s =
     (let (r, b, s') = kv_engine_exists ops (Some k) (of_nat (length k)) True s in (Found r b, s'))"

text \<open>Lengths that the types of the engine and of the API can express.\<close>

fun fits :: "kv_call \<Rightarrow> bool" where
  "fits (Put k v ow) \<longleftrightarrow> length k < 2 ^ 64 \<and> length (snd v) < 2 ^ 32"
| "fits (Get k) \<longleftrightarrow> length k < 2 ^ 64"
| "fits (Del k) \<longleftrightarrow> length k < 2 ^ 64"
| "fits (Has k) \<longleftrightarrow> length k < 2 ^ 64"

fun perform_all :: "'w kvs_ops \<Rightarrow> kv_call list \<Rightarrow> 'w sys \<Rightarrow> kv_reply list \<times> 'w sys" where
  "perform_all ops [] s = ([], s)"
| "perform_all ops (c # cs) s =
     (let (r, s1) = perform ops c s; (rs, s2) = perform_all ops cs s1 in (r # rs, s2))"

fun map_run :: "kv_call list \<Rightarrow> kv_reply list \<Rightarrow> kv_map \<Rightarrow> kv_map \<Rightarrow> bool" where
  "map_run [] [] M M' \<longleftrightarrow> M' = M"
| "map_run (c # cs) (r # rs) M M' \<longleftrightarrow> (\<exists>M1. map_step c r M M1 \<and> map_run cs rs M1 M')"
| "map_run _ _ M M' \<longleftrightarrow> False"

section \<open>Keys and devices\<close>

definition handle_at :: "kv_engine \<Rightarrow> nat \<Rightarrow> kvs_key_space_handle" where
  "handle_at e i = hnd (dc_keyspace (devices e ! i))"

definition handle_of :: "kv_engine \<Rightarrow> byte list \<Rightarrow> kvs_key_space_handle" where
  "handle_of e k = handle_at e (shard_index e k (of_nat (length k)))"

lemma shard_index_bound: "devices_ok e \<Longrightarrow> shard_index e k n < unat (num_devices e)"
  unfolding shard_index_def devices_ok_def by (rule shard_bound) auto

lemma handle_at_frame [simp]:
  "handle_at (update_stats e a b c d n) i = handle_at e i"
  "handle_at (e\<lparr>key_table := t\<rparr>) i = handle_at e i"
  "handle_at (e\<lparr>buffer_pool := bp\<rparr>) i = handle_at e i"
  by (simp_all add: handle_at_def)

lemma handle_at_set_dev [simp]: "handle_at (set_dev e j r) i = handle_at e i"
  by (cases "j < length (devices e)"; cases "i = j") (simp_all add: handle_at_def list_update_beyond)

lemma shard_index_frame [simp]:
  "shard_index (update_stats e a b c d n) k l = shard_index e k l"
  "shard_index (e\<lparr>key_table := t\<rparr>) k l = shard_index e k l"
  "shard_index (e\<lparr>buffer_pool := bp\<rparr>) k l = shard_index e k l"
  "shard_index (e\<lparr>devices := ds\<rparr>) k l = shard_index e k l"
  by (simp_all add: shard_index_def)

text \<open>The device part of two engines agrees.\<close>

definition same_devices :: "kv_engine \<Rightarrow> kv_engine \<Rightarrow> bool" where
  "same_devices e e' \<longleftrightarrow> num_devices e' = num_devices e \<and> length (devices e') = length (devices e) \<and>
     initialized e' = initialized e \<and> (\<forall>i. handle_at e' i = handle_at e i)"

lemma same_devices_trans: "same_devices e e1 \<Longrightarrow> same_devices e1 e2 \<Longrightarrow> same_devices e e2"
  by (simp add: same_devices_def)

lemma same_devices_shard: "same_devices e e' \<Longrightarrow> shard_index e' k n = shard_index e k n"
  by (simp add: same_devices_def shard_index_def)

lemma key_ok_length:
  assumes "key_ok (Some k) (of_nat (length k))" "length k < 2 ^ 64"
  shows "unat (of_nat (length k) :: size_t) = length k" "4 \<le> length k" "length k \<le> 255"
proof -
  show u: "unat (of_nat (length k) :: size_t) = length k" using assms(2) by (simp add: unat_of_nat)
  show "4 \<le> length k" "length k \<le> 255"
    using assms(1) u by (auto simp: key_ok_def word_less_nat_alt)
qed

lemma good_api_key:
  assumes "key_ok (Some k) (of_nat (length k))" "length k < 2 ^ 64"
  shows "good_key (api_key (Some k) (of_nat (length k)))"
    "key_bytes (api_key (Some k) (of_nat (length k))) = k"
proof -
  note l = key_ok_length [OF assms]
  have "unat (ucast (of_nat (length k) :: size_t) :: u16) = length k"
    using l by (simp add: unsigned_ucast_eq take_bit_eq_mod)
  then show "good_key (api_key (Some k) (of_nat (length k)))"
    "key_bytes (api_key (Some k) (of_nat (length k))) = k"
    using l(2,3) by (simp_all add: good_key_def key_bytes_def KVS_MIN_KEY_LENGTH_def KVS_MAX_KEY_LENGTH_def)
qed

lemma good_api_value:
  assumes "length (snd v) < 2 ^ 32"
  shows "good_value (api_value bounce v (of_nat (length (snd v))))"
    "value_bytes (api_value bounce v (of_nat (length (snd v)))) = snd v"
proof -
  have "unat (of_nat (length (snd v)) :: size_t) = length (snd v)" using assms by (simp add: unat_of_nat)
  then have "unat (ucast (of_nat (length (snd v)) :: size_t) :: u32) = length (snd v)"
    using assms by (simp add: unsigned_ucast_eq take_bit_eq_mod)
  then show "good_value (api_value bounce v (of_nat (length (snd v))))"
    "value_bytes (api_value bounce v (of_nat (length (snd v)))) = snd v"
    using \<open>unat (of_nat (length (snd v)) :: size_t) = length (snd v)\<close>
    by (simp_all add: good_value_def value_bytes_def)
qed

section \<open>Outcomes\<close>

text \<open>
  What a call amounts to for the library: either it was turned away, or it made the calls shown
  here.  In either case the devices keep their handles.
\<close>

lemma map_kvs_success_iff: "KV_SUCCESS = map_kvs_result r \<longleftrightarrow> r = KVS_SUCCESS"
  using map_kvs_result_eq_success [of r] by metis

lemma store_outcome:
  assumes e: "engine s = Some e" and st: "kv_engine_store ops key n v vn ow s = (res, s')"
  obtains (idle) "engine s' = Some e" "lib s' = lib s" "res \<noteq> KV_SUCCESS"
    | (called) bounce r e' where "key_ok key n"
        "op_store_kvp ops (handle_at e (shard_index e (the key) n)) (api_key key n)
           (api_value bounce v vn) (store_type ow) (lib s) = (r, lib s')"
        "engine s' = Some e'" "same_devices e e'" "res = map_kvs_result r"
proof (cases "accepted_key e key n \<and> fst v \<noteq> NULL")
  case False
  then have "s' = s" "res \<noteq> KV_SUCCESS"
    using store_rejected [OF e, of key n v ops vn ow] st by auto
  then show ?thesis using e idle by simp
next
  case True
  define bounce i where "bounce = (\<not> IS_DMA_ALIGNED (fst v))" and "i = shard_index e (the key) n"
  obtain buf m1 where al: "(if bounce then dma_alloc vn (heap s) else (NULL, heap s)) = (buf, m1)"
    by fastforce
  obtain tab m2 where nk: "note_key (key_table e) key (ucast n) m1 = (tab, m2)" by fastforce
  obtain r w1 where op: "op_store_kvp ops (hnd (dc_keyspace (devices e ! i))) (api_key key n)
      (api_value bounce v vn) (store_type ow) (lib s) = (r, w1)" by fastforce
  note run = store_run [OF e conjunct1 [OF True] conjunct2 [OF True] al bounce_def i_def nk op]
  show ?thesis
  proof (cases "bounce \<and> buf = NULL")
    case True
    then show ?thesis using run st e by (intro idle) auto
  next
    case False
    then have s': "engine s' = Some (update_stats ((set_dev e i r)\<lparr>key_table := tab\<rparr>) False True False
        (r = KVS_SUCCESS) vn)" "lib s' = w1" "res = map_kvs_result r" using run st by auto
    have ko: "key_ok key n" using \<open>accepted_key e key n \<and> fst v \<noteq> NULL\<close> by (simp add: accepted_key_def)
    have "op_store_kvp ops (handle_at e (shard_index e (the key) n)) (api_key key n)
        (api_value bounce v vn) (store_type ow) (lib s) = (r, lib s')"
      using op s'(2) by (simp add: handle_at_def i_def)
    from called [OF ko this s'(1) _ s'(3)] show ?thesis by (simp add: same_devices_def)
  qed
qed

lemma delete_outcome:
  assumes e: "engine s = Some e" and st: "kv_engine_delete ops key n s = (res, s')"
  obtains (idle) "engine s' = Some e" "lib s' = lib s" "res \<noteq> KV_SUCCESS"
    | (called) r e' where "key_ok key n"
        "op_delete_kvp ops (handle_at e (shard_index e (the key) n)) (api_key key n) False (lib s) = (r, lib s')"
        "engine s' = Some e'" "same_devices e e'" "res = map_kvs_result r"
proof (cases "accepted_key e key n")
  case False
  then show ?thesis using delete_rejected [OF e False, of ops] st e by (intro idle) auto
next
  case True
  define i where "i = shard_index e (the key) n"
  obtain r w1 where op: "op_delete_kvp ops (hnd (dc_keyspace (devices e ! i))) (api_key key n)
      False (lib s) = (r, w1)" by fastforce
  obtain tab m1 where dk: "delete_key (key_table e) key (ucast n) (heap s) = (tab, m1)" by fastforce
  have s': "engine s' = Some (update_stats ((set_dev e i r)\<lparr>key_table := tab\<rparr>) False False True
      (r = KVS_SUCCESS) 0)" "lib s' = w1" "res = map_kvs_result r"
    using delete_run [OF e True i_def op dk] st by auto
  have ko: "key_ok key n" using True by (simp add: accepted_key_def)
  have "op_delete_kvp ops (handle_at e (shard_index e (the key) n)) (api_key key n) False (lib s) =
      (r, lib s')" using op s'(2) by (simp add: handle_at_def i_def)
  from called [OF ko this s'(1) _ s'(3)] show ?thesis by (simp add: same_devices_def)
qed

lemma exists_outcome:
  assumes e: "engine s = Some e" and st: "kv_engine_exists ops key n True s = (res, b, s')"
  obtains (idle) "engine s' = Some e" "lib s' = lib s" "res \<noteq> KV_SUCCESS" "b = None"
    | (called) r c e' where "key_ok key n"
        "op_exist_kv_pair ops (handle_at e (shard_index e (the key) n)) (api_key key n) (lib s) = (r, c, lib s')"
        "engine s' = Some e'" "same_devices e e'" "res = map_kvs_result r"
        "b = (if r = KVS_SUCCESS then Some (c \<noteq> 0 \<and> key_in_table (key_table e) key (ucast n)) else None)"
proof (cases "accepted_key e key n")
  case False
  then show ?thesis using exists_rejected [OF e, of key n True ops] st e by (intro idle) auto
next
  case True
  define i where "i = shard_index e (the key) n"
  obtain r c w1 where op: "op_exist_kv_pair ops (hnd (dc_keyspace (devices e ! i))) (api_key key n)
      (lib s) = (r, c, w1)" by (metis prod_cases3)
  have s': "engine s' = Some (set_dev e i r)" "lib s' = w1" "res = map_kvs_result r"
      "b = (if r = KVS_SUCCESS then Some (c \<noteq> 0 \<and> key_in_table (key_table e) key (ucast n)) else None)"
    using exists_run [OF e True i_def op] st by (auto split: if_splits)
  have ko: "key_ok key n" using True by (simp add: accepted_key_def)
  have "op_exist_kv_pair ops (handle_at e (shard_index e (the key) n)) (api_key key n) (lib s) =
      (r, c, lib s')" using op s'(2) by (simp add: handle_at_def i_def)
  from called [OF ko this s'(1) _ s'(3,4)] show ?thesis by (simp add: same_devices_def)
qed

lemma first_buffer_same: "first_buffer e m = (buf, fp, e1, m1) \<Longrightarrow> same_devices e e1"
  by (auto simp: first_buffer_def Let_def same_devices_def split: option.splits prod.splits if_splits)

lemma drop_buffer_same: "drop_buffer fp buf e m = (e1, m1) \<Longrightarrow> same_devices e e1"
  by (auto simp: drop_buffer_def same_devices_def split: if_splits)

lemma retrieve_finish_outcome:
  assumes "retrieve_finish i key n del r v buf fp e m w = (res, out, s')"
  shows "\<exists>e'. engine s' = Some e' \<and> same_devices e e'" "lib s' = w" "res = map_kvs_result r"
    "out = (if r = KVS_SUCCESS then Some (buf, value_bytes v, ucast (kv_length v)) else None)"
proof -
  obtain tab m1 where dk: "(if del \<and> r = KVS_SUCCESS
      then delete_key (key_table (set_dev e i r)) key (ucast n) m
      else (key_table (set_dev e i r), m)) = (tab, m1)" by fastforce
  obtain e3 m2 where db: "drop_buffer fp buf ((set_dev e i r)\<lparr>key_table := tab\<rparr>) m1 = (e3, m2)" by fastforce
  have sd: "same_devices e e3"
    using drop_buffer_same [OF db] by (simp add: same_devices_def)
  note run = assms [unfolded retrieve_finish_def Let_def dk prod.case db]
  show "\<exists>e'. engine s' = Some e' \<and> same_devices e e'"
    using run sd by (cases "r = KVS_SUCCESS") (auto simp: same_devices_def)
  show "lib s' = w" "res = map_kvs_result r"
    "out = (if r = KVS_SUCCESS then Some (buf, value_bytes v, ucast (kv_length v)) else None)"
    using run by (auto split: if_splits)
qed

lemma retrieve_outcome:
  assumes e: "engine s = Some e" and st: "kv_engine_retrieve ops key n True del s = (res, out, s')"
  obtains (idle) e' where "engine s' = Some e'" "same_devices e e'" "lib s' = lib s" "res \<noteq> KV_SUCCESS" "out = None"
    | (small) v e' where "key_ok key n"
        "op_retrieve_kvp ops (handle_at e (shard_index e (the key) n)) (api_key key n) del retrieve_buffer
           (lib s) = (KVS_ERR_BUFFER_SMALL, v, lib s')"
        "engine s' = Some e'" "same_devices e e'" "res \<noteq> KV_SUCCESS" "out = None"
    | (answer) b0 w0 r v e' buf where "key_ok key n"
        "b0 = retrieve_buffer \<and> w0 = lib s \<or>
         (\<exists>v0. op_retrieve_kvp ops (handle_at e (shard_index e (the key) n)) (api_key key n) del
            retrieve_buffer (lib s) = (KVS_ERR_BUFFER_SMALL, v0, w0) \<and> b0 = retry_buffer v0)"
        "op_retrieve_kvp ops (handle_at e (shard_index e (the key) n)) (api_key key n) del b0 w0 =
           (r, v, lib s')"
        "engine s' = Some e'" "same_devices e e'" "res = map_kvs_result r"
        "out = (if r = KVS_SUCCESS then Some (buf, value_bytes v, ucast (kv_length v)) else None)"
proof (cases "accepted_key e key n")
  case False
  then show ?thesis
    using retrieve_rejected [OF e, of key n True ops del] st e
    by (intro idle) (auto simp: same_devices_def)
next
  case True
  have ko: "key_ok key n" using True by (simp add: accepted_key_def)
  define i where "i = shard_index e (the key) n"
  obtain buf fp e1 m1 where fb: "first_buffer e (heap s) = (buf, fp, e1, m1)" by (metis prod_cases4)
  obtain r v w1 where op: "op_retrieve_kvp ops (hnd (dc_keyspace (devices e ! i))) (api_key key n) del
      retrieve_buffer (lib s) = (r, v, w1)" by (metis prod_cases3)
  note run = retrieve_run [OF e True i_def fb op] and sd1 = first_buffer_same [OF fb]
  have h: "hnd (dc_keyspace (devices e ! i)) = handle_at e (shard_index e (the key) n)"
    by (simp add: handle_at_def i_def)
  note op' = op [unfolded h]
  consider (oom) "buf = NULL" | (done1) "buf \<noteq> NULL" "r \<noteq> KVS_ERR_BUFFER_SMALL"
    | (again) "buf \<noteq> NULL" "r = KVS_ERR_BUFFER_SMALL" by blast
  then show ?thesis
  proof cases
    case oom
    then show ?thesis using run st sd1 by (intro idle [of e1]) auto
  next
    case done1
    then have "retrieve_finish i key n del r v buf fp e1 m1 w1 = (res, out, s')" using run st by simp
    note f = retrieve_finish_outcome [OF this]
    obtain e' where "engine s' = Some e'" "same_devices e e'" using f(1) sd1 same_devices_trans by blast
    then show ?thesis using op' f(2-4) by (intro answer [OF ko]) simp_all
  next
    case again
    obtain e2 m2 where db: "drop_buffer fp buf e1 m1 = (e2, m2)" by fastforce
    note sd2 = same_devices_trans [OF sd1 drop_buffer_same [OF db]]
    obtain buf2 m3 where al: "dma_alloc (ucast (actual_value_size v)) m2 = (buf2, m3)" by fastforce
    obtain r2 v2 w2 where op2: "op_retrieve_kvp ops (hnd (dc_keyspace (devices e ! i)))
        (api_key key n) del (retry_buffer v) w1 = (r2, v2, w2)" by (metis prod_cases3)
    show ?thesis
    proof (cases "buf2 = NULL")
      case True
      then show ?thesis using run st again db al op' sd2 by (intro small [OF ko, of v e2]) auto
    next
      case False
      then have "retrieve_finish i key n del r2 v2 buf2 False e2 m3 w2 = (res, out, s')"
        using run st again db al op2 by simp
      note f = retrieve_finish_outcome [OF this]
      obtain e' where "engine s' = Some e'" "same_devices e e'" using f(1) sd2 same_devices_trans by blast
      then show ?thesis
        using op' op2 [unfolded h] again(2) f(2-4)
        by (intro answer [OF ko, of "retry_buffer v" w1 r2 v2]) auto
    qed
  qed
qed

section \<open>Over any library\<close>

text \<open>The map that an engine keeps: the content of the key space its keys are sent to.\<close>

definition engine_map :: "(kvs_key_space_handle \<Rightarrow> 'w \<Rightarrow> byte list \<Rightarrow> byte list option) \<Rightarrow> kv_engine \<Rightarrow> 'w \<Rightarrow> kv_map" where
  "engine_map content e w = (\<lambda>k. content (handle_of e k) w k)"

text \<open>Every device of the engine has a key space of its own that is open.\<close>

definition connected :: "(kvs_key_space_handle \<Rightarrow> 'w \<Rightarrow> bool) \<Rightarrow> kv_engine \<Rightarrow> 'w \<Rightarrow> bool" where
  "connected ready e w \<longleftrightarrow> devices_ok e \<and> (\<forall>i<unat (num_devices e). ready (handle_at e i) w) \<and>
     (\<forall>i<unat (num_devices e). \<forall>j<unat (num_devices e). i \<noteq> j \<longrightarrow> handle_at e i \<noteq> handle_at e j)"

context kvs_library
begin

lemma connected_ready: "connected ready e w \<Longrightarrow> ready (handle_of e k) w"
  unfolding handle_of_def connected_def by (auto intro: shard_index_bound)

lemma connected_same:
  assumes "connected ready e w" "same_devices e e'" "\<And>h. ready h w \<Longrightarrow> ready h w'"
  shows "connected ready e' w'"
  using assms by (auto simp: connected_def same_devices_def devices_ok_def)

lemma handle_of_same: "same_devices e e' \<Longrightarrow> handle_of e' k = handle_of e k"
  by (simp add: handle_of_def same_devices_shard) (simp add: same_devices_def)

lemma engine_map_same:
  assumes "same_devices e e'" "\<And>k. content (handle_of e k) w' k = content (handle_of e k) w k"
  shows "engine_map content e' w' = engine_map content e w"
  using assms by (simp add: engine_map_def handle_of_same)

lemma engine_map_upd:
  assumes "same_devices e e'" "content (handle_of e k) w' = (content (handle_of e k) w)(k := v)"
    "\<And>k'. handle_of e k' \<noteq> handle_of e k \<Longrightarrow> content (handle_of e k') w' = content (handle_of e k') w"
  shows "engine_map content e' w' = (engine_map content e w)(k := v)"
proof
  fix k'
  show "engine_map content e' w' k' = ((engine_map content e w)(k := v)) k'"
    using assms(2) assms(3) [of k'] handle_of_same [OF assms(1)]
    by (cases "handle_of e k' = handle_of e k") (auto simp: engine_map_def)
qed

lemma store_refines:
  assumes c: "engine s = Some e" "connected ready e (lib s)" and f: "fits (Put k v ow)"
    and run: "perform ops (Put k v ow) s = (reply, s')"
  shows "\<exists>e'. engine s' = Some e' \<and> connected ready e' (lib s') \<and>
    map_step (Put k v ow) reply (engine_map content e (lib s)) (engine_map content e' (lib s'))"
proof -
  let ?n = "of_nat (length k) :: size_t" and ?vn = "of_nat (length (snd v)) :: size_t"
  have fl: "length k < 2 ^ 64" "length (snd v) < 2 ^ 32" using f by simp_all
  obtain res where st: "kv_engine_store ops (Some k) ?n v ?vn ow s = (res, s')" "reply = Done res"
    using run by (auto split: prod.splits)
  from c(1) st(1) show ?thesis
  proof (cases rule: store_outcome)
    case idle
    then show ?thesis using c st(2) by simp
  next
    case (called bounce r e')
    note gk = good_api_key [OF called(1) fl(1)] and gv = good_api_value [OF fl(2), of bounce]
    have op: "op_store_kvp ops (handle_of e k) (api_key (Some k) ?n) (api_value bounce v ?vn)
        (store_type ow) (lib s) = (r, lib s')" using called(2) by (simp add: handle_of_def)
    have rdy: "ready (handle_of e k') (lib s)" for k' using connected_ready [OF c(2)] .
    have ct: "connected ready e' (lib s')"
      by (rule connected_same [OF c(2) called(4)]) (rule store_ready [OF _ op])
    note other = store_other [OF rdy rdy _ op]
    have own: "content (handle_of e k) (lib s') = (if r = KVS_SUCCESS
        then (content (handle_of e k) (lib s))(k := Some (snd v)) else content (handle_of e k) (lib s)) \<and>
        (\<not> ow \<and> r = KVS_SUCCESS \<longrightarrow> content (handle_of e k) (lib s) k = None)"
      using store_content [OF rdy gk(1) gv(1), of k] store_new_content [OF rdy gk(1) gv(1), of k] op
      unfolding gk(2) gv(2) by (cases ow) auto
    show ?thesis
    proof (cases "r = KVS_SUCCESS")
      case True
      then show ?thesis
        using engine_map_upd [OF called(4) _ other] own called(3,5) ct st(2)
        by (simp add: engine_map_def)
    next
      case False
      have "content (handle_of e k') (lib s') k' = content (handle_of e k') (lib s) k'" for k'
        using other [of k'] own False by (cases "handle_of e k' = handle_of e k") simp_all
      then show ?thesis using engine_map_same [OF called(4)] called(3,5) ct st(2) False by simp
    qed
  qed
qed

lemma delete_refines:
  assumes c: "engine s = Some e" "connected ready e (lib s)" and f: "fits (Del k)"
    and run: "perform ops (Del k) s = (reply, s')"
  shows "\<exists>e'. engine s' = Some e' \<and> connected ready e' (lib s') \<and>
    map_step (Del k) reply (engine_map content e (lib s)) (engine_map content e' (lib s'))"
proof -
  let ?n = "of_nat (length k) :: size_t"
  have fl: "length k < 2 ^ 64" using f by simp
  obtain res where st: "kv_engine_delete ops (Some k) ?n s = (res, s')" "reply = Done res"
    using run by (auto split: prod.splits)
  from c(1) st(1) show ?thesis
  proof (cases rule: delete_outcome)
    case idle
    then show ?thesis using c st(2) by simp
  next
    case (called r e')
    note gk = good_api_key [OF called(1) fl]
    have op: "op_delete_kvp ops (handle_of e k) (api_key (Some k) ?n) False (lib s) = (r, lib s')"
      using called(2) by (simp add: handle_of_def)
    have rdy: "ready (handle_of e k') (lib s)" for k' using connected_ready [OF c(2)] .
    have ct: "connected ready e' (lib s')"
      by (rule connected_same [OF c(2) called(4)]) (rule delete_ready [OF _ op])
    note other = delete_other [OF rdy rdy _ op]
    note own = delete_content [OF rdy gk(1) op, unfolded gk(2)]
    show ?thesis
    proof (cases "r = KVS_SUCCESS")
      case True
      then show ?thesis using engine_map_upd [OF called(4) _ other] own called(3,5) ct st(2) by simp
    next
      case False
      have "content (handle_of e k') (lib s') k' = content (handle_of e k') (lib s) k'" for k'
        using other [of k'] own False by (cases "handle_of e k' = handle_of e k") simp_all
      then show ?thesis using engine_map_same [OF called(4)] called(3,5) ct st(2) False by simp
    qed
  qed
qed

lemma exists_refines:
  assumes c: "engine s = Some e" "connected ready e (lib s)" and f: "fits (Has k)"
    and run: "perform ops (Has k) s = (reply, s')"
  shows "\<exists>e'. engine s' = Some e' \<and> connected ready e' (lib s') \<and>
    map_step (Has k) reply (engine_map content e (lib s)) (engine_map content e' (lib s'))"
proof -
  let ?n = "of_nat (length k) :: size_t"
  have fl: "length k < 2 ^ 64" using f by simp
  obtain res b where st: "kv_engine_exists ops (Some k) ?n True s = (res, b, s')" "reply = Found res b"
    using run by (auto split: prod.splits)
  from c(1) st(1) show ?thesis
  proof (cases rule: exists_outcome)
    case idle
    then show ?thesis using c st(2) by simp
  next
    case (called r x e')
    note gk = good_api_key [OF called(1) fl]
    have op: "op_exist_kv_pair ops (handle_of e k) (api_key (Some k) ?n) (lib s) = (r, x, lib s')"
      using called(2) by (simp add: handle_of_def)
    have rdy: "ready (handle_of e k') (lib s)" for k' using connected_ready [OF c(2)] .
    have ct: "connected ready e' (lib s')"
      by (rule connected_same [OF c(2) called(4)]) (rule exist_ready [OF _ op])
    have "engine_map content e' (lib s') = engine_map content e (lib s)"
      using exist_content [OF rdy op] by (intro engine_map_same [OF called(4)]) simp
    moreover have "x \<noteq> 0 \<longleftrightarrow> engine_map content e (lib s) k \<noteq> None" if "r = KVS_SUCCESS"
      using exist_value [OF rdy gk(1) op [unfolded that]] gk(2) by (simp add: engine_map_def)
    ultimately show ?thesis using called(3,5,6) ct st(2) by (cases "r = KVS_SUCCESS") auto
  qed
qed

lemma retrieve_refines:
  assumes c: "engine s = Some e" "connected ready e (lib s)" and f: "fits (Get k)"
    and run: "perform ops (Get k) s = (reply, s')"
  shows "\<exists>e'. engine s' = Some e' \<and> connected ready e' (lib s') \<and>
    map_step (Get k) reply (engine_map content e (lib s)) (engine_map content e' (lib s'))"
proof -
  let ?n = "of_nat (length k) :: size_t"
  have fl: "length k < 2 ^ 64" using f by simp
  obtain res out where st: "kv_engine_retrieve ops (Some k) ?n True False s = (res, out, s')"
      "reply = Got_Value res (map_option (\<lambda>(b, x, n). take (unat n) x) out)"
    using run by (auto split: prod.splits)
  have rdy: "ready (handle_of e k') (lib s)" for k' using connected_ready [OF c(2)] .
  have call: "(\<forall>h. ready h (lib s) \<longrightarrow> ready h w) \<and>
      (\<forall>k'. content (handle_of e k') w = content (handle_of e k') (lib s))"
    if "op_retrieve_kvp ops (handle_of e k) kk False b (lib s) = (r, v, w)" for kk b r v w
    using retrieve_ready [OF _ that] retrieve_content [OF rdy rdy that] by blast
  from c(1) st(1) show ?thesis
  proof (cases rule: retrieve_outcome)
    case (idle e')
    have "connected ready e' (lib s')" by (rule connected_same [OF c(2) idle(2)]) (simp add: idle(3))
    moreover have "engine_map content e' (lib s') = engine_map content e (lib s)"
      by (rule engine_map_same [OF idle(2)]) (simp add: idle(3))
    ultimately show ?thesis using idle st(2) by simp
  next
    case (small v e')
    have w: "(\<forall>h. ready h (lib s) \<longrightarrow> ready h (lib s')) \<and>
        (\<forall>k'. content (handle_of e k') (lib s') = content (handle_of e k') (lib s))"
      using small(2) by (intro call) (simp add: handle_of_def)
    have "connected ready e' (lib s')" by (rule connected_same [OF c(2) small(4)]) (use w in blast)
    moreover have "engine_map content e' (lib s') = engine_map content e (lib s)"
      by (rule engine_map_same [OF small(4)]) (use w in simp)
    ultimately show ?thesis using small st(2) by simp
  next
    case (answer b0 w0 r v e' buf)
    note gk = good_api_key [OF answer(1) fl]
    have op: "op_retrieve_kvp ops (handle_of e k) (api_key (Some k) ?n) False b0 w0 = (r, v, lib s')"
      using answer(3) by (simp add: handle_of_def)
    have w0: "(\<forall>h. ready h (lib s) \<longrightarrow> ready h w0) \<and>
        (\<forall>k'. content (handle_of e k') w0 = content (handle_of e k') (lib s))"
      using answer(2) call by (auto simp: handle_of_def)
    have r0: "ready (handle_of e k') w0" for k' using w0 rdy by blast
    have ct: "connected ready e' (lib s')"
      by (rule connected_same [OF c(2) answer(5)]) (use w0 retrieve_ready [OF _ op] in blast)
    have m: "engine_map content e' (lib s') = engine_map content e (lib s)"
      using w0 retrieve_content [OF r0 r0 op] by (intro engine_map_same [OF answer(5)]) simp
    have gb: "good_buffer b0" using answer(2) by (auto simp: good_buffer_def)
    have "engine_map content e (lib s) k = Some (value_bytes v) \<and> unat (kv_length v) = length (value_bytes v)"
      if "r = KVS_SUCCESS"
      using retrieve_value [OF r0 gk(1) gb op [unfolded that]] w0 gk(2) by (auto simp: engine_map_def)
    then show ?thesis using answer(4,6,7) ct m st(2) by (cases "r = KVS_SUCCESS") auto
  qed
qed

text \<open>Every call is a step of the specification, and so is every sequence of calls.\<close>

lemma perform_refines:
  assumes "engine s = Some e" "connected ready e (lib s)" "fits c" "perform ops c s = (reply, s')"
  shows "\<exists>e'. engine s' = Some e' \<and> connected ready e' (lib s') \<and>
    map_step c reply (engine_map content e (lib s)) (engine_map content e' (lib s'))"
proof (cases c)
  case (Put k v ow)
  then show ?thesis using store_refines [OF assms(1,2)] assms(3,4) by blast
next
  case (Get k)
  then show ?thesis using retrieve_refines [OF assms(1,2)] assms(3,4) by blast
next
  case (Del k)
  then show ?thesis using delete_refines [OF assms(1,2)] assms(3,4) by blast
next
  case (Has k)
  then show ?thesis using exists_refines [OF assms(1,2)] assms(3,4) by blast
qed

lemma run_refines:
  assumes "engine s = Some e" "connected ready e (lib s)" "\<forall>c\<in>set cs. fits c"
    "perform_all ops cs s = (rs, s')"
  shows "\<exists>e'. engine s' = Some e' \<and> connected ready e' (lib s') \<and>
    map_run cs rs (engine_map content e (lib s)) (engine_map content e' (lib s'))"
  using assms
proof (induction cs arbitrary: s e rs)
  case (Cons c cs)
  obtain r s1 where p: "perform ops c s = (r, s1)" by fastforce
  obtain rs1 where q: "perform_all ops cs s1 = (rs1, s')" "rs = r # rs1"
    using Cons.prems(4) p by (auto split: prod.splits)
  obtain e1 where e1: "engine s1 = Some e1" "connected ready e1 (lib s1)"
      "map_step c r (engine_map content e (lib s)) (engine_map content e1 (lib s1))"
    using perform_refines [OF Cons.prems(1,2) _ p] Cons.prems(3) by auto
  obtain e' where "engine s' = Some e'" "connected ready e' (lib s')"
      "map_run cs rs1 (engine_map content e1 (lib s1)) (engine_map content e' (lib s'))"
    using Cons.IH [OF e1(1,2) _ q(1)] Cons.prems(3) by auto
  then show ?case using e1(3) q(2) by auto
qed auto

end

end
