(* ===== verification/Engine_Reliable.thy ===== *)
theory Engine_Reliable
  imports Engine_Refinement
begin

text \<open>
  Over a library that fails on no well-formed request the engine is exact: a call that its
  checks accept, and that gets the memory it asks for, gives the answer of a map, and the
  table of keys stays complete, so that the existence check is exact too.
\<close>

section \<open>The exact specification\<close>

fun map_exec :: "kv_call \<Rightarrow> kv_map \<Rightarrow> kv_reply \<times> kv_map" where
  "map_exec (Put k v ow) M =
     (if ow \<or> M k = None then (Done KV_SUCCESS, M(k \<mapsto> snd v)) else (Done KV_ERR_KEY_ALREADY_EXISTS, M))"
| "map_exec (Get k) M =
     (case M k of None \<Rightarrow> (Got_Value KV_ERR_KEY_NOT_FOUND None, M)
                | Some x \<Rightarrow> (Got_Value KV_SUCCESS (Some x), M))"
| "map_exec (Del k) M = (Done KV_SUCCESS, M(k := None))"
| "map_exec (Has k) M = (Found KV_SUCCESS (Some (M k \<noteq> None)), M)"

fun map_exec_all :: "kv_call list \<Rightarrow> kv_map \<Rightarrow> kv_reply list \<times> kv_map" where
  "map_exec_all [] M = ([], M)"
| "map_exec_all (c # cs) M =
     (let (r, M1) = map_exec c M; (rs, M2) = map_exec_all cs M1 in (r # rs, M2))"

text \<open>
  The requests the specification speaks about: the key is accepted and its device is in
  service, and the allocations of the call succeed.
\<close>

definition put_room :: "kv_engine \<Rightarrow> mem \<Rightarrow> byte list \<Rightarrow> addr \<times> byte list \<Rightarrow> bool" where
  "put_room e m k v =
     (let bounce = \<not> IS_DMA_ALIGNED (fst v);
          (buf, m1) = (if bounce then dma_alloc (of_nat (length (snd v))) m else (NULL, m));
          (tab, m2) = note_key (key_table e) (Some k) (ucast (of_nat (length k) :: size_t)) m1 in
      (bounce \<longrightarrow> buf \<noteq> NULL) \<and> key_in_table tab (Some k) (ucast (of_nat (length k) :: size_t)))"

fun served :: "kv_call \<Rightarrow> 'w sys \<Rightarrow> bool" where
  "served (Put k v ow) s \<longleftrightarrow> (case engine s of None \<Rightarrow> False | Some e \<Rightarrow>
     accepted_key e (Some k) (of_nat (length k)) \<and> fst v \<noteq> NULL \<and> length (snd v) \<le> KVS_MAX_VALUE_LENGTH \<and>
     put_room e (heap s) k v)"
| "served (Get k) s \<longleftrightarrow> (case engine s of None \<Rightarrow> False | Some e \<Rightarrow>
     accepted_key e (Some k) (of_nat (length k)) \<and> fst (first_buffer e (heap s)) \<noteq> NULL)"
| "served (Del k) s \<longleftrightarrow> (case engine s of None \<Rightarrow> False | Some e \<Rightarrow> accepted_key e (Some k) (of_nat (length k)))"
| "served (Has k) s \<longleftrightarrow> (case engine s of None \<Rightarrow> False | Some e \<Rightarrow> accepted_key e (Some k) (of_nat (length k)))"

fun served_all :: "'w kvs_ops \<Rightarrow> kv_call list \<Rightarrow> 'w sys \<Rightarrow> bool" where
  "served_all ops [] s \<longleftrightarrow> True"
| "served_all ops (c # cs) s \<longleftrightarrow> fits c \<and> served c s \<and> served_all ops cs (snd (perform ops c s))"

text \<open>The table of keys knows every key of the map.\<close>

abbreviation tabled :: "kv_engine \<Rightarrow> byte list \<Rightarrow> bool" where
  "tabled e k \<equiv> key_in_table (key_table e) (Some k) (ucast (of_nat (length k) :: size_t))"

definition tracks :: "kv_map \<Rightarrow> kv_engine \<Rightarrow> bool" where
  "tracks M e \<longleftrightarrow> (\<forall>k. key_ok (Some k) (of_nat (length k)) \<and> length k < 2 ^ 64 \<and> M k \<noteq> None \<longrightarrow> tabled e k)"

section \<open>The table of keys\<close>

lemma key_len_u32:
  assumes "key_ok (Some k) (of_nat (length k))" "length k < 2 ^ 64"
  shows "unat (ucast (of_nat (length k) :: size_t) :: u32) = length k" "ucast (of_nat (length k) :: size_t) \<noteq> (0 :: u32)"
    "\<not> ucast (of_nat (length k) :: size_t) > (255 :: u32)"
proof -
  note l = key_ok_length [OF assms]
  show u: "unat (ucast (of_nat (length k) :: size_t) :: u32) = length k"
    using l by (simp add: unsigned_ucast_eq take_bit_eq_mod)
  then show "ucast (of_nat (length k) :: size_t) \<noteq> (0 :: u32)" "\<not> ucast (of_nat (length k) :: size_t) > (255 :: u32)"
    using l(2,3) by (auto simp: word_less_nat_alt)
qed

lemma tabled_iff:
  assumes "key_ok (Some k) (of_nat (length k))" "length k < 2 ^ 64"
  shows "tabled e k \<longleftrightarrow> (\<exists>x\<in>set (ht_head (key_table e)).
    he_key_len x = ucast (of_nat (length k) :: size_t) \<and> he_key x = k)"
  using key_len_u32 [OF assms] by (auto simp: key_in_table_def hash_find_def find_None_iff)

lemma note_key_keeps:
  "note_key t key n m = (t', m') \<Longrightarrow> set (ht_head t) \<subseteq> set (ht_head t')"
  by (auto simp: note_key_def add_key_def Let_def split: if_splits option.splits prod.splits)

lemma delete_key_keeps:
  assumes "delete_key t (Some k) n m = (t', m')" "x \<in> set (ht_head t)" "he_key x \<noteq> take (unat n) k"
  shows "x \<in> set (ht_head t')"
proof -
  have "t' = t \<or> (\<exists>y. hash_find t k n = Some y \<and> ht_head t' = remove1 y (ht_head t))"
    using assms(1) by (auto simp: delete_key_def split: if_splits option.splits)
  moreover have "y \<noteq> x" if "hash_find t k n = Some y" for y
    using that assms(3) by (auto simp: hash_find_def find_Some_iff)
  ultimately show ?thesis using assms(2) by (auto simp: in_set_remove1)
qed

lemma tracks_upd:
  assumes "tracks M e" "set (ht_head (key_table e)) \<subseteq> set (ht_head (key_table e'))"
    "v = None \<or> tabled e' k"
  shows "tracks (M(k := v)) e'"
  unfolding tracks_def
proof (intro allI impI)
  fix k'
  assume k': "key_ok (Some k') (of_nat (length k')) \<and> length k' < 2 ^ 64 \<and> (M(k := v)) k' \<noteq> None"
  show "tabled e' k'"
  proof (cases "k' = k \<and> v \<noteq> None")
    case True
    then show ?thesis using assms(3) by auto
  next
    case False
    then have "tabled e k'" using assms(1) k' by (auto simp: tracks_def split: if_splits)
    then show ?thesis using k' assms(2) by (auto simp: tabled_iff)
  qed
qed

lemma tracks_del:
  assumes "tracks M e" "key_ok (Some k) (of_nat (length k))" "length k < 2 ^ 64"
    "delete_key (key_table e) (Some k) (ucast (of_nat (length k) :: size_t)) m = (key_table e', m')"
  shows "tracks (M(k := None)) e'"
  unfolding tracks_def
proof (intro allI impI)
  fix k'
  assume k': "key_ok (Some k') (of_nat (length k')) \<and> length k' < 2 ^ 64 \<and> (M(k := None)) k' \<noteq> None"
  then have "k' \<noteq> k" "tabled e k'" using assms(1) by (auto simp: tracks_def split: if_splits)
  then obtain x where x: "x \<in> set (ht_head (key_table e))" "he_key_len x = ucast (of_nat (length k') :: size_t)"
      "he_key x = k'" using k' by (auto simp: tabled_iff)
  have "he_key x \<noteq> take (unat (ucast (of_nat (length k) :: size_t) :: u32)) k"
    using x(3) \<open>k' \<noteq> k\<close> key_len_u32(1) [OF assms(2,3)] by simp
  then show "tabled e' k'" using delete_key_keeps [OF assms(4) x(1)] x k' by (auto simp: tabled_iff)
qed

section \<open>Over a reliable library\<close>

lemma accepted_key_ok: "accepted_key e key n \<Longrightarrow> key_ok key n"
  by (simp add: accepted_key_def)

lemma retrieve_size: "unat (of_nat KV_ENGINE_RETRIEVE_SIZE :: u32) = KVS_MAX_VALUE_LENGTH"
  by (simp add: KV_ENGINE_RETRIEVE_SIZE_def KVS_MAX_VALUE_LENGTH_def)

lemma first_buffer_table: "first_buffer e m = (buf, fp, e1, m1) \<Longrightarrow> key_table e1 = key_table e"
  by (auto simp: first_buffer_def Let_def split: option.splits prod.splits if_splits)

lemma retrieve_finish_table:
  "retrieve_finish i key n False r v buf fp e m w = (res, out, s') \<Longrightarrow>
     \<exists>e'. engine s' = Some e' \<and> key_table e' = key_table e"
  by (cases "r = KVS_SUCCESS"; cases fp) (auto simp: retrieve_finish_def drop_buffer_def Let_def)

text \<open>The answer determines the step of the specification.\<close>

lemma map_step_exec: "map_step c (fst (map_exec c M)) M M' \<Longrightarrow> M' = snd (map_exec c M)"
  by (cases c) (auto split: if_splits option.splits)

context reliable_kvs_library
begin

lemma put_exact:
  assumes c: "engine s = Some e" "connected ready e (lib s)" and f: "fits (Put k v ow)" and sv: "served (Put k v ow) s"
    and t: "tracks (engine_map content e (lib s)) e"
    and run: "perform ops (Put k v ow) s = (reply, s')"
  shows "reply = fst (map_exec (Put k v ow) (engine_map content e (lib s)))"
    "\<exists>e'. engine s' = Some e' \<and> tracks (snd (map_exec (Put k v ow) (engine_map content e (lib s)))) e'"
proof -
  let ?n = "of_nat (length k) :: size_t" and ?vn = "of_nat (length (snd v)) :: size_t" and ?M = "engine_map content e (lib s)"
  have a: "accepted_key e (Some k) ?n" "fst v \<noteq> NULL" "length (snd v) \<le> KVS_MAX_VALUE_LENGTH" "put_room e (heap s) k v"
    using sv c(1) by simp_all
  have fl: "length k < 2 ^ 64" "length (snd v) < 2 ^ 32" using f by simp_all
  define b i where "b = (\<not> IS_DMA_ALIGNED (fst v))" and "i = shard_index e (the (Some k)) ?n"
  obtain buf m1 where al: "(if b then dma_alloc ?vn (heap s) else (NULL, heap s)) = (buf, m1)" by fastforce
  obtain tab m2 where nk: "note_key (key_table e) (Some k) (ucast ?n) m1 = (tab, m2)" by fastforce
  obtain r w1 where op: "op_store_kvp ops (hnd (dc_keyspace (devices e ! i))) (api_key (Some k) ?n)
      (api_value b v ?vn) (store_type ow) (lib s) = (r, w1)" by fastforce
  have room: "b \<longrightarrow> buf \<noteq> NULL" "key_in_table tab (Some k) (ucast ?n)"
    using a(4) al nk by (simp_all add: put_room_def b_def)
  have h: "hnd (dc_keyspace (devices e ! i)) = handle_of e k" by (simp add: handle_of_def handle_at_def i_def)
  note gk = good_api_key [OF accepted_key_ok [OF a(1)] fl(1)] and gv = good_api_value [OF fl(2), of b]
  have vl: "unat (kv_length (api_value b v ?vn)) \<le> KVS_MAX_VALUE_LENGTH"
    using a(3) by (simp add: KVS_MAX_VALUE_LENGTH_def unat_of_nat unsigned_ucast_eq take_bit_nat_eq_self)
  have M: "content (handle_of e k) (lib s) k = ?M k" by (simp add: engine_map_def)
  have r: "r = (if ow \<or> ?M k = None then KVS_SUCCESS else KVS_ERR_VALUE_UPDATE_NOT_ALLOWED)"
    using store_succeeds [OF connected_ready [OF c(2)] gk(1) gv(1) vl, of k]
      store_new_succeeds [OF connected_ready [OF c(2)] gk(1) gv(1) vl, of k] op gk(2) M
    by (cases ow) (auto simp: h)
  have "perform ops (Put k v ow) s = (Done (map_kvs_result r), s') \<and>
     engine s' = Some (update_stats ((set_dev e i r)\<lparr>key_table := tab\<rparr>) False True False (r = KVS_SUCCESS) ?vn)"
    using store_run [OF c(1) a(1,2) al b_def i_def nk op] run room(1) by auto
  moreover have "snd (map_exec (Put k v ow) ?M) = ?M(k := if ow \<or> ?M k = None then Some (snd v) else ?M k)"
    by (auto simp: fun_upd_idem)
  ultimately show "reply = fst (map_exec (Put k v ow) ?M)"
      "\<exists>e'. engine s' = Some e' \<and> tracks (snd (map_exec (Put k v ow) ?M)) e'"
    using run r room(2) tracks_upd [OF t, of "update_stats ((set_dev e i r)\<lparr>key_table := tab\<rparr>) False True False
        (r = KVS_SUCCESS) ?vn" "if ow \<or> ?M k = None then Some (snd v) else ?M k" k] note_key_keeps [OF nk]
    by auto
qed

lemma get_exact:
  assumes c: "engine s = Some e" "connected ready e (lib s)" and f: "fits (Get k)" and sv: "served (Get k) s"
    and t: "tracks M e" and M: "M = engine_map content e (lib s)"
    and run: "perform ops (Get k) s = (reply, s')"
  shows "reply = fst (map_exec (Get k) M)" "\<exists>e'. engine s' = Some e' \<and> tracks M e'"
proof -
  let ?n = "of_nat (length k) :: size_t"
  have a: "accepted_key e (Some k) ?n" "fst (first_buffer e (heap s)) \<noteq> NULL" using sv c(1) by simp_all
  have fl: "length k < 2 ^ 64" using f by simp
  define i where "i = shard_index e (the (Some k)) ?n"
  obtain buf fp e1 m1 where fb: "first_buffer e (heap s) = (buf, fp, e1, m1)" by (metis prod_cases4)
  obtain r v w1 where op: "op_retrieve_kvp ops (hnd (dc_keyspace (devices e ! i))) (api_key (Some k) ?n) False
      retrieve_buffer (lib s) = (r, v, w1)" by (metis prod_cases3)
  have h: "hnd (dc_keyspace (devices e ! i)) = handle_of e k" by (simp add: handle_of_def handle_at_def i_def)
  note gk = good_api_key [OF accepted_key_ok [OF a(1)] fl] and rdy = connected_ready [OF c(2), of k]
  have gb: "good_buffer retrieve_buffer" by (simp add: good_buffer_def)
  have r: "r = (if M k = None then KVS_ERR_KEY_NOT_EXIST else KVS_SUCCESS)"
    using retrieve_result [OF rdy gk(1) gb] op gk(2) by (simp add: h M engine_map_def retrieve_size)
  have v: "M k = Some (value_bytes v) \<and> unat (kv_length v) = length (value_bytes v)" if "r = KVS_SUCCESS"
    using retrieve_value [OF rdy gk(1) gb] op that gk(2) by (auto simp: h M engine_map_def)
  have ns: "buf \<noteq> NULL" "r \<noteq> KVS_ERR_BUFFER_SMALL" using a(2) fb r by simp_all
  then have fin: "kv_engine_retrieve ops (Some k) ?n True False s = retrieve_finish i (Some k) ?n False r v buf fp e1 m1 w1"
    using retrieve_run [OF c(1) a(1) i_def fb op] by simp
  obtain res out s2 where q0: "kv_engine_retrieve ops (Some k) ?n True False s = (res, out, s2)"
    by (metis prod_cases3)
  then have q: "retrieve_finish i (Some k) ?n False r v buf fp e1 m1 w1 = (res, out, s')"
      "reply = Got_Value res (map_option (\<lambda>(b, x, n). take (unat n) x) out)"
    using run fin by simp_all
  show "reply = fst (map_exec (Get k) M)"
    using q(2) retrieve_finish_outcome(3,4) [OF q(1)] r v by (cases "M k") simp_all
  obtain e' where e': "engine s' = Some e'" "key_table e' = key_table e1"
    using retrieve_finish_table [OF q(1)] by (elim exE conjE)
  have "tracks M e'" using t e'(2) first_buffer_table [OF fb] by (simp add: tracks_def)
  then show "\<exists>e'. engine s' = Some e' \<and> tracks M e'" using e'(1) by (intro exI conjI)
qed

lemma del_exact:
  assumes c: "engine s = Some e" "connected ready e (lib s)" and f: "fits (Del k)" and sv: "served (Del k) s"
    and t: "tracks M e" and M: "M = engine_map content e (lib s)"
    and run: "perform ops (Del k) s = (reply, s')"
  shows "reply = fst (map_exec (Del k) M)" "\<exists>e'. engine s' = Some e' \<and> tracks (snd (map_exec (Del k) M)) e'"
proof -
  let ?n = "of_nat (length k) :: size_t"
  have a: "accepted_key e (Some k) ?n" using sv c(1) by simp_all
  have fl: "length k < 2 ^ 64" using f by simp
  define i where "i = shard_index e (the (Some k)) ?n"
  obtain r w1 where op: "op_delete_kvp ops (hnd (dc_keyspace (devices e ! i))) (api_key (Some k) ?n) False (lib s) = (r, w1)"
    by fastforce
  obtain tab m1 where dk: "delete_key (key_table e) (Some k) (ucast ?n) (heap s) = (tab, m1)" by fastforce
  have h: "hnd (dc_keyspace (devices e ! i)) = handle_of e k" by (simp add: handle_of_def handle_at_def i_def)
  note gk = good_api_key [OF accepted_key_ok [OF a(1)] fl] and rdy = connected_ready [OF c(2), of k]
  have r: "r = KVS_SUCCESS" using delete_succeeds [OF rdy gk(1)] op by (simp add: h)
  let ?e = "update_stats ((set_dev e i r)\<lparr>key_table := tab\<rparr>) False False True True 0"
  have "perform ops (Del k) s = (Done KV_SUCCESS, s') \<and> engine s' = Some ?e"
    using delete_run [OF c(1) a i_def op dk] run r by auto
  moreover have "tracks (M(k := None)) ?e"
    by (rule tracks_del [OF t accepted_key_ok [OF a] fl, where m = "heap s" and m' = m1]) (simp add: dk)
  ultimately show "reply = fst (map_exec (Del k) M)" "\<exists>e'. engine s' = Some e' \<and> tracks (snd (map_exec (Del k) M)) e'"
    using run by auto
qed

lemma has_exact:
  assumes c: "engine s = Some e" "connected ready e (lib s)" and f: "fits (Has k)" and sv: "served (Has k) s"
    and t: "tracks M e" and M: "M = engine_map content e (lib s)"
    and run: "perform ops (Has k) s = (reply, s')"
  shows "reply = fst (map_exec (Has k) M)" "\<exists>e'. engine s' = Some e' \<and> tracks M e'"
proof -
  let ?n = "of_nat (length k) :: size_t"
  have a: "accepted_key e (Some k) ?n" using sv c(1) by simp_all
  have fl: "length k < 2 ^ 64" using f by simp
  define i where "i = shard_index e (the (Some k)) ?n"
  obtain r b w1 where op: "op_exist_kv_pair ops (hnd (dc_keyspace (devices e ! i))) (api_key (Some k) ?n) (lib s) = (r, b, w1)"
    by (metis prod_cases3)
  have h: "hnd (dc_keyspace (devices e ! i)) = handle_of e k" by (simp add: handle_of_def handle_at_def i_def)
  note gk = good_api_key [OF accepted_key_ok [OF a(1)] fl] and rdy = connected_ready [OF c(2), of k]
  have r: "r = KVS_SUCCESS" using exist_succeeds [OF rdy gk(1)] op by (simp add: h)
  have "b \<noteq> 0 \<longleftrightarrow> M k \<noteq> None" using exist_value [OF rdy gk(1)] op r gk(2) by (simp add: h M engine_map_def)
  moreover have "tabled e k" if "M k \<noteq> None" using t that accepted_key_ok [OF a] fl by (simp add: tracks_def)
  ultimately have "perform ops (Has k) s = (Found KV_SUCCESS (Some (M k \<noteq> None)), s') \<and> engine s' = Some (set_dev e i r)"
    using exists_run [OF c(1) a i_def op] run r by auto
  then show "reply = fst (map_exec (Has k) M)" "\<exists>e'. engine s' = Some e' \<and> tracks M e'"
    using run t by (auto simp: tracks_def)
qed

lemma perform_exact:
  assumes c: "engine s = Some e" "connected ready e (lib s)" and f: "fits c" and sv: "served c s"
    and t: "tracks (engine_map content e (lib s)) e"
    and run: "perform ops c s = (reply, s')"
  shows "\<exists>e'. engine s' = Some e' \<and> connected ready e' (lib s') \<and> tracks (engine_map content e' (lib s')) e' \<and>
     map_exec c (engine_map content e (lib s)) = (reply, engine_map content e' (lib s'))"
proof -
  let ?M = "engine_map content e (lib s)"
  have x: "reply = fst (map_exec c ?M)" "\<exists>e'. engine s' = Some e' \<and> tracks (snd (map_exec c ?M)) e'"
  proof (atomize(full), cases c)
    case (Put k v ow)
    show "reply = fst (map_exec c ?M) \<and> (\<exists>e'. engine s' = Some e' \<and> tracks (snd (map_exec c ?M)) e')"
      using put_exact [OF c, of k v ow] f sv t run Put by blast
  next
    case (Get k)
    show "reply = fst (map_exec c ?M) \<and> (\<exists>e'. engine s' = Some e' \<and> tracks (snd (map_exec c ?M)) e')"
      using get_exact [OF c _ _ t refl, of k] f sv run Get by (auto split: option.split)
  next
    case (Del k)
    show "reply = fst (map_exec c ?M) \<and> (\<exists>e'. engine s' = Some e' \<and> tracks (snd (map_exec c ?M)) e')"
      using del_exact [OF c _ _ t refl, of k] f sv run Del by blast
  next
    case (Has k)
    show "reply = fst (map_exec c ?M) \<and> (\<exists>e'. engine s' = Some e' \<and> tracks (snd (map_exec c ?M)) e')"
      using has_exact [OF c _ _ t refl, of k] f sv run Has by auto
  qed
  obtain e' where e': "engine s' = Some e'" "connected ready e' (lib s')"
      "map_step c reply ?M (engine_map content e' (lib s'))"
    using perform_refines [OF c f run] by blast
  have "engine_map content e' (lib s') = snd (map_exec c ?M)" using map_step_exec e'(3) x(1) by blast
  then show ?thesis using e'(1,2) x by (auto simp: prod_eq_iff)
qed

lemma run_exact:
  assumes "engine s = Some e" "connected ready e (lib s)" "tracks (engine_map content e (lib s)) e"
    "served_all ops cs s" "perform_all ops cs s = (rs, s')"
  shows "\<exists>e'. engine s' = Some e' \<and> connected ready e' (lib s') \<and> tracks (engine_map content e' (lib s')) e' \<and>
     map_exec_all cs (engine_map content e (lib s)) = (rs, engine_map content e' (lib s'))"
  using assms
proof (induction cs arbitrary: s e rs)
  case (Cons c cs)
  obtain r s1 where p: "perform ops c s = (r, s1)" by fastforce
  obtain rs1 where q: "perform_all ops cs s1 = (rs1, s')" "rs = r # rs1"
    using Cons.prems(5) p by (auto split: prod.splits)
  have sv: "fits c" "served c s" "served_all ops cs s1" using Cons.prems(4) p by auto
  obtain e1 where e1: "engine s1 = Some e1" "connected ready e1 (lib s1)" "tracks (engine_map content e1 (lib s1)) e1"
      "map_exec c (engine_map content e (lib s)) = (r, engine_map content e1 (lib s1))"
    using perform_exact [OF Cons.prems(1,2) sv(1,2) Cons.prems(3) p] by blast
  then show ?case using Cons.IH [OF e1(1,2,3) sv(3) q(1)] q(2) by auto
qed simp

end

end
