(* ===== verification/Emul_Library.thy ===== *)
theory Emul_Library
  imports Kvs_Api Engine_Reliable
begin

text \<open>
  The emulator-backed KVS API is a library the engine can rely on: the calls of the engine on
  the model of cfrontend.cpp satisfy the laws of Kvs_Interface.  A key space is ready when its
  handle is open and the environment is sound: the drivers of the open devices are idle and no
  two open handles refer to the same key space of a device.
\<close>

section \<open>The calls of the engine\<close>

text \<open>
  A call that does not return has no answer; the record of calls needs one, and the soundness
  of the environment excludes the case.
\<close>

definition answer :: "'a \<Rightarrow> 'a option \<Rightarrow> 'a" where
  "answer d r = (case r of Some x \<Rightarrow> x | None \<Rightarrow> d)"

definition emul_ops :: "(u64 \<Rightarrow> u64 \<Rightarrow> u16) \<Rightarrow> g_env kvs_ops" where
  "emul_ops percent = \<lparr>
     op_open_device = (\<lambda>p g. answer (KVS_ERR_SYS_IO, 0, g) (kvs_open_device (Some p) g)),
     op_close_device = (\<lambda>d g. answer (KVS_ERR_SYS_IO, g) (kvs_close_device d g)),
     op_create_key_space = (\<lambda>d n g. answer (KVS_ERR_SYS_IO, g)
        (kvs_create_key_space d (Some (n, of_nat (length n))) 0 KVS_KEY_ORDER_NONE g)),
     op_open_key_space = (\<lambda>d n g. answer (KVS_ERR_SYS_IO, 0, g) (kvs_open_key_space d (Some n) g)),
     op_close_key_space = (\<lambda>h g. answer (KVS_ERR_SYS_IO, g) (kvs_close_key_space h g)),
     op_get_device_capacity = (\<lambda>d g. case answer (KVS_ERR_SYS_IO, 0, g) (kvs_get_device_capacity percent d g) of
        (r, c, _) \<Rightarrow> (r, c)),
     op_get_device_utilization = (\<lambda>d g. case answer (KVS_ERR_SYS_IO, 0, g) (kvs_get_device_utilization percent d g) of
        (r, u, _) \<Rightarrow> (r, u)),
     op_store_kvp = (\<lambda>h k v st g. answer (KVS_ERR_SYS_IO, g) (kvs_store_kvp h (Some k) (Some v) (Some st) g)),
     op_retrieve_kvp = (\<lambda>h k del v g. case answer (KVS_ERR_SYS_IO, Some v, g)
        (kvs_retrieve_kvp h (Some k) (Some del) (Some v) g) of (r, v', g') \<Rightarrow> (r, the v', g')),
     op_delete_kvp = (\<lambda>h k err g. answer (KVS_ERR_SYS_IO, g) (kvs_delete_kvp h (Some k) (Some err) g)),
     op_exist_kv_pair = (\<lambda>h k g. case answer (KVS_ERR_SYS_IO, [0], g)
        (kvs_exist_kv_pairs h 1 (Some [k]) (Some (1, Some [0])) g) of (r, b, g') \<Rightarrow> (r, hd b, g'))\<rparr>"

section \<open>Sound environments\<close>

definition driver_of :: "nat \<Rightarrow> g_env \<Rightarrow> kv_driver" where
  "driver_of d g = dh_driver (the (dev_table g d))"

definition place_of :: "nat \<Rightarrow> g_env \<Rightarrow> nat \<times> u8" where
  "place_of k g = (kh_dev (ks_of k g), kh_keyspace_id (ks_of k g))"

definition env_ok :: "g_env \<Rightarrow> bool" where
  "env_ok g \<longleftrightarrow>
     (\<forall>d\<in>set (open_devices g). d \<noteq> 0 \<and> dev_table g d \<noteq> None \<and> drv_ok (driver_of d g)) \<and>
     (\<forall>k\<in>set (list_open_ks g). k \<noteq> 0 \<and> ks_table g k \<noteq> None \<and> kh_dev (ks_of k g) \<in> set (open_devices g) \<and>
        unat (kh_keyspace_id (ks_of k g)) < 2) \<and>
     inj_on (\<lambda>k. place_of k g) (set (list_open_ks g))"

definition ks_ready :: "nat \<Rightarrow> g_env \<Rightarrow> bool" where
  "ks_ready k g \<longleftrightarrow> env_ok g \<and> k \<in> set (list_open_ks g)"

definition ks_content :: "nat \<Rightarrow> g_env \<Rightarrow> byte list \<Rightarrow> byte list option" where
  "ks_content k g = emul_content (kh_keyspace_id (ks_of k g)) (drv_emul (driver_of (kh_dev (ks_of k g)) g))"

text \<open>The environment with another driver for one of its devices.\<close>

lemma set_driver_frame [simp]:
  "open_devices (set_driver d drv g) = open_devices g" "list_open_ks (set_driver d drv g) = list_open_ks g"
  "ks_table (set_driver d drv g) = ks_table g" "dev_table (set_driver d drv g) d' = None \<longleftrightarrow> dev_table g d' = None"
  by (simp_all add: set_driver_def)

lemma driver_of_set_driver:
  "dev_table g d \<noteq> None \<Longrightarrow> driver_of d' (set_driver d drv g) = (if d' = d then drv else driver_of d' g)"
  by (auto simp: driver_of_def set_driver_def)

lemma env_ok_set_driver:
  assumes "env_ok g" "dev_table g d \<noteq> None" "drv_ok drv"
  shows "env_ok (set_driver d drv g)"
  using assms driver_of_set_driver [OF assms(2)] by (auto simp: env_ok_def place_of_def)

lemma ks_content_set_driver:
  assumes "dev_table g d \<noteq> None"
  shows "ks_content k (set_driver d drv g) =
    (if kh_dev (ks_of k g) = d then emul_content (kh_keyspace_id (ks_of k g)) (drv_emul drv) else ks_content k g)"
  using driver_of_set_driver [OF assms] by (auto simp: ks_content_def)

text \<open>Open handles of a sound environment.\<close>

lemma openD:
  assumes "env_ok g" "k \<in> set (list_open_ks g)"
  shows "check_key_space_handle k g = KVS_SUCCESS" "unat (kh_keyspace_id (ks_of k g)) < 2"
    "dev_table g (kh_dev (ks_of k g)) \<noteq> None" "drv_ok (driver_of (kh_dev (ks_of k g)) g)"
    "dev_table g (kh_dev (ks_of k g)) = Some dh \<Longrightarrow> dh_driver dh = driver_of (kh_dev (ks_of k g)) g"
  using assms by (fastforce simp: env_ok_def check_key_space_handle_def device_opened_def driver_of_def)+

lemma check_fails:
  assumes "k \<notin> set (list_open_ks g)"
  shows "check_key_space_handle k g \<noteq> KVS_SUCCESS"
  using assms by (simp add: check_key_space_handle_def)

lemma on_driver_open:
  assumes "env_ok g" "k \<in> set (list_open_ks g)"
  shows "on_driver (kh_dev (ks_of k g)) f g =
     map_option (\<lambda>(r, drv). (r, set_driver (kh_dev (ks_of k g)) drv g)) (f (driver_of (kh_dev (ks_of k g)) g))"
  using openD(3) [OF assms] by (auto simp: on_driver_def driver_of_def)

text \<open>The request check of the API is stricter than that of the device.\<close>

lemma request_valid:
  "validate_request k v = KVS_SUCCESS \<Longrightarrow> validate_key_value k v = ADI_SUCCESS"
  by (auto simp: validate_request_def validate_kv_pair_def validate_key_value_def adi_const_defs
      KVS_MIN_KEY_LENGTH_def KVS_MAX_KEY_LENGTH_def KVS_MAX_VALUE_LENGTH_def KVS_ALIGNMENT_UNIT_def Let_def
      split: option.splits if_splits)

lemma good_request:
  "good_key k \<Longrightarrow> validate_request k None = KVS_SUCCESS"
  "good_key k \<Longrightarrow> kv_buf v \<noteq> None \<Longrightarrow> kv_offset v = 0 \<Longrightarrow> unat (kv_length v) \<le> KVS_MAX_VALUE_LENGTH \<Longrightarrow>
     validate_request k (Some v) = KVS_SUCCESS"
  by (auto simp: validate_request_def validate_kv_pair_def good_key_def Let_def)

section \<open>The calls on a sound environment\<close>

text \<open>
  A store is refused without a trace, or it is the emulator's store on the handle's key space.
\<close>

lemma store_kvp_cases:
  assumes "env_ok g"
  obtains (refused) r where "r \<noteq> KVS_SUCCESS" "kvs_store_kvp k (Some kk) (Some v) (Some st) g = Some (r, g)"
    "k \<in> set (list_open_ks g) \<Longrightarrow> validate_request kk (Some v) \<noteq> KVS_SUCCESS"
  | (stored) r c e drv where "k \<in> set (list_open_ks g)" "validate_request kk (Some v) = KVS_SUCCESS"
    "emul_store (kh_keyspace_id (ks_of k g)) kk v (trans_store_cmd_opt st)
       (drv_emul (driver_of (kh_dev (ks_of k g)) g)) = (r, c, e)"
    "kvs_store_kvp k (Some kk) (Some v) (Some st) g =
       Some (convert_code r, set_driver (kh_dev (ks_of k g)) drv g)"
    "drv_ok drv" "drv_emul drv = e"
proof (cases "k \<in> set (list_open_ks g) \<and> validate_request kk (Some v) = KVS_SUCCESS")
  case True
  note h = openD [OF assms conjunct1 [OF True]]
  obtain r c e where st: "emul_store (kh_keyspace_id (ks_of k g)) kk v (trans_store_cmd_opt st)
       (drv_emul (driver_of (kh_dev (ks_of k g)) g)) = (r, c, e)" by (metis prod_cases3)
  obtain drv where "store_tuple (kh_keyspace_id (ks_of k g)) kk v st (driver_of (kh_dev (ks_of k g)) g) =
      Some (convert_code r, drv)" "drv_ok drv" "drv_emul drv = e"
    using store_tuple_valid [OF h(4) request_valid [OF conjunct2 [OF True]] h(2) st] by blast
  then show ?thesis
    using True h(1) st
    by (intro stored [of r c e drv]) (auto simp: on_driver_open [OF assms conjunct1 [OF True]] kvs_store_kvp_def)
next
  case False
  then show ?thesis
    using openD(1) [OF assms, of k] check_fails [of k g] refused
    by (cases "k \<in> set (list_open_ks g)") (auto simp: kvs_store_kvp_def Let_def)
qed

lemma delete_kvp_cases:
  assumes "env_ok g"
  obtains (refused) r where "r \<noteq> KVS_SUCCESS" "kvs_delete_kvp k (Some kk) (Some err) g = Some (r, g)"
    "k \<in> set (list_open_ks g) \<Longrightarrow> validate_request kk None \<noteq> KVS_SUCCESS"
  | (deleted) r c e drv where "k \<in> set (list_open_ks g)" "validate_request kk None = KVS_SUCCESS"
    "emul_delete (kh_keyspace_id (ks_of k g)) kk (if err then KV_DELETE_OPT_ERROR else KV_DELETE_OPT_DEFAULT)
       (drv_emul (driver_of (kh_dev (ks_of k g)) g)) = (r, c, e)"
    "kvs_delete_kvp k (Some kk) (Some err) g =
       Some (convert_code r, set_driver (kh_dev (ks_of k g)) drv g)"
    "drv_ok drv" "drv_emul drv = e"
proof (cases "k \<in> set (list_open_ks g) \<and> validate_request kk None = KVS_SUCCESS")
  case True
  note h = openD [OF assms conjunct1 [OF True]]
  obtain r c e where st: "emul_delete (kh_keyspace_id (ks_of k g)) kk
       (if err then KV_DELETE_OPT_ERROR else KV_DELETE_OPT_DEFAULT)
       (drv_emul (driver_of (kh_dev (ks_of k g)) g)) = (r, c, e)" by (metis prod_cases3)
  obtain drv where "delete_tuple (kh_keyspace_id (ks_of k g)) kk err (driver_of (kh_dev (ks_of k g)) g) =
      Some (convert_code r, drv)" "drv_ok drv" "drv_emul drv = e"
    using delete_tuple_valid [OF h(4) request_valid [OF conjunct2 [OF True]] h(2) st] by blast
  then show ?thesis
    using True h(1) st
    by (intro deleted [of r c e drv]) (auto simp: on_driver_open [OF assms conjunct1 [OF True]] kvs_delete_kvp_def)
next
  case False
  then show ?thesis
    using openD(1) [OF assms, of k] check_fails [of k g] refused
    by (cases "k \<in> set (list_open_ks g)") (auto simp: kvs_delete_kvp_def Let_def)
qed

lemma retrieve_kvp_cases:
  assumes "env_ok g"
  obtains (refused) r where "r \<noteq> KVS_SUCCESS" "kvs_retrieve_kvp k (Some kk) (Some del) (Some v) g = Some (r, Some v, g)"
    "k \<in> set (list_open_ks g) \<Longrightarrow> validate_request kk (Some v) \<noteq> KVS_SUCCESS \<or> kv_length v AND 3 \<noteq> 0"
  | (retrieved) r v' drv where "k \<in> set (list_open_ks g)" "validate_request kk (Some v) = KVS_SUCCESS"
    "emul_retrieve (kh_keyspace_id (ks_of k g)) kk (if del then KV_RETRIEVE_OPT_DELETE else KV_RETRIEVE_OPT_DEFAULT) v
       (drv_emul (driver_of (kh_dev (ks_of k g)) g)) = (r, v')"
    "kvs_retrieve_kvp k (Some kk) (Some del) (Some v) g =
       Some (convert_code r, Some (v'\<lparr>actual_value_size := actual_value_size v' - kv_offset v'\<rparr>),
             set_driver (kh_dev (ks_of k g)) drv g)"
    "drv_ok drv" "drv_emul drv = drv_emul (driver_of (kh_dev (ks_of k g)) g)"
proof (cases "k \<in> set (list_open_ks g) \<and> validate_request kk (Some v) = KVS_SUCCESS \<and> kv_length v AND 3 = 0")
  case True
  note h = openD [OF assms conjunct1 [OF True]]
  obtain r v' where st: "emul_retrieve (kh_keyspace_id (ks_of k g)) kk
       (if del then KV_RETRIEVE_OPT_DELETE else KV_RETRIEVE_OPT_DEFAULT) v
       (drv_emul (driver_of (kh_dev (ks_of k g)) g)) = (r, v')" by (metis prod.exhaust)
  have val: "validate_key_value kk (Some v) = ADI_SUCCESS" using True request_valid by blast
  obtain drv where "retrieve_tuple (kh_keyspace_id (ks_of k g)) kk v del (driver_of (kh_dev (ks_of k g)) g) =
      Some (convert_code r, v'\<lparr>actual_value_size := actual_value_size v' - kv_offset v'\<rparr>, drv)"
      "drv_ok drv" "drv_emul drv = drv_emul (driver_of (kh_dev (ks_of k g)) g)"
    using retrieve_tuple_valid [OF h(4) val h(2) st] by blast
  then show ?thesis
    using True h(1) st
    by (intro retrieved [of r v' drv]) (auto simp: on_driver_open [OF assms conjunct1 [OF True]] kvs_retrieve_kvp_def KVS_VALUE_LENGTH_ALIGNMENT_UNIT_def)
next
  case False
  have "\<exists>r. r \<noteq> KVS_SUCCESS \<and> kvs_retrieve_kvp k (Some kk) (Some del) (Some v) g = Some (r, Some v, g)"
    using False openD(1) [OF assms, of k] check_fails [of k g]
    by (cases "k \<in> set (list_open_ks g)"; cases "validate_request kk (Some v) = KVS_SUCCESS")
      (simp_all add: kvs_retrieve_kvp_def KVS_VALUE_LENGTH_ALIGNMENT_UNIT_def Let_def)
  then show ?thesis using False refused by blast
qed

lemma exist_kvp_cases:
  assumes "env_ok g"
  obtains (refused) r where "r \<noteq> KVS_SUCCESS"
    "kvs_exist_kv_pairs k 1 (Some [kk]) (Some (1, Some [0])) g = Some (r, [0], g)"
    "k \<in> set (list_open_ks g) \<Longrightarrow> validate_request kk None \<noteq> KVS_SUCCESS"
  | (checked) drv where "k \<in> set (list_open_ks g)" "validate_request kk None = KVS_SUCCESS"
    "kvs_exist_kv_pairs k 1 (Some [kk]) (Some (1, Some [0])) g =
       Some (KVS_SUCCESS, [if ks_content k g (key_bytes kk) \<noteq> None then 1 else 0],
             set_driver (kh_dev (ks_of k g)) drv g)"
    "drv_ok drv" "drv_emul drv = drv_emul (driver_of (kh_dev (ks_of k g)) g)"
proof -
  have ve: "validate_each [kk] = validate_request kk None"
    by (simp add: validate_request_def validate_kv_pair_def Let_def split: option.split)
  show ?thesis
  proof (cases "k \<in> set (list_open_ks g) \<and> validate_request kk None = KVS_SUCCESS")
    case True
    note h = openD [OF assms conjunct1 [OF True]]
    have val: "validate_key_value kk None = ADI_SUCCESS" using True request_valid by blast
    obtain drv where "exist_tuple (kh_keyspace_id (ks_of k g)) 1 [kk] 1 [0] (driver_of (kh_dev (ks_of k g)) g) =
        Some (KVS_SUCCESS, [if ks_content k g (key_bytes kk) \<noteq> None then 1 else 0], drv)"
        "drv_ok drv" "drv_emul drv = drv_emul (driver_of (kh_dev (ks_of k g)) g)"
      using exist_tuple_one_valid [OF h(4) val h(2), of 1 0] by (auto simp: ks_content_def)
    then show ?thesis
      using True h(1) ve
      by (intro checked [of drv]) (auto simp: on_driver_open [OF assms conjunct1 [OF True]] kvs_exist_kv_pairs_def)
  next
    case False
    have "\<exists>r. r \<noteq> KVS_SUCCESS \<and> kvs_exist_kv_pairs k 1 (Some [kk]) (Some (1, Some [0])) g = Some (r, [0], g)"
      using False openD(1) [OF assms, of k] check_fails [of k g] ve
      by (cases "k \<in> set (list_open_ks g)"; cases "validate_request kk None = KVS_SUCCESS")
        (simp_all add: kvs_exist_kv_pairs_def Let_def)
    then show ?thesis using False refused by blast
  qed
qed

section \<open>The laws of the library\<close>

lemma emul_ops_simps [simp]:
  "op_store_kvp (emul_ops percent) h k v st g = answer (KVS_ERR_SYS_IO, g) (kvs_store_kvp h (Some k) (Some v) (Some st) g)"
  "op_delete_kvp (emul_ops percent) h k err g = answer (KVS_ERR_SYS_IO, g) (kvs_delete_kvp h (Some k) (Some err) g)"
  "op_retrieve_kvp (emul_ops percent) h k del v g = (case answer (KVS_ERR_SYS_IO, Some v, g)
        (kvs_retrieve_kvp h (Some k) (Some del) (Some v) g) of (r, v', g') \<Rightarrow> (r, the v', g'))"
  "op_exist_kv_pair (emul_ops percent) h k g = (case answer (KVS_ERR_SYS_IO, [0], g)
        (kvs_exist_kv_pairs h 1 (Some [k]) (Some (1, Some [0])) g) of (r, b, g') \<Rightarrow> (r, hd b, g'))"
  by (simp_all add: emul_ops_def)

lemma answer_Some [simp]: "answer d (Some x) = x"
  by (simp add: answer_def)

lemma trans_store_simps [simp]:
  "trans_store_cmd_opt KVS_STORE_POST = KV_STORE_OPT_DEFAULT"
  "trans_store_cmd_opt KVS_STORE_NOOVERWRITE = KV_STORE_OPT_IDEMPOTENT"
  by (simp_all add: trans_store_cmd_opt_def)

lemma other_place:
  assumes "env_ok g" "h \<in> set (list_open_ks g)" "k \<in> set (list_open_ks g)" "h \<noteq> k"
    "kh_dev (ks_of h g) = kh_dev (ks_of k g)"
  shows "kh_keyspace_id (ks_of h g) \<noteq> kh_keyspace_id (ks_of k g)"
  using assms by (auto simp: env_ok_def place_of_def inj_on_def)

lemma open_driver:
  assumes "env_ok g" "k \<in> set (list_open_ks g)"
  shows "emul_ok (drv_emul (driver_of (kh_dev (ks_of k g)) g))"
    "m_capacity (drv_emul (driver_of (kh_dev (ks_of k g)) g)) \<noteq> 0"
  using drv_okD(3,4) [OF openD(4) [OF assms]] by (simp_all add: ns_ok_def)

lemma emul_store_law:
  assumes ok: "env_ok g" and op: "op_store_kvp (emul_ops percent) k kk v st g = (r, g')"
  shows "env_ok g'" "list_open_ks g' = list_open_ks g"
    "k \<in> set (list_open_ks g) \<Longrightarrow> ks_content k g' =
       (if r = KVS_SUCCESS then (ks_content k g)(key_bytes kk \<mapsto> value_bytes v) else ks_content k g)"
    "h \<in> set (list_open_ks g) \<Longrightarrow> h \<noteq> k \<Longrightarrow> ks_content h g' = ks_content h g"
    "k \<in> set (list_open_ks g) \<Longrightarrow> st = KVS_STORE_NOOVERWRITE \<Longrightarrow> ks_content k g (key_bytes kk) \<noteq> None \<Longrightarrow> r \<noteq> KVS_SUCCESS"
proof -
  have "r \<noteq> KVS_SUCCESS \<and> g' = g \<or>
     (\<exists>r' c e drv. k \<in> set (list_open_ks g) \<and> emul_store (kh_keyspace_id (ks_of k g)) kk v (trans_store_cmd_opt st)
       (drv_emul (driver_of (kh_dev (ks_of k g)) g)) = (r', c, e) \<and> r = convert_code r' \<and>
       g' = set_driver (kh_dev (ks_of k g)) drv g \<and> drv_ok drv \<and> drv_emul drv = e)"
    using op by (cases rule: store_kvp_cases [OF ok, of k kk v st]) auto
  then consider (same) "r \<noteq> KVS_SUCCESS" "g' = g"
    | (upd) r' c e drv where "k \<in> set (list_open_ks g)"
      "emul_store (kh_keyspace_id (ks_of k g)) kk v (trans_store_cmd_opt st)
         (drv_emul (driver_of (kh_dev (ks_of k g)) g)) = (r', c, e)" "r = convert_code r'"
      "g' = set_driver (kh_dev (ks_of k g)) drv g" "drv_ok drv" "drv_emul drv = e" by blast
  then have "env_ok g' \<and> list_open_ks g' = list_open_ks g \<and>
     (k \<in> set (list_open_ks g) \<longrightarrow> ks_content k g' =
       (if r = KVS_SUCCESS then (ks_content k g)(key_bytes kk \<mapsto> value_bytes v) else ks_content k g)) \<and>
     (\<forall>h. h \<in> set (list_open_ks g) \<longrightarrow> h \<noteq> k \<longrightarrow> ks_content h g' = ks_content h g) \<and>
     (k \<in> set (list_open_ks g) \<longrightarrow> st = KVS_STORE_NOOVERWRITE \<longrightarrow> ks_content k g (key_bytes kk) \<noteq> None \<longrightarrow> r \<noteq> KVS_SUCCESS)"
  proof cases
    case same
    then show ?thesis using ok by simp
  next
    case upd
    note h = openD [OF ok upd(1)]
    note c = emul_store_content [OF open_driver(1) [OF ok upd(1)] h(2) upd(2)]
    have oth: "ks_content j g' = ks_content j g" if "j \<in> set (list_open_ks g)" "j \<noteq> k" for j
      using other_place [OF ok that(1) upd(1) that(2)] c(2) upd(4,6) ks_content_set_driver [OF h(3)]
      by (auto simp: ks_content_def)
    have own: "ks_content k g' =
       (if r = KVS_SUCCESS then (ks_content k g)(key_bytes kk \<mapsto> value_bytes v) else ks_content k g)"
      using c(1) upd(3,4,6) ks_content_set_driver [OF h(3)] by (simp add: ks_content_def)
    show ?thesis
      using env_ok_set_driver [OF ok h(3) upd(5)] upd(3,4) own oth c(3) by (simp add: ks_content_def)
  qed
  then show "env_ok g'" "list_open_ks g' = list_open_ks g"
    "k \<in> set (list_open_ks g) \<Longrightarrow> ks_content k g' =
       (if r = KVS_SUCCESS then (ks_content k g)(key_bytes kk \<mapsto> value_bytes v) else ks_content k g)"
    "h \<in> set (list_open_ks g) \<Longrightarrow> h \<noteq> k \<Longrightarrow> ks_content h g' = ks_content h g"
    "k \<in> set (list_open_ks g) \<Longrightarrow> st = KVS_STORE_NOOVERWRITE \<Longrightarrow> ks_content k g (key_bytes kk) \<noteq> None \<Longrightarrow> r \<noteq> KVS_SUCCESS"
    by blast+
qed

lemma emul_delete_law:
  assumes ok: "env_ok g" and op: "op_delete_kvp (emul_ops percent) k kk err g = (r, g')"
  shows "env_ok g'" "list_open_ks g' = list_open_ks g"
    "k \<in> set (list_open_ks g) \<Longrightarrow> ks_content k g' =
       (if r = KVS_SUCCESS then (ks_content k g)(key_bytes kk := None) else ks_content k g)"
    "h \<in> set (list_open_ks g) \<Longrightarrow> h \<noteq> k \<Longrightarrow> ks_content h g' = ks_content h g"
proof -
  have "r \<noteq> KVS_SUCCESS \<and> g' = g \<or>
     (\<exists>r' c e drv. k \<in> set (list_open_ks g) \<and> emul_delete (kh_keyspace_id (ks_of k g)) kk
         (if err then KV_DELETE_OPT_ERROR else KV_DELETE_OPT_DEFAULT)
         (drv_emul (driver_of (kh_dev (ks_of k g)) g)) = (r', c, e) \<and> r = convert_code r' \<and>
       g' = set_driver (kh_dev (ks_of k g)) drv g \<and> drv_ok drv \<and> drv_emul drv = e)"
    using op by (cases rule: delete_kvp_cases [OF ok, of k kk err]) auto
  then consider (same) "r \<noteq> KVS_SUCCESS" "g' = g"
    | (upd) r' c e drv where "k \<in> set (list_open_ks g)"
      "emul_delete (kh_keyspace_id (ks_of k g)) kk (if err then KV_DELETE_OPT_ERROR else KV_DELETE_OPT_DEFAULT)
         (drv_emul (driver_of (kh_dev (ks_of k g)) g)) = (r', c, e)" "r = convert_code r'"
      "g' = set_driver (kh_dev (ks_of k g)) drv g" "drv_ok drv" "drv_emul drv = e" by blast
  then have "env_ok g' \<and> list_open_ks g' = list_open_ks g \<and>
     (k \<in> set (list_open_ks g) \<longrightarrow> ks_content k g' =
       (if r = KVS_SUCCESS then (ks_content k g)(key_bytes kk := None) else ks_content k g)) \<and>
     (\<forall>h. h \<in> set (list_open_ks g) \<longrightarrow> h \<noteq> k \<longrightarrow> ks_content h g' = ks_content h g)"
  proof cases
    case same
    then show ?thesis using ok by simp
  next
    case upd
    note h = openD [OF ok upd(1)]
    note c = emul_delete_content [OF open_driver(1) [OF ok upd(1)] h(2) upd(2)]
    have oth: "ks_content j g' = ks_content j g" if "j \<in> set (list_open_ks g)" "j \<noteq> k" for j
      using other_place [OF ok that(1) upd(1) that(2)] c(2) upd(4,6) ks_content_set_driver [OF h(3)]
      by (auto simp: ks_content_def)
    have own: "ks_content k g' =
       (if r = KVS_SUCCESS then (ks_content k g)(key_bytes kk := None) else ks_content k g)"
      using c(1) upd(3,4,6) ks_content_set_driver [OF h(3)] by (simp add: ks_content_def)
    show ?thesis
      using env_ok_set_driver [OF ok h(3) upd(5)] upd(3,4) own oth by simp
  qed
  then show "env_ok g'" "list_open_ks g' = list_open_ks g"
    "k \<in> set (list_open_ks g) \<Longrightarrow> ks_content k g' =
       (if r = KVS_SUCCESS then (ks_content k g)(key_bytes kk := None) else ks_content k g)"
    "h \<in> set (list_open_ks g) \<Longrightarrow> h \<noteq> k \<Longrightarrow> ks_content h g' = ks_content h g"
    by blast+
qed

text \<open>Retrieves and existence checks leave every content alone, deleting retrieves included:
  the emulator refuses them.\<close>

lemma set_same_emul:
  assumes "env_ok g" "k \<in> set (list_open_ks g)" "drv_ok drv"
    "drv_emul drv = drv_emul (driver_of (kh_dev (ks_of k g)) g)"
  shows "env_ok (set_driver (kh_dev (ks_of k g)) drv g)"
    "ks_content h (set_driver (kh_dev (ks_of k g)) drv g) = ks_content h g"
  using env_ok_set_driver [OF assms(1) openD(3) [OF assms(1,2)] assms(3)]
    ks_content_set_driver [OF openD(3) [OF assms(1,2)], of h drv] assms(4) by (simp_all add: ks_content_def)

lemma emul_retrieve_law:
  assumes ok: "env_ok g" and op: "op_retrieve_kvp (emul_ops percent) k kk del v g = (r, v', g')"
  shows "env_ok g'" "list_open_ks g' = list_open_ks g" "ks_content h g' = ks_content h g"
proof -
  have "g' = g \<or> (\<exists>drv. k \<in> set (list_open_ks g) \<and> g' = set_driver (kh_dev (ks_of k g)) drv g \<and> drv_ok drv \<and>
      drv_emul drv = drv_emul (driver_of (kh_dev (ks_of k g)) g))"
    using op by (cases rule: retrieve_kvp_cases [OF ok, of k kk del v]) auto
  then show "env_ok g'" "list_open_ks g' = list_open_ks g" "ks_content h g' = ks_content h g"
    using ok by (elim disjE exE conjE; simp add: set_same_emul)+
qed

lemma emul_exist_law:
  assumes ok: "env_ok g" and op: "op_exist_kv_pair (emul_ops percent) k kk g = (r, b, g')"
  shows "env_ok g'" "list_open_ks g' = list_open_ks g" "ks_content h g' = ks_content h g"
    "r = KVS_SUCCESS \<Longrightarrow> b \<noteq> 0 \<longleftrightarrow> ks_content k g (key_bytes kk) \<noteq> None"
proof -
  have "r \<noteq> KVS_SUCCESS \<and> g' = g \<or> (\<exists>drv. k \<in> set (list_open_ks g) \<and> g' = set_driver (kh_dev (ks_of k g)) drv g \<and>
      drv_ok drv \<and> drv_emul drv = drv_emul (driver_of (kh_dev (ks_of k g)) g) \<and>
      (b \<noteq> 0 \<longleftrightarrow> ks_content k g (key_bytes kk) \<noteq> None))"
    using op by (cases rule: exist_kvp_cases [OF ok, of k kk]) auto
  then show "env_ok g'" "list_open_ks g' = list_open_ks g" "ks_content h g' = ks_content h g"
    "r = KVS_SUCCESS \<Longrightarrow> b \<noteq> 0 \<longleftrightarrow> ks_content k g (key_bytes kk) \<noteq> None"
    using ok by (elim disjE exE conjE; simp add: set_same_emul)+
qed

lemma emul_retrieve_value_law:
  assumes ok: "env_ok g" and k: "k \<in> set (list_open_ks g)" and b: "good_buffer v"
    and op: "op_retrieve_kvp (emul_ops percent) k kk False v g = (KVS_SUCCESS, v', g')"
  shows "\<exists>x. ks_content k g (key_bytes kk) = Some x \<and> length x \<le> unat (kv_length v) \<and>
     value_bytes v' = x \<and> unat (kv_length v') = length x \<and> unat (actual_value_size v') = length x"
proof (cases rule: retrieve_kvp_cases [OF ok, of k kk False v])
  case (1 r)
  then show ?thesis using op by simp
next
  case (2 r v1 drv)
  let ?ks = "kh_keyspace_id (ks_of k g)" and ?e = "drv_emul (driver_of (kh_dev (ks_of k g)) g)"
  note e = open_driver(1) [OF ok k] openD(2) [OF ok k]
  obtain bf where bf: "kv_buf v = Some bf" "kv_offset v = 0" using b by (auto simp: good_buffer_def)
  have r: "emul_retrieve ?ks kk KV_RETRIEVE_OPT_DEFAULT v ?e = (ADI_SUCCESS, v1)"
    and v': "v' = v1\<lparr>actual_value_size := actual_value_size v1 - kv_offset v1\<rparr>"
    using 2 op by auto
  obtain d where d: "emul_content ?ks ?e (key_bytes kk) = Some d"
    using r emul_retrieve_missing [OF e, of kk v] by (cases "emul_content ?ks ?e (key_bytes kk)") auto
  have ud: "unat (of_nat (length d) :: u32) = length d"
    using content_length [OF e d] by (simp add: unat_of_nat take_bit_nat_eq_self)
  have le: "length d \<le> unat (kv_length v)" and v1: "v1 = v\<lparr>kv_buf := Some (d @ drop (length d) bf),
      kv_length := of_nat (length d), actual_value_size := of_nat (length d)\<rparr>"
    using r emul_retrieve_value [OF e bf(2,1) d] by (auto simp: min_def split: if_splits)
  then show ?thesis using d ud v' bf by (auto simp: ks_content_def value_bytes_def)
qed

interpretation emul_library: kvs_library "emul_ops percent" ks_ready ks_content
proof (unfold_locales, goal_cases)
  case (1 h w g k v st r w') then show ?case using emul_store_law(1,2) by (auto simp: ks_ready_def simp del: emul_ops_simps)
next
  case (2 h w k v r w') then show ?case using emul_store_law(3) by (auto simp: ks_ready_def simp del: emul_ops_simps)
next
  case (3 h w k v r w')
  then show ?case using emul_store_law(3,5) unfolding ks_ready_def by blast
next
  case (4 h w g k v st r w')
  then show ?case using emul_store_law(4) unfolding ks_ready_def by blast
next
  case (5 h w g k d v r v' w') then show ?case using emul_retrieve_law(1,2) by (auto simp: ks_ready_def simp del: emul_ops_simps)
next
  case (6 h w g k v r v' w') then show ?case using emul_retrieve_law(3) unfolding ks_ready_def by blast
next
  case (7 h w k v v' w') then show ?case using emul_retrieve_value_law unfolding ks_ready_def by blast
next
  case (8 h w g k e r w') then show ?case using emul_delete_law(1,2) by (auto simp: ks_ready_def simp del: emul_ops_simps)
next
  case (9 h w k e r w') then show ?case using emul_delete_law(3) unfolding ks_ready_def by blast
next
  case (10 h w g k e r w') then show ?case using emul_delete_law(4) unfolding ks_ready_def by blast
next
  case (11 h w g k r b w') then show ?case using emul_exist_law(1,2) by (auto simp: ks_ready_def simp del: emul_ops_simps)
next
  case (12 h w g k r b w') then show ?case using emul_exist_law(3) unfolding ks_ready_def by blast
next
  case (13 h w k b w') then show ?case using emul_exist_law(4) unfolding ks_ready_def by blast
qed

text \<open>The emulator never runs out of space, and fails on no well-formed request.\<close>

lemma convert_code_simps [simp]:
  "convert_return_code 14 = KVS_ERR_VALUE_UPDATE_NOT_ALLOWED"
  "convert_return_code 17 = KVS_ERR_KEY_NOT_EXIST"
  by code_simp+

lemma emul_store_result:
  assumes "ks_ready h w" "good_key k" "good_value v" "unat (kv_length v) \<le> KVS_MAX_VALUE_LENGTH"
  shows "fst (op_store_kvp (emul_ops percent) h k v KVS_STORE_POST w) = KVS_SUCCESS"
    "fst (op_store_kvp (emul_ops percent) h k v KVS_STORE_NOOVERWRITE w) =
       (if ks_content h w (key_bytes k) = None then KVS_SUCCESS else KVS_ERR_VALUE_UPDATE_NOT_ALLOWED)"
proof -
  have w: "env_ok w" "h \<in> set (list_open_ks w)" using assms(1) by (simp_all add: ks_ready_def)
  have v: "validate_request k (Some v) = KVS_SUCCESS"
    using assms(2-4) by (intro good_request) (auto simp: good_value_def)
  note s = emul_store_succeeds [OF open_driver(1) [OF w] openD(2) [OF w] open_driver(2) [OF w], of k v]
  show "fst (op_store_kvp (emul_ops percent) h k v KVS_STORE_POST w) = KVS_SUCCESS"
    using s(1) v w(2) by (cases rule: store_kvp_cases [OF w(1), of h k v KVS_STORE_POST]) auto
  show "fst (op_store_kvp (emul_ops percent) h k v KVS_STORE_NOOVERWRITE w) =
       (if ks_content h w (key_bytes k) = None then KVS_SUCCESS else KVS_ERR_VALUE_UPDATE_NOT_ALLOWED)"
    using s(2) v w(2)
    by (cases rule: store_kvp_cases [OF w(1), of h k v KVS_STORE_NOOVERWRITE]) (auto simp: ks_content_def)
qed

lemma emul_retrieve_result:
  assumes "ks_ready h w" "good_key k" "good_buffer v" "unat (kv_length v) = KVS_MAX_VALUE_LENGTH"
  shows "fst (op_retrieve_kvp (emul_ops percent) h k False v w) =
     (if ks_content h w (key_bytes k) = None then KVS_ERR_KEY_NOT_EXIST else KVS_SUCCESS)"
proof -
  have w: "env_ok w" "h \<in> set (list_open_ks w)" using assms(1) by (simp_all add: ks_ready_def)
  let ?ks = "kh_keyspace_id (ks_of h w)" and ?e = "drv_emul (driver_of (kh_dev (ks_of h w)) w)"
  note e = open_driver(1) [OF w] openD(2) [OF w]
  obtain b where b: "kv_buf v = Some b" "kv_offset v = 0" using assms(3) by (auto simp: good_buffer_def)
  have v: "validate_request k (Some v) = KVS_SUCCESS"
    using assms(2,4) b by (intro good_request) auto
  have l: "kv_length v = 2097152"
    using assms(4) by (simp add: word_unat_eq_iff KVS_MAX_VALUE_LENGTH_def)
  have "fst (emul_retrieve ?ks k KV_RETRIEVE_OPT_DEFAULT v ?e) =
      (if emul_content ?ks ?e (key_bytes k) = None then ADI_ERR_KEY_NOT_EXIST else ADI_SUCCESS)"
  proof (cases "emul_content ?ks ?e (key_bytes k)")
    case None
    then show ?thesis using emul_retrieve_missing [OF e] by simp
  next
    case (Some d)
    then show ?thesis using emul_retrieve_value [OF e b(2,1) Some] content_length [OF e Some] l by simp
  qed
  then show ?thesis
    using v w(2) l
    by (cases rule: retrieve_kvp_cases [OF w(1), of h k False v]) (auto simp: ks_content_def)
qed

lemma emul_delete_exist_result:
  assumes "ks_ready h w" "good_key k"
  shows "fst (op_delete_kvp (emul_ops percent) h k False w) = KVS_SUCCESS"
    "fst (op_exist_kv_pair (emul_ops percent) h k w) = KVS_SUCCESS"
proof -
  have w: "env_ok w" "h \<in> set (list_open_ks w)" using assms(1) by (simp_all add: ks_ready_def)
  have v: "validate_request k None = KVS_SUCCESS" using assms(2) good_request by simp
  have b: "kk_buf k \<noteq> None" using assms(2) by (auto simp: good_key_def)
  show "fst (op_delete_kvp (emul_ops percent) h k False w) = KVS_SUCCESS"
    using emul_delete_succeeds [OF b, of "kh_keyspace_id (ks_of h w)" "drv_emul (driver_of (kh_dev (ks_of h w)) w)"] v w(2)
    by (cases rule: delete_kvp_cases [OF w(1), of h k False]) auto
  show "fst (op_exist_kv_pair (emul_ops percent) h k w) = KVS_SUCCESS"
    using v w(2) by (cases rule: exist_kvp_cases [OF w(1), of h k]) auto
qed

interpretation emul_reliable: reliable_kvs_library "emul_ops percent" ks_ready ks_content
  by unfold_locales (simp_all add: emul_store_result emul_retrieve_result emul_delete_exist_result del: emul_ops_simps)

end
