(* ===== verification/Emul_Open.thy ===== *)
theory Emul_Open
  imports Emul_Library
begin

text \<open>
  Opening devices and key spaces through the API on the emulator: from an environment whose
  host is configured properly and whose allocations succeed, opening a device and its key space,
  creating it first, ends with an open and empty key space and leaves the others alone.
\<close>

section \<open>Calls on one device\<close>

text \<open>The state of one device, and what a call on it may change of the environment.\<close>

definition device_up :: "nat \<Rightarrow> g_env \<Rightarrow> bool" where
  "device_up d g \<longleftrightarrow> dev_table g d \<noteq> None \<and> drv_ok (driver_of d g) \<and> (\<forall>n. malloc_ok g n)"

definition evolves :: "nat \<Rightarrow> g_env \<Rightarrow> g_env \<Rightarrow> bool" where
  "evolves d g g' \<longleftrightarrow> (\<exists>drv n. drv_ok drv \<and> g' = (set_driver d drv g)\<lparr>malloc_count := n\<rparr>)"

abbreviation device_map :: "u8 \<Rightarrow> nat \<Rightarrow> g_env \<Rightarrow> byte list \<Rightarrow> byte list option" where
  "device_map ks d g \<equiv> emul_content ks (drv_emul (driver_of d g))"

lemma set_driver_twice [simp]: "set_driver d a (set_driver d b g) = set_driver d a g"
  by (cases "dev_table g d") (simp_all add: set_driver_def)

lemma set_driver_count [simp]:
  "set_driver d a (g\<lparr>malloc_count := n\<rparr>) = (set_driver d a g)\<lparr>malloc_count := n\<rparr>"
  by (simp add: set_driver_def)

lemma driver_of_count [simp]: "driver_of d (g\<lparr>malloc_count := n\<rparr>) = driver_of d g"
  by (simp add: driver_of_def)

lemma evolves_trans: "evolves d g g1 \<Longrightarrow> evolves d g1 g2 \<Longrightarrow> evolves d g g2"
  unfolding evolves_def by auto blast

lemma evolves_up: "evolves d g g' \<Longrightarrow> device_up d g \<Longrightarrow> device_up d g'"
  by (auto simp: evolves_def device_up_def driver_of_def set_driver_def)

lemma kvs_malloc_up: "device_up d g \<Longrightarrow> kvs_malloc g = (True, g\<lparr>malloc_count := malloc_count g + 1\<rparr>)"
  by (simp add: kvs_malloc_def device_up_def)

lemma count_up [simp]: "device_up d (g\<lparr>malloc_count := n\<rparr>) = device_up d g"
  by (simp add: device_up_def)

text \<open>A call of the driver on the device.\<close>

lemma on_driver_up:
  assumes up: "device_up d g" and f: "f (driver_of d g) = Some (r, drv)" and ok: "drv_ok drv"
  shows "\<exists>g'. on_driver d f (g\<lparr>malloc_count := n\<rparr>) = Some (r, g') \<and> evolves d g g' \<and> driver_of d g' = drv"
proof -
  obtain dh where dh: "dev_table g d = Some dh" using up by (auto simp: device_up_def)
  let ?g = "(set_driver d drv g)\<lparr>malloc_count := n\<rparr>"
  have "on_driver d f (g\<lparr>malloc_count := n\<rparr>) = Some (r, ?g)"
    using dh f by (simp add: on_driver_def driver_of_def)
  moreover have "driver_of d ?g = drv" using dh by (simp add: driver_of_set_driver)
  ultimately show ?thesis using ok unfolding evolves_def by blast
qed

text \<open>The three kinds of access to the metadata key space.\<close>

lemma meta_store:
  assumes up: "device_up d g" and k: "good_key k" and l: "length p \<le> KVS_MAX_VALUE_LENGTH"
    and new: "st = KVS_STORE_POST \<or> st = KVS_STORE_NOOVERWRITE \<and> device_map 0 d g (key_bytes k) = None"
  shows "\<exists>g'. on_driver d (store_tuple META_DATA_KEYSPACE_ID k (mk_value p (length p)) st) (g\<lparr>malloc_count := n\<rparr>) =
       Some (KVS_SUCCESS, g') \<and> evolves d g g' \<and>
     device_map 0 d g' = (device_map 0 d g)(key_bytes k \<mapsto> p) \<and> device_map 1 d g' = device_map 1 d g"
proof -
  let ?drv = "driver_of d g" and ?v = "mk_value p (length p)"
  have ok: "drv_ok ?drv" using up by (simp add: device_up_def)
  note e = drv_okD(4) [OF ok] and ns = drv_okD(3) [OF ok]
  have u: "unat (of_nat (length p) :: u32) = length p"
    using l by (simp add: unat_of_nat take_bit_nat_eq_self KVS_MAX_VALUE_LENGTH_def)
  have v: "validate_key_value k (Some ?v) = ADI_SUCCESS"
    using good_request(2) [OF k, of ?v] l u by (intro request_valid) simp
  obtain r c e' where st: "emul_store 0 k ?v (trans_store_cmd_opt st) (drv_emul ?drv) = (r, c, e')"
    by (metis prod_cases3)
  have "r = ADI_SUCCESS"
    using emul_store_succeeds [OF e, of 0 k ?v] ns new st by (auto simp: ns_ok_def)
  moreover obtain drv' where d': "store_tuple 0 k ?v st ?drv = Some (convert_code r, drv')" "drv_ok drv'" "drv_emul drv' = e'"
    using store_tuple_valid [OF ok v _ st] by auto
  moreover have "value_bytes ?v = p" using u by (simp add: value_bytes_def)
  ultimately show ?thesis
    using on_driver_up [OF up, of "store_tuple 0 k ?v st"] emul_store_content(1,2) [OF e _ st]
    by (fastforce simp: META_DATA_KEYSPACE_ID_def)
qed

lemma meta_exist:
  assumes up: "device_up d g" and k: "good_key k"
  shows "\<exists>g'. on_driver d (\<lambda>drv. map_option (\<lambda>(r, b, drv'). ((r, b), drv'))
        (exist_tuple META_DATA_KEYSPACE_ID 1 [k] 1 [0] drv)) (g\<lparr>malloc_count := n\<rparr>) =
       Some ((KVS_SUCCESS, [if device_map 0 d g (key_bytes k) \<noteq> None then 1 else 0]), g') \<and> evolves d g g' \<and>
     device_map 0 d g' = device_map 0 d g \<and> device_map 1 d g' = device_map 1 d g"
proof -
  let ?drv = "driver_of d g"
  have ok: "drv_ok ?drv" using up by (simp add: device_up_def)
  have v: "validate_key_value k None = ADI_SUCCESS" using good_request(1) [OF k] request_valid by blast
  obtain drv' where d': "exist_tuple 0 1 [k] 1 [0] ?drv =
       Some (KVS_SUCCESS, [if device_map 0 d g (key_bytes k) \<noteq> None then 1 else 0], drv')" "drv_ok drv'"
       "drv_emul drv' = drv_emul ?drv"
    using exist_tuple_one_valid [OF ok v, of 0 1 0] by auto
  then show ?thesis
    using on_driver_up [OF up, of "\<lambda>drv. map_option (\<lambda>(r, b, drv'). ((r, b), drv')) (exist_tuple 0 1 [k] 1 [0] drv)"]
    by (fastforce simp: META_DATA_KEYSPACE_ID_def)
qed

lemma meta_retrieve:
  assumes up: "device_up d g" and k: "good_key k" and l: "0 < l" "l \<le> KVS_MAX_VALUE_LENGTH"
    and fit: "\<forall>x. device_map 0 d g (key_bytes k) = Some x \<longrightarrow> length x \<le> l"
  shows "\<exists>g' v. on_driver d (\<lambda>drv. map_option (\<lambda>(r, v, drv'). ((r, v), drv'))
        (retrieve_tuple META_DATA_KEYSPACE_ID k (mk_value [] l) False drv)) (g\<lparr>malloc_count := n\<rparr>) =
       Some ((if device_map 0 d g (key_bytes k) = None then KVS_ERR_KEY_NOT_EXIST else KVS_SUCCESS, v), g') \<and>
     (device_map 0 d g (key_bytes k) \<noteq> None \<longrightarrow> kv_buf v = device_map 0 d g (key_bytes k) \<and>
        kv_length v = of_nat (length (the (kv_buf v)))) \<and>
     evolves d g g' \<and> device_map 0 d g' = device_map 0 d g \<and> device_map 1 d g' = device_map 1 d g"
proof -
  let ?drv = "driver_of d g" and ?v = "mk_value [] l"
  have ok: "drv_ok ?drv" using up by (simp add: device_up_def)
  note e = drv_okD(4) [OF ok]
  have u: "unat (of_nat l :: u32) = l" using l by (simp add: unat_of_nat take_bit_nat_eq_self KVS_MAX_VALUE_LENGTH_def)
  have v: "validate_key_value k (Some ?v) = ADI_SUCCESS"
    using good_request(2) [OF k, of ?v] l u by (intro request_valid) simp
  obtain r v' where rt: "emul_retrieve 0 k (if False then KV_RETRIEVE_OPT_DELETE else KV_RETRIEVE_OPT_DEFAULT) ?v
      (drv_emul ?drv) = (r, v')" by (metis prod.exhaust)
  obtain drv' where d': "retrieve_tuple 0 k ?v False ?drv =
       Some (convert_code r, v'\<lparr>actual_value_size := actual_value_size v' - kv_offset v'\<rparr>, drv')" "drv_ok drv'"
       "drv_emul drv' = drv_emul ?drv"
    using retrieve_tuple_valid [OF ok v _ rt] by auto
  have "convert_code r = (if device_map 0 d g (key_bytes k) = None then KVS_ERR_KEY_NOT_EXIST else KVS_SUCCESS) \<and>
     (device_map 0 d g (key_bytes k) \<noteq> None \<longrightarrow> kv_buf v' = device_map 0 d g (key_bytes k) \<and>
        kv_length v' = of_nat (length (the (kv_buf v'))))"
  proof (cases "device_map 0 d g (key_bytes k)")
    case None
    then show ?thesis using emul_retrieve_missing [OF e, of 0 k ?v] rt by simp
  next
    case (Some x)
    then have "length x \<le> l" using fit by blast
    then show ?thesis using emul_retrieve_value [OF e _ _ _ Some, of ?v "[]"] rt Some u by auto
  qed
  moreover obtain g' where "on_driver d (\<lambda>drv. map_option (\<lambda>(r, v, drv'). ((r, v), drv'))
        (retrieve_tuple META_DATA_KEYSPACE_ID k ?v False drv)) (g\<lparr>malloc_count := n\<rparr>) =
       Some ((convert_code r, v'\<lparr>actual_value_size := actual_value_size v' - kv_offset v'\<rparr>), g')" "evolves d g g'"
       "driver_of d g' = drv'"
    using on_driver_up [OF up, of "\<lambda>drv. map_option (\<lambda>(r, v, drv'). ((r, v), drv'))
        (retrieve_tuple META_DATA_KEYSPACE_ID k ?v False drv)" _ drv' n] d' by (auto simp: META_DATA_KEYSPACE_ID_def)
  ultimately show ?thesis using d'(3) by (intro exI conjI) (assumption | simp)+
qed

section \<open>The calls on the metadata\<close>

definition name_ok :: "string \<Rightarrow> bool" where
  "name_ok name \<longleftrightarrow> 4 \<le> length name \<and> length name \<le> 255"

abbreviation meta_bytes :: "string \<Rightarrow> byte list" where
  "meta_bytes name \<equiv> key_bytes (meta_key name)"

lemma exist_key_space_entry_up:
  assumes "device_up d g" "name_ok name"
  shows "\<exists>g'. exist_key_space_entry d name g =
       Some (KVS_SUCCESS, if device_map 0 d g (meta_bytes name) \<noteq> None then 1 else 0, g') \<and> evolves d g g' \<and>
     device_map 0 d g' = device_map 0 d g \<and> device_map 1 d g' = device_map 1 d g"
proof -
  have k: "good_key (meta_key name)" using assms(2) by (intro good_meta_key) (simp_all add: name_ok_def)
  show ?thesis
    using meta_exist [OF assms(1) k, of "malloc_count g + 1 + 1"] assms(1)
    by (auto simp: exist_key_space_entry_def kvs_malloc_up)
qed

lemma retrieve_key_space_metadata_up:
  assumes "device_up d g" "name_ok (md_name c)"
    "device_map 0 d g (meta_bytes (md_name c)) = Some (construct_key_space_metadata_payload c')"
  shows "\<exists>g'. retrieve_key_space_metadata d c g = Some (KVS_SUCCESS, c'\<lparr>md_name := md_name c\<rparr>, g') \<and> evolves d g g' \<and>
     device_map 0 d g' = device_map 0 d g \<and> device_map 1 d g' = device_map 1 d g"
proof -
  have k: "good_key (meta_key (md_name c))" using assms(2) by (intro good_meta_key) (simp_all add: name_ok_def)
  have fit: "\<forall>x. device_map 0 d g (meta_bytes (md_name c)) = Some x \<longrightarrow> length x \<le> 28"
    using assms(3) length_metadata_payload [of c'] by (simp add: get_key_space_payload_size_def)
  show ?thesis
    using meta_retrieve [OF assms(1) k _ _ fit, of "malloc_count g + 1 + 1"] assms(1,3)
      parse_constructed_metadata [of c c' "[]"]
    by (auto simp: retrieve_key_space_metadata_def kvs_malloc_up get_key_space_payload_size_def KVS_MAX_VALUE_LENGTH_def)
qed

lemma store_key_space_metadata_up:
  assumes "device_up d g" "name_ok (md_name c)"
    "st = KVS_STORE_POST \<or> st = KVS_STORE_NOOVERWRITE \<and> device_map 0 d g (meta_bytes (md_name c)) = None"
  shows "\<exists>g'. store_key_space_metadata d c st g = Some (KVS_SUCCESS, g') \<and> evolves d g g' \<and>
     device_map 0 d g' = (device_map 0 d g)(meta_bytes (md_name c) \<mapsto> construct_key_space_metadata_payload c) \<and>
     device_map 1 d g' = device_map 1 d g"
proof -
  have k: "good_key (meta_key (md_name c))" using assms(2) by (intro good_meta_key) (simp_all add: name_ok_def)
  show ?thesis
    using meta_store [OF assms(1) k _ assms(3), of "construct_key_space_metadata_payload c" "malloc_count g + 1 + 1"] assms(1)
    by (auto simp: store_key_space_metadata_def kvs_malloc_up length_metadata_payload get_key_space_payload_size_def
        KVS_MAX_VALUE_LENGTH_def)
qed

text \<open>Entering the first key space into the list of a fresh device.\<close>

lemma add_to_key_space_list_up:
  assumes up: "device_up d g" and none: "device_map 0 d g (key_bytes list_key) = None"
  shows "\<exists>g' p. add_to_key_space_list d name 0 g = Some (KVS_SUCCESS, 1, g') \<and> evolves d g g' \<and>
     device_map 0 d g' = (device_map 0 d g)(key_bytes list_key \<mapsto> p) \<and> device_map 1 d g' = device_map 1 d g"
proof -
  obtain g1 where g1: "retrieve_key_space_list d (g\<lparr>malloc_count := malloc_count g + 1\<rparr>) =
        Some (KVS_SUCCESS, calloc_ks_list, g1)" "evolves d g g1"
      "device_map 0 d g1 = device_map 0 d g" "device_map 1 d g1 = device_map 1 d g"
    using meta_retrieve [OF up good_list_key, of 260 "malloc_count g + 1 + 1 + 1"] up none
    by (auto simp: retrieve_key_space_list_def kvs_malloc_up sizeof_ks_list_def meta_const_defs KVS_MAX_VALUE_LENGTH_def)
  note up1 = evolves_up [OF g1(2) up]
  let ?e = "\<lparr>names_buffer = snprintf_s (min (length name) 255 + 1) name @
      drop (length (snprintf_s (min (length name) 255 + 1) name)) (replicate 256 0), entry_keyspace_id = 1\<rparr>"
  let ?l = "\<lparr>ks_num = 1, entries = [?e]\<rparr>"
  have "length (construct_key_space_list_payload ?l) \<le> KVS_MAX_VALUE_LENGTH"
    by (simp add: construct_key_space_list_payload_def construct_entry_def KVS_MAX_VALUE_LENGTH_def meta_const_defs
        del: replicate_numeral)
  then obtain g2 where "store_key_space_list d ?l g1 = Some (KVS_SUCCESS, g2)" "evolves d g1 g2"
      "device_map 0 d g2 = (device_map 0 d g1)(key_bytes list_key \<mapsto> construct_key_space_list_payload ?l)"
      "device_map 1 d g2 = device_map 1 d g1"
    using meta_store [OF up1 good_list_key, of "construct_key_space_list_payload ?l" KVS_STORE_POST "malloc_count g1 + 1 + 1"] up1
    by (auto simp: store_key_space_list_def kvs_malloc_up Let_def simp del: replicate_numeral)
  moreover have "add_to_key_space_list d name 0 g = map_option (\<lambda>(r, g3). (r, if r = KVS_SUCCESS then 1 else 0, g3))
      (store_key_space_list d ?l g1)"
    using g1(1) up
    by (simp add: add_to_key_space_list_def kvs_malloc_up calloc_ks_list_def meta_const_defs Let_def
        search_an_available_keyspace_id_def del: replicate_numeral)
  ultimately have "add_to_key_space_list d name 0 g = Some (KVS_SUCCESS, 1, g2)" "evolves d g1 g2"
      "device_map 0 d g2 = (device_map 0 d g)(key_bytes list_key \<mapsto> construct_key_space_list_payload ?l)"
      "device_map 1 d g2 = device_map 1 d g"
    using g1(3,4) by (simp_all del: replicate_numeral)
  then show ?thesis using evolves_trans [OF g1(2)] by blast
qed

section \<open>Key spaces\<close>

text \<open>The first key space of a fresh device.\<close>

lemma kvs_create_key_space_up:
  assumes up: "device_up d g" and d: "d \<noteq> 0" "d \<in> set (open_devices g)" and n: "name_ok name"
    and fresh: "device_map 0 d g = Map.empty" and ne: "meta_bytes name \<noteq> key_bytes list_key"
  shows "\<exists>g' c. kvs_create_key_space d (Some (name, of_nat (length name))) sz KVS_KEY_ORDER_NONE g = Some (KVS_SUCCESS, g') \<and>
     evolves d g g' \<and> device_map 0 d g' (meta_bytes name) = Some (construct_key_space_metadata_payload c) \<and>
     md_keyspace_id c = 1 \<and> device_map 1 d g' = device_map 1 d g"
proof -
  obtain g1 p where g1: "add_to_key_space_list d name 0 g = Some (KVS_SUCCESS, 1, g1)" "evolves d g g1"
      "device_map 0 d g1 = (device_map 0 d g)(key_bytes list_key \<mapsto> p)" "device_map 1 d g1 = device_map 1 d g"
    using add_to_key_space_list_up [OF up, of name] fresh by auto
  let ?c = "\<lparr>md_keyspace_id = 1, md_opened = 0, md_key_order = key_order_code KVS_KEY_ORDER_NONE, md_capacity = sz,
        md_free_size = 0, md_kv_count = 0, md_name = name\<rparr>"
  obtain g2 where g2: "store_key_space_metadata d ?c KVS_STORE_NOOVERWRITE g1 = Some (KVS_SUCCESS, g2)" "evolves d g1 g2"
      "device_map 0 d g2 = (device_map 0 d g1)(meta_bytes name \<mapsto> construct_key_space_metadata_payload ?c)"
      "device_map 1 d g2 = device_map 1 d g1"
    using store_key_space_metadata_up [OF evolves_up [OF g1(2) up], of ?c KVS_STORE_NOOVERWRITE] n g1(3) fresh ne by auto
  have "kvs_create_key_space d (Some (name, of_nat (length name))) sz KVS_KEY_ORDER_NONE g = Some (KVS_SUCCESS, g2)"
    using d n g1(1) g2(1)
    by (auto simp: kvs_create_key_space_def create_key_space_entry_def name_ok_def device_opened_def MAX_KEYSPACE_NAME_LEN_def)
  moreover have "md_keyspace_id ?c = 1" by simp
  ultimately show ?thesis
    using evolves_trans [OF g1(2) g2(2)] g2(3,4) g1(4) by (metis fun_upd_same)
qed

definition opened_ks :: "nat \<Rightarrow> string \<Rightarrow> g_env \<Rightarrow> g_env" where
  "opened_ks d name g = g\<lparr>next_handle := next_handle g + 1,
     ks_table := (ks_table g)(next_handle g \<mapsto> \<lparr>kh_keyspace_id = 1, kh_dev = d, kh_name = name\<rparr>),
     dev_table := (dev_table g)(d := map_option (dh_open_ks_update (\<lambda>l. l @ [next_handle g])) (dev_table g d)),
     list_open_ks := list_open_ks g @ [next_handle g]\<rparr>"

lemma kvs_open_key_space_up:
  assumes up: "device_up d g" and d: "d \<noteq> 0" "d \<in> set (open_devices g)" and n: "name_ok name"
    and o: "\<not> key_space_name_opened d name g"
  shows "device_map 0 d g (meta_bytes name) = None \<Longrightarrow>
      \<exists>g'. kvs_open_key_space d (Some name) g = Some (KVS_ERR_KS_NOT_EXIST, 0, g') \<and> evolves d g g' \<and>
        device_map 0 d g' = device_map 0 d g \<and> device_map 1 d g' = device_map 1 d g" (is "PROP ?A")
    "device_map 0 d g (meta_bytes name) = Some (construct_key_space_metadata_payload c) \<Longrightarrow> md_keyspace_id c = 1 \<Longrightarrow>
      \<exists>g'. kvs_open_key_space d (Some name) g = Some (KVS_SUCCESS, next_handle g', opened_ks d name g') \<and> evolves d g g' \<and>
        device_map 1 d g' = device_map 1 d g" (is "PROP ?B")
proof -
  obtain g1 where g1: "exist_key_space_entry d name g =
       Some (KVS_SUCCESS, if device_map 0 d g (meta_bytes name) \<noteq> None then 1 else 0, g1)" "evolves d g g1"
     "device_map 0 d g1 = device_map 0 d g" "device_map 1 d g1 = device_map 1 d g"
    using exist_key_space_entry_up [OF up n] by blast
  have chk: "kvs_open_key_space d (Some name) g = (if device_map 0 d g (meta_bytes name) = None then Some (KVS_ERR_KS_NOT_EXIST, 0, g1)
     else case open_key_space d name (g1\<lparr>malloc_count := malloc_count g1 + 1\<rparr>) of None \<Rightarrow> None
       | Some (r, ks, g3) \<Rightarrow> if r \<noteq> KVS_SUCCESS then Some (r, 0, g3)
         else (let (k, g4) = new_handle g3 in Some (KVS_SUCCESS, k,
                  g4\<lparr>ks_table := (ks_table g4)(k \<mapsto> \<lparr>kh_keyspace_id = ks, kh_dev = d, kh_name = name\<rparr>),
                    dev_table := (dev_table g4)(d := map_option (dh_open_ks_update (\<lambda>l. l @ [k])) (dev_table g4 d)),
                    list_open_ks := list_open_ks g4 @ [k]\<rparr>)))"
    using d n o g1(1) kvs_malloc_up [OF evolves_up [OF g1(2) up]]
    by (auto simp: kvs_open_key_space_def name_ok_def device_opened_def KVS_MIN_KEY_LENGTH_def KVS_MAX_KEY_LENGTH_def
        MAX_CONT_PATH_LEN_def)
  show "PROP ?A" using chk g1 by auto
  show "PROP ?B"
  proof -
    assume m: "device_map 0 d g (meta_bytes name) = Some (construct_key_space_metadata_payload c)" and id: "md_keyspace_id c = 1"
    let ?g1 = "g1\<lparr>malloc_count := malloc_count g1 + 1\<rparr>"
    have up1: "device_up d ?g1" using evolves_up [OF g1(2) up] by simp
    obtain g2 where g2: "retrieve_key_space_metadata d (no_metadata name) ?g1 = Some (KVS_SUCCESS, c\<lparr>md_name := name\<rparr>, g2)"
        "evolves d ?g1 g2" "device_map 0 d g2 = device_map 0 d g1" "device_map 1 d g2 = device_map 1 d g1"
      using retrieve_key_space_metadata_up [OF up1, of "no_metadata name" c] n m g1(3) by auto
    obtain g3 where g3: "store_key_space_metadata d (c\<lparr>md_name := name, md_opened := 1\<rparr>) KVS_STORE_POST g2 = Some (KVS_SUCCESS, g3)"
        "evolves d g2 g3" "device_map 1 d g3 = device_map 1 d g2"
      using store_key_space_metadata_up [OF evolves_up [OF g2(2) up1], of "c\<lparr>md_name := name, md_opened := 1\<rparr>" KVS_STORE_POST] n by auto
    have ev: "evolves d g g3"
      using g1(2) evolves_trans [OF g2(2) g3(2)] by (auto simp: evolves_def) blast
    have "open_key_space d name ?g1 = Some (KVS_SUCCESS, 1, g3)"
      using g2(1) g3(1) id by (simp add: open_key_space_def)
    then have "kvs_open_key_space d (Some name) g = Some (KVS_SUCCESS, next_handle g3, opened_ks d name g3)"
      using chk m by (simp add: new_handle_def opened_ks_def)
    then show ?thesis using ev g1(4) g2(4) g3(3) by auto
  qed
qed

section \<open>Devices\<close>

text \<open>
  A host on which devices can be opened: the configuration file that the settings lead to is
  there, asks for interrupts, and gives a queue depth that fits its 16-bit field.
\<close>

definition device_config_ok :: "host \<Rightarrow> string \<Rightarrow> bool" where
  "device_config_ok h f \<longleftrightarrow> (case kv_device_internal (config_of h f) False of
      None \<Rightarrow> False | Some d \<Rightarrow> \<not> m_is_poll d \<and> d_capacity d \<noteq> 0)"

definition host_ok :: "host \<Rightarrow> bool" where
  "host_ok h \<longleftrightarrow>
     (let opts = init_env_from_cfgfile h (init_env_from_environ h init_default_option);
          f = opt_emul_config_file opts in
      file_exists h f \<and> file_readable h f \<and> 0 < sint (opt_queuedepth opts) \<and> sint (opt_queuedepth opts) < 65536 \<and>
      device_config_ok h (take 255 f))"

text \<open>An environment in which the next device can be opened.\<close>

definition env_inv :: "g_env \<Rightarrow> bool" where
  "env_inv g \<longleftrightarrow> env_ok g \<and> (\<forall>n. malloc_ok g n) \<and> 0 < next_handle g \<and>
     (\<forall>d\<in>set (open_devices g). d < next_handle g) \<and> (\<forall>k\<in>set (list_open_ks g). k < next_handle g) \<and>
     g_is_polling g = 0 \<and> host_ok (env_host g) \<and>
     (g_initialized g \<longrightarrow> 0 < g_queuedepth g \<and> g_queuedepth g < 65536 \<and> device_config_ok (env_host g) (configfile g))"

lemma init_env_inv:
  assumes "env_inv g"
  shows "\<exists>q f. init_env g = (KVS_SUCCESS, g\<lparr>g_initialized := True, g_queuedepth := q, configfile := f\<rparr>) \<and>
    0 < q \<and> q < 65536 \<and> device_config_ok (env_host g) f"
proof (cases "g_initialized g")
  case True
  then have "init_env g = (KVS_SUCCESS, g\<lparr>g_initialized := True, g_queuedepth := g_queuedepth g, configfile := configfile g\<rparr>)"
    by (simp add: init_env_def)
  then show ?thesis using assms True unfolding env_inv_def by blast
next
  case False
  let ?opts = "init_env_from_cfgfile (env_host g) (init_env_from_environ (env_host g) init_default_option)"
  have c: "opt_max_cachesize_mb ?opts = 0"
    by (simp add: init_env_from_cfgfile_def init_env_from_environ_def init_default_option_def Let_def split: option.split)
  have h: "file_exists (env_host g) (opt_emul_config_file ?opts)" "file_readable (env_host g) (opt_emul_config_file ?opts)"
      "0 < sint (opt_queuedepth ?opts)" "sint (opt_queuedepth ?opts) < 65536"
      "device_config_ok (env_host g) (take 255 (opt_emul_config_file ?opts))"
    using assms by (simp_all add: env_inv_def host_ok_def Let_def)
  then have "opt_queuedepth ?opts \<noteq> 0" by auto
  then have "init_env g = (KVS_SUCCESS, g\<lparr>g_initialized := True, g_queuedepth := sint (opt_queuedepth ?opts),
      configfile := take 255 (opt_emul_config_file ?opts)\<rparr>)"
    using False h(1,2) c by (simp add: init_env_def kvs_init_env_def Let_def word_gt_0)
  then show ?thesis using h by blast
qed

definition path_ok :: "string \<Rightarrow> bool" where
  "path_ok p \<longleftrightarrow> 0 < length p \<and> length p < 256"

definition opened_dev :: "kv_driver \<Rightarrow> string \<Rightarrow> g_env \<Rightarrow> g_env" where
  "opened_dev drv p g = g\<lparr>next_handle := next_handle g + 1,
     dev_table := (dev_table g)(next_handle g \<mapsto> \<lparr>dh_driver = drv, dh_path = p, dh_open_ks = []\<rparr>),
     open_devices := open_devices g @ [next_handle g]\<rparr>"

lemma kvs_open_device_inv:
  assumes inv: "env_inv g" and p: "path_ok p" "\<not> path_opened p g"
  shows "\<exists>drv g1 c. kvs_open_device (Some p) g = Some (KVS_SUCCESS, next_handle g, opened_dev drv p g1) \<and> drv_ok drv \<and>
     drv_emul drv = kv_emulator c \<and> env_inv g1 \<and>
     next_handle g1 = next_handle g \<and> dev_table g1 = dev_table g \<and> open_devices g1 = open_devices g \<and>
     list_open_ks g1 = list_open_ks g \<and> ks_table g1 = ks_table g"
proof -
  obtain q f where i: "init_env g = (KVS_SUCCESS, g\<lparr>g_initialized := True, g_queuedepth := q, configfile := f\<rparr>)"
      "0 < q" "q < 65536" "device_config_ok (env_host g) f" using init_env_inv [OF inv] by blast
  let ?g0 = "g\<lparr>g_initialized := True, g_queuedepth := q, configfile := f\<rparr>"
  obtain dev where dev: "kv_device_internal (config_of (env_host g) f) False = Some dev" "\<not> m_is_poll dev" "d_capacity dev \<noteq> 0"
    using i(4) by (auto simp: device_config_ok_def split: option.splits)
  obtain drv where drv: "drv_init (config_of (env_host g) f) q 0 (static_qid g) = Some (KVS_SUCCESS, drv, static_qid g + 2)"
      "drv_ok drv" "drv_emul drv = kv_emulator (d_capacity dev)" using drv_init_ok [OF dev i(2,3)] by blast
  let ?g1 = "?g0\<lparr>static_qid := static_qid g + 2, malloc_count := malloc_count g + 2, opened_device_num := opened_device_num g + 1\<rparr>"
  have po: "path_opened p ?g0 = path_opened p g" by (simp add: path_opened_def)
  have ok: "malloc_ok g n" "g_is_polling g = 0" for n using inv by (simp_all add: env_inv_def)
  have "kvs_open_device (Some p) g = Some (KVS_SUCCESS, next_handle g, opened_dev drv p ?g1)"
    using i(1) p drv(1) po ok by (simp add: kvs_open_device_def path_ok_def MAX_DEV_PATH_LEN_def kvs_malloc_def new_handle_def
        opened_dev_def)
  moreover have "env_inv ?g1" using inv i
    by (simp add: env_inv_def env_ok_def driver_of_def place_of_def)
  ultimately show ?thesis using drv(2,3) by (intro exI [of _ drv] exI [of _ ?g1] exI [of _ "d_capacity dev"]) simp
qed

section \<open>A device with its key space\<close>

text \<open>The environment after a device has been opened and a key space on it.\<close>

definition with_ks :: "string \<Rightarrow> kv_driver \<Rightarrow> nat \<Rightarrow> kv_driver \<Rightarrow> string \<Rightarrow> g_env \<Rightarrow> g_env" where
  "with_ks name drv' n drv p g =
     opened_ks (next_handle g) name ((set_driver (next_handle g) drv' (opened_dev drv p g))\<lparr>malloc_count := n\<rparr>)"

lemma with_ks_simps:
  "open_devices (with_ks name drv' n drv p g) = open_devices g @ [next_handle g]"
  "list_open_ks (with_ks name drv' n drv p g) = list_open_ks g @ [next_handle g + 1]"
  "dev_table (with_ks name drv' n drv p g) = (dev_table g)(next_handle g \<mapsto>
     \<lparr>dh_driver = drv', dh_path = p, dh_open_ks = [next_handle g + 1]\<rparr>)"
  "ks_table (with_ks name drv' n drv p g) = (ks_table g)(next_handle g + 1 \<mapsto>
     \<lparr>kh_keyspace_id = 1, kh_dev = next_handle g, kh_name = name\<rparr>)"
  "next_handle (with_ks name drv' n drv p g) = next_handle g + 2"
  "malloc_ok (with_ks name drv' n drv p g) = malloc_ok g" "g_is_polling (with_ks name drv' n drv p g) = g_is_polling g"
  "env_host (with_ks name drv' n drv p g) = env_host g" "g_initialized (with_ks name drv' n drv p g) = g_initialized g"
  "g_queuedepth (with_ks name drv' n drv p g) = g_queuedepth g" "configfile (with_ks name drv' n drv p g) = configfile g"
  by (simp_all add: with_ks_def opened_ks_def opened_dev_def set_driver_def)

lemma with_ks_env_inv:
  assumes inv: "env_inv g" and ok: "drv_ok drv'"
  shows "env_inv (with_ks name drv' n drv p g)"
    "ks_content (next_handle g + 1) (with_ks name drv' n drv p g) = emul_content 1 (drv_emul drv')"
    "h \<in> set (list_open_ks g) \<Longrightarrow> ks_content h (with_ks name drv' n drv p g) = ks_content h g"
    "path_opened q (with_ks name drv' n drv p g) \<longleftrightarrow> path_opened q g \<or> q = p"
proof -
  let ?g = "with_ks name drv' n drv p g" and ?d = "next_handle g"
  have b: "d < ?d" if "d \<in> set (open_devices g)" for d using inv that by (auto simp: env_inv_def)
  have k: "h < ?d" "kh_dev (ks_of h g) \<in> set (open_devices g)" if "h \<in> set (list_open_ks g)" for h
    using inv that by (auto simp: env_inv_def env_ok_def)
  have drv: "driver_of x ?g = (if x = ?d then drv' else driver_of x g)" for x
    by (simp add: driver_of_def with_ks_simps)
  have pl: "place_of h ?g = place_of h g" if "h \<in> set (list_open_ks g)" for h
    using k(1) [OF that] by (simp add: place_of_def with_ks_simps)
  have ne: "place_of (?d + 1) ?g \<noteq> place_of h ?g" if "h \<in> set (list_open_ks g)" for h
  proof -
    have "place_of (?d + 1) ?g = (?d, 1)" by (simp add: place_of_def with_ks_simps)
    moreover have "fst (place_of h g) \<noteq> ?d" using b [OF k(2) [OF that]] by (simp add: place_of_def)
    ultimately show ?thesis using pl [OF that] by (metis fst_conv)
  qed
  have "inj_on (\<lambda>h. place_of h g) (set (list_open_ks g))" using inv by (simp add: env_inv_def env_ok_def)
  then have "inj_on (\<lambda>h. place_of h ?g) (set (list_open_ks g))" by (simp add: inj_on_def pl)
  then have "inj_on (\<lambda>h. place_of h ?g) (insert (?d + 1) (set (list_open_ks g)))"
    using ne by (simp add: inj_on_insert image_iff)
  moreover have "set (list_open_ks ?g) = insert (?d + 1) (set (list_open_ks g))" by (simp add: with_ks_simps)
  ultimately have "inj_on (\<lambda>h. place_of h ?g) (set (list_open_ks ?g))" by simp
  moreover have "\<forall>d\<in>set (open_devices ?g). d \<noteq> 0 \<and> dev_table ?g d \<noteq> None \<and> drv_ok (driver_of d ?g)"
    unfolding drv using inv ok b by (auto simp: env_inv_def env_ok_def with_ks_simps)
  moreover have "\<forall>h\<in>set (list_open_ks ?g). h \<noteq> 0 \<and> ks_table ?g h \<noteq> None \<and> kh_dev (ks_of h ?g) \<in> set (open_devices ?g) \<and>
        unat (kh_keyspace_id (ks_of h ?g)) < 2"
    using inv k(1) by (auto simp: env_inv_def env_ok_def with_ks_simps)
  ultimately have "env_ok ?g" unfolding env_ok_def by blast
  then show "env_inv ?g" using inv by (fastforce simp: env_inv_def with_ks_simps)
  show "ks_content (?d + 1) ?g = emul_content 1 (drv_emul drv')" by (simp add: ks_content_def drv) (simp add: with_ks_simps)
  show "ks_content h ?g = ks_content h g" if "h \<in> set (list_open_ks g)"
    using k [OF that] b [OF k(2) [OF that]] by (simp add: ks_content_def drv) (simp add: with_ks_simps)
  have "dev_table ?g d = dev_table g d" if "d \<in> set (open_devices g)" for d
    using b [OF that] by (simp add: with_ks_simps)
  then have "list_ex (\<lambda>d. map_option dh_path (dev_table ?g d) = Some q) (open_devices g) = path_opened q g"
    by (simp add: path_opened_def list_ex_iff cong: bex_cong)
  then show "path_opened q ?g \<longleftrightarrow> path_opened q g \<or> q = p" by (auto simp: path_opened_def with_ks_simps)
qed

lemma emul_content_new: "unat ks < 2 \<Longrightarrow> emul_content ks (kv_emulator c) = Map.empty"
  by (auto simp: emul_content_def kv_emulator_def adi_const_defs nth_Cons' less_2_cases_iff)

text \<open>
  The sequence of API calls by which the engine opens a device: open it, fail to open its key
  space, create the key space, open it.
\<close>

lemma open_device_and_ks:
  assumes inv: "env_inv g" and p: "path_ok p" "\<not> path_opened p g"
    and n: "name_ok name" "meta_bytes name \<noteq> key_bytes list_key"
  shows "\<exists>d k g1 g2 g3 g'. kvs_open_device (Some p) g = Some (KVS_SUCCESS, d, g1) \<and>
     kvs_open_key_space d (Some name) g1 = Some (KVS_ERR_KS_NOT_EXIST, 0, g2) \<and>
     kvs_create_key_space d (Some (name, of_nat (length name))) 0 KVS_KEY_ORDER_NONE g2 = Some (KVS_SUCCESS, g3) \<and>
     kvs_open_key_space d (Some name) g3 = Some (KVS_SUCCESS, k, g') \<and>
     env_inv g' \<and> k \<notin> set (list_open_ks g) \<and> list_open_ks g' = list_open_ks g @ [k] \<and> ks_content k g' = Map.empty \<and>
     (\<forall>h\<in>set (list_open_ks g). ks_content h g' = ks_content h g) \<and>
     (\<forall>q. path_opened q g' \<longleftrightarrow> path_opened q g \<or> q = p)"
proof -
  obtain drv g0 c where o: "kvs_open_device (Some p) g = Some (KVS_SUCCESS, next_handle g, opened_dev drv p g0)" "drv_ok drv"
      "drv_emul drv = kv_emulator c" "env_inv g0" "next_handle g0 = next_handle g" "dev_table g0 = dev_table g"
      "open_devices g0 = open_devices g" "list_open_ks g0 = list_open_ks g" "ks_table g0 = ks_table g"
    using kvs_open_device_inv [OF inv p] by blast
  let ?d = "next_handle g" and ?g1 = "opened_dev drv p g0"
  have d: "?d \<noteq> 0" using inv by (simp add: env_inv_def)
  have g1: "device_up ?d ?g1" "device_map 0 ?d ?g1 = Map.empty" "device_map 1 ?d ?g1 = Map.empty" "?d \<in> set (open_devices ?g1)"
      "\<not> key_space_name_opened ?d name ?g1"
    using o(2-5) by (simp_all add: device_up_def opened_dev_def driver_of_def env_inv_def emul_content_new key_space_name_opened_def)
  have keep: "?d \<in> set (open_devices y) \<and> \<not> key_space_name_opened ?d name y" if "evolves ?d ?g1 y" for y
    using that g1(4,5) o(5) by (auto simp: evolves_def opened_dev_def key_space_name_opened_def set_driver_def)
  obtain g2 where g2: "kvs_open_key_space ?d (Some name) ?g1 = Some (KVS_ERR_KS_NOT_EXIST, 0, g2)" "evolves ?d ?g1 g2"
      "device_map 0 ?d g2 = Map.empty" "device_map 1 ?d g2 = Map.empty"
    using kvs_open_key_space_up(1) [OF g1(1) d g1(4) n(1) g1(5)] g1(2,3) by auto
  obtain g3 cm where g3: "kvs_create_key_space ?d (Some (name, of_nat (length name))) 0 KVS_KEY_ORDER_NONE g2 = Some (KVS_SUCCESS, g3)"
      "evolves ?d g2 g3" "device_map 0 ?d g3 (meta_bytes name) = Some (construct_key_space_metadata_payload cm)"
      "md_keyspace_id cm = 1" "device_map 1 ?d g3 = Map.empty"
    using kvs_create_key_space_up [OF evolves_up [OF g2(2) g1(1)] d _ n(1) g2(3) n(2)] keep [OF g2(2)] g2(4) by metis
  have ev3: "evolves ?d ?g1 g3" using evolves_trans [OF g2(2) g3(2)] .
  obtain g4 where g4: "kvs_open_key_space ?d (Some name) g3 = Some (KVS_SUCCESS, next_handle g4, opened_ks ?d name g4)" "evolves ?d g3 g4"
      "device_map 1 ?d g4 = Map.empty"
    using kvs_open_key_space_up(2) [OF evolves_up [OF ev3 g1(1)] d _ n(1) _ g3(3,4)] keep [OF ev3] g3(5) by auto
  obtain drv' m where dm: "drv_ok drv'" "g4 = (set_driver ?d drv' ?g1)\<lparr>malloc_count := m\<rparr>"
    using evolves_trans [OF ev3 g4(2)] by (auto simp: evolves_def)
  then have "opened_ks ?d name g4 = with_ks name drv' m drv p g0" "next_handle g4 = ?d + 1"
    using o(5) by (simp_all add: with_ks_def) (simp add: opened_dev_def set_driver_def)
  moreover have "emul_content 1 (drv_emul drv') = Map.empty"
    using g4(3) dm(2) o(5) by (simp add: driver_of_def set_driver_def opened_dev_def)
  moreover have "path_opened q g0 = path_opened q g" "h \<in> set (list_open_ks g) \<Longrightarrow> ks_content h g0 = ks_content h g" for q h
    using o(6-9) by (simp_all add: path_opened_def ks_content_def driver_of_def)
  moreover have "?d + 1 \<notin> set (list_open_ks g)" using inv by (auto simp: env_inv_def)
  ultimately show ?thesis
    using o(1) g2(1) g3(1) g4(1) with_ks_env_inv [OF o(4) dm(1), where name = name and n = m and drv = drv and p = p] o(5,8)
    by (intro exI conjI) (assumption | simp add: with_ks_simps(2))+
qed

end
