(* ===== verification/Engine_Emulator.thy ===== *)
theory Engine_Emulator
  imports Emul_Open
begin

text \<open>
  The engine on the emulator, end to end: initialisation opens every configured device and its
  key space through the API, and from then on the engine is the map it promises to be.
\<close>

section \<open>Opening the devices of an engine\<close>

lemma emul_open_simps [simp]:
  "op_open_device (emul_ops percent) p g = answer (KVS_ERR_SYS_IO, 0, g) (kvs_open_device (Some p) g)"
  "op_open_key_space (emul_ops percent) d n g = answer (KVS_ERR_SYS_IO, 0, g) (kvs_open_key_space d (Some n) g)"
  "op_create_key_space (emul_ops percent) d n g = answer (KVS_ERR_SYS_IO, g)
     (kvs_create_key_space d (Some (n, of_nat (length n))) 0 KVS_KEY_ORDER_NONE g)"
  by (simp_all add: emul_ops_def)

lemma ks_name_ok:
  assumes "i < 8"
  shows "name_ok (ks_name i)" "meta_bytes (ks_name i) \<noteq> key_bytes list_key"
proof -
  have d: "decimal i = [char_of (48 + i)]" using assms by (subst decimal.simps) simp
  show "name_ok (ks_name i)" by (simp add: name_ok_def ks_name_def d)
  have "length (meta_bytes (ks_name i)) = 16"
    using meta_key_bytes [of "ks_name i"] by (simp add: ks_name_def d)
  moreover have "length (key_bytes list_key) = 15"
    by (simp add: key_bytes_def list_key_def snprintf_s_def KEY_SPACE_LIST_KEY_NAME_def c_bytes_def)
  ultimately show "meta_bytes (ks_name i) \<noteq> key_bytes list_key" by auto
qed

text \<open>A device context whose key space is open and empty.\<close>

definition fresh_ctx :: "g_env \<Rightarrow> kv_device_ctx_t \<Rightarrow> bool" where
  "fresh_ctx g c \<longleftrightarrow> healthy c \<and> hnd (dc_keyspace c) \<in> set (list_open_ks g) \<and> ks_content (hnd (dc_keyspace c)) g = Map.empty"

definition open_ctx :: "nat \<Rightarrow> nat \<Rightarrow> cstr \<Rightarrow> kv_device_ctx_t" where
  "open_ctx d k dp = \<lparr>dc_device = Some d, dc_keyspace = Some k, dc_path = dp, healthy = True, consecutive_errors = 0,
      total_errors = 0, dc_total_ops = 0, max_consecutive_errors = 10\<rparr>"

lemma engine_open_emul:
  assumes inv: "env_inv g" and p: "path_ok p" "\<not> path_opened p g" and i: "i < 8"
  shows "\<exists>d k g'. kv_engine_open_device (emul_ops percent) ctx p i m g =
       (KV_SUCCESS, open_ctx d k (fst (strdup p m)), snd (strdup p m), g') \<and> env_inv g' \<and>
     fresh_ctx g' (open_ctx d k (fst (strdup p m))) \<and> k \<notin> set (list_open_ks g) \<and> (\<forall>x. fresh_ctx g x \<longrightarrow> fresh_ctx g' x) \<and>
     (\<forall>q. path_opened q g' \<longleftrightarrow> path_opened q g \<or> q = p)"
proof -
  obtain d k g1 g2 g3 g' where o: "kvs_open_device (Some p) g = Some (KVS_SUCCESS, d, g1)"
     "kvs_open_key_space d (Some (ks_name i)) g1 = Some (KVS_ERR_KS_NOT_EXIST, 0, g2)"
     "kvs_create_key_space d (Some (ks_name i, of_nat (length (ks_name i)))) 0 KVS_KEY_ORDER_NONE g2 = Some (KVS_SUCCESS, g3)"
     "kvs_open_key_space d (Some (ks_name i)) g3 = Some (KVS_SUCCESS, k, g')"
     "env_inv g'" "k \<notin> set (list_open_ks g)" "list_open_ks g' = list_open_ks g @ [k]" "ks_content k g' = Map.empty"
     "\<forall>h\<in>set (list_open_ks g). ks_content h g' = ks_content h g" "\<forall>q. path_opened q g' \<longleftrightarrow> path_opened q g \<or> q = p"
    using open_device_and_ks [OF inv p ks_name_ok [OF i]] by blast
  obtain dp m' where dp: "strdup p m = (dp, m')" by fastforce
  have "kv_engine_open_device (emul_ops percent) ctx p i m g = (KV_SUCCESS, open_ctx d k dp, m', g')"
    using o(1-4) dp by (simp add: kv_engine_open_device_def open_ctx_def)
  moreover have "fresh_ctx g' (open_ctx d k dp)" using o(7,8) by (simp add: fresh_ctx_def hnd_def open_ctx_def)
  moreover have "\<forall>x. fresh_ctx g x \<longrightarrow> fresh_ctx g' x" using o(7,9) by (simp add: fresh_ctx_def)
  ultimately show ?thesis using o(5,6,10) dp by (intro exI [of _ d] exI [of _ k] exI [of _ g']) simp
qed

abbreviation ctx_handles :: "kv_device_ctx_t list \<Rightarrow> nat list" where
  "ctx_handles cs \<equiv> map (\<lambda>c. hnd (dc_keyspace c)) cs"

lemma open_all_emul:
  assumes "env_inv g" "distinct ps" "\<forall>p\<in>set ps. path_ok p \<and> \<not> path_opened p g"
    "length cs + length ps \<le> 8" "\<forall>c\<in>set cs. fresh_ctx g c" "distinct (ctx_handles cs)"
  shows "\<exists>cs' m' g'. open_all (emul_ops percent) ps cs m g = (KV_SUCCESS, cs', m', g') \<and> env_inv g' \<and>
     length cs' = length cs + length ps \<and> (\<forall>c\<in>set cs'. fresh_ctx g' c) \<and> distinct (ctx_handles cs')"
  using assms
proof (induction ps arbitrary: cs m g)
  case (Cons p ps)
  obtain d k g1 where o: "kv_engine_open_device (emul_ops percent) zero_ctx p (length cs) m g =
        (KV_SUCCESS, open_ctx d k (fst (strdup p m)), snd (strdup p m), g1)"
      "env_inv g1" "fresh_ctx g1 (open_ctx d k (fst (strdup p m)))" "k \<notin> set (list_open_ks g)"
      "\<forall>x. fresh_ctx g x \<longrightarrow> fresh_ctx g1 x" "\<forall>q. path_opened q g1 \<longleftrightarrow> path_opened q g \<or> q = p"
    using engine_open_emul [OF Cons.prems(1), of p "length cs" percent zero_ctx m] Cons.prems(3,4) by auto
  let ?c = "open_ctx d k (fst (strdup p m))"
  have "hnd (dc_keyspace ?c) \<notin> set (ctx_handles cs)"
    using Cons.prems(5) o(4) by (auto simp: fresh_ctx_def open_ctx_def hnd_def)
  then have "distinct (ctx_handles (cs @ [?c]))" using Cons.prems(6) by auto
  then show ?case using Cons.IH [OF o(2), of "cs @ [?c]" "snd (strdup p m)"] Cons.prems o(1,3,5,6) by auto
qed auto

section \<open>Initialisation\<close>

lemma emul_init_success:
  assumes "kv_engine_init ops os True (Some cfg) s = (KV_SUCCESS, s')"
  shows "\<exists>ps m0 ctxs m1 e. kv_engine_resolve_device_paths cfg = (KV_SUCCESS, ps) \<and>
     open_all ops ps [] m0 (lib s) = (KV_SUCCESS, ctxs, m1, lib s') \<and> engine s' = Some e \<and> initialized e \<and>
     devices e = ctxs @ replicate (KV_MAX_DEVICES - length ctxs) zero_ctx \<and> num_devices e = of_nat (length ctxs) \<and>
     ht_head (key_table e) = []"
  using assms
  by (auto simp: kv_engine_init_def create_table_def Let_def split: prod.splits if_splits; blast)

lemma emul_init_connected:
  assumes init: "kv_engine_init (emul_ops percent) os True (Some cfg) s = (KV_SUCCESS, s')"
    and cfg: "length (device_paths cfg) = KV_MAX_DEVICES"
    and env: "env_inv (lib s)"
    and ps: "kv_engine_resolve_device_paths cfg = (KV_SUCCESS, ps)" "distinct ps"
      "\<forall>p\<in>set ps. path_ok p \<and> \<not> path_opened p (lib s)"
  shows "\<exists>e. engine s' = Some e \<and> connected ks_ready e (lib s') \<and> engine_map ks_content e (lib s') = Map.empty"
proof -
  obtain m0 ctxs m1 e where i: "open_all (emul_ops percent) ps [] m0 (lib s) = (KV_SUCCESS, ctxs, m1, lib s')"
     "engine s' = Some e" "devices e = ctxs @ replicate (KV_MAX_DEVICES - length ctxs) zero_ctx"
     "num_devices e = of_nat (length ctxs)"
    using emul_init_success [OF init] ps(1) by auto
  have l: "0 < length ps" "length ps \<le> 8" using resolve_success [OF ps(1) cfg] by (simp_all add: KV_MAX_DEVICES_def)
  have o: "env_inv (lib s')" "length ctxs = length ps" "\<forall>c\<in>set ctxs. fresh_ctx (lib s') c" "distinct (ctx_handles ctxs)"
    using open_all_emul [OF env ps(2,3), of "[]" percent m0] i(1) l(2) by auto
  have n: "unat (num_devices e) = length ctxs" using i(4) o(2) l by (simp add: unat_of_nat take_bit_nat_eq_self)
  have h: "handle_at e j = ctx_handles ctxs ! j" if "j < length ctxs" for j
    using that i(3) by (simp add: handle_at_def nth_append)
  have d: "devices_ok e" using i(3) n l o(2) by (simp add: devices_ok_def KV_MAX_DEVICES_def)
  have f: "fresh_ctx (lib s') (ctxs ! j)" if "j < length ctxs" for j using o(3) that by auto
  have "connected ks_ready e (lib s')"
    unfolding connected_def n
    using d h f o(1,4) by (auto simp: ks_ready_def env_inv_def fresh_ctx_def distinct_conv_nth)
  moreover have "ks_content (handle_of e k) (lib s') k = None" for k
    using shard_index_bound [OF d, of k "of_nat (length k)"] h f n by (simp add: handle_of_def fresh_ctx_def)
  ultimately show ?thesis using i(2) by (auto simp: engine_map_def)
qed

section \<open>A concrete start\<close>

text \<open>A host without settings of its own, and an engine with one device on it.\<close>

definition demo_host :: host where
  "demo_host = \<lparr>getenv = (\<lambda>_. None), file_exists = (\<lambda>_. True), file_readable = (\<lambda>_. True), config_of = (\<lambda>_ _ _. [])\<rparr>"

definition demo_config :: kv_engine_config_t where
  "demo_config = \<lparr>device_path = Some ''/dev/kv0'', emul_config_file = None, memory_pool_size = 4096, queue_depth = 64,
     num_worker_threads = 0, enable_stats = 0, device_paths = replicate 8 None, cfg_num_devices = 0, dma_pool_count = 0\<rparr>"

definition demo_start :: "g_env sys" where
  "demo_start = \<lparr>engine = None,
     heap = \<lparr>live = (\<lambda>_. None), proposals = [4096, 8192, 12288, 16384, 20480, 24576, 28672, 32768], bad_free = False\<rparr>,
     lib = initial_env demo_host (\<lambda>_. True)\<rparr>"

definition demo_os :: os_answers where
  "demo_os = \<lparr>os_threads = [], os_mutex_init = 0, os_probe_thread = True\<rparr>"

lemma demo_env_inv: "env_inv (lib demo_start)"
  by (simp add: demo_start_def env_inv_def env_ok_def initial_env_def host_ok_def demo_host_def device_config_ok_def
      init_env_from_cfgfile_def init_env_from_environ_def init_default_option_def kv_device_internal_def atoi_def
      digits_value_def configured_capacity_def GB_def strcasecmp_eq_def Let_def)

definition demo_put :: kv_call where
  "demo_put = Put (c_bytes ''key1'') (4096, c_bytes ''value'') True"

lemma emul_demo_init:
  "\<exists>s0. kv_engine_init (emul_ops percent) demo_os True (Some demo_config) demo_start = (KV_SUCCESS, s0) \<and>
     served demo_put s0"
proof -
  let ?m = "\<lparr>live = [4096 \<mapsto> sizeof_kv_engine, 8192 \<mapsto> length ''/dev/kv0'' + 1], proposals = [12288, 16384, 20480, 24576, 28672, 32768],
     bad_free = False\<rparr>" and ?p = "''/dev/kv0''"
  have ne: "\<not> path_opened ?p (lib demo_start)" by (simp add: path_opened_def demo_start_def initial_env_def)
  obtain d k g where o: "kv_engine_open_device (emul_ops percent) zero_ctx ?p 0 ?m (lib demo_start) =
      (KV_SUCCESS, open_ctx d k (fst (strdup ?p ?m)), snd (strdup ?p ?m), g)"
    using engine_open_emul [OF demo_env_inv _ ne, of 0 percent zero_ctx ?m] by (auto simp: path_ok_def)
  have h: "heap demo_start = \<lparr>live = (\<lambda>_. None), proposals = [4096, 8192, 12288, 16384, 20480, 24576, 28672, 32768],
      bad_free = False\<rparr>" by (simp add: demo_start_def)
  show ?thesis
    using o
    by (simp add: h kv_engine_init_def demo_config_def demo_os_def malloc_def strdup_opt_def strdup_def
        kv_engine_resolve_device_paths_def memory_pool_create_def health_probe_create_def create_table_def
        demo_put_def accepted_key_def key_ok_def open_ctx_def put_room_def note_key_def add_key_def key_in_table_def
        hash_find_def shard_index_def kv_engine_shard_for_key_def IS_DMA_ALIGNED_def DMA_ALIGNMENT_def c_bytes_def
        KVS_MAX_VALUE_LENGTH_def KV_MAX_DEVICES_def)
qed

section \<open>Properties\<close>

text \<open>
  What the theorems assume of the start: the library has not been used for these devices yet,
  the paths are proper and different, and initialisation succeeds.
\<close>

definition good_start :: "kv_engine_config_t \<Rightarrow> g_env \<Rightarrow> bool" where
  "good_start cfg g \<longleftrightarrow> env_inv g \<and> length (device_paths cfg) = KV_MAX_DEVICES \<and>
     (let (r, ps) = kv_engine_resolve_device_paths cfg in
      r = KV_SUCCESS \<and> distinct ps \<and> list_all (\<lambda>p. path_ok p \<and> \<not> path_opened p g) ps)"

lemma good_start_connected:
  assumes "good_start cfg (lib s)" "kv_engine_init (emul_ops percent) os True (Some cfg) s = (KV_SUCCESS, s')"
  shows "\<exists>e. engine s' = Some e \<and> connected ks_ready e (lib s') \<and> engine_map ks_content e (lib s') = Map.empty"
  using emul_init_connected [OF assms(2)] assms(1)
  by (cases "kv_engine_resolve_device_paths cfg") (auto simp: good_start_def list_all_iff)

lemma demo_good_start: "good_start demo_config (lib demo_start)"
  using demo_env_inv
  by (simp add: good_start_def demo_config_def kv_engine_resolve_device_paths_def KV_MAX_DEVICES_def path_ok_def)
    (simp add: path_opened_def demo_start_def initial_env_def)





end
