(* ===== verification/Emul_Iterator.thy ===== *)
theory Emul_Iterator
  imports Kvs_Api
begin

text \<open>
  Iteration over a key group on the emulator.  The emulator keeps its keys ordered by the word
  that their first four bytes form, and an iteration step stops at the first key that does not
  match.  For a mask that selects leading bits of that word this loses nothing: a client that
  asks for more until it is told that there is no more sees every key of the group exactly
  once.  The masks that the API accepts select leading bits of the key instead, and between the
  API and the emulator the bytes are swapped, which keeps the meaning of the filter but not the
  shape of its mask.
\<close>

section \<open>Masks\<close>

lemma bit_NOT_mask: "bit (NOT (mask j) :: u32) n \<longleftrightarrow> n < 32 \<and> j \<le> n"
  by (auto simp: bit_simps)

lemma valid_bitmask_iff: "is_valid_bitmask m \<longleftrightarrow> (\<exists>j\<le>32. m = NOT (mask j))"
proof
  define P where "P = (\<lambda>i. bit m (31 - i))"
  define cnt where "cnt = length (takeWhile P [0 ..< 32])"
  assume v: "is_valid_bitmask m"
  have c: "cnt \<le> 32" using length_takeWhile_le [of P "[0 ..< 32]"] by (simp add: cnt_def)
  have one: "P i" if "i < cnt" for i
  proof -
    have "takeWhile P [0 ..< 32] ! i \<in> set (takeWhile P [0 ..< 32])" using that by (intro nth_mem) (simp add: cnt_def)
    moreover have "takeWhile P [0 ..< 32] ! i = i" using that c by (simp add: cnt_def takeWhile_nth)
    ultimately show ?thesis using set_takeWhileD by metis
  qed
  have zero: "\<not> P i" if "cnt \<le> i" "i < 32" for i
  proof (cases "i = cnt")
    case True
    then show ?thesis using nth_length_takeWhile [of P "[0 ..< 32]"] that by (simp add: cnt_def)
  next
    case False
    have "\<forall>i\<in>{Suc cnt ..< 32}. \<not> bit m (31 - i)"
      using v that by (auto simp: is_valid_bitmask_def Let_def list_all_iff P_def [symmetric] cnt_def [symmetric] split: if_splits)
    then show ?thesis using that False by (simp add: P_def)
  qed
  have "m = NOT (mask (32 - cnt))"
  proof (rule bit_word_eqI)
    fix n assume "n < LENGTH(32)"
    then have n: "n < 32" by simp
    have "bit m n \<longleftrightarrow> P (31 - n)" using n by (simp add: P_def)
    also have "\<dots> \<longleftrightarrow> 31 - n < cnt" using one [of "31 - n"] zero [of "31 - n"] n by linarith
    also have "\<dots> \<longleftrightarrow> 32 - cnt \<le> n" using n by linarith
    finally show "bit m n \<longleftrightarrow> bit (NOT (mask (32 - cnt)) :: u32) n" using n by (simp add: bit_NOT_mask)
  qed
  then show "\<exists>j\<le>32. m = NOT (mask j)" using c by (intro exI [of _ "32 - cnt"]) simp
next
  assume "\<exists>j\<le>32. m = NOT (mask j)"
  then obtain j where j: "j \<le> 32" "m = NOT (mask j)" by blast
  have b: "bit m (31 - i) \<longleftrightarrow> i < 32 - j" if "i < 32" for i
    using that j by (auto simp: bit_NOT_mask)
  have "takeWhile (\<lambda>i. bit m (31 - i)) [0 ..< 32] = take (32 - j) [0 ..< 32]"
  proof (rule takeWhile_eq_take_P_nth)
    fix i assume "i < 32 - j" "i < length [0 ..< 32]"
    then show "bit m (31 - [0 ..< 32] ! i)" using b [of i] by simp
  next
    assume "32 - j < length [0 ..< 32]"
    then show "\<not> bit m (31 - [0 ..< 32] ! (32 - j))" using b [of "32 - j"] by simp
  qed
  then have "length (takeWhile (\<lambda>i. bit m (31 - i)) [0 ..< 32]) = 32 - j" using j by simp
  then show "is_valid_bitmask m" using b by (auto simp: is_valid_bitmask_def Let_def list_all_iff)
qed

text \<open>C22: The two scanning loops of \<open>_is_valid_bitmask\<close> decide exactly whether the ones of a mask
  are its leading bits: they accept a word if and only if it is the complement of a mask of its
  low \<open>j\<close> bits for some \<open>j\<close> up to 32.  No mask and all thirty-two bits are accepted.\<close>

theorem is_valid_bitmask_leading_ones:
  "is_valid_bitmask m \<longleftrightarrow> (\<exists>j. j \<le> 32 \<and> m = NOT (mask j))"
  using valid_bitmask_iff [of m] by blast

text \<open>Cutting off low bits is monotone.\<close>

lemma unat_and_NOT_mask: "unat (w AND NOT (mask j) :: u32) = unat w div 2 ^ j * 2 ^ j"
proof -
  have "w AND NOT (mask j) = push_bit j (drop_bit j w)"
    by (rule bit_word_eqI) (auto simp: bit_simps)
  moreover have "unat (push_bit j (drop_bit j w)) = unat w div 2 ^ j * 2 ^ j"
  proof -
    have "unat w div 2 ^ j * 2 ^ j \<le> unat w" by simp
    also have "unat w < 2 ^ 32" using unsigned_less [of w, where ?'a = nat] by simp
    finally have "unat w div 2 ^ j * 2 ^ j < 2 ^ 32" .
    moreover have "unat (push_bit j (drop_bit j w)) = take_bit 32 (push_bit j (drop_bit j (unat w)))"
      using unsigned_less [of w, where ?'a = nat]
      by (simp add: unsigned_push_bit_eq unsigned_drop_bit_eq take_bit_nat_eq_self)
    ultimately show ?thesis by (simp add: push_bit_nat_def drop_bit_nat_def take_bit_nat_eq_self)
  qed
  ultimately show ?thesis by simp
qed

lemma valid_mask_mono:
  assumes "is_valid_bitmask m" "v \<le> w"
  shows "v AND m \<le> w AND m" "w AND m \<le> w" "(w AND m) AND m = w AND m"
proof -
  obtain j where j: "m = NOT (mask j)" using assms(1) by (auto simp: valid_bitmask_iff)
  have "unat v div 2 ^ j \<le> unat w div 2 ^ j" using assms(2) by (simp add: word_le_nat_alt div_le_mono)
  then show "v AND m \<le> w AND m" "w AND m \<le> w"
    by (simp_all add: word_le_nat_alt j unat_and_NOT_mask)
  show "(w AND m) AND m = w AND m" by (simp add: and.assoc)
qed

section \<open>A group is contiguous\<close>

lemma takeWhile_eq_filter:
  "sorted_wrt (\<lambda>p q. Q q \<longrightarrow> Q p) xs \<Longrightarrow> takeWhile Q xs = filter Q xs"
  by (induction xs) (auto simp: filter_empty_conv)

lemma filter_Not_dropWhile:
  "takeWhile Q xs = filter Q xs \<Longrightarrow> filter (\<lambda>p. \<not> Q p) xs = dropWhile Q xs"
proof (induction xs)
  case (Cons x xs)
  show ?case
  proof (cases "Q x")
    case False
    then have "filter Q xs = []" using Cons.prems by simp
    then show ?thesis using False by (simp add: filter_empty_conv filter_id_conv)
  qed (use Cons in simp)
qed simp

lemma takeWhile_take_drop:
  "k \<le> length (takeWhile P xs) \<Longrightarrow> takeWhile P xs = take k xs @ takeWhile P (drop k xs)"
proof (induction xs arbitrary: k)
  case (Cons x xs)
  then show ?case by (cases k) (auto split: if_splits)
qed simp

definition group_start :: "kv_group_condition \<Rightarrow> byte list" where
  "group_start c = to_le 4 (unat (bit_pattern c AND bitmask c))"

lemma prefix_word_start [simp]: "prefix_word (to_le 4 (unat w)) = w"
proof -
  have "unat w < 2 ^ 32" using unsigned_less [of w, where ?'a = nat] by simp
  then have "unat (prefix_word (to_le 4 (unat w))) = unat w" by (simp add: unat_prefix_word)
  then show ?thesis by (simp add: word_unat_eq_iff)
qed

lemma prefix_word_mono: "CmpEmulPrefix a b \<Longrightarrow> prefix_word a \<le> prefix_word b"
  by (auto simp: CmpEmulPrefix_def Let_def split: if_splits)

lemma start_less: "length k \<ge> 4 \<Longrightarrow> CmpEmulPrefix k (to_le 4 (unat w)) \<longleftrightarrow> prefix_word k < w"
  by (auto simp: CmpEmulPrefix_def Let_def simp del: to_le.simps)

lemma matches_iff: "matches c k \<longleftrightarrow> prefix_word k AND bitmask c = bit_pattern c AND bitmask c"
  by (auto simp: matches_def)

lemma group_contiguous:
  assumes v: "is_valid_bitmask (bitmask c)" and m: "map_ordered CmpEmulPrefix m"
    and l: "\<forall>p\<in>set m. 4 \<le> length (fst p)"
  defines "M \<equiv> \<lambda>p :: byte list \<times> byte list. matches c (fst p)"
  shows "filter M (before CmpEmulPrefix (group_start c) m) = []"
    and "takeWhile M (lower_bound CmpEmulPrefix (group_start c) m) = filter M m"
    and "before CmpEmulPrefix (group_start c) m @ dropWhile M (lower_bound CmpEmulPrefix (group_start c) m) =
      filter (\<lambda>p. \<not> M p) m"
proof -
  let ?b = "before CmpEmulPrefix (group_start c) m" and ?l = "lower_bound CmpEmulPrefix (group_start c) m"
  let ?w = "bit_pattern c AND bitmask c"
  have ml: "?b @ ?l = m" by (rule before_lower_bound)
  then have len: "4 \<le> length (fst p)" if "p \<in> set ?b \<union> set ?l" for p
    using l that set_append [of ?b ?l] by simp
  have "\<not> M p" if "p \<in> set ?b" for p
  proof -
    have "prefix_word (fst p) < ?w"
      using key_order.ordered_parts(1) [OF m, of "group_start c"] that len [of p]
      by (auto simp: group_start_def start_less)
    moreover have "prefix_word (fst p) AND bitmask c \<le> prefix_word (fst p)"
      using valid_mask_mono(2) [OF v order_refl] .
    ultimately show ?thesis by (auto simp: M_def matches_iff)
  qed
  then show b: "filter M ?b = []" by (simp add: filter_empty_conv)
  have up: "?w \<le> prefix_word (fst p)" if "p \<in> set ?l" for p
    using key_order.ordered_parts(2) [OF m, of "group_start c"] that len [of p]
    by (auto simp: group_start_def start_less)
  have "sorted_wrt (\<lambda>p q. CmpEmulPrefix (fst p) (fst q)) ?l"
    using m sorted_wrt_append [of _ ?b ?l] by (simp add: ml map_ordered_def)
  then have "sorted_wrt (\<lambda>p q. M q \<longrightarrow> M p) ?l"
  proof (rule sorted_wrt_mono_rel [rotated], intro impI)
    fix p q assume p: "p \<in> set ?l" "q \<in> set ?l" "CmpEmulPrefix (fst p) (fst q)" and q: "M q"
    have "prefix_word (fst p) AND bitmask c \<le> prefix_word (fst q) AND bitmask c"
      using valid_mask_mono(1) [OF v prefix_word_mono [OF p(3)]] .
    moreover have "?w \<le> prefix_word (fst p) AND bitmask c"
      using valid_mask_mono(1) [OF v up [OF p(1)]] by (simp only: valid_mask_mono(3) [OF v order_refl])
    ultimately show "M p" using q by (auto simp: M_def matches_iff)
  qed
  then have t: "takeWhile M ?l = filter M ?l" by (rule takeWhile_eq_filter)
  moreover have "filter M m = filter M ?b @ filter M ?l"
    using filter_append [of M ?b ?l] by (simp only: ml)
  ultimately show "takeWhile M ?l = filter M m" using b by simp
  have "filter (\<lambda>p. \<not> M p) ?l = dropWhile M ?l" by (rule filter_Not_dropWhile [OF t])
  moreover have "filter (\<lambda>p. \<not> M p) ?b = ?b" using b by (simp add: filter_empty_conv filter_id_conv)
  moreover have "filter (\<lambda>p. \<not> M p) m = filter (\<lambda>p. \<not> M p) ?b @ filter (\<lambda>p. \<not> M p) ?l"
    using filter_append [of "\<lambda>p. \<not> M p" ?b ?l] by (simp only: ml)
  ultimately show "?b @ dropWhile M ?l = filter (\<lambda>p. \<not> M p) m" by simp
qed

section \<open>One step\<close>

abbreviation group_of :: "kv_group_condition \<Rightarrow> emulator_map \<Rightarrow> emulator_map" where
  "group_of c ps \<equiv> takeWhile (\<lambda>p. matches c (fst p)) ps"

lemma next_loop_spec:
  "next_loop c fixed incl room ps buf n = (buf', n', rest, ended, saved) \<Longrightarrow>
     \<exists>k\<le>length (group_of c ps). buf' = buf @ concat (map (entry_bytes fixed incl) (take k ps)) \<and>
       n' = n + k \<and> rest = drop k ps \<and> (ended \<longleftrightarrow> k = length (group_of c ps)) \<and>
       saved = (if k = length (group_of c ps) then None else Some (fst (ps ! k))) \<and>
       (length buf \<le> room \<longrightarrow> length buf' \<le> room) \<and>
       (k < length (group_of c ps) \<longrightarrow> room < length buf' + length (entry_bytes fixed incl (ps ! k)))"
proof (induction ps arbitrary: buf n)
  case Nil
  then show ?case by simp
next
  case (Cons p ps)
  let ?E = "entry_bytes fixed incl"
  consider (other) "\<not> matches c (fst p)" | (full) "matches c (fst p)" "length buf + length (?E p) > room"
    | (fits) "matches c (fst p)" "length buf + length (?E p) \<le> room" by linarith
  then show ?case
  proof cases
    case other
    then show ?thesis using Cons.prems by (intro exI [of _ 0]) auto
  next
    case full
    then show ?thesis using Cons.prems by (intro exI [of _ 0]) auto
  next
    case fits
    let ?g = "length (group_of c ps)"
    have "next_loop c fixed incl room ps (buf @ ?E p) (Suc n) = (buf', n', rest, ended, saved)"
      using Cons.prems fits by simp
    from Cons.IH [OF this] obtain k where k: "k \<le> ?g"
      "buf' = (buf @ ?E p) @ concat (map ?E (take k ps))" "n' = Suc n + k" "rest = drop k ps"
      "ended \<longleftrightarrow> k = ?g" "saved = (if k = ?g then None else Some (fst (ps ! k)))"
      "length (buf @ ?E p) \<le> room \<longrightarrow> length buf' \<le> room"
      "k < ?g \<longrightarrow> room < length buf' + length (?E (ps ! k))" by blast
    then show ?thesis using fits by (intro exI [of _ "Suc k"]) simp
  qed
qed

text \<open>An open iterator that has the elements \<open>ps\<close> before it and \<open>pre\<close> behind it.\<close>

definition iterating :: "kv_iterator_handle \<Rightarrow> iterator_state \<Rightarrow> emulator_map \<Rightarrow> emulator_map \<Rightarrow> emulator \<Rightarrow> bool" where
  "iterating h iH pre ps e \<longleftrightarrow>
     h \<noteq> 0 \<and> map_ordered (<) (m_it_map e) \<and> map_find (<) (uint h) (m_it_map e) = Some iH \<and>
     unat (it_ksid iH) < length (m_map e) \<and> map_ordered CmpEmulPrefix (pre @ ps) \<and>
     key_map (it_ksid iH) e = pre @ ps \<and>
     before CmpEmulPrefix (current_key iH) (pre @ ps) = pre \<and>
     lower_bound CmpEmulPrefix (current_key iH) (pre @ ps) = ps"

abbreviation with_values :: "iterator_state \<Rightarrow> bool" where
  "with_values iH \<equiv> it_op iH = KV_ITERATOR_OPT_KV \<or> it_op iH = KV_ITERATOR_OPT_KV_WITH_DELETE"

abbreviation iter_entries :: "iterator_state \<Rightarrow> emulator_map \<Rightarrow> byte list" where
  "iter_entries iH ps \<equiv> concat (map (entry_bytes (has_fixed_keylen iH) (with_values iH)) ps)"

lemma iterating_moved:
  assumes o: "map_ordered CmpEmulPrefix (pre @ ps)" and k: "k < length ps"
    and pre': "pre' = (if del then pre else pre @ take k ps)"
  shows "map_ordered CmpEmulPrefix (pre' @ drop k ps)"
    "before CmpEmulPrefix (fst (ps ! k)) (pre' @ drop k ps) = pre'"
    "lower_bound CmpEmulPrefix (fst (ps ! k)) (pre' @ drop k ps) = drop k ps"
proof -
  have "map_ordered CmpEmulPrefix (pre @ take k ps @ drop k ps)" using o by simp
  then show m: "map_ordered CmpEmulPrefix (pre' @ drop k ps)"
    by (auto simp: pre' map_ordered_def sorted_wrt_append simp del: append_take_drop_id)
  have d: "drop k ps = ps ! k # drop (Suc k) ps" using k by (simp add: Cons_nth_drop_Suc)
  show "before CmpEmulPrefix (fst (ps ! k)) (pre' @ drop k ps) = pre'"
    "lower_bound CmpEmulPrefix (fst (ps ! k)) (pre' @ drop k ps) = drop k ps"
    using key_order.ordered_split [of pre' "ps ! k" "drop (Suc k) ps"] m by (simp_all add: d)
qed

lemma next_set_step:
  assumes it: "iterating h iH pre ps e"
    and fit: "\<forall>p\<in>set ps. length (entry_bytes (has_fixed_keylen iH) (with_values iH) p) \<le> unat (it_size l)"
  obtains k e' where "k \<le> length (group_of (it_cond iH) ps)" "k = length (group_of (it_cond iH) ps) \<or> 0 < k"
    "length (iter_entries iH (take k ps)) \<le> unat (it_size l)"
    "emul_iterator_next_set h l e =
       (ADI_SUCCESS, \<lparr>num_entries = of_nat k, it_end = (k = length (group_of (it_cond iH) ps)),
         it_size = of_nat (length (iter_entries iH (take k ps))),
         it_list = iter_entries iH (take k ps) @ drop (length (iter_entries iH (take k ps))) (it_list l)\<rparr>, e')"
    "key_map (it_ksid iH) e' =
       (if it_op iH = KV_ITERATOR_OPT_KV_WITH_DELETE then pre else pre @ take k ps) @ drop k ps"
    "k < length (group_of (it_cond iH) ps) \<Longrightarrow>
       iterating h (iH\<lparr>current_key := fst (ps ! k)\<rparr>)
         (if it_op iH = KV_ITERATOR_OPT_KV_WITH_DELETE then pre else pre @ take k ps) (drop k ps) e'"
proof -
  let ?g = "length (group_of (it_cond iH) ps)" and ?del = "it_op iH = KV_ITERATOR_OPT_KV_WITH_DELETE"
  obtain buf n rest ended saved where nl:
    "next_loop (it_cond iH) (has_fixed_keylen iH) (with_values iH) (unat (it_size l)) ps [] 0 = (buf, n, rest, ended, saved)"
    by (cases "next_loop (it_cond iH) (has_fixed_keylen iH) (with_values iH) (unat (it_size l)) ps [] 0")
  from next_loop_spec [OF nl] obtain k where k: "k \<le> ?g" "buf = iter_entries iH (take k ps)" "n = k"
    "rest = drop k ps" "ended \<longleftrightarrow> k = ?g" "saved = (if k = ?g then None else Some (fst (ps ! k)))"
    "length buf \<le> unat (it_size l)"
    "k < ?g \<longrightarrow> unat (it_size l) < length buf + length (entry_bytes (has_fixed_keylen iH) (with_values iH) (ps ! k))"
    by auto
  have gl: "?g \<le> length ps" by (rule length_takeWhile_le)
  have pos: "k = ?g \<or> 0 < k"
  proof (rule ccontr)
    assume "\<not> ?thesis"
    then have "k = 0" "0 < ?g" using k(1) by linarith+
    moreover have "ps ! 0 \<in> set ps" using calculation gl by (intro nth_mem) linarith
    ultimately show False using k(2,8) fit by fastforce
  qed
  obtain e' where e': "emul_iterator_next_set h l e =
       (ADI_SUCCESS, \<lparr>num_entries = of_nat k, it_end = ended, it_size = of_nat (length buf),
         it_list = buf @ drop (length buf) (it_list l)\<rparr>, e')"
    "m_map e' = (if ?del then (m_map e)[unat (it_ksid iH) := pre @ rest] else m_map e)"
    "m_it_map e' = (case saved of None \<Rightarrow> m_it_map e
       | Some q \<Rightarrow> map_put (<) (uint h) (iH\<lparr>current_key := q\<rparr>) (m_it_map e))"
    using it nl k(3) unfolding emul_iterator_next_set_def iterating_def
    by (auto simp: Let_def split: option.splits)
  have km: "key_map (it_ksid iH) e' = (if ?del then pre else pre @ take k ps) @ drop k ps"
    using it k(4) by (simp add: e' iterating_def)
  show thesis
  proof (rule that [OF k(1) pos _ _ km])
    assume lt: "k < ?g"
    then have kl: "k < length ps" using gl by simp
    show "iterating h (iH\<lparr>current_key := fst (ps ! k)\<rparr>) (if ?del then pre else pre @ take k ps) (drop k ps) e'"
      using it lt km iterating_moved [of pre ps k _ ?del, OF _ kl refl]
      by (simp add: iterating_def e' k(6) handle_order.put_ordered handle_order.find_put)
  qed (use k e' in simp_all)
qed

section \<open>The whole iteration\<close>

text \<open>What a client does: ask for the next entries until the emulator says that there are no more.\<close>

fun drain :: "nat \<Rightarrow> kv_iterator_handle \<Rightarrow> u32 \<Rightarrow> emulator \<Rightarrow> (byte list \<times> emulator) option" where
  "drain 0 h room e = None"
| "drain (Suc f) h room e =
     (case emul_iterator_next_set h \<lparr>num_entries = 0, it_end = False, it_size = room, it_list = []\<rparr> e of
        (r, l, e') \<Rightarrow>
          if r \<noteq> ADI_SUCCESS then None
          else if it_end l then Some (take (unat (it_size l)) (it_list l), e')
          else map_option (\<lambda>(bs, e''). (take (unat (it_size l)) (it_list l) @ bs, e'')) (drain f h room e'))"

lemma drain_group:
  assumes "iterating h iH pre ps e" "length (group_of (it_cond iH) ps) < f"
    "\<forall>p\<in>set ps. length (entry_bytes (has_fixed_keylen iH) (with_values iH) p) \<le> unat room"
  shows "\<exists>e'. drain f h room e = Some (iter_entries iH (group_of (it_cond iH) ps), e') \<and>
     key_map (it_ksid iH) e' =
       (if it_op iH = KV_ITERATOR_OPT_KV_WITH_DELETE then pre @ dropWhile (\<lambda>p. matches (it_cond iH) (fst p)) ps
        else pre @ ps)"
  using assms
proof (induction f arbitrary: iH pre ps e)
  case 0
  then show ?case by simp
next
  case (Suc f)
  let ?l = "\<lparr>num_entries = 0, it_end = False, it_size = room, it_list = []\<rparr>"
  let ?g = "group_of (it_cond iH) ps" and ?del = "it_op iH = KV_ITERATOR_OPT_KV_WITH_DELETE"
  have fit: "\<forall>p\<in>set ps. length (entry_bytes (has_fixed_keylen iH) (with_values iH) p) \<le> unat (it_size ?l)"
    using Suc.prems(3) by simp
  obtain k e' where k: "k \<le> length ?g" "k = length ?g \<or> 0 < k"
    "length (iter_entries iH (take k ps)) \<le> unat (it_size ?l)"
    "emul_iterator_next_set h ?l e =
       (ADI_SUCCESS, \<lparr>num_entries = of_nat k, it_end = (k = length ?g),
         it_size = of_nat (length (iter_entries iH (take k ps))),
         it_list = iter_entries iH (take k ps) @ drop (length (iter_entries iH (take k ps))) (it_list ?l)\<rparr>, e')"
    "key_map (it_ksid iH) e' = (if ?del then pre else pre @ take k ps) @ drop k ps"
    "k < length ?g \<Longrightarrow> iterating h (iH\<lparr>current_key := fst (ps ! k)\<rparr>) (if ?del then pre else pre @ take k ps) (drop k ps) e'"
    by (rule next_set_step [OF Suc.prems(1) fit]) blast
  have "unat room < 2 ^ 32" using unsigned_less [of room, where ?'a = nat] by simp
  then have sz: "unat (of_nat (length (iter_entries iH (take k ps))) :: u32) = length (iter_entries iH (take k ps))"
    using k(3) by (simp add: unat_of_nat take_bit_nat_eq_self)
  have split: "?g = take k ps @ group_of (it_cond iH) (drop k ps)" by (rule takeWhile_take_drop [OF k(1)])
  have rest: "dropWhile (\<lambda>p. matches (it_cond iH) (fst p)) ps = drop (length ?g) ps" by (rule dropWhile_eq_drop)
  show ?case
  proof (cases "k = length ?g")
    case True
    then have "take k ps = ?g" by (metis takeWhile_eq_take)
    then show ?thesis using True k(4,5) sz rest append_take_drop_id [of k ps] by simp
  next
    case False
    then have lt: "k < length ?g" using k(1) by simp
    let ?i = "iH\<lparr>current_key := fst (ps ! k)\<rparr>"
    have "k \<le> length ps" using lt length_takeWhile_le [of _ ps] by (meson less_imp_le_nat order_trans)
    then have len: "length ?g = k + length (group_of (it_cond ?i) (drop k ps))"
      using arg_cong [OF split, of length] by simp
    then have "length (group_of (it_cond ?i) (drop k ps)) < f" using k(2) lt Suc.prems(2) by linarith
    moreover have "\<forall>p\<in>set (drop k ps). length (entry_bytes (has_fixed_keylen ?i) (with_values ?i) p) \<le> unat room"
      using Suc.prems(3) by (auto dest: in_set_dropD)
    ultimately obtain e'' where e'':
      "drain f h room e' = Some (iter_entries iH (group_of (it_cond iH) (drop k ps)), e'')"
      "key_map (it_ksid iH) e'' = (if ?del then pre @ dropWhile (\<lambda>p. matches (it_cond iH) (fst p)) (drop k ps)
         else (pre @ take k ps) @ drop k ps)"
      using Suc.IH [OF k(6) [OF lt]] by (cases ?del) auto
    have "dropWhile (\<lambda>p. matches (it_cond iH) (fst p)) (drop k ps) = dropWhile (\<lambda>p. matches (it_cond iH) (fst p)) ps"
      using len by (simp add: dropWhile_eq_drop rest add.commute)
    then show ?thesis using k(4) False sz e'' split by simp
  qed
qed

lemma open_iterating:
  assumes e: "emul_ok e" "unat ks < 2" and op: "emul_open_iterator ks opt c fixed e = Some (ADI_SUCCESS, h, e1)"
  shows "iterating h \<lparr>it_op = opt, it_cond = c, it_ksid = ks, has_fixed_keylen = fixed,
      current_key = group_start c, at_end = False\<rparr>
      (before CmpEmulPrefix (group_start c) (key_map ks e)) (lower_bound CmpEmulPrefix (group_start c) (key_map ks e)) e1"
proof -
  from op obtain itid where id: "free_itid (m_it_map e) = Some itid" "h = of_nat itid"
    "m_map e1 = m_map e" "m_it_map e1 = map_put (<) (int itid) \<lparr>it_op = opt, it_cond = c, it_ksid = ks,
       has_fixed_keylen = fixed, current_key = group_start c, at_end = False\<rparr> (m_it_map e)"
    by (auto simp: emul_open_iterator_def Let_def group_start_def split: if_splits option.splits)
  from id(1) have "itid \<in> set [1 ..< Suc SAMSUNG_MAX_ITERATORS]"
    unfolding free_itid_def find_Some_iff by (metis nth_mem)
  then have "1 \<le> itid" "itid \<le> 16" by (auto simp: adi_const_defs)
  then have "1 \<le> unat h" "unat h = itid" by (simp_all add: id(2) unat_of_nat take_bit_nat_eq_self)
  then have h: "h \<noteq> 0" "uint h = int itid" by (auto simp: uint_nat)
  have ord: "map_ordered (<) (m_it_map e)" "map_ordered CmpEmulPrefix (key_map ks e)" "length (m_map e) = 2"
    using e key_map_ok [OF e] by (auto simp: emul_ok_def iters_ok_def map_ok_def)
  show ?thesis
    using e(2) h ord
    by (simp add: iterating_def id handle_order.put_ordered handle_order.find_put before_lower_bound)
qed


text \<open>Three keys of four bytes, two of them in the group of the words \<open>0x02000041\<close> and \<open>0x02000042\<close>.\<close>

definition three_keys :: emulator where
  "three_keys = (kv_emulator 4096)\<lparr>m_map := [[([66, 0, 0, 1], [7]), ([65, 0, 0, 2], [8, 9]), ([66, 0, 0, 2], [])], []]\<rparr>"

lemma to_le_4:
  "to_le 4 v = [of_nat (v mod 256), of_nat (v div 256 mod 256), of_nat (v div 256 div 256 mod 256),
     of_nat (v div 256 div 256 div 256 mod 256)]"
proof -
  have "(4 :: nat) = Suc (Suc (Suc (Suc 0)))" by simp
  then show ?thesis by (simp only: to_le.simps)
qed

lemma three_keys_map:
  "m_map three_keys ! 0 = [([66, 0, 0, 1], [7]), ([65, 0, 0, 2], [8, 9]), ([66, 0, 0, 2], [])]"
  by (simp add: three_keys_def)

lemma three_keys_ok: "emul_ok three_keys"
proof -
  have "map_ordered CmpEmulPrefix [([66, 0, 0, 1], [7 :: byte]), ([65, 0, 0, 2], [8, 9]), ([66, 0, 0, 2], [])]"
    by (simp add: map_ordered_def CmpEmulPrefix_def prefix_word_def)
  then show ?thesis
    using emul_ok_new [of 4096] by (auto simp: emul_ok_def three_keys_def kv_emulator_def map_ok_def)
qed

lemma open_first_iterator:
  assumes "m_it_map e = []" "m_iterator_list e = replicate 16 no_iterator"
  shows "\<exists>e1. emul_open_iterator ks opt c fixed e = Some (ADI_SUCCESS, 1, e1)"
proof -
  have "free_itid [] = Some 1" by (simp add: free_itid_def adi_const_defs upt_rec)
  moreover have "List.find (\<lambda>i. it_prefix (m_iterator_list e ! i) = bit_pattern c \<and>
      it_bitmask (m_iterator_list e ! i) = bitmask c \<and> it_status (m_iterator_list e ! i) = 1)
      [0 ..< SAMSUNG_MAX_ITERATORS] = None"
    using assms(2) by (auto simp: find_None_iff adi_const_defs no_iterator_def simp del: replicate_numeral)
  ultimately show ?thesis using assms(1) by (simp add: emul_open_iterator_def adi_const_defs Let_def)
qed

lemma three_keys_open: "\<exists>e1. emul_open_iterator ks opt c fixed three_keys = Some (ADI_SUCCESS, 1, e1)"
  by (rule open_first_iterator) (simp_all add: three_keys_def kv_emulator_def adi_const_defs del: replicate_numeral)


section \<open>The filter of the API\<close>

lemma bit_le_nat:
  "bit (le_nat bs) n \<longleftrightarrow> n div 8 < length bs \<and> bit (bs ! (n div 8)) (n mod 8)"
proof (induction bs arbitrary: n)
  case (Cons b bs)
  have low: "take_bit 8 (unat b + 256 * le_nat bs) = unat b" using unat_byte [of b] by (simp add: take_bit_eq_mod)
  have high: "drop_bit 8 (unat b + 256 * le_nat bs) = le_nat bs" using unat_byte [of b] by (simp add: drop_bit_eq_div)
  show ?case
  proof (cases "n < 8")
    case True
    then have "bit (unat b + 256 * le_nat bs) n \<longleftrightarrow> bit (take_bit 8 (unat b + 256 * le_nat bs)) n"
      by (simp add: bit_take_bit_iff)
    also have "\<dots> \<longleftrightarrow> bit b n" unfolding low using True by (simp add: bit_unsigned_iff)
    finally show ?thesis using True by simp
  next
    case False
    then have "bit (unat b + 256 * le_nat bs) n \<longleftrightarrow> bit (drop_bit 8 (unat b + 256 * le_nat bs)) (n - 8)"
      by (simp add: bit_drop_bit_eq)
    also have "\<dots> \<longleftrightarrow> (n - 8) div 8 < length bs \<and> bit (bs ! ((n - 8) div 8)) ((n - 8) mod 8)"
      unfolding high by (rule Cons.IH)
    finally show ?thesis using False by (simp add: le_div_geq le_mod_geq)
  qed
qed simp

lemma bit_prefix_word:
  assumes "4 \<le> length k"
  shows "bit (prefix_word k) n \<longleftrightarrow> n < 32 \<and> bit (k ! (n div 8)) (n mod 8)"
proof -
  have "bit (prefix_word k) n \<longleftrightarrow> n < 32 \<and> bit (le_nat (take 4 k)) n"
    by (simp add: prefix_word_def bit_simps)
  then show ?thesis using assms by (auto simp: bit_le_nat)
qed

lemma be_word_le_nat: "unat (be_word [a, b, c, d]) = le_nat [d, c, b, a]"
proof (rule bit_eqI)
  fix n
  show "bit (unat (be_word [a, b, c, d])) n \<longleftrightarrow> bit (le_nat [d, c, b, a]) n"
  proof (cases "n < 32")
    case True
    obtain i j where n: "n = 8 * i + j" "j < 8" using mod_less_divisor [of 8 n] mult_div_mod_eq [of 8 n] by (metis zero_less_numeral)
    then have i: "n div 8 = i" "n mod 8 = j" by simp_all
    have "i \<in> {0, 1, 2, 3}" using True n by auto
    then show ?thesis
      unfolding bit_le_nat i using n(2)
      by (elim insertE) (auto simp: n(1) be_word_def bit_simps bit_unsigned_iff dest: bit_imp_le_length)
  qed (auto simp: bit_le_nat bit_unsigned_iff simp del: le_nat.simps dest: bit_imp_le_length)
qed

lemma htobe32_be_word:
  assumes "length b = 4"
  shows "htobe32 (be_word b) = prefix_word b"
proof -
  obtain w x y z where b: "b = [w, x, y, z]" using assms by (auto simp: numeral_eq_Suc length_Suc_conv)
  have "to_le 4 (unat (be_word b)) = rev b"
    using le_nat_bound [of "rev b"] by (intro le_nat_inj) (simp_all add: b be_word_le_nat del: le_nat.simps)
  then show ?thesis by (simp add: htobe32_def prefix_word_def b del: le_nat.simps)
qed

text \<open>The condition that an iterator of the emulator is opened with: the words that the API makes
  of a filter, their bytes swapped by the device layer.\<close>

definition filter_condition :: "kvs_key_group_filter \<Rightarrow> kv_group_condition" where
  "filter_condition f = (case filter2context f of (bm, pat) \<Rightarrow> \<lparr>bitmask = htobe32 bm, bit_pattern = htobe32 pat\<rparr>)"

lemma bytes_agree_iff:
  assumes "4 \<le> length k" "length bm = 4" "length pat = 4"
  shows "prefix_word k AND prefix_word bm = prefix_word pat AND prefix_word bm \<longleftrightarrow>
     (\<forall>i<4. k ! i AND bm ! i = pat ! i AND bm ! i)"
proof -
  have l: "4 \<le> length bm" "4 \<le> length pat" using assms by simp_all
  have "prefix_word k AND prefix_word bm = prefix_word pat AND prefix_word bm \<longleftrightarrow>
     (\<forall>n<32. bit (bm ! (n div 8)) (n mod 8) \<longrightarrow> bit (k ! (n div 8)) (n mod 8) = bit (pat ! (n div 8)) (n mod 8))"
    by (auto simp: bit_eq_iff bit_and_iff bit_prefix_word assms(1) l)
  also have "\<dots> \<longleftrightarrow> (\<forall>i<4. \<forall>j<8. bit (bm ! i) j \<longrightarrow> bit (k ! i) j = bit (pat ! i) j)"
  proof (rule iffI)
    assume a: "\<forall>n<32. bit (bm ! (n div 8)) (n mod 8) \<longrightarrow> bit (k ! (n div 8)) (n mod 8) = bit (pat ! (n div 8)) (n mod 8)"
    have "bit (bm ! i) j \<longrightarrow> bit (k ! i) j = bit (pat ! i) j" if "i < 4" "j < 8" for i j
      using a [rule_format, of "8 * i + j"] that by simp
    then show "\<forall>i<4. \<forall>j<8. bit (bm ! i) j \<longrightarrow> bit (k ! i) j = bit (pat ! i) j" by blast
  qed auto
  also have "\<dots> \<longleftrightarrow> (\<forall>i<4. k ! i AND bm ! i = pat ! i AND bm ! i)"
    by (auto simp: bit_eq_iff bit_and_iff dest: bit_imp_le_length)
  finally show ?thesis .
qed

text \<open>C21: Between the API and the emulator the meaning of a key group filter is preserved: the
  big-endian words that the API makes of the filter, swapped by the device layer, match a key of
  at least four bytes exactly when each of its first four bytes agrees with the byte of the
  pattern in the same position on the bits that the mask has there.\<close>

theorem group_filter_bytewise:
  assumes "length (f_bitmask f) = 4" "length (f_bit_pattern f) = 4" "4 \<le> length k"
  shows "matches (filter_condition f) k \<longleftrightarrow>
     (\<forall>i<4. k ! i AND f_bitmask f ! i = f_bit_pattern f ! i AND f_bitmask f ! i)"
  using assms
  by (simp add: matches_iff filter_condition_def filter2context_def htobe32_be_word bytes_agree_iff)

theorem group_filter_bytewise_witness:
  "matches (filter_condition \<lparr>f_bitmask = [255, 0, 0, 0], f_bit_pattern = [65, 0, 0, 0]\<rparr>) [65, 1, 2, 3, 4] \<and>
   \<not> matches (filter_condition \<lparr>f_bitmask = [255, 0, 0, 0], f_bit_pattern = [65, 0, 0, 0]\<rparr>) [66, 0, 0, 65]"
  using group_filter_bytewise [of "\<lparr>f_bitmask = [255, 0, 0, 0], f_bit_pattern = [65, 0, 0, 0]\<rparr>" "[65, 1, 2, 3, 4]"]
    group_filter_bytewise [of "\<lparr>f_bitmask = [255, 0, 0, 0], f_bit_pattern = [65, 0, 0, 0]\<rparr>" "[66, 0, 0, 65]"]
  by (auto simp: nth_Cons' intro: exI [of _ 0])

text \<open>C23: A filter on the first byte of the keys loses keys, although the API accepts it and the
  emulator holds a key that matches it: the emulator orders its keys by the word in which the
  first byte counts least, so the keys of such a group are not next to each other, and the
  iteration stops at the first key between them.  Here the store holds three keys, the filter
  asks for those that start with the byte 66, there are two of them, and an iteration with any
  buffer that is large enough returns only the first.\<close>

theorem byte_group_iteration_incomplete:
  "\<exists>f e1 e2. is_valid_bitmask (fst (filter2context f)) \<and> emul_ok three_keys \<and>
     filter (\<lambda>p. matches (filter_condition f) (fst p)) (key_map 0 three_keys) =
       [([66, 0, 0, 1], [7]), ([66, 0, 0, 2], [])] \<and>
     emul_open_iterator 0 KV_ITERATOR_OPT_KEY (filter_condition f) False three_keys = Some (ADI_SUCCESS, 1, e1) \<and>
     drain 2 1 4096 e1 = Some ([4, 0, 0, 0, 66, 0, 0, 1], e2)"
proof -
  let ?f = "\<lparr>f_bitmask = [255, 0, 0, 0], f_bit_pattern = [66, 0, 0, 0]\<rparr>" and ?c = "\<lparr>bitmask = 0xFF, bit_pattern = 66\<rparr>"
  have c: "filter_condition ?f = ?c"
    by (simp add: filter_condition_def filter2context_def htobe32_be_word prefix_word_def)
  have "fst (filter2context ?f) = NOT (mask 24)" by (simp add: filter2context_def be_word_def mask_eq_exp_minus_1)
  then have v: "is_valid_bitmask (fst (filter2context ?f))" unfolding valid_bitmask_iff by (intro exI [of _ 24]) simp
  have mt: "\<not> matches ?c [65, 0, 0, 2]" "matches ?c [66, 0, 0, 2]" "matches ?c [66, 0, 0, 1]"
    by (simp_all add: matches_iff prefix_word_def)
  obtain e1 where op: "emul_open_iterator 0 KV_ITERATOR_OPT_KEY ?c False three_keys = Some (ADI_SUCCESS, 1, e1)"
    using three_keys_open by blast
  let ?i = "\<lparr>it_op = KV_ITERATOR_OPT_KEY, it_cond = ?c, it_ksid = 0, has_fixed_keylen = False,
      current_key = group_start ?c, at_end = False\<rparr>"
  have "lower_bound CmpEmulPrefix (group_start ?c) (key_map 0 three_keys) = key_map 0 three_keys"
    "before CmpEmulPrefix (group_start ?c) (key_map 0 three_keys) = []"
    using start_less [of "[66, 0, 0, 1]" 66]
    by (simp_all add: three_keys_map group_start_def lower_bound_def before_def prefix_word_def del: to_le.simps)
  then have "iterating 1 ?i [] (key_map 0 three_keys) e1"
    using open_iterating [OF three_keys_ok _ op] by simp
  from drain_group [OF this, of 2 4096] obtain e2 where "drain 2 1 4096 e1 = Some ([4, 0, 0, 0, 66, 0, 0, 1], e2)"
    by (auto simp: three_keys_map mt entry_bytes_def to_le_4 simp del: drain.simps to_le.simps)
  then show ?thesis
    using v op by (intro exI [of _ ?f] exI [of _ e1] exI [of _ e2]) (simp add: c three_keys_ok three_keys_map mt del: drain.simps)
qed

text \<open>C24: Deleting a key group deletes keys outside the group: the loop compares only the bits that
  are set in the pattern, so a key whose word has these and further bits passes for a member.
  Here the condition has all bits in its mask and no key of the store matches it, yet the call
  removes a key.\<close>

theorem delete_group_removes_other_keys:
  "\<exists>c. bitmask c = 0xFFFFFFFF \<and> emul_ok three_keys \<and>
     filter (\<lambda>p. matches c (fst p)) (key_map 0 three_keys) = [] \<and>
     fst (emul_delete_group 0 c three_keys) = ADI_SUCCESS \<and>
     key_map 0 (snd (emul_delete_group 0 c three_keys)) = tl (key_map 0 three_keys)"
proof -
  let ?c = "\<lparr>bitmask = 0xFFFFFFFF, bit_pattern = 0x01000040\<rparr>"
  have mt: "\<not> matches ?c [65, 0, 0, 2]" "\<not> matches ?c [66, 0, 0, 2]" "\<not> matches ?c [66, 0, 0, 1]"
    by (simp_all add: matches_iff prefix_word_def)
  have "lower_bound CmpEmulPrefix (to_le 4 0x01000040) (key_map 0 three_keys) = key_map 0 three_keys"
    "before CmpEmulPrefix (to_le 4 0x01000040) (key_map 0 three_keys) = []"
    using start_less [of "[66, 0, 0, 1]" "0x01000040"]
    by (simp_all add: three_keys_map lower_bound_def before_def prefix_word_def del: to_le.simps)
  moreover have "unat (bitmask ?c AND bit_pattern ?c) = 0x01000040" by simp
  moreover have "m_map three_keys = [key_map 0 three_keys, []]" by (simp add: three_keys_def)
  ultimately show ?thesis
    by (intro exI [of _ ?c])
      (simp add: three_keys_ok mt three_keys_map emul_delete_group_def prefix_word_def del: to_le.simps)
qed

end
