(* ===== verification/Kv_Ftl.thy ===== *)
theory Kv_Ftl
  imports Prelude "HOL-Library.Monad_Syntax"
begin

text \<open>
  The key-value translation layer of the virtual NVMe device (\<open>lib/nvmevirt/kv_ftl.c\<close> with its two
  allocators): the mapping table, a hash table whose entries are chained through the table
  itself, the storage area that the values are kept in, the transfers between the pages of the
  host and the device, the batch command and the iterators.

  The result \<open>None\<close> of an operation stands for what does not come back with a result: a loop that
  does not end, an access outside an array or a page, or a \<open>BUG_ON\<close> that fires.
\<close>

section \<open>Commands\<close>

definition nvme_cmd_kv_store :: u8 where "nvme_cmd_kv_store = 0x81"
definition nvme_cmd_kv_append :: u8 where "nvme_cmd_kv_append = 0x83"
definition nvme_cmd_kv_batch :: u8 where "nvme_cmd_kv_batch = 0x85"
definition nvme_cmd_kv_retrieve :: u8 where "nvme_cmd_kv_retrieve = 0x90"
definition nvme_cmd_kv_delete :: u8 where "nvme_cmd_kv_delete = 0xA1"
definition nvme_cmd_kv_iter_req :: u8 where "nvme_cmd_kv_iter_req = 0xB1"
definition nvme_cmd_kv_iter_read :: u8 where "nvme_cmd_kv_iter_read = 0xB2"
definition nvme_cmd_kv_exist :: u8 where "nvme_cmd_kv_exist = 0xB3"

lemmas kv_opcode_defs = nvme_cmd_kv_store_def nvme_cmd_kv_append_def nvme_cmd_kv_batch_def
  nvme_cmd_kv_retrieve_def nvme_cmd_kv_delete_def nvme_cmd_kv_iter_req_def nvme_cmd_kv_iter_read_def
  nvme_cmd_kv_exist_def

definition NVMEV_KEY_NOT_EXIST :: u32 where "NVMEV_KEY_NOT_EXIST = 0x310"
definition ITER_END_STATUS :: u32 where "ITER_END_STATUS = 0x393"
definition KV_PAGE_SIZE :: nat where "KV_PAGE_SIZE = 4096"

text \<open>
  The union of the command formats.  The formats agree on the place of every field that the
  translation layer reads: the iterator handle is where the key length is, and the prefix and
  the mask of an iterator are the first two words of the key.
\<close>

record nvme_kv_command =
  kc_opcode :: u8
  kc_prp1 :: u64
  kc_prp2 :: u64
  kc_value_len :: u32
  kc_key_len :: u8
  kc_option :: u8
  kc_rsvd4 :: u8
  kc_key :: "byte list"

definition cmd_key_length :: "nvme_kv_command \<Rightarrow> nat" where
  "cmd_key_length c = unat (kc_key_len c) + 1"

definition cmd_value_length :: "nvme_kv_command \<Rightarrow> u32" where
  "cmd_value_length c = push_bit 2 (kc_value_len c)"

text \<open>The key bytes of a command; a length past the sixteen bytes that a command carries reads beyond it.\<close>

definition cmd_key :: "nvme_kv_command \<Rightarrow> byte list option" where
  "cmd_key c = (if cmd_key_length c > length (kc_key c) then None else Some (take (cmd_key_length c) (kc_key c)))"

section \<open>Allocators\<close>

record append_only =
  ao_latest :: u64
  ao_dev_size :: u64
  ao_total_written :: u64

definition append_only_allocator_init :: "u64 \<Rightarrow> append_only" where
  "append_only_allocator_init sz = \<lparr>ao_latest = 0, ao_dev_size = sz, ao_total_written = 0\<rparr>"

definition append_only_allocate :: "u64 \<Rightarrow> append_only \<Rightarrow> u64 \<times> append_only" where
  "append_only_allocate len a =
     (ao_latest a, a\<lparr>ao_latest := ao_latest a + len, ao_total_written := ao_total_written a + len\<rparr>)"

definition SMALL_LENGTH :: nat where "SMALL_LENGTH = 1024"
definition LARGE_LENGTH :: nat where "LARGE_LENGTH = 4096"

text \<open>The bits of the two static arrays; a bit past the end of its array is out of bounds.\<close>

definition small_bits :: nat where "small_bits = 600000 * 64"
definition large_bits :: nat where "large_bits = 300000 * 64"

record bitmap_alloc =
  bm_dev_size :: u64
  bm_total_written :: u64
  small_nbits :: nat
  large_nbits :: nat
  small_bitmap :: "nat set"
  large_bitmap :: "nat set"
  small_capacity :: nat
  large_capacity :: nat
  small_last_pos :: nat
  large_last_pos :: nat

definition bitmap_static :: bitmap_alloc where
  "bitmap_static = \<lparr>bm_dev_size = 0, bm_total_written = 0, small_nbits = 0, large_nbits = 0, small_bitmap = {},
     large_bitmap = {}, small_capacity = 0, large_capacity = 0, small_last_pos = 0, large_last_pos = 0\<rparr>"

definition bitmap_allocator_init :: "u64 \<Rightarrow> bitmap_alloc \<Rightarrow> bitmap_alloc option" where
  "bitmap_allocator_init sz b =
     (let sn = unat sz div 2 div SMALL_LENGTH; ln = unat sz div 2 div LARGE_LENGTH in
      if sn > small_bits \<or> ln > large_bits then None
      else Some (b\<lparr>bm_dev_size := sz, small_nbits := sn, large_nbits := ln,
                   small_bitmap := small_bitmap b - {..<sn}, large_bitmap := large_bitmap b - {..<ln}\<rparr>))"

text \<open>
  The kernel's search for a clear bit, \<open>bitmap_find_next_zero_area\<close>, is a parameter: given the
  set bits, the number of bits and the position to start at, it answers a position.
\<close>

type_synonym zero_area = "nat set \<Rightarrow> nat \<Rightarrow> nat \<Rightarrow> nat"

definition bitmap_allocate :: "zero_area \<Rightarrow> u64 \<Rightarrow> bitmap_alloc \<Rightarrow> (u64 \<times> bitmap_alloc) option" where
  "bitmap_allocate find_zero len b0 =
     (let b = b0\<lparr>bm_total_written := bm_total_written b0 + len\<rparr> in
      if unat len > SMALL_LENGTH
      then let off = find_zero (large_bitmap b) (large_nbits b) (large_last_pos b) in
           if off \<ge> large_bits then None
           else Some (drop_bit 1 (bm_dev_size b) + of_nat (off * LARGE_LENGTH),
                      b\<lparr>large_bitmap := insert off (large_bitmap b),
                        large_last_pos := if off + 1 > large_nbits b then 0 else off + 1,
                        large_capacity := large_capacity b + 1\<rparr>)
      else let off = find_zero (small_bitmap b) (small_nbits b) (small_last_pos b) in
           if off \<ge> small_bits then None
           else Some (of_nat (off * SMALL_LENGTH),
                      b\<lparr>small_bitmap := insert off (small_bitmap b),
                        small_last_pos := if off + 1 > small_nbits b then 0 else off + 1,
                        small_capacity := small_capacity b + 1\<rparr>))"

datatype allocator = Append_only append_only | Bitmap_alloc bitmap_alloc

fun allocate :: "zero_area \<Rightarrow> u64 \<Rightarrow> allocator \<Rightarrow> (u64 \<times> allocator) option" where
  "allocate z len (Append_only a) = (case append_only_allocate len a of (off, a') \<Rightarrow> Some (off, Append_only a'))"
| "allocate z len (Bitmap_alloc b) = map_option (\<lambda>(off, b'). (off, Bitmap_alloc b')) (bitmap_allocate z len b)"

text \<open>The offset \<open>-1\<close> means that an allocator has no room; the callers go on with the offset 0.\<close>

definition allocate_mem_offset_by_length :: "zero_area \<Rightarrow> u64 \<Rightarrow> allocator \<Rightarrow> (u64 \<times> allocator) option" where
  "allocate_mem_offset_by_length z len a =
     map_option (\<lambda>(off, a'). (if off = -1 then 0 else off, a')) (allocate z len a)"

definition allocate_mem_offset :: "zero_area \<Rightarrow> nvme_kv_command \<Rightarrow> allocator \<Rightarrow> (u64 \<times> allocator) option" where
  "allocate_mem_offset z c a =
     (if kc_opcode c = nvme_cmd_kv_store then allocate_mem_offset_by_length z (ucast (cmd_value_length c)) a
      else Some (0, a))"

section \<open>The mapping table\<close>

record mapping_entry =
  me_key :: "byte list"
  mem_offset :: u64
  me_length :: u64
  next_slot :: u32

text \<open>An entry of which every byte is set, as \<open>memset\<close> with \<open>-1\<close> leaves it, and an entry of a new table.\<close>

definition ENTRY_KEY_SIZE :: nat where "ENTRY_KEY_SIZE = 18"

definition blank_entry :: mapping_entry where
  "blank_entry = \<lparr>me_key = replicate ENTRY_KEY_SIZE 255, mem_offset = -1, me_length = -1, next_slot = -1\<rparr>"

definition new_entry :: mapping_entry where
  "new_entry = \<lparr>me_key = replicate ENTRY_KEY_SIZE 0, mem_offset = -1, me_length = -1, next_slot = -1\<rparr>"

type_synonym mapping_table = "mapping_entry list"

definition kv_hash_step :: "u32 \<Rightarrow> byte \<Rightarrow> u32" where
  "kv_hash_step h b = (h * 16777619) XOR ucast b"

definition hash_function :: "byte list \<Rightarrow> u32" where
  "hash_function key = foldl kv_hash_step 2166136261 key"

definition get_hash_slot :: "mapping_table \<Rightarrow> byte list \<Rightarrow> u32" where
  "get_hash_slot t key = of_nat (unat (hash_function key) mod length t)"

abbreviation occupied :: "mapping_table \<Rightarrow> u32 \<Rightarrow> bool" where
  "occupied t s \<equiv> mem_offset (t ! unat s) \<noteq> -1"

text \<open>The loop that the lookups share: the slot on the chain whose key begins with the key searched for.\<close>

partial_function (option) find_mapping :: "mapping_table \<Rightarrow> byte list \<Rightarrow> u32 \<Rightarrow> u32 option option" where
  "find_mapping t key slot =
     (if unat slot \<ge> length t then None
      else if \<not> occupied t slot then Some None
      else if take (length key) (me_key (t ! unat slot)) = key then Some (Some slot)
      else if next_slot (t ! unat slot) = -1 then Some None
      else find_mapping t key (next_slot (t ! unat slot)))"

definition chain_mapping :: "u32 \<Rightarrow> u32 \<Rightarrow> mapping_table \<Rightarrow> mapping_table" where
  "chain_mapping prev slot t = t[unat prev := (t ! unat prev)\<lparr>next_slot := slot\<rparr>]"

text \<open>The two loops of \<open>find_next_slot\<close>: the tail of a chain, and the next slot that is not in use.\<close>

partial_function (option) chain_tail :: "mapping_table \<Rightarrow> u32 \<Rightarrow> u32 \<Rightarrow> u32 option" where
  "chain_tail t tail prevs =
     (if unat tail \<ge> length t then None
      else if \<not> occupied t tail then Some prevs
      else if next_slot (t ! unat tail) = -1 then Some tail
      else chain_tail t (next_slot (t ! unat tail)) tail)"

partial_function (option) find_free :: "mapping_table \<Rightarrow> u32 \<Rightarrow> u32 option" where
  "find_free t slot =
     (if unat slot \<ge> length t then None
      else if \<not> occupied t slot then Some slot
      else find_free t (if unat (slot + 1) \<ge> length t then 0 else slot + 1))"

definition find_next_slot :: "mapping_table \<Rightarrow> u32 \<Rightarrow> (u32 \<times> u32) option" where
  "find_next_slot t original_slot =
     do { prevs \<leftarrow> chain_tail t original_slot (-1);
          slot \<leftarrow> find_free t prevs;
          Some (slot, prevs) }"

definition new_mapping_entry_by_key :: "nat \<Rightarrow> byte list \<Rightarrow> u64 \<Rightarrow> u64 \<Rightarrow> mapping_table \<Rightarrow> mapping_table option" where
  "new_mapping_entry_by_key storage_size key val_len val_offset t =
     (if unat val_offset \<ge> storage_size \<or> length key > ENTRY_KEY_SIZE then None
      else let slot0 = get_hash_slot t key in
        if unat slot0 \<ge> length t then None
        else
          do { (slot, prev) \<leftarrow> (if occupied t slot0 then find_next_slot t slot0 else Some (slot0, -1));
               let e = t ! unat slot;
                   t1 = t[unat slot := e\<lparr>me_key := key @ drop (length key) (me_key e),
                            mem_offset := val_offset, me_length := val_len\<rparr>]
               in Some (if prev \<noteq> -1 then chain_mapping prev slot t1 else t1) })"

definition new_mapping_entry :: "nat \<Rightarrow> nvme_kv_command \<Rightarrow> u64 \<Rightarrow> mapping_table \<Rightarrow> mapping_table option" where
  "new_mapping_entry storage_size c val_offset t =
     do { key \<leftarrow> cmd_key c;
          new_mapping_entry_by_key storage_size key (ucast (cmd_value_length c)) val_offset t }"

definition update_mapping_entry :: "nvme_kv_command \<Rightarrow> mapping_table \<Rightarrow> (u32 \<times> mapping_table) option" where
  "update_mapping_entry c t =
     do { key \<leftarrow> cmd_key c;
          found \<leftarrow> find_mapping t key (get_hash_slot t key);
          Some (case found of
              None \<Rightarrow> (1, t)
            | Some s \<Rightarrow> (0, t[unat s := (t ! unat s)\<lparr>me_length := ucast (cmd_value_length c)\<rparr>])) }"

definition get_mapping_entry_by_key :: "byte list \<Rightarrow> mapping_table \<Rightarrow> mapping_entry option" where
  "get_mapping_entry_by_key key t =
     (if length key > ENTRY_KEY_SIZE then None
      else do { found \<leftarrow> find_mapping t key (get_hash_slot t key);
                Some (case found of
                    None \<Rightarrow> blank_entry
                  | Some s \<Rightarrow> (t ! unat s)\<lparr>me_key := key @ drop (length key) (me_key blank_entry)\<rparr>) })"

definition get_mapping_entry :: "nvme_kv_command \<Rightarrow> mapping_table \<Rightarrow> mapping_entry option" where
  "get_mapping_entry c t = do { key \<leftarrow> cmd_key c; get_mapping_entry_by_key key t }"

definition delete_mapping_entry :: "nvme_kv_command \<Rightarrow> mapping_table \<Rightarrow> mapping_table option" where
  "delete_mapping_entry c t =
     do { key \<leftarrow> cmd_key c;
          found \<leftarrow> find_mapping t key (get_hash_slot t key);
          Some (case found of None \<Rightarrow> t | Some s \<Rightarrow> t[unat s := blank_entry]) }"

section \<open>Transfers\<close>

text \<open>The pages of the host by their frame numbers.\<close>

type_synonym host_pages = "u64 \<Rightarrow> byte list option"

text \<open>
  The address of the next part of a transfer.  The first part is at \<open>prp1\<close>; \<open>prp2\<close> is the second
  and last part, or, when more than a page is left, a list of addresses.  The list is kept as its
  page and the place in it; it is read until its page ends.
\<close>

type_synonym prp_list = "(u64 \<times> nat) option"

definition page_word :: "host_pages \<Rightarrow> u64 \<Rightarrow> nat \<Rightarrow> u64 option" where
  "page_word h pfn pos =
     do { pg \<leftarrow> h pfn;
          if pos + 8 > length pg then None else Some (of_nat (le_nat (take 8 (drop pos pg)))) }"

definition prp_addr :: "host_pages \<Rightarrow> nvme_kv_command \<Rightarrow> nat \<Rightarrow> nat \<Rightarrow> prp_list \<Rightarrow> (u64 \<times> prp_list) option" where
  "prp_addr h c prp_offs remaining lst =
     (if prp_offs = 1 then Some (kc_prp1 c, lst)
      else if prp_offs = 2 \<and> remaining \<le> KV_PAGE_SIZE then Some (kc_prp2 c, lst)
      else case (if prp_offs = 2 then Some (drop_bit 12 (kc_prp2 c), unat (take_bit 12 (kc_prp2 c))) else lst) of
             None \<Rightarrow> None
           | Some (pfn, pos) \<Rightarrow>
               do { paddr \<leftarrow> page_word h pfn pos;
                    Some (paddr, Some (pfn, pos + 8)) })"

definition prp_io_size :: "u64 \<Rightarrow> nat \<Rightarrow> nat" where
  "prp_io_size paddr remaining =
     (let io_size = min remaining KV_PAGE_SIZE; mem_offs = unat (take_bit 12 paddr) in
      if io_size + mem_offs > KV_PAGE_SIZE then KV_PAGE_SIZE - mem_offs else io_size)"

lemma prp_io_size_pos: "0 < remaining \<Longrightarrow> 0 < prp_io_size paddr remaining"
proof -
  assume r: "0 < remaining"
  have "unat (take_bit 12 paddr) < 2 ^ 12" unfolding unsigned_take_bit_eq by (rule take_bit_nat_less_exp)
  then show ?thesis using r by (simp add: prp_io_size_def KV_PAGE_SIZE_def Let_def min_def)
qed

text \<open>A transfer from the host, and one to the host.\<close>

function prp_gather :: "host_pages \<Rightarrow> nvme_kv_command \<Rightarrow> nat \<Rightarrow> nat \<Rightarrow> prp_list \<Rightarrow> byte list option" where
  "prp_gather h c prp_offs remaining lst =
     (if remaining = 0 then Some []
      else case prp_addr h c (Suc prp_offs) remaining lst of
             None \<Rightarrow> None
           | Some (paddr, lst') \<Rightarrow>
               (case h (drop_bit 12 paddr) of
                  None \<Rightarrow> None
                | Some pg \<Rightarrow>
                    let n = prp_io_size paddr remaining in
                    map_option (\<lambda>bs. take n (drop (unat (take_bit 12 paddr)) pg) @ bs)
                      (prp_gather h c (Suc prp_offs) (remaining - n) lst')))"
  by pat_completeness auto
termination
  by (relation "measure (\<lambda>(h, c, prp_offs, remaining, lst). remaining)") (auto intro!: diff_less prp_io_size_pos)

function prp_scatter :: "nvme_kv_command \<Rightarrow> nat \<Rightarrow> prp_list \<Rightarrow> byte list \<Rightarrow> host_pages \<Rightarrow> host_pages option" where
  "prp_scatter c prp_offs lst bs h =
     (if bs = [] then Some h
      else case prp_addr h c (Suc prp_offs) (length bs) lst of
             None \<Rightarrow> None
           | Some (paddr, lst') \<Rightarrow>
               (case h (drop_bit 12 paddr) of
                  None \<Rightarrow> None
                | Some pg \<Rightarrow>
                    let n = prp_io_size paddr (length bs); m = unat (take_bit 12 paddr) in
                    prp_scatter c (Suc prp_offs) lst' (drop n bs)
                      (h(drop_bit 12 paddr \<mapsto> take m pg @ take n bs @ drop (m + n) pg))))"
  by pat_completeness auto
termination
  by (relation "measure (\<lambda>(c, prp_offs, lst, bs, h). length bs)") (auto intro!: diff_less prp_io_size_pos)

declare prp_gather.simps [simp del] prp_scatter.simps [simp del]

section \<open>State\<close>

text \<open>
  An iterator handle of the table is free, open, or, for the one that is never initialised,
  whatever the memory held: \<open>Wild\<close> if it is not null.
\<close>

record kv_iter_context =
  ic_prefix :: u32
  ic_bitmask :: u32
  ic_current_pos :: nat

datatype iter_slot = Null_iter | Wild | Open_iter kv_iter_context

text \<open>
  The translation layer, with the two memories it works on: the storage of the device and the
  pages of the host.  The length of the mapping table is \<open>hash_slots\<close>.
\<close>

record kv_ftl =
  kv_mapping_table :: mapping_table
  kf_allocator :: allocator
  iter_handle :: "iter_slot list"
  storage_mapped :: "byte list"
  host_memory :: host_pages

definition put_storage :: "nat \<Rightarrow> byte list \<Rightarrow> byte list \<Rightarrow> byte list option" where
  "put_storage off bs st =
     (if off + length bs > length st then None else Some (take off st @ bs @ drop (off + length bs) st))"

definition get_storage :: "nat \<Rightarrow> nat \<Rightarrow> byte list \<Rightarrow> byte list option" where
  "get_storage off n st = (if off + n > length st then None else Some (take n (drop off st)))"

section \<open>Single commands\<close>

text \<open>Each operation answers the result, the status and the new state.\<close>

type_synonym kv_answer = "(u32 \<times> u32 \<times> kv_ftl) option"

definition kv_store_io :: "zero_area \<Rightarrow> nvme_kv_command \<Rightarrow> mapping_entry \<Rightarrow> u32 \<Rightarrow> kv_ftl \<Rightarrow> kv_answer" where
  "kv_store_io z c entry status d =
     (let len = unat (cmd_value_length c) in
      if mem_offset entry = -1
      then do { (off, al) \<leftarrow> allocate_mem_offset z c (kf_allocator d);
                bs \<leftarrow> prp_gather (host_memory d) c 0 len None;
                st \<leftarrow> put_storage (unat off) bs (storage_mapped d);
                t \<leftarrow> new_mapping_entry (length (storage_mapped d)) c off (kv_mapping_table d);
                Some (0, status, d\<lparr>kf_allocator := al, storage_mapped := st, kv_mapping_table := t\<rparr>) }
      else do { bs \<leftarrow> prp_gather (host_memory d) c 0 len None;
                st \<leftarrow> put_storage (unat (mem_offset entry)) bs (storage_mapped d);
                (_, t) \<leftarrow> (if len \<noteq> unat (me_length entry) \<and> len \<le> SMALL_LENGTH \<and> unat (me_length entry) \<le> SMALL_LENGTH
                          then update_mapping_entry c (kv_mapping_table d) else Some (0, kv_mapping_table d));
                Some (0, status, d\<lparr>storage_mapped := st, kv_mapping_table := t\<rparr>) })"

definition kv_retrieve_io :: "nvme_kv_command \<Rightarrow> mapping_entry \<Rightarrow> u32 \<Rightarrow> kv_ftl \<Rightarrow> kv_answer" where
  "kv_retrieve_io c entry status d =
     (if mem_offset entry = -1 then Some (0, NVMEV_KEY_NOT_EXIST, d)
      else let len = min (unat (me_length entry)) (unat (cmd_value_length c)) in
        do { bs \<leftarrow> get_storage (unat (mem_offset entry)) len (storage_mapped d);
             h \<leftarrow> prp_scatter c 0 None bs (host_memory d);
             Some (of_nat len, status, d\<lparr>host_memory := h\<rparr>) })"

definition do_perform_kv_io :: "zero_area \<Rightarrow> nvme_kv_command \<Rightarrow> u32 \<Rightarrow> kv_ftl \<Rightarrow> kv_answer" where
  "do_perform_kv_io z c status d =
     do { entry \<leftarrow> get_mapping_entry c (kv_mapping_table d);
          if kc_opcode c = nvme_cmd_kv_store then kv_store_io z c entry status d
          else if kc_opcode c = nvme_cmd_kv_retrieve then kv_retrieve_io c entry status d
          else if kc_opcode c = nvme_cmd_kv_exist
          then Some (0, if mem_offset entry = -1 then NVMEV_KEY_NOT_EXIST else status, d)
          else if kc_opcode c = nvme_cmd_kv_delete
          then if mem_offset entry = -1 then Some (0, NVMEV_KEY_NOT_EXIST, d)
               else do { t \<leftarrow> delete_mapping_entry c (kv_mapping_table d);
                         Some (0, status, d\<lparr>kv_mapping_table := t\<rparr>) }
          else Some (0, status, d) }"

section \<open>The batch command\<close>

text \<open>A store of a batch; an update does not record the new length.\<close>

definition do_perform_kv_batched_io :: "zero_area \<Rightarrow> u8 \<Rightarrow> byte list \<Rightarrow> byte list \<Rightarrow> kv_ftl \<Rightarrow> kv_ftl option" where
  "do_perform_kv_batched_io z opcode key val d =
     do { entry \<leftarrow> get_mapping_entry_by_key key (kv_mapping_table d);
          if opcode \<noteq> nvme_cmd_kv_store then Some d
          else if mem_offset entry = -1
          then do { (off, al) \<leftarrow> allocate_mem_offset_by_length z (of_nat (length val)) (kf_allocator d);
                    st \<leftarrow> put_storage (unat off) val (storage_mapped d);
                    t \<leftarrow> new_mapping_entry_by_key (length (storage_mapped d)) key (of_nat (length val)) off
                           (kv_mapping_table d);
                    Some (d\<lparr>kf_allocator := al, storage_mapped := st, kv_mapping_table := t\<rparr>) }
          else do { st \<leftarrow> put_storage (unat (mem_offset entry)) val (storage_mapped d);
                    Some (d\<lparr>storage_mapped := st\<rparr>) } }"

definition ALIGN_LEN :: nat where "ALIGN_LEN = 64"
definition BATCH_HEAD_SIZE :: nat where "BATCH_HEAD_SIZE = 512"
definition BATCH_KEY_SIZE :: nat where "BATCH_KEY_SIZE = 20"
definition BATCH_VALUE_SIZE :: nat where "BATCH_VALUE_SIZE = 4097"

text \<open>The size of a part rounded up to \<open>ALIGN_LEN\<close>; the division of \<open>-1\<close> truncates to 0.\<close>

definition sub_blocks :: "nat \<Rightarrow> nat" where
  "sub_blocks n = ((n - 1) div ALIGN_LEN + 1) * ALIGN_LEN"

definition buffer_bytes :: "byte list \<Rightarrow> nat \<Rightarrow> nat \<Rightarrow> byte list option" where
  "buffer_bytes buf pos n = (if pos + n > length buf then None else Some (take n (drop pos buf)))"

text \<open>
  The loop over the sub-commands: the attributes of sub-command \<open>i\<close> are the sixteen bytes at
  \<open>16 * i\<close>, its key and its value follow a head of \<open>ALIGN_LEN\<close> bytes.
\<close>

fun batch_loop :: "zero_area \<Rightarrow> byte list \<Rightarrow> nat \<Rightarrow> nat \<Rightarrow> nat \<Rightarrow> kv_ftl \<Rightarrow> kv_ftl option" where
  "batch_loop z buf i 0 payload_offset d = Some d"
| "batch_loop z buf i (Suc n) payload_offset d =
     do { attr \<leftarrow> buffer_bytes buf (16 * i) 16;
          let opcode = attr ! 0; key_len = unat (attr ! 1); val_len = le_nat (take 4 (drop 4 attr));
              pos = BATCH_HEAD_SIZE + payload_offset in
          if key_len > BATCH_KEY_SIZE \<or> val_len > BATCH_VALUE_SIZE then None
          else do { key \<leftarrow> buffer_bytes buf pos key_len;
                    val \<leftarrow> buffer_bytes buf (pos + sub_blocks key_len) val_len;
                    d' \<leftarrow> do_perform_kv_batched_io z opcode key val d;
                    batch_loop z buf (Suc i) n
                      (payload_offset + sub_blocks key_len + sub_blocks val_len + ALIGN_LEN) d' } }"

text \<open>The two buffers come from \<open>kmalloc\<close>; its answers are an argument, and a null pointer is used.\<close>

definition do_perform_kv_batch :: "zero_area \<Rightarrow> bool \<Rightarrow> nvme_kv_command \<Rightarrow> u32 \<Rightarrow> kv_ftl \<Rightarrow> kv_answer" where
  "do_perform_kv_batch z kmalloc_ok c status d =
     (if \<not> kmalloc_ok then None
      else do { buf \<leftarrow> prp_gather (host_memory d) c 0 (unat (cmd_value_length c)) None;
                d' \<leftarrow> batch_loop z buf 0 (unat (kc_rsvd4 c)) ALIGN_LEN d;
                Some (0, status, d') })"

section \<open>Iterators\<close>

definition ITER_OPTION_OPEN :: u8 where "ITER_OPTION_OPEN = 1"
definition ITER_OPTION_CLOSE :: u8 where "ITER_OPTION_CLOSE = 2"

definition word_at :: "nat \<Rightarrow> byte list \<Rightarrow> u32" where
  "word_at pos bs = of_nat (le_nat (take 4 (drop pos bs)))"

definition kv_iter_open :: "bool \<Rightarrow> nvme_kv_command \<Rightarrow> u32 \<Rightarrow> kv_ftl \<Rightarrow> kv_answer" where
  "kv_iter_open kmalloc_ok c status d =
     (case List.find (\<lambda>i. iter_handle d ! i = Null_iter) [1 ..< 17] of
        None \<Rightarrow> Some (1, status, d)
      | Some i \<Rightarrow>
          if \<not> kmalloc_ok then None
          else Some (of_nat i, 0, d\<lparr>iter_handle := (iter_handle d)[i :=
                 Open_iter \<lparr>ic_prefix = word_at 0 (kc_key c), ic_bitmask = word_at 4 (kc_key c), ic_current_pos = 0\<rparr>]\<rparr>))"

definition kv_iter_close :: "nvme_kv_command \<Rightarrow> kv_ftl \<Rightarrow> kv_answer" where
  "kv_iter_close c d =
     (let i = unat (kc_key_len c) in
      if i \<ge> length (iter_handle d) then None
      else case iter_handle d ! i of
             Null_iter \<Rightarrow> Some (0, 0, d)
           | Wild \<Rightarrow> None
           | Open_iter _ \<Rightarrow> Some (0, 0, d\<lparr>iter_handle := (iter_handle d)[i := Null_iter]\<rparr>))"

text \<open>
  The loop of \<open>kv_iter_read\<close> from slot \<open>pos\<close>, with the offset in the buffer: the keys it copies,
  the slot it stops at and whether it saw the end of the table.  A key takes a length word and
  sixteen bytes.
\<close>

definition ITER_KEY_LEN :: nat where "ITER_KEY_LEN = 16"

function iter_scan :: "mapping_table \<Rightarrow> u32 \<Rightarrow> u32 \<Rightarrow> nat \<Rightarrow> nat \<Rightarrow> byte list list \<times> nat \<times> bool" where
  "iter_scan t prefix bm pos buf_offset =
     (if pos \<ge> length t then ([], pos, False)
      else let e = t ! pos;
               hit = (mem_offset e \<noteq> -1 \<and> word_at 0 (me_key e) AND bm = prefix AND bm) in
        if hit \<and> buf_offset + 4 + ITER_KEY_LEN > 1024 then ([], pos, False)
        else let keys = (if hit then [take ITER_KEY_LEN (me_key e)] else []) in
          if Suc pos = length t then (keys, Suc pos, True)
          else case iter_scan t prefix bm (Suc pos) (if hit then buf_offset + 4 + ITER_KEY_LEN else buf_offset) of
                 (ks, p, end) \<Rightarrow> (keys @ ks, p, end))"
  by pat_completeness auto
termination
  by (relation "measure (\<lambda>(t, prefix, bm, pos, buf_offset). length t - pos)") auto

declare iter_scan.simps [simp del]

definition iter_buffer :: "byte list list \<Rightarrow> byte list" where
  "iter_buffer keys = to_le 4 (length keys) @ concat (map (\<lambda>k. to_le 4 ITER_KEY_LEN @ k) keys)"

definition kv_iter_read :: "nvme_kv_command \<Rightarrow> u32 \<Rightarrow> kv_ftl \<Rightarrow> kv_answer" where
  "kv_iter_read c status d =
     (let i = unat (kc_key_len c) in
      if i \<ge> length (iter_handle d) then None
      else case iter_handle d ! i of
             Null_iter \<Rightarrow> Some (0, status, d)
           | Wild \<Rightarrow> None
           | Open_iter ic \<Rightarrow>
               (case iter_scan (kv_mapping_table d) (ic_prefix ic) (ic_bitmask ic) (ic_current_pos ic) 4 of
                  (keys, pos, end) \<Rightarrow>
                    do { h \<leftarrow> prp_scatter c 0 None (iter_buffer keys) (host_memory d);
                         Some (of_nat (length (iter_buffer keys)), if end then ITER_END_STATUS else 0,
                           d\<lparr>host_memory := h,
                             iter_handle := (iter_handle d)[i := Open_iter (ic\<lparr>ic_current_pos := pos\<rparr>)]\<rparr>) }))"

definition do_perform_kv_iter_io :: "bool \<Rightarrow> nvme_kv_command \<Rightarrow> u32 \<Rightarrow> kv_ftl \<Rightarrow> kv_answer" where
  "do_perform_kv_iter_io kmalloc_ok c status d =
     (if kc_opcode c = nvme_cmd_kv_iter_req
      then if kc_option c AND ITER_OPTION_OPEN \<noteq> 0 then kv_iter_open kmalloc_ok c status d
           else if kc_option c AND ITER_OPTION_CLOSE \<noteq> 0 then kv_iter_close c d
           else Some (0, status, d)
      else if kc_opcode c = nvme_cmd_kv_iter_read then kv_iter_read c status d
      else Some (0, status, d))"

section \<open>Dispatch and initialisation\<close>

definition is_kv_iter_cmd :: "u8 \<Rightarrow> bool" where
  "is_kv_iter_cmd opcode \<longleftrightarrow> opcode = nvme_cmd_kv_iter_req \<or> opcode = nvme_cmd_kv_iter_read"

definition is_kv_cmd :: "u8 \<Rightarrow> bool" where
  "is_kv_cmd opcode \<longleftrightarrow> opcode = nvme_cmd_kv_append \<or> opcode = nvme_cmd_kv_store \<or> opcode = nvme_cmd_kv_retrieve \<or>
     opcode = nvme_cmd_kv_delete \<or> is_kv_iter_cmd opcode \<or> opcode = nvme_cmd_kv_exist \<or> opcode = nvme_cmd_kv_batch"

definition kv_identify_nvme_io_cmd :: "nvme_kv_command \<Rightarrow> bool" where
  "kv_identify_nvme_io_cmd c = is_kv_cmd (kc_opcode c)"

definition kv_perform_nvme_io_cmd :: "zero_area \<Rightarrow> bool \<Rightarrow> nvme_kv_command \<Rightarrow> u32 \<Rightarrow> kv_ftl \<Rightarrow> kv_answer" where
  "kv_perform_nvme_io_cmd z kmalloc_ok c status d =
     (if kc_opcode c = nvme_cmd_kv_batch then do_perform_kv_batch z kmalloc_ok c status d
      else if is_kv_iter_cmd (kc_opcode c) then do_perform_kv_iter_io kmalloc_ok c status d
      else do_perform_kv_io z c status d)"

text \<open>
  The configured allocator is the append-only one.  The size of the table in entries is an
  argument, and so is what the memory of the handle with the number 16 holds, which the loop
  that clears the handles does not reach.
\<close>

definition kv_init_namespace :: "nat \<Rightarrow> iter_slot \<Rightarrow> byte list \<Rightarrow> host_pages \<Rightarrow> kv_ftl" where
  "kv_init_namespace hash_slots leftover st h =
     \<lparr>kv_mapping_table = replicate hash_slots new_entry,
      kf_allocator = Append_only (append_only_allocator_init (of_nat (length st))),
      iter_handle = replicate 16 Null_iter @ [leftover],
      storage_mapped = st, host_memory = h\<rparr>"

text \<open>Removal frees the structure; the mapping of the table and the open iterators are left behind.\<close>

definition kv_remove_namespace :: "kv_ftl option \<Rightarrow> kv_ftl option" where
  "kv_remove_namespace ftls = None"

section \<open>Completion times\<close>

record io_unit_config =
  nr_io_units :: nat
  io_unit_shift :: nat
  read_delay :: u32
  read_time :: u32
  read_trailing :: u32
  write_delay :: u32
  write_time :: u32
  write_trailing :: u32

definition KV_LBA_BITS :: nat where "KV_LBA_BITS = 9"

text \<open>The loop over the units that a request occupies; \<open>nr\<close> counts down and may pass below zero.\<close>

function schedule_loop :: "io_unit_config \<Rightarrow> u32 \<Rightarrow> u32 \<Rightarrow> nat \<Rightarrow> int \<Rightarrow> nat \<Rightarrow> u64 \<Rightarrow> u64 list \<Rightarrow> u64 \<times> u64 list" where
  "schedule_loop cfg latency trailing io_unit nr len latest stats =
     (let latest' = latest + ucast latency;
          stats' = stats[io_unit := latest' + (if nr > 0 then ucast trailing else 0)];
          len' = len - min len (2 ^ io_unit_shift cfg);
          unit' = (if Suc io_unit \<ge> nr_io_units cfg then 0 else Suc io_unit) in
      if len' > 0 then schedule_loop cfg latency trailing unit' (nr - 1) len' latest' stats' else (latest', stats'))"
  by pat_completeness auto
termination
  by (relation "measure (\<lambda>(cfg, latency, trailing, io_unit, nr, len, latest, stats). len)") (auto simp: min_def split: if_splits)

declare schedule_loop.simps [simp del]

definition io_delays :: "io_unit_config \<Rightarrow> u8 \<Rightarrow> u32 \<times> u32 \<times> u32" where
  "io_delays cfg opcode =
     (if opcode = 1 \<or> opcode = nvme_cmd_kv_store \<or> opcode = nvme_cmd_kv_batch
      then (write_delay cfg, write_time cfg, write_trailing cfg)
      else if opcode = 2 \<or> opcode = nvme_cmd_kv_retrieve
      then (read_delay cfg, read_time cfg, read_trailing cfg)
      else (0, 0, 0))"

definition schedule_io_units :: "io_unit_config \<Rightarrow> u8 \<Rightarrow> u64 \<Rightarrow> u32 \<Rightarrow> u64 \<Rightarrow> u64 list \<Rightarrow> (u64 \<times> u64 list) option" where
  "schedule_io_units cfg opcode lba len nsecs_start stats =
     (if nr_io_units cfg = 0 \<or> io_unit_shift cfg < KV_LBA_BITS \<or> io_unit_shift cfg \<ge> 31 then None
      else let io_unit = unat (drop_bit (io_unit_shift cfg - KV_LBA_BITS) lba) mod nr_io_units cfg;
               units = unat ((len + 2 ^ io_unit_shift cfg - 1) div 2 ^ io_unit_shift cfg);
               (delay, latency, trailing) = io_delays cfg opcode in
        if io_unit \<ge> length stats then None
        else Some (schedule_loop cfg latency trailing io_unit (int (min (nr_io_units cfg) units)) (unat len)
               (max nsecs_start (stats ! io_unit) + ucast delay) stats))"

definition schedule_flush :: "u64 list \<Rightarrow> u64" where
  "schedule_flush stats = foldl max 0 stats"

definition cmd_io_size :: "u16 \<Rightarrow> u32" where
  "cmd_io_size len = push_bit KV_LBA_BITS (ucast len + 1)"

text \<open>
  The time that a command completes at; the block commands carry an address and a length of
  their own, and for any other command the target stays what it was.
\<close>

definition kv_proc_nvme_io_cmd :: "io_unit_config \<Rightarrow> u8 \<Rightarrow> u64 \<Rightarrow> u16 \<Rightarrow> u32 \<Rightarrow> u64 \<Rightarrow> u64 \<Rightarrow> u64 list \<Rightarrow>
    (u64 \<times> u64 list) option" where
  "kv_proc_nvme_io_cmd cfg opcode slba rw_len value_len now target stats =
     (if opcode = 1 \<or> opcode = 2 then schedule_io_units cfg opcode slba (cmd_io_size rw_len) now stats
      else if opcode = 0 then Some (schedule_flush stats, stats)
      else if opcode = nvme_cmd_kv_store \<or> opcode = nvme_cmd_kv_retrieve \<or> opcode = nvme_cmd_kv_batch
      then schedule_io_units cfg opcode 0 value_len now stats
      else Some (target, stats))"

end
