(* ===== verification/Kv_Ftl_Table.thy ===== *)
theory Kv_Ftl_Table
  imports Kv_Ftl
begin

text \<open>
  The mapping table of the translation layer as a finite map.  The keys are of one length, which
  is what the comparison of the lookup needs; the chains of the table then stay without cycles,
  every key is on the chain that starts at its hash slot, and an insertion adds one key and keeps
  all others.  A deletion does not keep this: it cuts the chain at the slot it clears.
\<close>

section \<open>Chains\<close>

inductive chain :: "mapping_table \<Rightarrow> u32 \<Rightarrow> u32 list \<Rightarrow> bool" for t where
  last_slot: "unat s < length t \<Longrightarrow> occupied t s \<Longrightarrow> next_slot (t ! unat s) = -1 \<Longrightarrow> chain t s [s]"
| next_slot: "unat s < length t \<Longrightarrow> occupied t s \<Longrightarrow> next_slot (t ! unat s) \<noteq> -1 \<Longrightarrow>
    chain t (next_slot (t ! unat s)) ss \<Longrightarrow> chain t s (s # ss)"

lemma chain_nonempty: "chain t s ss \<Longrightarrow> ss \<noteq> [] \<and> hd ss = s"
  by (induction rule: chain.induct) simp_all

lemma chain_slots: "chain t s ss \<Longrightarrow> x \<in> set ss \<Longrightarrow> unat x < length t \<and> occupied t x"
  by (induction rule: chain.induct) auto

lemma chain_iff:
  "chain t s ss \<longleftrightarrow> unat s < length t \<and> occupied t s \<and>
     (if next_slot (t ! unat s) = -1 then ss = [s]
      else \<exists>ss'. ss = s # ss' \<and> chain t (next_slot (t ! unat s)) ss')" (is "_ \<longleftrightarrow> ?R")
proof
  show "chain t s ss \<Longrightarrow> ?R" by (erule chain.cases) simp_all
  assume r: ?R
  then show "chain t s ss"
  proof (cases "next_slot (t ! unat s) = -1")
    case True
    then show ?thesis using r chain.last_slot [of s t] by simp
  next
    case False
    then obtain ss' where "ss = s # ss'" "chain t (next_slot (t ! unat s)) ss'" using r by auto
    then show ?thesis using r False chain.next_slot [of s t ss'] by simp
  qed
qed

lemma slot_chain_unique: "chain t s ss \<Longrightarrow> chain t s ss' \<Longrightarrow> ss' = ss"
proof (induction arbitrary: ss' rule: chain.induct)
  case (last_slot s)
  from last_slot.prems last_slot.hyps show ?case unfolding chain_iff [of t s ss'] by simp
next
  case (next_slot s ss)
  from next_slot.prems next_slot.hyps obtain ss'' where "ss' = s # ss''" "chain t (next_slot (t ! unat s)) ss''"
    unfolding chain_iff [of t s ss'] by auto
  then show ?case using next_slot.IH by simp
qed

lemma chain_last: "chain t s ss \<Longrightarrow> next_slot (t ! unat (last ss)) = -1"
  by (induction rule: chain.induct) (auto dest: chain_nonempty)

lemma find_mapping_chain:
  "chain t s ss \<Longrightarrow>
     find_mapping t key s = Some (List.find (\<lambda>x. take (length key) (me_key (t ! unat x)) = key) ss)"
proof (induction rule: chain.induct)
  case (last_slot s)
  then show ?case by (subst find_mapping.simps) simp
next
  case (next_slot s ss)
  then show ?case by (subst find_mapping.simps) simp
qed

lemma chain_tail_last: "chain t s ss \<Longrightarrow> chain_tail t s p = Some (last ss)"
proof (induction arbitrary: p rule: chain.induct)
  case (last_slot s)
  then show ?case by (subst chain_tail.simps) simp
next
  case (next_slot s ss)
  then show ?case by (subst chain_tail.simps) (simp add: chain_nonempty)
qed

text \<open>A chain that does not meet the changed slots stays.\<close>

lemma slot_chain_frame:
  assumes "chain t s ss" "length t' = length t" "\<And>x. x \<in> set ss \<Longrightarrow> t' ! unat x = t ! unat x"
  shows "chain t' s ss"
  using assms
proof (induction rule: chain.induct)
  case (last_slot s)
  then show ?case by (auto intro!: chain.last_slot)
next
  case (next_slot s ss)
  have "t' ! unat s = t ! unat s" using next_slot(7) by simp
  then show ?case using next_slot by (auto intro!: chain.next_slot)
qed

text \<open>Appending a slot to the end of a chain extends every chain that ends there.\<close>

lemma chain_append:
  assumes "chain t s ss" "length t' = length t" "unat p < length t" "unat r < length t"
    and p: "next_slot (t ! unat p) = -1" "occupied t' p" "next_slot (t' ! unat p) = r"
    and r: "\<not> occupied t r" "r \<noteq> -1" "occupied t' r" "next_slot (t' ! unat r) = -1"
    and same: "\<And>x. x \<noteq> p \<Longrightarrow> x \<noteq> r \<Longrightarrow> unat x < length t \<Longrightarrow> t' ! unat x = t ! unat x"
  shows "chain t' s (if last ss = p then ss @ [r] else ss)"
  using assms(1)
proof (induction rule: chain.induct)
  case (last_slot s)
  have cr: "chain t' r [r]" using r assms(2,4) by (intro chain.last_slot) auto
  show ?case
  proof (cases "s = p")
    case True
    have "chain t' p [p, r]" using chain.next_slot [of p t' "[r]"] cr p r assms(2,3) by simp
    then show ?thesis using True by simp
  next
    case False
    moreover have "s \<noteq> r" using last_slot r by auto
    ultimately show ?thesis using last_slot same [of s] assms(2) by (auto intro!: chain.last_slot)
  qed
next
  case (next_slot s ss)
  have "s \<noteq> p" "s \<noteq> r" using next_slot p r by auto
  then have t: "t' ! unat s = t ! unat s" using same next_slot by simp
  have "last (s # ss) = last ss" using chain_nonempty [OF next_slot(4)] by simp
  then show ?case using next_slot t assms(2) by (auto intro!: chain.next_slot)
qed

section \<open>The next free slot\<close>

lemma find_free_distance:
  assumes n: "length t < 2 ^ 32" and f: "f < length t" "mem_offset (t ! f) = -1"
  shows "unat s < length t \<Longrightarrow> (unat s + d) mod length t = f \<Longrightarrow>
     \<exists>r. find_free t s = Some r \<and> unat r < length t \<and> \<not> occupied t r"
proof (induction d arbitrary: s)
  case 0
  then show ?case using f by (subst find_free.simps) auto
next
  case (Suc d)
  show ?case
  proof (cases "occupied t s")
    case True
    let ?s = "if unat (s + 1) \<ge> length t then 0 else s + 1"
    have s1: "unat (s + 1) = unat s + 1" using Suc.prems(1) n by (intro unat_suc_no_wrap) simp
    then have "unat ?s < length t" using Suc.prems(1) by auto
    moreover have "(unat ?s + d) mod length t = f"
    proof (cases "unat s + 1 \<ge> length t")
      case True
      then have "unat s + Suc d = length t + d" using Suc.prems(1) by linarith
      then have "d mod length t = f" using Suc.prems(2) by (simp only: mod_add_self1)
      then show ?thesis using True s1 by simp
    qed (use s1 Suc.prems(2) in simp)
    ultimately have "\<exists>r. find_free t ?s = Some r \<and> unat r < length t \<and> \<not> occupied t r" by (rule Suc.IH)
    then show ?thesis using True Suc.prems(1) by (subst find_free.simps) simp
  qed (use Suc.prems(1) in \<open>subst find_free.simps, simp\<close>)
qed

lemma find_free_ok:
  assumes "length t < 2 ^ 32" "f < length t" "mem_offset (t ! f) = -1" "unat s < length t"
  obtains r where "find_free t s = Some r" "unat r < length t" "\<not> occupied t r"
proof -
  have "(unat s + (length t - unat s + f)) mod length t = f" using assms by simp
  then show thesis using find_free_distance [OF assms(1-3,4)] that by blast
qed

text \<open>When there is none, the search does not end.\<close>

lemma find_free_result: "find_free t s = Some r \<Longrightarrow> unat r < length t \<and> \<not> occupied t r"
  by (induction rule: find_free.raw_induct [rotated 1, consumes 1]) (auto split: if_splits)

section \<open>The invariant\<close>

definition slot_key :: "nat \<Rightarrow> mapping_table \<Rightarrow> u32 \<Rightarrow> byte list" where
  "slot_key L t s = take L (me_key (t ! unat s))"

definition in_use :: "mapping_table \<Rightarrow> u32 \<Rightarrow> bool" where
  "in_use t s \<longleftrightarrow> unat s < length t \<and> occupied t s"

definition holds_key :: "nat \<Rightarrow> mapping_table \<Rightarrow> byte list \<Rightarrow> u32 \<Rightarrow> bool" where
  "holds_key L t k s \<longleftrightarrow> in_use t s \<and> slot_key L t s = k"

definition table_ok :: "nat \<Rightarrow> mapping_table \<Rightarrow> bool" where
  "table_ok L t \<longleftrightarrow> 0 < length t \<and> length t < 2 ^ 32 \<and> L \<le> ENTRY_KEY_SIZE \<and>
     (\<forall>s. unat s < length t \<longrightarrow> length (me_key (t ! unat s)) = ENTRY_KEY_SIZE \<and>
        (\<not> occupied t s \<longrightarrow> next_slot (t ! unat s) = -1)) \<and>
     (\<forall>s. in_use t s \<longrightarrow> (\<exists>ss. chain t s ss)) \<and>
     (\<forall>s. in_use t s \<longrightarrow> (\<exists>ss. chain t (get_hash_slot t (slot_key L t s)) ss \<and> s \<in> set ss)) \<and>
     (\<forall>s s'. in_use t s \<longrightarrow> in_use t s' \<longrightarrow> slot_key L t s = slot_key L t s' \<longrightarrow> s = s')"

lemma table_okD:
  assumes "table_ok L t"
  shows "0 < length t" "length t < 2 ^ 32" "L \<le> ENTRY_KEY_SIZE"
    and "unat s < length t \<Longrightarrow> length (me_key (t ! unat s)) = ENTRY_KEY_SIZE"
    and "unat s < length t \<Longrightarrow> \<not> occupied t s \<Longrightarrow> next_slot (t ! unat s) = -1"
    and "in_use t s \<Longrightarrow> \<exists>ss. chain t s ss"
    and "in_use t s \<Longrightarrow> \<exists>ss. chain t (get_hash_slot t (slot_key L t s)) ss \<and> s \<in> set ss"
    and "in_use t s \<Longrightarrow> in_use t s' \<Longrightarrow> slot_key L t s = slot_key L t s' \<Longrightarrow> s = s'"
  using assms unfolding table_ok_def by blast+

lemma table_okI:
  assumes "0 < length t" "length t < 2 ^ 32" "L \<le> ENTRY_KEY_SIZE"
    and "\<And>s :: u32. unat s < length t \<Longrightarrow> length (me_key (t ! unat s)) = ENTRY_KEY_SIZE"
    and "\<And>s :: u32. unat s < length t \<Longrightarrow> \<not> occupied t s \<Longrightarrow> next_slot (t ! unat s) = -1"
    and "\<And>s. in_use t s \<Longrightarrow> \<exists>ss. chain t s ss"
    and "\<And>s. in_use t s \<Longrightarrow> \<exists>ss. chain t (get_hash_slot t (slot_key L t s)) ss \<and> s \<in> set ss"
    and "\<And>s s'. in_use t s \<Longrightarrow> in_use t s' \<Longrightarrow> slot_key L t s = slot_key L t s' \<Longrightarrow> s = s'"
  shows "table_ok L t"
  unfolding table_ok_def by (intro conjI allI impI) (use assms in blast)+

lemma hash_slot_bound: "0 < length t \<Longrightarrow> length t < 2 ^ 32 \<Longrightarrow> unat (get_hash_slot t k) < length t"
proof -
  assume l: "0 < length t" "length t < 2 ^ 32"
  have "unat (hash_function k) mod length t < 2 ^ 32"
    using mod_less_divisor [OF l(1), of "unat (hash_function k)"] l(2) by linarith
  then show ?thesis
    using mod_less_divisor [OF l(1), of "unat (hash_function k)"]
    by (simp add: get_hash_slot_def unat_of_nat take_bit_nat_eq_self)
qed

lemma get_hash_slot_length: "length t' = length t \<Longrightarrow> get_hash_slot t' k = get_hash_slot t k"
  by (simp add: get_hash_slot_def)

text \<open>A lookup returns the slot that holds the key, if there is one, and it always returns.\<close>

lemma find_mapping_ok:
  assumes t: "table_ok L t" and k: "length k = L"
  obtains r where "find_mapping t k (get_hash_slot t k) = Some r" "\<And>s. r = Some s \<longleftrightarrow> holds_key L t k s"
proof -
  let ?h = "get_hash_slot t k"
  have h: "unat ?h < length t" by (rule hash_slot_bound [OF table_okD(1,2) [OF t]])
  show thesis
  proof (cases "occupied t ?h")
    case False
    have "find_mapping t k ?h = Some None" using h False by (subst find_mapping.simps) simp
    moreover have "\<not> holds_key L t k s" for s
    proof
      assume s: "holds_key L t k s"
      then obtain ss where "chain t ?h ss" using table_okD(7) [OF t, of s] by (auto simp: holds_key_def)
      then show False using False by (simp add: chain_iff [of t ?h])
    qed
    ultimately show thesis using that [of None] by simp
  next
    case True
    then obtain ss where ss: "chain t ?h ss" using table_okD(6) [OF t, of ?h] h by (auto simp: in_use_def)
    let ?P = "\<lambda>x. take (length k) (me_key (t ! unat x)) = k"
    have "List.find ?P ss = Some s \<longleftrightarrow> holds_key L t k s" for s
    proof
      assume "List.find ?P ss = Some s"
      then have "s \<in> set ss" "?P s" by (auto simp: find_Some_iff)
      then show "holds_key L t k s" using chain_slots [OF ss] k by (simp add: holds_key_def in_use_def slot_key_def)
    next
      assume s: "holds_key L t k s"
      then obtain ss' where "chain t ?h ss'" "s \<in> set ss'" using table_okD(7) [OF t, of s] by (auto simp: holds_key_def)
      then have "s \<in> set ss" using slot_chain_unique [OF ss] by simp
      moreover have "?P s" using s k by (simp add: holds_key_def slot_key_def)
      ultimately obtain x where x: "List.find ?P ss = Some x"
        by (cases "List.find ?P ss") (auto simp: find_None_iff)
      then have "x \<in> set ss" "?P x" by (auto simp: find_Some_iff)
      then have "x = s" using table_okD(8) [OF t, of x s] s chain_slots [OF ss] k
        by (simp add: holds_key_def in_use_def slot_key_def)
      then show "List.find ?P ss = Some s" using x by simp
    qed
    then show thesis using that find_mapping_chain [OF ss, of k] by blast
  qed
qed

section \<open>Insertion\<close>

text \<open>What an insertion changes: a free slot takes the key, and some chain is linked to it.\<close>

definition inserted :: "nat \<Rightarrow> byte list \<Rightarrow> u64 \<Rightarrow> u64 \<Rightarrow> u32 \<Rightarrow> mapping_table \<Rightarrow> mapping_table \<Rightarrow> bool" where
  "inserted L k len off r t t' \<longleftrightarrow> length t' = length t \<and> unat r < length t \<and> \<not> occupied t r \<and>
     me_key (t' ! unat r) = k @ drop (length k) (me_key (t ! unat r)) \<and>
     mem_offset (t' ! unat r) = off \<and> me_length (t' ! unat r) = len \<and> next_slot (t' ! unat r) = -1 \<and>
     (\<forall>x. x \<noteq> r \<longrightarrow> unat x < length t \<longrightarrow> me_key (t' ! unat x) = me_key (t ! unat x) \<and>
        mem_offset (t' ! unat x) = mem_offset (t ! unat x) \<and> me_length (t' ! unat x) = me_length (t ! unat x) \<and>
        (\<not> occupied t x \<longrightarrow> next_slot (t' ! unat x) = next_slot (t ! unat x)))"

lemma inserted_in_use:
  assumes "inserted L k len off r t t'" "off \<noteq> -1"
  shows "in_use t' x \<longleftrightarrow> x = r \<or> in_use t x"
  using assms by (cases "x = r") (auto simp: inserted_def in_use_def)

lemma inserted_slot_key:
  assumes "inserted L k len off r t t'" "length k = L"
  shows "slot_key L t' r = k" "x \<noteq> r \<Longrightarrow> unat x < length t \<Longrightarrow> slot_key L t' x = slot_key L t x"
  using assms by (auto simp: inserted_def slot_key_def)

text \<open>The invariant follows when every old chain has a counterpart and the new slot is on its chain.\<close>

lemma inserted_ok:
  assumes t: "table_ok L t" and i: "inserted L k len off r t t'" and off: "off \<noteq> -1" and k: "length k = L"
    and fresh: "\<And>s. \<not> holds_key L t k s"
    and old: "\<And>s ss. chain t s ss \<Longrightarrow> \<exists>ss'. chain t' s ss' \<and> set ss \<subseteq> set ss'"
    and new: "chain t' r [r]" "\<exists>ss. chain t' (get_hash_slot t k) ss \<and> r \<in> set ss"
  shows "table_ok L t'"
proof -
  have len: "length t' = length t" using i by (simp add: inserted_def)
  note iu = inserted_in_use [OF i off] and sk = inserted_slot_key [OF i k]
  have r: "\<not> in_use t r" "unat r < length t" using i by (auto simp: inserted_def in_use_def)
  have ks: "length (me_key (t' ! unat s)) = ENTRY_KEY_SIZE" if "unat s < length t" for s :: u32
    using i that table_okD(3,4) [OF t] k by (cases "s = r") (auto simp: inserted_def)
  have nx: "next_slot (t' ! unat s) = -1" if "unat s < length t" "\<not> occupied t' s" for s
    using i that table_okD(5) [OF t, of s] off by (cases "s = r") (auto simp: inserted_def)
  have ch: "\<exists>ss. chain t' s ss" if "in_use t' s" for s
    using that table_okD(6) [OF t, of s] old new(1) unfolding iu by metis
  have hs: "\<exists>ss. chain t' (get_hash_slot t' (slot_key L t' s)) ss \<and> s \<in> set ss" if "in_use t' s" for s
  proof (cases "s = r")
    case True
    then show ?thesis using new(2) sk(1) by (simp add: get_hash_slot_length [OF len])
  next
    case False
    then have s: "in_use t s" using that by (simp add: iu)
    then obtain ss where "chain t (get_hash_slot t (slot_key L t s)) ss" "s \<in> set ss" using table_okD(7) [OF t] by blast
    moreover have "slot_key L t' s = slot_key L t s" using sk(2) [OF False] s by (simp add: in_use_def)
    moreover obtain ss' where "chain t' (get_hash_slot t (slot_key L t s)) ss'" "set ss \<subseteq> set ss'"
      using old [OF calculation(1)] by blast
    ultimately show ?thesis unfolding get_hash_slot_length [OF len] by (intro exI [of _ ss']) auto
  qed
  have un: "s = s'" if u: "in_use t' s" "in_use t' s'" and e: "slot_key L t' s = slot_key L t' s'" for s s'
  proof -
    have new_key: "slot_key L t' x \<noteq> k" if "in_use t x" "x \<noteq> r" for x
      using fresh [of x] sk(2) [OF that(2)] that(1) by (auto simp: holds_key_def in_use_def)
    consider "s = r" "s' = r" | "s = r" "s' \<noteq> r" "in_use t s'" | "s \<noteq> r" "s' = r" "in_use t s"
      | "s \<noteq> r" "s' \<noteq> r" "in_use t s" "in_use t s'" using u unfolding iu by blast
    then show ?thesis
    proof cases
      case 2
      then show ?thesis using e sk(1) new_key [of s'] by simp
    next
      case 3
      then show ?thesis using e sk(1) new_key [of s] by simp
    next
      case 4
      then have "slot_key L t s = slot_key L t s'" using e sk(2) [of s] sk(2) [of s'] by (simp add: in_use_def)
      then show ?thesis using table_okD(8) [OF t] 4 by blast
    qed simp
  qed
  show ?thesis
    using table_okD(1-3) [OF t] len by (intro table_okI ks nx ch hs un) simp_all
qed

lemma word_ne_minus_one: "unat (s :: u32) < n \<Longrightarrow> n < 2 ^ 32 \<Longrightarrow> s \<noteq> -1"
proof
  assume "unat s < n" "n < 2 ^ 32" "s = -1"
  moreover have "unat (-1 :: u32) = 2 ^ 32 - 1" by (simp add: unsigned_minus_1_eq_mask mask_eq_exp_minus_1)
  ultimately show False by simp
qed

lemma nth_update_word:
  fixes s x :: u32
  shows "unat s < length t \<Longrightarrow> t[unat s := e] ! unat x = (if x = s then e else t ! unat x)"
  by (auto simp: nth_list_update word_unat_eq_iff)

lemma new_mapping_entry_ok:
  assumes t: "table_ok L t" and k: "length k = L" and fresh: "\<And>s. \<not> holds_key L t k s"
    and off: "unat off < storage" "off \<noteq> -1" and f: "f < length t" "mem_offset (t ! f) = -1"
  obtains r t' where "new_mapping_entry_by_key storage k len off t = Some t'" "inserted L k len off r t t'" "table_ok L t'"
proof -
  let ?h = "get_hash_slot t k"
  note bounds = table_okD(1,2) [OF t]
  have h: "unat ?h < length t" by (rule hash_slot_bound [OF bounds])
  let ?e = "\<lambda>r. (t ! unat r)\<lparr>me_key := k @ drop L (me_key (t ! unat r)), mem_offset := off, me_length := len\<rparr>"
  have def: "new_mapping_entry_by_key storage k len off t =
      do { (slot, prev) \<leftarrow> (if occupied t ?h then find_next_slot t ?h else Some (?h, -1));
           Some (if prev \<noteq> -1 then chain_mapping prev slot (t[unat slot := ?e slot]) else t[unat slot := ?e slot]) }"
    using off h k table_okD(3) [OF t] by (simp add: new_mapping_entry_by_key_def Let_def)
  show thesis
  proof (cases "occupied t ?h")
    case False
    let ?t = "t[unat ?h := ?e ?h]"
    have i: "inserted L k len off ?h t ?t"
      using h False table_okD(5) [OF t h False] by (auto simp: inserted_def nth_update_word k)
    have old: "chain ?t s ss" if "chain t s ss" for s ss
      using chain_slots [OF that] False h by (intro slot_chain_frame [OF that]) (auto simp: nth_update_word)
    have new: "chain ?t ?h [?h]"
      using h off table_okD(5) [OF t h False] by (simp add: chain_iff nth_update_word)
    have "table_ok L ?t"
    proof (rule inserted_ok [OF t i off(2) k fresh])
      show "\<exists>ss'. chain ?t s ss' \<and> set ss \<subseteq> set ss'" if "chain t s ss" for s ss using old [OF that] by blast
      show "\<exists>ss. chain ?t ?h ss \<and> ?h \<in> set ss" using new by (intro exI [of _ "[?h]"]) simp
    qed (rule new)
    then show thesis using that [of ?t ?h] i False def by simp
  next
    case True
    then obtain ss where ss: "chain t ?h ss" using table_okD(6) [OF t, of ?h] h by (auto simp: in_use_def)
    let ?p = "last ss"
    have p: "?p \<in> set ss" "unat ?p < length t" "occupied t ?p" "next_slot (t ! unat ?p) = -1"
      using chain_nonempty [OF ss] chain_slots [OF ss, of ?p] chain_last [OF ss] by auto
    obtain r where r: "find_free t ?p = Some r" "unat r < length t" "\<not> occupied t r"
      using find_free_ok [OF bounds(2) f p(2)] by blast
    have m: "?p \<noteq> -1" "r \<noteq> -1" using word_ne_minus_one p(2) r(2) bounds(2) by blast+
    have pr: "?p \<noteq> r" using p(3) r(3) by auto
    let ?t1 = "t[unat r := ?e r]"
    let ?t = "chain_mapping ?p r ?t1"
    have at: "?t ! unat x = (if x = ?p then (t ! unat ?p)\<lparr>next_slot := r\<rparr> else if x = r then ?e r else t ! unat x)" for x
      using p(2) r(2) pr by (auto simp: chain_mapping_def nth_update_word)
    have len: "length ?t = length t" by (simp add: chain_mapping_def)
    have nr: "next_slot (t ! unat r) = -1" by (rule table_okD(5) [OF t r(2,3)])
    have i: "inserted L k len off r t ?t" using r p pr nr by (auto simp: inserted_def at len k)
    have app: "chain ?t s (if last xs = ?p then xs @ [r] else xs)" if "chain t s xs" for s xs
      using p r m nr pr off(2) by (intro chain_append [OF that len p(2) r(2)]) (auto simp: at)
    have "table_ok L ?t"
    proof (rule inserted_ok [OF t i off(2) k fresh])
      fix s xs assume "chain t s xs"
      from app [OF this] show "\<exists>ss'. chain ?t s ss' \<and> set xs \<subseteq> set ss'" by (auto split: if_splits)
    next
      show "chain ?t r [r]" using r pr nr off(2) by (simp add: chain_iff at len)
      show "\<exists>ss. chain ?t ?h ss \<and> r \<in> set ss" using app [OF ss] by auto
    qed
    moreover have "find_next_slot t ?h = Some (r, ?p)"
      using chain_tail_last [OF ss] r(1) by (simp add: find_next_slot_def)
    ultimately show thesis using that [of ?t r] i True def m by simp
  qed
qed

end
