(* ===== verification/Kv_Ftl_Map.thy ===== *)
theory Kv_Ftl_Map
  imports Kv_Ftl_Table
begin

text \<open>
  The translation layer with the append-only allocator refines a finite map: the state is
  abstracted to the stored values, the pages of the host, the bytes handed out and the number of
  keys, and the store, retrieve and exist commands act on the abstraction as on a map.
\<close>

section \<open>Transfers\<close>

definition host_pages_ok :: "host_pages \<Rightarrow> bool" where
  "host_pages_ok h \<longleftrightarrow> (\<forall>pfn pg. h pfn = Some pg \<longrightarrow> length pg = KV_PAGE_SIZE)"

lemma prp_io_size_bound:
  "prp_io_size paddr n + unat (take_bit 12 paddr) \<le> KV_PAGE_SIZE" "prp_io_size paddr n \<le> n"
proof -
  have "unat (take_bit 12 paddr) < 2 ^ 12" unfolding unsigned_take_bit_eq by (rule take_bit_nat_less_exp)
  then show "prp_io_size paddr n + unat (take_bit 12 paddr) \<le> KV_PAGE_SIZE" "prp_io_size paddr n \<le> n"
    by (auto simp: prp_io_size_def KV_PAGE_SIZE_def Let_def min_def)
qed

lemma prp_gather_length:
  "host_pages_ok h \<Longrightarrow> prp_gather h c o' n lst = Some bs \<Longrightarrow> length bs = n"
proof (induction h c o' n lst arbitrary: bs rule: prp_gather.induct)
  case (1 h c o' n lst)
  show ?case
  proof (cases "n = 0")
    case True
    then show ?thesis using 1(3) by (subst (asm) prp_gather.simps) simp
  next
    case False
    from 1(3) False obtain paddr lst' pg bs' where a: "prp_addr h c (Suc o') n lst = Some (paddr, lst')"
      "h (drop_bit 12 paddr) = Some pg" "prp_gather h c (Suc o') (n - prp_io_size paddr n) lst' = Some bs'"
      "bs = take (prp_io_size paddr n) (drop (unat (take_bit 12 paddr)) pg) @ bs'"
      by (subst (asm) prp_gather.simps) (auto simp: Let_def split: option.splits)
    have "length bs' = n - prp_io_size paddr n" using 1(1) [OF False a(1) refl a(2) refl 1(2) a(3)] .
    moreover have "length pg = KV_PAGE_SIZE" using 1(2) a(2) by (auto simp: host_pages_ok_def)
    ultimately show ?thesis using prp_io_size_bound [of paddr n] by (simp add: a(4))
  qed
qed

lemma prp_scatter_ok:
  "host_pages_ok h \<Longrightarrow> prp_scatter c o' lst bs h = Some h' \<Longrightarrow> host_pages_ok h'"
proof (induction c o' lst bs h rule: prp_scatter.induct)
  case (1 c o' lst bs h)
  show ?case
  proof (cases "bs = []")
    case True
    then show ?thesis using 1(2,3) by (subst (asm) prp_scatter.simps) simp
  next
    case False
    let ?n = "\<lambda>p. prp_io_size p (length bs)" and ?m = "\<lambda>p :: u64. unat (take_bit 12 p)"
    from 1(3) False obtain paddr lst' pg where a: "prp_addr h c (Suc o') (length bs) lst = Some (paddr, lst')"
      "h (drop_bit 12 paddr) = Some pg"
      "prp_scatter c (Suc o') lst' (drop (?n paddr) bs)
         (h(drop_bit 12 paddr \<mapsto> take (?m paddr) pg @ take (?n paddr) bs @ drop (?m paddr + ?n paddr) pg)) = Some h'"
      by (subst (asm) prp_scatter.simps) (auto simp: Let_def split: option.splits)
    have "length pg = KV_PAGE_SIZE" using 1(2) a(2) by (auto simp: host_pages_ok_def)
    then have "host_pages_ok (h(drop_bit 12 paddr \<mapsto> take (?m paddr) pg @ take (?n paddr) bs @ drop (?m paddr + ?n paddr) pg))"
      using 1(2) prp_io_size_bound [of paddr "length bs"] by (auto simp: host_pages_ok_def)
    then show ?thesis using 1(1) [OF False a(1) refl a(2) refl refl _ a(3)] by blast
  qed
qed

lemma put_storage_get:
  assumes "put_storage off bs st = Some st'"
  shows "length st' = length st" "take (length bs) (drop off st') = bs"
    "off' + n \<le> off \<or> off + length bs \<le> off' \<Longrightarrow> take n (drop off' st') = take n (drop off' st)"
proof -
  have st: "st' = take off st @ bs @ drop (off + length bs) st" "off + length bs \<le> length st"
    using assms by (auto simp: put_storage_def split: if_splits)
  then show "length st' = length st" "take (length bs) (drop off st') = bs" by simp_all
  assume "off' + n \<le> off \<or> off + length bs \<le> off'"
  then show "take n (drop off' st') = take n (drop off' st)"
  proof
    assume l: "off' + n \<le> off"
    then have "take n (drop off' st') = take n (drop off' (take off st))" using st by (simp add: min_def)
    then show ?thesis using l by (simp add: drop_take min_def)
  next
    assume "off + length bs \<le> off'"
    then show ?thesis using st by (simp add: min_def)
  qed
qed

section \<open>The abstraction\<close>

definition slot_value :: "mapping_table \<Rightarrow> byte list \<Rightarrow> u32 \<Rightarrow> byte list" where
  "slot_value t st s = take (unat (me_length (t ! unat s))) (drop (unat (mem_offset (t ! unat s))) st)"

definition ftl_map :: "nat \<Rightarrow> mapping_table \<Rightarrow> byte list \<Rightarrow> byte list \<Rightarrow> byte list option" where
  "ftl_map L t st k = map_option (\<lambda>i. slot_value t st (of_nat i))
     (List.find (\<lambda>i. mem_offset (t ! i) \<noteq> -1 \<and> take L (me_key (t ! i)) = k) [0 ..< length t])"

lemma ftl_map_Some:
  assumes t: "table_ok L t" and s: "holds_key L t k s"
  shows "ftl_map L t st k = Some (slot_value t st s)"
proof -
  let ?P = "\<lambda>i. mem_offset (t ! i) \<noteq> -1 \<and> take L (me_key (t ! i)) = k"
  have us: "unat s < length t" "?P (unat s)" using s by (auto simp: holds_key_def in_use_def slot_key_def)
  then obtain i where i: "List.find ?P [0 ..< length t] = Some i"
    by (cases "List.find ?P [0 ..< length t]") (auto simp: find_None_iff)
  then have il: "i < length t" "?P i" by (auto simp: find_Some_iff)
  then have ui: "unat (of_nat i :: u32) = i" using table_okD(2) [OF t] by (simp add: unat_of_nat take_bit_nat_eq_self)
  then have "holds_key L t k (of_nat i)" using il by (simp add: holds_key_def in_use_def slot_key_def)
  then have "of_nat i = s" using table_okD(8) [OF t] s by (auto simp: holds_key_def)
  then show ?thesis using i by (simp add: ftl_map_def)
qed

lemma ftl_map_None:
  assumes t: "table_ok L t" and s: "\<And>s. \<not> holds_key L t k s"
  shows "ftl_map L t st k = None"
proof -
  have "\<not> (mem_offset (t ! i) \<noteq> -1 \<and> take L (me_key (t ! i)) = k)" if "i < length t" for i
    using s [of "of_nat i"] that table_okD(2) [OF t]
    by (auto simp: holds_key_def in_use_def slot_key_def unat_of_nat take_bit_nat_eq_self)
  then have "List.find (\<lambda>i. mem_offset (t ! i) \<noteq> -1 \<and> take L (me_key (t ! i)) = k) [0 ..< length t] = None"
    by (auto simp: find_None_iff)
  then show ?thesis by (simp add: ftl_map_def)
qed

definition used_slots :: "mapping_table \<Rightarrow> nat" where
  "used_slots t = length (filter (\<lambda>e. mem_offset e \<noteq> -1) t)"

lemma free_slot_exists: "used_slots t < length t \<Longrightarrow> \<exists>f. f < length t \<and> mem_offset (t ! f) = -1"
proof (rule ccontr)
  assume u: "used_slots t < length t" and "\<nexists>f. f < length t \<and> mem_offset (t ! f) = -1"
  then have "filter (\<lambda>e. mem_offset e \<noteq> -1) t = t" by (auto simp: filter_id_conv in_set_conv_nth)
  then show False using u by (simp add: used_slots_def)
qed

lemma used_slots_inserted:
  assumes i: "inserted L k len off r t t'" and n: "length t < 2 ^ 32" and off: "off \<noteq> -1"
  shows "used_slots t' = Suc (used_slots t)"
proof -
  let ?I = "\<lambda>t. {i. i < length t \<and> mem_offset (t ! i) \<noteq> -1}"
  have l: "length t' = length t" "unat r < length t" "\<not> occupied t r" "occupied t' r"
    using i off by (auto simp: inserted_def)
  have same: "mem_offset (t' ! j) = mem_offset (t ! j)" if "j < length t" "j \<noteq> unat r" for j
  proof -
    have "unat (of_nat j :: u32) = j" using that n by (simp add: unat_of_nat take_bit_nat_eq_self)
    moreover have "of_nat j \<noteq> r" using calculation that by auto
    ultimately show ?thesis using i that by (auto simp: inserted_def dest!: spec [of _ "of_nat j :: u32"])
  qed
  have "x \<in> ?I t' \<longleftrightarrow> x \<in> insert (unat r) (?I t)" for x using l same [of x] by (cases "x = unat r") auto
  then have "?I t' = insert (unat r) (?I t)" by blast
  moreover have "unat r \<notin> ?I t" using l by simp
  ultimately show ?thesis by (simp add: used_slots_def length_filter_conv_card)
qed

definition in_storage :: "mapping_table \<Rightarrow> nat \<Rightarrow> bool" where
  "in_storage t n \<longleftrightarrow>
     (\<forall>s. in_use t s \<longrightarrow> unat (mem_offset (t ! unat s)) + unat (me_length (t ! unat s)) \<le> n) \<and>
     (\<forall>s s'. in_use t s \<longrightarrow> in_use t s' \<longrightarrow> s \<noteq> s' \<longrightarrow>
        unat (mem_offset (t ! unat s)) + unat (me_length (t ! unat s)) \<le> unat (mem_offset (t ! unat s')) \<or>
        unat (mem_offset (t ! unat s')) + unat (me_length (t ! unat s')) \<le> unat (mem_offset (t ! unat s)))"

record kv_spec =
  sp_map :: "byte list \<Rightarrow> byte list option"
  sp_host :: host_pages
  sp_used :: nat
  sp_count :: nat

definition ftl_refines :: "nat \<Rightarrow> kv_ftl \<Rightarrow> kv_spec \<Rightarrow> bool" where
  "ftl_refines L d a \<longleftrightarrow> table_ok L (kv_mapping_table d) \<and> host_pages_ok (host_memory d) \<and>
     length (storage_mapped d) < 2 ^ 64 \<and> sp_used a \<le> length (storage_mapped d) \<and>
     (\<exists>al. kf_allocator d = Append_only al \<and> unat (ao_latest al) = sp_used a) \<and>
     in_storage (kv_mapping_table d) (sp_used a) \<and>
     sp_map a = ftl_map L (kv_mapping_table d) (storage_mapped d) \<and>
     sp_host a = host_memory d \<and> sp_count a = used_slots (kv_mapping_table d)"

text \<open>
  What the commands do to the abstraction.  \<open>None\<close> marks the commands that the refinement does
  not cover: another key length than \<open>L\<close>, no room, an update that changes the length of the
  value, a transfer that leaves the host's pages, and the commands other than these three.
\<close>

definition spec_step :: "nat \<Rightarrow> nat \<Rightarrow> nat \<Rightarrow> nvme_kv_command \<Rightarrow> u32 \<Rightarrow> kv_spec \<Rightarrow> (u32 \<times> u32 \<times> kv_spec) option" where
  "spec_step L slots bytes c status a =
     (if cmd_key_length c \<noteq> L \<or> length (kc_key c) < L then None
      else let k = take L (kc_key c); len = unat (cmd_value_length c) in
        if kc_opcode c = nvme_cmd_kv_store
        then do { v \<leftarrow> prp_gather (sp_host a) c 0 len None;
                  case sp_map a k of
                    None \<Rightarrow> if sp_used a + len \<le> bytes \<and> sp_used a < bytes \<and> sp_count a < slots
                            then Some (0, status, a\<lparr>sp_map := (sp_map a)(k \<mapsto> v), sp_used := sp_used a + len,
                                                    sp_count := Suc (sp_count a)\<rparr>)
                            else None
                  | Some w \<Rightarrow> if length w = len then Some (0, status, a\<lparr>sp_map := (sp_map a)(k \<mapsto> v)\<rparr>) else None }
        else if kc_opcode c = nvme_cmd_kv_retrieve
        then (case sp_map a k of
                None \<Rightarrow> Some (0, NVMEV_KEY_NOT_EXIST, a)
              | Some v \<Rightarrow> do { h \<leftarrow> prp_scatter c 0 None (take len v) (sp_host a);
                               Some (of_nat (length (take len v)), status, a\<lparr>sp_host := h\<rparr>) })
        else if kc_opcode c = nvme_cmd_kv_exist
        then Some (0, if sp_map a k = None then NVMEV_KEY_NOT_EXIST else status, a)
        else None)"

section \<open>Simulation\<close>

lemma refines_lookup:
  assumes r: "ftl_refines L d a" and c: "cmd_key_length c = L" "L \<le> length (kc_key c)"
  obtains (missing) "get_mapping_entry c (kv_mapping_table d) = Some blank_entry"
      "sp_map a (take L (kc_key c)) = None" "\<And>s. \<not> holds_key L (kv_mapping_table d) (take L (kc_key c)) s"
  | (present) s e where "get_mapping_entry c (kv_mapping_table d) = Some e"
      "holds_key L (kv_mapping_table d) (take L (kc_key c)) s"
      "mem_offset e = mem_offset (kv_mapping_table d ! unat s)" "me_length e = me_length (kv_mapping_table d ! unat s)"
      "sp_map a (take L (kc_key c)) = Some (slot_value (kv_mapping_table d) (storage_mapped d) s)"
      "find_mapping (kv_mapping_table d) (take L (kc_key c)) (get_hash_slot (kv_mapping_table d) (take L (kc_key c))) = Some (Some s)"
proof -
  let ?t = "kv_mapping_table d" and ?k = "take L (kc_key c)"
  have t: "table_ok L ?t" using r by (simp add: ftl_refines_def)
  have k: "length ?k = L" using c by simp
  have ck: "cmd_key c = Some ?k" using c by (simp add: cmd_key_def)
  have m: "sp_map a = ftl_map L ?t (storage_mapped d)" using r by (simp add: ftl_refines_def)
  obtain x where x: "find_mapping ?t ?k (get_hash_slot ?t ?k) = Some x" "\<And>s. x = Some s \<longleftrightarrow> holds_key L ?t ?k s"
    using find_mapping_ok [OF t k] by blast
  have g: "get_mapping_entry c ?t = Some (case x of None \<Rightarrow> blank_entry
      | Some s \<Rightarrow> (?t ! unat s)\<lparr>me_key := ?k @ drop (length ?k) (me_key blank_entry)\<rparr>)"
    using table_okD(3) [OF t] c x(1) by (simp add: get_mapping_entry_def get_mapping_entry_by_key_def ck)
  show thesis
  proof (cases x)
    case None
    then have "\<And>s. \<not> holds_key L ?t ?k s" using x(2) by auto
    then show thesis using missing g None ftl_map_None [OF t] m by simp
  next
    case (Some s)
    then have "holds_key L ?t ?k s" using x(2) by simp
    then show thesis using present [of _ s] g Some ftl_map_Some [OF t] m x(1) by simp
  qed
qed

lemma in_storage_inserted:
  assumes b: "in_storage t n" and i: "inserted L k len off r t t'" and off: "off \<noteq> -1" "unat off = n"
  shows "in_storage t' (n + unat len)"
proof -
  have new: "mem_offset (t' ! unat r) = off" "me_length (t' ! unat r) = len" using i by (auto simp: inserted_def)
  have old: "mem_offset (t' ! unat x) = mem_offset (t ! unat x) \<and> me_length (t' ! unat x) = me_length (t ! unat x)"
    if "in_use t x" "x \<noteq> r" for x using i that by (auto simp: inserted_def in_use_def)
  note iu = inserted_in_use [OF i off(1)]
  have in_t: "unat (mem_offset (t ! unat x)) + unat (me_length (t ! unat x)) \<le> n" if "in_use t x" for x
    using b that by (simp add: in_storage_def)
  show ?thesis
    unfolding in_storage_def
  proof (intro conjI allI impI)
    fix s assume "in_use t' s"
    then show "unat (mem_offset (t' ! unat s)) + unat (me_length (t' ! unat s)) \<le> n + unat len"
      using in_t [of s] old [of s] new off by (cases "s = r") (auto simp: iu)
  next
    fix s s' assume s: "in_use t' s" "in_use t' s'" "s \<noteq> s'"
    then show "unat (mem_offset (t' ! unat s)) + unat (me_length (t' ! unat s)) \<le> unat (mem_offset (t' ! unat s')) \<or>
        unat (mem_offset (t' ! unat s')) + unat (me_length (t' ! unat s')) \<le> unat (mem_offset (t' ! unat s))"
      using in_t [of s] in_t [of s'] old [of s] old [of s'] new off b
      by (cases "s = r"; cases "s' = r") (auto simp: iu in_storage_def)
  qed
qed

lemma ftl_map_inserted:
  assumes t: "table_ok L t" and t': "table_ok L t'" and i: "inserted L k len off r t t'" and off: "off \<noteq> -1"
    and k: "length k = L" and b: "in_storage t (unat off)" and p: "put_storage (unat off) v st = Some st'"
    and v: "length v = unat len"
  shows "ftl_map L t' st' = (ftl_map L t st)(k \<mapsto> v)"
proof
  fix k'
  note iu = inserted_in_use [OF i off] and sk = inserted_slot_key [OF i k]
  have new: "mem_offset (t' ! unat r) = off" "me_length (t' ! unat r) = len" using i by (auto simp: inserted_def)
  show "ftl_map L t' st' k' = ((ftl_map L t st)(k \<mapsto> v)) k'"
  proof (cases "k' = k")
    case True
    have "holds_key L t' k r" using sk(1) by (simp add: holds_key_def iu)
    moreover have "slot_value t' st' r = v" using new put_storage_get(2) [OF p] v by (simp add: slot_value_def)
    ultimately show ?thesis using True ftl_map_Some [OF t'] by simp
  next
    case False
    have hk: "holds_key L t' k' x \<longleftrightarrow> holds_key L t k' x" for x
    proof (cases "x = r")
      case True
      then show ?thesis using False sk(1) i by (auto simp: holds_key_def inserted_def in_use_def)
    next
      case False
      then have "in_use t x \<Longrightarrow> slot_key L t' x = slot_key L t x" using sk(2) [of x] by (simp add: in_use_def)
      then show ?thesis using False by (auto simp: holds_key_def iu)
    qed
    show ?thesis
    proof (cases "\<exists>x. holds_key L t k' x")
      case True
      then obtain x where x: "holds_key L t k' x" by blast
      then have u: "in_use t x" "x \<noteq> r" using i by (auto simp: holds_key_def in_use_def inserted_def)
      then have "slot_value t' st' x = slot_value t st x"
        using i b put_storage_get(3) [OF p]
        by (auto simp: slot_value_def inserted_def in_storage_def in_use_def)
      then show ?thesis using False ftl_map_Some [OF t x] ftl_map_Some [OF t'] hk x by simp
    next
      case none: False
      then show ?thesis using False ftl_map_None [OF t] ftl_map_None [OF t'] hk by simp
    qed
  qed
qed

lemma ftl_map_updated:
  assumes t: "table_ok L t" and s: "holds_key L t k s" and b: "in_storage t n"
    and p: "put_storage (unat (mem_offset (t ! unat s))) v st = Some st'"
    and v: "length v = unat (me_length (t ! unat s))"
  shows "ftl_map L t st' = (ftl_map L t st)(k \<mapsto> v)"
proof
  fix k'
  show "ftl_map L t st' k' = ((ftl_map L t st)(k \<mapsto> v)) k'"
  proof (cases "k' = k")
    case True
    have "slot_value t st' s = v" using put_storage_get(2) [OF p] v by (simp add: slot_value_def)
    then show ?thesis using True ftl_map_Some [OF t s] by simp
  next
    case False
    show ?thesis
    proof (cases "\<exists>x. holds_key L t k' x")
      case True
      then obtain x where x: "holds_key L t k' x" by blast
      have u: "in_use t x" "in_use t s" "x \<noteq> s" using x s False by (auto simp: holds_key_def)
      have "unat (mem_offset (t ! unat x)) + unat (me_length (t ! unat x)) \<le> unat (mem_offset (t ! unat s)) \<or>
          unat (mem_offset (t ! unat s)) + length v \<le> unat (mem_offset (t ! unat x))"
        using b u unfolding in_storage_def v by blast
      then have "slot_value t st' x = slot_value t st x" using put_storage_get(3) [OF p] by (simp add: slot_value_def)
      then show ?thesis using False ftl_map_Some [OF t x] by simp
    next
      case none: False
      then show ?thesis using False ftl_map_None [OF t] by simp
    qed
  qed
qed

lemma unat_value_length: "unat (ucast (cmd_value_length c) :: u64) = unat (cmd_value_length c)"
  by simp

lemma slot_value_length:
  assumes "ftl_refines L d a" "in_use (kv_mapping_table d) s"
  shows "length (slot_value (kv_mapping_table d) (storage_mapped d) s) = unat (me_length (kv_mapping_table d ! unat s))"
    "unat (mem_offset (kv_mapping_table d ! unat s)) + unat (me_length (kv_mapping_table d ! unat s)) \<le> length (storage_mapped d)"
proof -
  have "unat (mem_offset (kv_mapping_table d ! unat s)) + unat (me_length (kv_mapping_table d ! unat s)) \<le> sp_used a"
    using assms by (simp add: ftl_refines_def in_storage_def)
  moreover have "sp_used a \<le> length (storage_mapped d)" using assms(1) by (simp add: ftl_refines_def)
  ultimately show "length (slot_value (kv_mapping_table d) (storage_mapped d) s) = unat (me_length (kv_mapping_table d ! unat s))"
    "unat (mem_offset (kv_mapping_table d ! unat s)) + unat (me_length (kv_mapping_table d ! unat s)) \<le> length (storage_mapped d)"
    by (simp_all add: slot_value_def)
qed

lemma store_insert:
  assumes r: "ftl_refines L d a" and c: "cmd_key_length c = L" "L \<le> length (kc_key c)" "kc_opcode c = nvme_cmd_kv_store"
    and e: "mem_offset e = -1" and fresh: "\<And>s. \<not> holds_key L (kv_mapping_table d) (take L (kc_key c)) s"
    and v: "prp_gather (host_memory d) c 0 (unat (cmd_value_length c)) None = Some v"
    and room: "sp_used a + unat (cmd_value_length c) \<le> length (storage_mapped d)" "sp_used a < length (storage_mapped d)"
      "sp_count a < length (kv_mapping_table d)"
  shows "\<exists>d'. kv_store_io z c e status d = Some (0, status, d') \<and>
    length (kv_mapping_table d') = length (kv_mapping_table d) \<and> length (storage_mapped d') = length (storage_mapped d) \<and>
    ftl_refines L d' (a\<lparr>sp_map := (sp_map a)(take L (kc_key c) \<mapsto> v),
      sp_used := sp_used a + unat (cmd_value_length c), sp_count := Suc (sp_count a)\<rparr>)"
proof -
  let ?t = "kv_mapping_table d" and ?k = "take L (kc_key c)" and ?st = "storage_mapped d"
  let ?len = "ucast (cmd_value_length c) :: u64"
  have t: "table_ok L ?t" and h: "host_pages_ok (host_memory d)" and st: "length ?st < 2 ^ 64"
    and b: "in_storage ?t (sp_used a)" using r by (simp_all add: ftl_refines_def)
  obtain al where al: "kf_allocator d = Append_only al" "unat (ao_latest al) = sp_used a"
    using r by (auto simp: ftl_refines_def)
  let ?off = "ao_latest al"
  have off: "unat ?off < length ?st" "?off \<noteq> -1"
  proof -
    show "unat ?off < length ?st" using al(2) room(2) by simp
    then show "?off \<noteq> -1" using st by (auto simp: unsigned_minus_1_eq_mask mask_eq_exp_minus_1)
  qed
  have k: "length ?k = L" using c by simp
  have vl: "length v = unat (cmd_value_length c)" by (rule prp_gather_length [OF h v])
  obtain st' where p: "put_storage (unat ?off) v ?st = Some st'" using room(1) al(2) vl by (auto simp: put_storage_def)
  obtain f where "f < length ?t" "mem_offset (?t ! f) = -1" using free_slot_exists room(3) r by (auto simp: ftl_refines_def)
  from new_mapping_entry_ok [OF t k fresh off this, of ?len] obtain s t' where
    n: "new_mapping_entry_by_key (length ?st) ?k ?len ?off ?t = Some t'" "inserted L ?k ?len ?off s ?t t'" "table_ok L t'"
    by blast
  let ?d = "d\<lparr>kf_allocator := Append_only (al\<lparr>ao_latest := ?off + ?len, ao_total_written := ao_total_written al + ?len\<rparr>),
      storage_mapped := st', kv_mapping_table := t'\<rparr>"
  have step: "kv_store_io z c e status d = Some (0, status, ?d)"
    using e c v p n(1) al off(2)
    by (simp add: kv_store_io_def Let_def allocate_mem_offset_def allocate_mem_offset_by_length_def append_only_allocate_def
        new_mapping_entry_def cmd_key_def)
  have "unat (?off + ?len) = sp_used a + unat (cmd_value_length c)"
    using room(1) st al(2) by (subst unat_plus_no_wrap) simp_all
  moreover have "in_storage t' (sp_used a + unat (cmd_value_length c))"
    using in_storage_inserted [OF b n(2) off(2)] al(2) by simp
  moreover have "ftl_map L t' st' = (ftl_map L ?t ?st)(?k \<mapsto> v)"
    using ftl_map_inserted [OF t n(3,2) off(2) k _ p] b al(2) vl by simp
  moreover have "used_slots t' = Suc (used_slots ?t)" by (rule used_slots_inserted [OF n(2) table_okD(2) [OF t] off(2)])
  moreover have "length st' = length ?st" "length t' = length ?t"
    using put_storage_get(1) [OF p] n(2) by (simp_all add: inserted_def)
  ultimately have "ftl_refines L ?d (a\<lparr>sp_map := (sp_map a)(?k \<mapsto> v),
      sp_used := sp_used a + unat (cmd_value_length c), sp_count := Suc (sp_count a)\<rparr>)"
    using r n(3) st room(1) by (simp add: ftl_refines_def)
  then show ?thesis using step \<open>length st' = length ?st\<close> \<open>length t' = length ?t\<close> by simp
qed

lemma store_update:
  assumes r: "ftl_refines L d a" and s: "holds_key L (kv_mapping_table d) k s"
    and e: "mem_offset e = mem_offset (kv_mapping_table d ! unat s)" "me_length e = me_length (kv_mapping_table d ! unat s)"
    and v: "prp_gather (host_memory d) c 0 (unat (cmd_value_length c)) None = Some v"
    and len: "unat (me_length e) = unat (cmd_value_length c)"
  shows "\<exists>d'. kv_store_io z c e status d = Some (0, status, d') \<and>
    length (kv_mapping_table d') = length (kv_mapping_table d) \<and> length (storage_mapped d') = length (storage_mapped d) \<and>
    ftl_refines L d' (a\<lparr>sp_map := (sp_map a)(k \<mapsto> v)\<rparr>)"
proof -
  let ?t = "kv_mapping_table d" and ?st = "storage_mapped d"
  have t: "table_ok L ?t" and h: "host_pages_ok (host_memory d)" and b: "in_storage ?t (sp_used a)"
    using r by (simp_all add: ftl_refines_def)
  have u: "in_use ?t s" using s by (simp add: holds_key_def)
  have vl: "length v = unat (me_length (?t ! unat s))" using prp_gather_length [OF h v] len e by simp
  obtain st' where p: "put_storage (unat (mem_offset (?t ! unat s))) v ?st = Some st'"
    using slot_value_length(2) [OF r u] vl by (auto simp: put_storage_def)
  have "kv_store_io z c e status d = Some (0, status, d\<lparr>storage_mapped := st', kv_mapping_table := ?t\<rparr>)"
    using u e v p len by (simp add: kv_store_io_def Let_def in_use_def)
  moreover have "ftl_refines L (d\<lparr>storage_mapped := st', kv_mapping_table := ?t\<rparr>) (a\<lparr>sp_map := (sp_map a)(k \<mapsto> v)\<rparr>)"
    using r put_storage_get(1) [OF p] ftl_map_updated [OF t s b p vl] by (simp add: ftl_refines_def)
  ultimately show ?thesis using put_storage_get(1) [OF p] by simp
qed

lemma retrieve_present:
  assumes r: "ftl_refines L d a" and s: "in_use (kv_mapping_table d) s"
    and e: "mem_offset e = mem_offset (kv_mapping_table d ! unat s)" "me_length e = me_length (kv_mapping_table d ! unat s)"
    and v: "v = slot_value (kv_mapping_table d) (storage_mapped d) s"
    and h: "prp_scatter c 0 None (take (unat (cmd_value_length c)) v) (host_memory d) = Some h'"
  shows "kv_retrieve_io c e status d =
      Some (of_nat (length (take (unat (cmd_value_length c)) v)), status, d\<lparr>host_memory := h'\<rparr>) \<and>
    ftl_refines L (d\<lparr>host_memory := h'\<rparr>) (a\<lparr>sp_host := h'\<rparr>)"
proof -
  have l: "length v = unat (me_length e)" "unat (mem_offset e) + length v \<le> length (storage_mapped d)"
    using slot_value_length [OF r s] v e by simp_all
  have "get_storage (unat (mem_offset e)) (min (unat (me_length e)) (unat (cmd_value_length c))) (storage_mapped d) =
      Some (take (unat (cmd_value_length c)) v)"
    using l v e by (simp add: get_storage_def slot_value_def min.commute)
  then have "kv_retrieve_io c e status d =
      Some (of_nat (length (take (unat (cmd_value_length c)) v)), status, d\<lparr>host_memory := h'\<rparr>)"
    using s e h l by (simp add: kv_retrieve_io_def in_use_def Let_def)
  moreover have "host_pages_ok h'" using r h prp_scatter_ok by (auto simp: ftl_refines_def)
  ultimately show ?thesis using r by (simp add: ftl_refines_def)
qed

lemma kv_step_refines:
  assumes r: "ftl_refines L d a"
    and sp: "spec_step L (length (kv_mapping_table d)) (length (storage_mapped d)) c status a = Some (res, status', a')"
  obtains d' where "kv_perform_nvme_io_cmd z ok c status d = Some (res, status', d')" "ftl_refines L d' a'"
    "length (kv_mapping_table d') = length (kv_mapping_table d)" "length (storage_mapped d') = length (storage_mapped d)"
proof -
  let ?t = "kv_mapping_table d" and ?k = "take L (kc_key c)" and ?len = "unat (cmd_value_length c)"
  have c: "cmd_key_length c = L" "L \<le> length (kc_key c)" using sp by (auto simp: spec_step_def split: if_splits)
  have host: "sp_host a = host_memory d" using r by (simp add: ftl_refines_def)
  consider (store) "kc_opcode c = nvme_cmd_kv_store" | (retrieve) "kc_opcode c = nvme_cmd_kv_retrieve"
    | (exist) "kc_opcode c = nvme_cmd_kv_exist"
    using sp by (auto simp: spec_step_def Let_def split: if_splits)
  then show thesis
  proof cases
    case store
    then have perf: "kv_perform_nvme_io_cmd z ok c status d =
        (get_mapping_entry c ?t \<bind> (\<lambda>e. kv_store_io z c e status d))"
      by (simp add: kv_perform_nvme_io_cmd_def is_kv_iter_cmd_def do_perform_kv_io_def kv_opcode_defs)
    obtain v where v: "prp_gather (host_memory d) c 0 ?len None = Some v"
      using sp c store host by (auto simp: spec_step_def Let_def split: bind_splits)
    show thesis
    proof (cases rule: refines_lookup [OF r c])
      case 1
      then have room: "sp_used a + ?len \<le> length (storage_mapped d)" "sp_used a < length (storage_mapped d)"
        "sp_count a < length ?t" and out: "res = 0" "status' = status" "a' = a\<lparr>sp_map := (sp_map a)(?k \<mapsto> v),
          sp_used := sp_used a + ?len, sp_count := Suc (sp_count a)\<rparr>"
        using sp c store host v by (auto simp: spec_step_def Let_def split: if_splits)
      show thesis
        using store_insert [OF r c store _ 1(3) v room, of blank_entry z status] that out perf 1(1)
        by (auto simp: blank_entry_def)
    next
      case (2 s e)
      then have "length (slot_value ?t (storage_mapped d) s) = ?len" and out: "res = 0" "status' = status"
        "a' = a\<lparr>sp_map := (sp_map a)(?k \<mapsto> v)\<rparr>"
        using sp c store host v by (auto simp: spec_step_def Let_def split: if_splits)
      then have "unat (me_length e) = ?len" using slot_value_length(1) [OF r, of s] 2 by (simp add: holds_key_def)
      from store_update [OF r 2(2,3,4) v this, of z status] show thesis using that out perf 2(1) by auto
    qed
  next
    case retrieve
    then have perf: "kv_perform_nvme_io_cmd z ok c status d =
        (get_mapping_entry c ?t \<bind> (\<lambda>e. kv_retrieve_io c e status d))"
      by (simp add: kv_perform_nvme_io_cmd_def is_kv_iter_cmd_def do_perform_kv_io_def kv_opcode_defs)
    show thesis
    proof (cases rule: refines_lookup [OF r c])
      case 1
      then show thesis
        using sp c retrieve r perf that [of d]
        by (auto simp: spec_step_def Let_def kv_retrieve_io_def blank_entry_def kv_opcode_defs)
    next
      case (2 s e)
      let ?v = "slot_value ?t (storage_mapped d) s"
      from 2 obtain h where h: "prp_scatter c 0 None (take ?len ?v) (host_memory d) = Some h"
        and out: "res = of_nat (length (take ?len ?v))" "status' = status" "a' = a\<lparr>sp_host := h\<rparr>"
        using sp c retrieve host by (auto simp: spec_step_def Let_def kv_opcode_defs split: bind_splits)
      have "in_use ?t s" using 2(2) by (simp add: holds_key_def)
      from retrieve_present [OF r this 2(3,4) refl h, of status] show thesis using that out perf 2(1) by auto
    qed
  next
    case exist
    then have perf: "kv_perform_nvme_io_cmd z ok c status d =
        (get_mapping_entry c ?t \<bind> (\<lambda>e. Some (0, if mem_offset e = -1 then NVMEV_KEY_NOT_EXIST else status, d)))"
      by (simp add: kv_perform_nvme_io_cmd_def is_kv_iter_cmd_def do_perform_kv_io_def kv_opcode_defs)
    show thesis
    proof (cases rule: refines_lookup [OF r c])
      case 1
      then show thesis using sp c exist r perf that [of d]
        by (auto simp: spec_step_def Let_def blank_entry_def kv_opcode_defs)
    next
      case (2 s e)
      then show thesis using sp c exist r perf that [of d]
        by (auto simp: spec_step_def Let_def kv_opcode_defs holds_key_def in_use_def)
    qed
  qed
qed

section \<open>Runs\<close>

fun kv_run :: "zero_area \<Rightarrow> bool \<Rightarrow> nvme_kv_command list \<Rightarrow> kv_ftl \<Rightarrow> ((u32 \<times> u32) list \<times> kv_ftl) option" where
  "kv_run z ok [] d = Some ([], d)"
| "kv_run z ok (c # cs) d =
     do { (res, status, d') \<leftarrow> kv_perform_nvme_io_cmd z ok c 0 d;
          (rs, d'') \<leftarrow> kv_run z ok cs d';
          Some ((res, status) # rs, d'') }"

fun spec_run :: "nat \<Rightarrow> nat \<Rightarrow> nat \<Rightarrow> nvme_kv_command list \<Rightarrow> kv_spec \<Rightarrow> ((u32 \<times> u32) list \<times> kv_spec) option" where
  "spec_run L slots bytes [] a = Some ([], a)"
| "spec_run L slots bytes (c # cs) a =
     do { (res, status, a') \<leftarrow> spec_step L slots bytes c 0 a;
          (rs, a'') \<leftarrow> spec_run L slots bytes cs a';
          Some ((res, status) # rs, a'') }"

lemma kv_run_refines:
  assumes "ftl_refines L d a" "spec_run L (length (kv_mapping_table d)) (length (storage_mapped d)) cs a = Some (rs, a')"
  shows "\<exists>d'. kv_run z ok cs d = Some (rs, d') \<and> ftl_refines L d' a'"
  using assms
proof (induction cs arbitrary: d a rs)
  case (Cons c cs)
  let ?n = "length (kv_mapping_table d)" and ?b = "length (storage_mapped d)"
  from Cons.prems(2) obtain res status a1 rs' where 1: "spec_step L ?n ?b c 0 a = Some (res, status, a1)"
    and 2: "spec_run L ?n ?b cs a1 = Some (rs', a')" and rs: "rs = (res, status) # rs'"
    by (auto split: bind_splits)
  obtain d1 where d1: "kv_perform_nvme_io_cmd z ok c 0 d = Some (res, status, d1)" "ftl_refines L d1 a1"
    "length (kv_mapping_table d1) = ?n" "length (storage_mapped d1) = ?b"
    by (rule kv_step_refines [OF Cons.prems(1) 1])
  from Cons.IH [OF d1(2)] 2 d1(3,4) obtain d' where "kv_run z ok cs d1 = Some (rs', d')" "ftl_refines L d' a'" by auto
  then show ?case using d1(1) rs by simp
qed simp

lemma table_ok_new:
  assumes "0 < n" "n < 2 ^ 32" "L \<le> ENTRY_KEY_SIZE"
  shows "table_ok L (replicate n new_entry)"
  using assms by (intro table_okI) (auto simp: in_use_def new_entry_def)

definition empty_spec :: "host_pages \<Rightarrow> kv_spec" where
  "empty_spec h = \<lparr>sp_map = Map.empty, sp_host = h, sp_used = 0, sp_count = 0\<rparr>"

lemma init_refines:
  assumes "0 < n" "n < 2 ^ 32" "L \<le> ENTRY_KEY_SIZE" "length st < 2 ^ 64" "host_pages_ok h"
  shows "ftl_refines L (kv_init_namespace n w st h) (empty_spec h)"
proof -
  have t: "table_ok L (replicate n new_entry)" by (rule table_ok_new [OF assms(1-3)])
  have "\<not> in_use (replicate n new_entry) s" for s by (auto simp: in_use_def new_entry_def)
  then have "in_storage (replicate n new_entry) 0" "ftl_map L (replicate n new_entry) st = Map.empty"
    using ftl_map_None [OF t] by (auto simp: in_storage_def holds_key_def)
  moreover have "used_slots (replicate n new_entry) = 0" by (simp add: used_slots_def new_entry_def filter_replicate)
  ultimately show ?thesis
    using t assms by (simp add: ftl_refines_def kv_init_namespace_def empty_spec_def append_only_allocator_init_def)
qed


text \<open>Transfers of one page.\<close>

lemma prp_one_page:
  assumes "take_bit 12 (kc_prp1 c) = 0" "n \<le> KV_PAGE_SIZE"
  shows "prp_gather h c 0 n None = (if n = 0 then Some [] else map_option (take n) (h (drop_bit 12 (kc_prp1 c))))"
    and "length bs = n \<Longrightarrow> prp_scatter c 0 None bs h = (if n = 0 then Some h
       else map_option (\<lambda>pg. h(drop_bit 12 (kc_prp1 c) \<mapsto> bs @ drop n pg)) (h (drop_bit 12 (kc_prp1 c))))"
proof -
  have sz: "prp_io_size (kc_prp1 c) n = n" using assms by (simp add: prp_io_size_def Let_def)
  have nil: "prp_gather h c 1 0 l = Some []" "prp_scatter c 1 l [] h = Some h" for l h
    by (subst prp_gather.simps prp_scatter.simps, simp)+
  show "prp_gather h c 0 n None = (if n = 0 then Some [] else map_option (take n) (h (drop_bit 12 (kc_prp1 c))))"
    using assms(1) sz nil by (subst prp_gather.simps) (simp add: prp_addr_def Let_def split: option.splits)
  assume "length bs = n"
  then show "prp_scatter c 0 None bs h = (if n = 0 then Some h
       else map_option (\<lambda>pg. h(drop_bit 12 (kc_prp1 c) \<mapsto> bs @ drop n pg)) (h (drop_bit 12 (kc_prp1 c))))"
    using assms(1) sz nil by (subst prp_scatter.simps) (auto simp: prp_addr_def Let_def split: option.splits)
qed

definition demo_cmd :: "u8 \<Rightarrow> byte list \<Rightarrow> u64 \<Rightarrow> nvme_kv_command" where
  "demo_cmd opcode key prp = \<lparr>kc_opcode = opcode, kc_prp1 = prp, kc_prp2 = 0, kc_value_len = 2, kc_key_len = 3,
     kc_option = 0, kc_rsvd4 = 0, kc_key = key @ replicate 12 0\<rparr>"

definition demo_pages :: host_pages where
  "demo_pages = [0 \<mapsto> [1, 2, 3, 4, 5, 6, 7, 8] @ replicate 4088 0, 1 \<mapsto> replicate 4096 9]"


end
