(* ===== verification/Kv_Ftl_Limits.thy ===== *)
theory Kv_Ftl_Limits
  imports Kv_Ftl_Map
begin

text \<open>
  Where the translation layer stops being a map, and its iterators: deletions, a full table, keys
  of different lengths, updates that change the length of a value, and the reading of an iterator
  to its end.
\<close>

section \<open>Insertion into a new table\<close>

lemma insert_first:
  assumes "0 < n" "n < 2 ^ 32" "length k \<le> ENTRY_KEY_SIZE" "unat off < storage"
  defines "h \<equiv> get_hash_slot (replicate n new_entry) k"
  shows "new_mapping_entry_by_key storage k len off (replicate n new_entry) =
    Some ((replicate n new_entry)[unat h := new_entry\<lparr>me_key := k @ drop (length k) (me_key new_entry),
      mem_offset := off, me_length := len\<rparr>])" "unat h < n"
proof -
  have new: "mem_offset new_entry = -1" by (simp add: new_entry_def)
  show h: "unat h < n" using hash_slot_bound [of "replicate n new_entry" k] assms(1,2) by (simp add: h_def)
  then show "new_mapping_entry_by_key storage k len off (replicate n new_entry) =
    Some ((replicate n new_entry)[unat h := new_entry\<lparr>me_key := k @ drop (length k) (me_key new_entry),
      mem_offset := off, me_length := len\<rparr>])"
    using assms(3,4) new by (simp add: new_mapping_entry_by_key_def Let_def h_def [symmetric])
qed

section \<open>Deletion\<close>

lemma insert_colliding:
  assumes n: "2 \<le> n" "n < 2 ^ 32" and k: "length a = L" "length b = L" "L \<le> ENTRY_KEY_SIZE" "a \<noteq> b"
    and off: "unat off1 < storage" "off1 \<noteq> -1" "unat off2 < storage" "off2 \<noteq> -1"
  defines "h \<equiv> get_hash_slot (replicate n new_entry) a"
  obtains t1 t2 r where "new_mapping_entry_by_key storage a len1 off1 (replicate n new_entry) = Some t1"
    "new_mapping_entry_by_key storage b len2 off2 t1 = Some t2" "table_ok L t2" "length t2 = n" "unat h < n" "r \<noteq> h"
    "holds_key L t2 a h" "holds_key L t2 b r" "mem_offset (t2 ! unat r) = off2"
proof -
  define t1 where "t1 = (replicate n new_entry)[unat h := new_entry\<lparr>me_key := a @ drop (length a) (me_key new_entry),
      mem_offset := off1, me_length := len1\<rparr>]"
  have h: "unat h < n" and t1: "new_mapping_entry_by_key storage a len1 off1 (replicate n new_entry) = Some t1"
    using insert_first(1) [where n = n and k = a and off = off1 and storage = storage and len = len1]
      insert_first(2) [where n = n and k = a and off = off1 and storage = storage] n k off
    by (simp_all add: h_def t1_def)
  have "\<not> holds_key L (replicate n new_entry) a s" for s by (auto simp: holds_key_def in_use_def new_entry_def)
  then have ok1: "table_ok L t1"
    using new_mapping_entry_ok [OF table_ok_new [of n L] k(1) _ off(1,2), where f = 0 and len = len1] n k(3) t1
    by (auto simp: new_entry_def)
  have a1: "holds_key L t1 x s \<longleftrightarrow> s = h \<and> x = a" for x s
    using h k(1) off(2) by (auto simp: t1_def holds_key_def in_use_def slot_key_def nth_update_word new_entry_def)
  obtain f where f: "f < n" "f \<noteq> unat h"
    using n(1) by (cases "unat h = 0") (metis Suc_1 Suc_le_lessD less_numeral_extra(3) zero_less_one, metis not_numeral_le_zero neq0_conv)
  then have fm: "f < length t1" "mem_offset (t1 ! f) = -1" by (simp_all add: t1_def new_entry_def)
  have nb: "\<And>s. \<not> holds_key L t1 b s" unfolding a1 using k(4) by blast
  obtain r t2 where
    t2: "new_mapping_entry_by_key storage b len2 off2 t1 = Some t2" "inserted L b len2 off2 r t1 t2" "table_ok L t2"
    by (rule new_mapping_entry_ok [OF ok1 k(2) nb off(3,4) fm, where len = len2])
  have ha1: "holds_key L t1 a h" by (simp add: a1)
  then have rh: "r \<noteq> h" using t2(2) by (auto simp: inserted_def holds_key_def in_use_def)
  have "holds_key L t2 b r" "holds_key L t2 a h"
    using inserted_in_use [OF t2(2) off(4)] inserted_slot_key [OF t2(2) k(2)] rh ha1
    by (auto simp: holds_key_def in_use_def)
  then show thesis using that t1 t2 rh h by (simp add: inserted_def t1_def)
qed

text \<open>C26: Deleting a key loses the keys behind it on its chain.  Two different keys with the same hash
  slot are stored in a new table, and both can be looked up.  After the first of them is deleted,
  the lookup of the second finds nothing, although its entry is still in the table: the deletion
  clears the slot with its link, and the lookup stops at a slot that is not in use.\<close>

theorem delete_hides_colliding_key:
  assumes n: "2 \<le> n" "n < 2 ^ 32" and k: "length a = L" "length b = L" "L \<le> ENTRY_KEY_SIZE" "a \<noteq> b"
    and h: "get_hash_slot (replicate n new_entry) a = get_hash_slot (replicate n new_entry) b"
    and off: "unat off1 < storage" "off1 \<noteq> -1" "unat off2 < storage" "off2 \<noteq> -1"
    and c: "cmd_key c = Some a"
  shows "\<exists>t1 t2 t3 e r. new_mapping_entry_by_key storage a len1 off1 (replicate n new_entry) = Some t1 \<and>
     new_mapping_entry_by_key storage b len2 off2 t1 = Some t2 \<and>
     get_mapping_entry_by_key b t2 = Some e \<and> mem_offset e = off2 \<and>
     delete_mapping_entry c t2 = Some t3 \<and> get_mapping_entry_by_key b t3 = Some blank_entry \<and>
     holds_key L t3 b r"
proof -
  let ?h = "get_hash_slot (replicate n new_entry) a"
  obtain t1 t2 r where t: "new_mapping_entry_by_key storage a len1 off1 (replicate n new_entry) = Some t1"
    "new_mapping_entry_by_key storage b len2 off2 t1 = Some t2" "table_ok L t2" "length t2 = n" "unat ?h < n" "r \<noteq> ?h"
    "holds_key L t2 a ?h" "holds_key L t2 b r" "mem_offset (t2 ! unat r) = off2"
    by (rule insert_colliding [OF n k off, where ?len1.0 = len1 and ?len2.0 = len2])
  have hs: "get_hash_slot t2 a = ?h" "get_hash_slot t2 b = ?h" using h t(4) by (simp_all add: get_hash_slot_def)
  have "find_mapping t2 a ?h = Some (Some ?h)" "find_mapping t2 b ?h = Some (Some r)"
    using find_mapping_ok [OF t(3) k(1)] find_mapping_ok [OF t(3) k(2)] t(7,8) hs by metis+
  then have d: "delete_mapping_entry c t2 = Some (t2[unat ?h := blank_entry])"
    and g: "get_mapping_entry_by_key b t2 = Some ((t2 ! unat r)\<lparr>me_key := b @ drop (length b) (me_key blank_entry)\<rparr>)"
    using c hs k by (simp_all add: delete_mapping_entry_def get_mapping_entry_by_key_def)
  let ?t3 = "t2[unat ?h := blank_entry]"
  have "find_mapping ?t3 b ?h = Some None" using t(4,5) by (subst find_mapping.simps) (simp add: blank_entry_def)
  then have "get_mapping_entry_by_key b ?t3 = Some blank_entry"
    using hs k by (simp add: get_mapping_entry_by_key_def get_hash_slot_length [of ?t3 t2])
  moreover have "holds_key L ?t3 b r"
    using t(4-6,8) by (simp add: holds_key_def in_use_def slot_key_def nth_update_word)
  ultimately show ?thesis using t(1,2,9) d g by auto
qed

theorem delete_hides_colliding_key_witness:
  "\<exists>t1 t2 t3 e r. new_mapping_entry_by_key 64 [0] 4 0 (replicate 2 new_entry) = Some t1 \<and>
     new_mapping_entry_by_key 64 [2] 4 4 t1 = Some t2 \<and>
     get_mapping_entry_by_key [2] t2 = Some e \<and> mem_offset e = 4 \<and>
     delete_mapping_entry ((demo_cmd nvme_cmd_kv_delete [0] 0)\<lparr>kc_key_len := 0\<rparr>) t2 = Some t3 \<and>
     get_mapping_entry_by_key [2] t3 = Some blank_entry \<and> holds_key 1 t3 [2] r"
proof -
  have c: "cmd_key ((demo_cmd nvme_cmd_kv_delete [0] 0)\<lparr>kc_key_len := 0\<rparr>) = Some [0]"
    by (simp add: cmd_key_def cmd_key_length_def demo_cmd_def)
  have "get_hash_slot (replicate 2 new_entry) [0] = get_hash_slot (replicate 2 new_entry) [2]"
    by (simp add: get_hash_slot_def hash_function_def kv_hash_step_def del: replicate_numeral)
  from delete_hides_colliding_key [OF _ _ _ _ _ _ this _ _ _ _ c, of 1 0 64 4 4 4] show ?thesis
    by (simp add: ENTRY_KEY_SIZE_def)
qed

section \<open>A full table\<close>



section \<open>Keys of different lengths\<close>

text \<open>C29: The lookup compares only as many bytes as the request has, so a key is mistaken for a longer
  one that it is a prefix of: when a key is stored in a new table and a proper prefix of it, which
  was never stored, has the same hash slot, the lookup of the prefix returns the place and the
  length of the value of the longer key.\<close>

theorem prefix_key_found:
  assumes n: "0 < n" "n < 2 ^ 32" and k: "length k \<le> ENTRY_KEY_SIZE" "m < length k" and off: "unat off < storage" "off \<noteq> -1"
    and h: "get_hash_slot (replicate n new_entry) (take m k) = get_hash_slot (replicate n new_entry) k"
  shows "\<exists>t e. new_mapping_entry_by_key storage k len off (replicate n new_entry) = Some t \<and>
     get_mapping_entry_by_key (take m k) t = Some e \<and> mem_offset e = off \<and> me_length e = len"
proof -
  let ?h = "get_hash_slot (replicate n new_entry) k"
  let ?t = "(replicate n new_entry)[unat ?h := new_entry\<lparr>me_key := k @ drop (length k) (me_key new_entry),
      mem_offset := off, me_length := len\<rparr>]"
  have t: "new_mapping_entry_by_key storage k len off (replicate n new_entry) = Some ?t" "unat ?h < n"
    using insert_first(1) [where n = n and k = k and off = off and storage = storage and len = len]
      insert_first(2) [where n = n and k = k and off = off and storage = storage] n k off by simp_all
  have "get_hash_slot ?t (take m k) = ?h" using h by (simp add: get_hash_slot_def)
  moreover have "find_mapping ?t (take m k) ?h = Some (Some ?h)"
    using t(2) off(2) k(2) by (subst find_mapping.simps) (simp add: min_def)
  ultimately have "get_mapping_entry_by_key (take m k) ?t =
      Some ((?t ! unat ?h)\<lparr>me_key := take m k @ drop (length (take m k)) (me_key blank_entry)\<rparr>)"
    using k by (simp add: get_mapping_entry_by_key_def)
  then show ?thesis using t by simp
qed

theorem prefix_key_found_witness:
  "\<exists>t e. new_mapping_entry_by_key 64 [1, 2, 3, 4, 5] 8 0 (replicate 1 new_entry) = Some t \<and>
     get_mapping_entry_by_key [1, 2, 3, 4] t = Some e \<and> mem_offset e = 0 \<and> me_length e = 8"
  using prefix_key_found [of 1 "[1, 2, 3, 4, 5]" 4 0 64 8] by (simp add: ENTRY_KEY_SIZE_def get_hash_slot_def)

section \<open>Iterators\<close>



text \<open>The keys of the slots that match, as an iterator returns them.\<close>

definition iter_hit :: "u32 \<Rightarrow> u32 \<Rightarrow> mapping_entry \<Rightarrow> bool" where
  "iter_hit prefix bm e \<longleftrightarrow> mem_offset e \<noteq> -1 \<and> word_at 0 (me_key e) AND bm = prefix AND bm"

definition iter_keys :: "u32 \<Rightarrow> u32 \<Rightarrow> mapping_table \<Rightarrow> byte list list" where
  "iter_keys prefix bm t = map (\<lambda>e. take ITER_KEY_LEN (me_key e)) (filter (iter_hit prefix bm) t)"

abbreviation key_at :: "u32 \<Rightarrow> u32 \<Rightarrow> mapping_entry \<Rightarrow> byte list list" where
  "key_at prefix bm e \<equiv> if iter_hit prefix bm e then [take ITER_KEY_LEN (me_key e)] else []"

lemma iter_scan_step:
  assumes "pos < length t"
  shows "iter_scan t prefix bm pos off =
    (if iter_hit prefix bm (t ! pos) \<and> off + 20 > 1024 then ([], pos, False)
     else if Suc pos = length t then (key_at prefix bm (t ! pos), Suc pos, True)
     else case iter_scan t prefix bm (Suc pos) (off + 20 * length (key_at prefix bm (t ! pos))) of
            (ks, p, end) \<Rightarrow> (key_at prefix bm (t ! pos) @ ks, p, end))"
  using assms by (subst iter_scan.simps) (simp add: Let_def iter_hit_def ITER_KEY_LEN_def add.commute)

lemma iter_keys_Cons: "iter_keys prefix bm (e # es) = key_at prefix bm e @ iter_keys prefix bm es"
  by (simp add: iter_keys_def)

lemma iter_scan_spec:
  assumes "iter_scan t prefix bm pos off = (ks, pos', end)" "pos < length t" "off \<le> 1024"
  shows "pos \<le> pos' \<and> pos' \<le> length t \<and> (end \<longleftrightarrow> pos' = length t) \<and>
     ks @ iter_keys prefix bm (drop pos' t) = iter_keys prefix bm (drop pos t) \<and>
     off + 20 * length ks \<le> 1024 \<and> (off + 20 \<le> 1024 \<longrightarrow> pos < pos')"
  using assms
proof (induction "length t - pos" arbitrary: pos off ks pos' "end")
  case (Suc m)
  let ?k = "key_at prefix bm (t ! pos)"
  have keys: "iter_keys prefix bm (drop pos t) = ?k @ iter_keys prefix bm (drop (Suc pos) t)"
    using Suc.prems(2) by (simp add: Cons_nth_drop_Suc [symmetric] iter_keys_Cons)
  consider (full) "iter_hit prefix bm (t ! pos)" "off + 20 > 1024"
    | (last) "off + 20 * length ?k \<le> 1024" "Suc pos = length t"
    | (more) "off + 20 * length ?k \<le> 1024" "Suc pos < length t"
    using Suc.prems(2,3) by (cases "iter_hit prefix bm (t ! pos)") (force | linarith)+
  then show ?case
  proof cases
    case full
    then show ?thesis using Suc.prems by (simp add: iter_scan_step)
  next
    case last
    then have "ks = ?k" "pos' = Suc pos" "end" using Suc.prems by (auto simp: iter_scan_step split: if_splits)
    then show ?thesis using last keys by (simp add: iter_keys_def)
  next
    case more
    obtain ks1 p1 e1 where r: "iter_scan t prefix bm (Suc pos) (off + 20 * length ?k) = (ks1, p1, e1)"
      by (cases "iter_scan t prefix bm (Suc pos) (off + 20 * length ?k)")
    have out: "ks = ?k @ ks1" "pos' = p1" "end = e1"
      using Suc.prems(1,2) more r by (simp_all add: iter_scan_step split: if_splits)
    have "m = length t - Suc pos" using Suc.hyps(2) by simp
    from Suc.hyps(1) [OF this r more(2,1)] show ?thesis using keys out by auto
  qed
qed simp

text \<open>
  What a client does with an open iterator: read into the page at \<open>prp1\<close> until the status says
  that the end is reached.  The result is the bytes of every read.
\<close>

fun kv_iter_drain :: "nat \<Rightarrow> nvme_kv_command \<Rightarrow> kv_ftl \<Rightarrow> (byte list list \<times> kv_ftl) option" where
  "kv_iter_drain 0 c d = None"
| "kv_iter_drain (Suc f) c d =
     do { (res, status, d') \<leftarrow> kv_iter_read c 0 d;
          pg \<leftarrow> host_memory d' (drop_bit 12 (kc_prp1 c));
          if status = ITER_END_STATUS then Some ([take (unat res) pg], d')
          else do { (bufs, d'') \<leftarrow> kv_iter_drain f c d'; Some (take (unat res) pg # bufs, d'') } }"

lemma iter_buffer_length:
  "(\<forall>k\<in>set ks. length k = ITER_KEY_LEN) \<Longrightarrow> length (iter_buffer ks) = 4 + 20 * length ks"
  by (induction ks) (simp_all add: iter_buffer_def ITER_KEY_LEN_def)

lemma iter_keys_length:
  "(\<forall>e\<in>set t. length (me_key e) = ENTRY_KEY_SIZE) \<Longrightarrow> k \<in> set (iter_keys prefix bm t) \<Longrightarrow> length k = ITER_KEY_LEN"
  by (auto simp: iter_keys_def ITER_KEY_LEN_def ENTRY_KEY_SIZE_def)

lemma iter_read_step:
  assumes i: "unat (kc_key_len c) < length (iter_handle d)" "iter_handle d ! unat (kc_key_len c) = Open_iter ic"
    and pos: "ic_current_pos ic < length (kv_mapping_table d)"
    and keys: "\<forall>e\<in>set (kv_mapping_table d). length (me_key e) = ENTRY_KEY_SIZE"
    and pg: "take_bit 12 (kc_prp1 c) = 0" "host_memory d (drop_bit 12 (kc_prp1 c)) = Some pg" "length pg = KV_PAGE_SIZE"
  obtains ks pos' pg' where "kv_iter_read c 0 d = Some (of_nat (length (iter_buffer ks)),
        if pos' = length (kv_mapping_table d) then ITER_END_STATUS else 0,
        d\<lparr>host_memory := (host_memory d)(drop_bit 12 (kc_prp1 c) \<mapsto> pg'),
          iter_handle := (iter_handle d)[unat (kc_key_len c) := Open_iter (ic\<lparr>ic_current_pos := pos'\<rparr>)]\<rparr>)"
    "take (length (iter_buffer ks)) pg' = iter_buffer ks" "length pg' = KV_PAGE_SIZE" "length (iter_buffer ks) \<le> 1024"
    "ic_current_pos ic < pos'" "pos' \<le> length (kv_mapping_table d)"
    "ks @ iter_keys (ic_prefix ic) (ic_bitmask ic) (drop pos' (kv_mapping_table d)) =
       iter_keys (ic_prefix ic) (ic_bitmask ic) (drop (ic_current_pos ic) (kv_mapping_table d))"
proof -
  let ?t = "kv_mapping_table d" and ?pfn = "drop_bit 12 (kc_prp1 c)"
  obtain ks pos' e where sc: "iter_scan ?t (ic_prefix ic) (ic_bitmask ic) (ic_current_pos ic) 4 = (ks, pos', e)"
    by (cases "iter_scan ?t (ic_prefix ic) (ic_bitmask ic) (ic_current_pos ic) 4")
  have sp: "ic_current_pos ic < pos'" "pos' \<le> length ?t" "e \<longleftrightarrow> pos' = length ?t" "4 + 20 * length ks \<le> 1024"
    "ks @ iter_keys (ic_prefix ic) (ic_bitmask ic) (drop pos' ?t) =
       iter_keys (ic_prefix ic) (ic_bitmask ic) (drop (ic_current_pos ic) ?t)"
    using iter_scan_spec [OF sc pos] by simp_all
  have "set ks \<subseteq> set (iter_keys (ic_prefix ic) (ic_bitmask ic) (drop (ic_current_pos ic) ?t))"
    using arg_cong [OF sp(5), of set] by auto
  moreover have "\<forall>e\<in>set (drop (ic_current_pos ic) ?t). length (me_key e) = ENTRY_KEY_SIZE"
    using keys by (auto dest: in_set_dropD)
  ultimately have "\<forall>k\<in>set ks. length k = ITER_KEY_LEN" using iter_keys_length by blast
  then have bl: "length (iter_buffer ks) = 4 + 20 * length ks" by (rule iter_buffer_length)
  have le: "length (iter_buffer ks) \<le> 1024" using sp bl by simp
  let ?pg = "iter_buffer ks @ drop (length (iter_buffer ks)) pg"
  have "prp_scatter c 0 None (iter_buffer ks) (host_memory d) = Some ((host_memory d)(?pfn \<mapsto> ?pg))"
    using prp_one_page(2) [OF pg(1) _ refl, of "iter_buffer ks"] le bl pg(2) by (simp add: KV_PAGE_SIZE_def)
  then have "kv_iter_read c 0 d = Some (of_nat (length (iter_buffer ks)),
        if pos' = length ?t then ITER_END_STATUS else 0,
        d\<lparr>host_memory := (host_memory d)(?pfn \<mapsto> ?pg),
          iter_handle := (iter_handle d)[unat (kc_key_len c) := Open_iter (ic\<lparr>ic_current_pos := pos'\<rparr>)]\<rparr>)"
    using i sc sp by (simp add: kv_iter_read_def Let_def)
  then show thesis using that [of ks pos' ?pg] sp le pg(3) by (simp add: KV_PAGE_SIZE_def)
qed

lemma kv_iter_drain_keys:
  assumes "unat (kc_key_len c) < length (iter_handle d)" "iter_handle d ! unat (kc_key_len c) = Open_iter ic"
    "ic_current_pos ic < length (kv_mapping_table d)" "length (kv_mapping_table d) - ic_current_pos ic \<le> f"
    "\<forall>e\<in>set (kv_mapping_table d). length (me_key e) = ENTRY_KEY_SIZE"
    "take_bit 12 (kc_prp1 c) = 0" "host_memory d (drop_bit 12 (kc_prp1 c)) = Some pg" "length pg = KV_PAGE_SIZE"
  shows "\<exists>kss d'. kv_iter_drain f c d = Some (map iter_buffer kss, d') \<and>
     concat kss = iter_keys (ic_prefix ic) (ic_bitmask ic) (drop (ic_current_pos ic) (kv_mapping_table d))"
  using assms
proof (induction f arbitrary: d ic pg)
  case (Suc f)
  let ?t = "kv_mapping_table d" and ?pfn = "drop_bit 12 (kc_prp1 c)"
  obtain ks pos' pg' where r: "kv_iter_read c 0 d = Some (of_nat (length (iter_buffer ks)),
        if pos' = length ?t then ITER_END_STATUS else 0,
        d\<lparr>host_memory := (host_memory d)(?pfn \<mapsto> pg'),
          iter_handle := (iter_handle d)[unat (kc_key_len c) := Open_iter (ic\<lparr>ic_current_pos := pos'\<rparr>)]\<rparr>)"
    "take (length (iter_buffer ks)) pg' = iter_buffer ks" "length pg' = KV_PAGE_SIZE" "length (iter_buffer ks) \<le> 1024"
    "ic_current_pos ic < pos'" "pos' \<le> length ?t"
    "ks @ iter_keys (ic_prefix ic) (ic_bitmask ic) (drop pos' ?t) =
       iter_keys (ic_prefix ic) (ic_bitmask ic) (drop (ic_current_pos ic) ?t)"
    by (rule iter_read_step [OF Suc.prems(1-3,5-8)])
  have u: "unat (of_nat (length (iter_buffer ks)) :: u32) = length (iter_buffer ks)"
    using r(4) by (simp add: unat_of_nat take_bit_nat_eq_self)
  show ?case
  proof (cases "pos' = length ?t")
    case True
    then show ?thesis using r(1,2,7) u by (intro exI [of _ "[ks]"]) (simp add: iter_keys_def)
  next
    case False
    let ?d = "d\<lparr>host_memory := (host_memory d)(?pfn \<mapsto> pg'),
          iter_handle := (iter_handle d)[unat (kc_key_len c) := Open_iter (ic\<lparr>ic_current_pos := pos'\<rparr>)]\<rparr>"
    have "\<exists>kss d'. kv_iter_drain f c ?d = Some (map iter_buffer kss, d') \<and>
      concat kss = iter_keys (ic_prefix ic) (ic_bitmask ic) (drop pos' ?t)"
      using Suc.IH [of ?d "ic\<lparr>ic_current_pos := pos'\<rparr>" pg'] Suc.prems(1,4,5,6) r(3,5,6) False by simp
    then obtain kss d' where "kv_iter_drain f c ?d = Some (map iter_buffer kss, d')"
      "concat kss = iter_keys (ic_prefix ic) (ic_bitmask ic) (drop pos' ?t)" by blast
    then show ?thesis using False r(1,2,7) u
      by (intro exI [of _ "ks # kss"] exI [of _ d']) (simp add: ITER_END_STATUS_def)
  qed
qed simp

text \<open>C25: Reading an iterator of the virtual device to its end is complete and ends: from a freshly
  opened handle, reading into a page of the host until the end is reported takes no more reads
  than the table has slots, and what is read is, in the order of the slots and each exactly once,
  the first sixteen bytes of every key in use whose first word agrees with the prefix on the mask.\<close>

theorem kv_iteration_complete:
  assumes "unat (kc_key_len c) < length (iter_handle d)"
    "iter_handle d ! unat (kc_key_len c) = Open_iter \<lparr>ic_prefix = prefix, ic_bitmask = bm, ic_current_pos = 0\<rparr>"
    "0 < length (kv_mapping_table d)" "\<forall>e\<in>set (kv_mapping_table d). length (me_key e) = ENTRY_KEY_SIZE"
    "take_bit 12 (kc_prp1 c) = 0" "host_memory d (drop_bit 12 (kc_prp1 c)) = Some pg" "length pg = KV_PAGE_SIZE"
  shows "\<exists>kss d'. kv_iter_drain (length (kv_mapping_table d)) c d = Some (map iter_buffer kss, d') \<and>
     concat kss = iter_keys prefix bm (kv_mapping_table d)"
  using kv_iter_drain_keys [OF assms(1,2) _ _ assms(4-7), of "length (kv_mapping_table d)"] assms(3) by simp

theorem kv_iteration_complete_witness:
  "let d = (kv_init_namespace 2 Null_iter [] demo_pages)\<lparr>
         kv_mapping_table := [new_entry\<lparr>me_key := [5, 0, 0, 0] @ replicate 14 7, mem_offset := 0\<rparr>,
                              new_entry\<lparr>me_key := [6, 0, 0, 0] @ replicate 14 7, mem_offset := 0\<rparr>],
         iter_handle := [Null_iter, Open_iter \<lparr>ic_prefix = 6, ic_bitmask = 255, ic_current_pos = 0\<rparr>]\<rparr>;
       c = (demo_cmd nvme_cmd_kv_iter_read [0, 0, 0, 0] 0)\<lparr>kc_key_len := 1\<rparr>
   in \<exists>kss d'. kv_iter_drain 2 c d = Some (map iter_buffer kss, d') \<and> concat kss = [[6, 0, 0, 0] @ replicate 12 7]"
proof -
  let ?d = "(kv_init_namespace 2 Null_iter [] demo_pages)\<lparr>
         kv_mapping_table := [new_entry\<lparr>me_key := [5, 0, 0, 0] @ replicate 14 7, mem_offset := 0\<rparr>,
                              new_entry\<lparr>me_key := [6, 0, 0, 0] @ replicate 14 7, mem_offset := 0\<rparr>],
         iter_handle := [Null_iter, Open_iter \<lparr>ic_prefix = 6, ic_bitmask = 255, ic_current_pos = 0\<rparr>]\<rparr>"
  let ?c = "(demo_cmd nvme_cmd_kv_iter_read [0, 0, 0, 0] 0)\<lparr>kc_key_len := 1\<rparr>"
  have len: "length (kv_mapping_table ?d) = 2" by simp
  have pg: "host_memory ?d (drop_bit 12 (kc_prp1 ?c)) = Some ([1, 2, 3, 4, 5, 6, 7, 8] @ replicate 4088 0)"
    by (simp add: kv_init_namespace_def demo_pages_def demo_cmd_def del: replicate_numeral)
  have "iter_keys 6 255 (kv_mapping_table ?d) = [[6, 0, 0, 0] @ replicate 12 7]"
    by (simp add: iter_keys_def iter_hit_def word_at_def ITER_KEY_LEN_def del: replicate_numeral)
  moreover have "\<exists>kss d'. kv_iter_drain (length (kv_mapping_table ?d)) ?c ?d = Some (map iter_buffer kss, d') \<and>
     concat kss = iter_keys 6 255 (kv_mapping_table ?d)"
    by (rule kv_iteration_complete [OF _ _ _ _ _ pg])
      (simp_all add: ENTRY_KEY_SIZE_def KV_PAGE_SIZE_def demo_cmd_def del: replicate_numeral)
  ultimately show ?thesis unfolding Let_def len by simp
qed

section \<open>Updates that change the length\<close>

text \<open>C28: Updating a key with a longer value destroys the value that lies behind it.  The layer accepts
  the update when both lengths are at most \<open>SMALL_LENGTH\<close>, and writes the new value over the old
  one; with the append-only allocator the next value starts where the old one ended.  After the
  update, which is answered with success, the value of the neighbour begins with the bytes by
  which the new value is longer.\<close>

theorem longer_update_overwrites_neighbour:
  assumes r: "ftl_refines L d a" and c: "cmd_key_length c = L" "L \<le> length (kc_key c)" "kc_opcode c = nvme_cmd_kv_store"
    and s: "holds_key L (kv_mapping_table d) (take L (kc_key c)) s" and s': "in_use (kv_mapping_table d) s'" "s' \<noteq> s"
    and adj: "unat (mem_offset (kv_mapping_table d ! unat s')) =
      unat (mem_offset (kv_mapping_table d ! unat s)) + unat (me_length (kv_mapping_table d ! unat s))"
    and len: "unat (me_length (kv_mapping_table d ! unat s)) < unat (cmd_value_length c)"
      "unat (cmd_value_length c) \<le> SMALL_LENGTH"
      "unat (mem_offset (kv_mapping_table d ! unat s)) + unat (cmd_value_length c) \<le> length (storage_mapped d)"
    and v: "prp_gather (host_memory d) c 0 (unat (cmd_value_length c)) None = Some v"
    and m: "m \<le> unat (cmd_value_length c) - unat (me_length (kv_mapping_table d ! unat s))"
      "m \<le> unat (me_length (kv_mapping_table d ! unat s'))"
  shows "\<exists>d'. kv_perform_nvme_io_cmd z ok c 0 d = Some (0, 0, d') \<and>
     take m (slot_value (kv_mapping_table d') (storage_mapped d') s') =
       take m (drop (unat (me_length (kv_mapping_table d ! unat s))) v)"
proof -
  let ?t = "kv_mapping_table d" and ?k = "take L (kc_key c)" and ?old = "unat (me_length (kv_mapping_table d ! unat s))"
  have vl: "length v = unat (cmd_value_length c)" using prp_gather_length [OF _ v] r by (simp add: ftl_refines_def)
  obtain st where p: "put_storage (unat (mem_offset (?t ! unat s))) v (storage_mapped d) = Some st"
    using len(3) vl by (auto simp: put_storage_def)
  have u: "in_use ?t s" using s by (simp add: holds_key_def)
  let ?t' = "?t[unat s := (?t ! unat s)\<lparr>me_length := ucast (cmd_value_length c)\<rparr>]"
  have perf: "kv_perform_nvme_io_cmd z ok c 0 d = Some (0, 0, d\<lparr>storage_mapped := st, kv_mapping_table := ?t'\<rparr>)"
  proof (cases rule: refines_lookup [OF r c(1,2)])
    case 1
    then show ?thesis using s by blast
  next
    case (2 x e)
    have x: "x = s" using table_okD(8) [of L ?t x s] r 2(2) s by (auto simp: ftl_refines_def holds_key_def)
    have "update_mapping_entry c ?t = Some (0, ?t')"
      using 2(6) c x by (simp add: update_mapping_entry_def cmd_key_def)
    then have "kv_store_io z c e 0 d = Some (0, 0, d\<lparr>storage_mapped := st, kv_mapping_table := ?t'\<rparr>)"
      using 2(3,4) x u v p len(1,2) by (simp add: kv_store_io_def Let_def in_use_def)
    then show ?thesis
      using c(3) 2(1) by (simp add: kv_perform_nvme_io_cmd_def is_kv_iter_cmd_def do_perform_kv_io_def kv_opcode_defs)
  qed
  have "?t' ! unat s' = ?t ! unat s'" using s' u by (simp add: in_use_def nth_update_word)
  then have "take m (slot_value ?t' st s') = take m (drop (unat (mem_offset (?t ! unat s'))) st)"
    using m(2) by (simp add: slot_value_def min_def)
  also have "\<dots> = take m (drop ?old (take (length v) (drop (unat (mem_offset (?t ! unat s))) st)))"
    using m(1) len(1) by (simp add: adj drop_take min_def vl add.commute)
  also have "\<dots> = take m (drop ?old v)" by (simp only: put_storage_get(2) [OF p])
  finally show ?thesis using perf by simp
qed

text \<open>Two keys of one byte, each with a value of four bytes, one behind the other.\<close>

definition two_values :: kv_ftl where
  "two_values = \<lparr>kv_mapping_table = [new_entry, new_entry,
       \<lparr>me_key = 1 # replicate 17 0, mem_offset = 4, me_length = 4, next_slot = -1\<rparr>,
       \<lparr>me_key = 0 # replicate 17 0, mem_offset = 0, me_length = 4, next_slot = -1\<rparr>],
     kf_allocator = Append_only \<lparr>ao_latest = 8, ao_dev_size = 16, ao_total_written = 8\<rparr>,
     iter_handle = [], storage_mapped = replicate 4 7 @ replicate 4 8 @ replicate 8 0, host_memory = demo_pages\<rparr>"

definition two_values_spec :: kv_spec where
  "two_values_spec = \<lparr>sp_map = ftl_map 1 (kv_mapping_table two_values) (storage_mapped two_values),
     sp_host = demo_pages, sp_used = 8, sp_count = 2\<rparr>"

lemma demo_pages_ok: "host_pages_ok demo_pages"
  by (auto simp: host_pages_ok_def demo_pages_def KV_PAGE_SIZE_def simp del: replicate_numeral split: if_splits)

lemma unat_less_4: "unat (s :: u32) < 4 \<longleftrightarrow> s = 0 \<or> s = 1 \<or> s = 2 \<or> s = 3"
proof
  assume "unat s < 4"
  then consider "unat s = 0" | "unat s = 1" | "unat s = 2" | "unat s = 3" by linarith
  then show "s = 0 \<or> s = 1 \<or> s = 2 \<or> s = 3" by cases (simp_all add: word_unat_eq_iff)
qed auto

lemma two_values_slots:
  "length (kv_mapping_table two_values) = 4"
  "in_use (kv_mapping_table two_values) s \<longleftrightarrow> s = 2 \<or> s = 3"
  "slot_key (Suc 0) (kv_mapping_table two_values) 2 = [1]" "slot_key (Suc 0) (kv_mapping_table two_values) 3 = [0]"
  "get_hash_slot (kv_mapping_table two_values) [1] = 2" "get_hash_slot (kv_mapping_table two_values) [0] = 3"
proof -
  show l: "length (kv_mapping_table two_values) = 4" by (simp add: two_values_def)
  show "in_use (kv_mapping_table two_values) s \<longleftrightarrow> s = 2 \<or> s = 3"
    unfolding in_use_def l unat_less_4 by (auto simp: two_values_def new_entry_def simp del: replicate_numeral)
  show "slot_key (Suc 0) (kv_mapping_table two_values) 2 = [1]" "slot_key (Suc 0) (kv_mapping_table two_values) 3 = [0]"
    by (simp_all add: two_values_def slot_key_def del: replicate_numeral)
  show "get_hash_slot (kv_mapping_table two_values) [1] = 2" "get_hash_slot (kv_mapping_table two_values) [0] = 3"
    by (simp_all add: get_hash_slot_def l hash_function_def kv_hash_step_def)
qed

lemma two_values_refines: "ftl_refines 1 two_values two_values_spec"
proof -
  let ?t = "kv_mapping_table two_values"
  have c: "chain ?t 2 [2]" "chain ?t 3 [3]"
    by (simp_all add: chain_iff two_values_def del: replicate_numeral)
  have "table_ok 1 ?t"
  proof (rule table_okI)
    show "length (me_key (?t ! unat s)) = ENTRY_KEY_SIZE" if "unat s < length ?t" for s :: u32
      using that by (auto simp: two_values_slots unat_less_4) (simp_all add: two_values_def new_entry_def ENTRY_KEY_SIZE_def del: replicate_numeral)
    show "next_slot (?t ! unat s) = -1" if "unat s < length ?t" for s :: u32
      using that by (auto simp: two_values_slots unat_less_4) (simp_all add: two_values_def new_entry_def)
    show "\<exists>ss. chain ?t s ss" "\<exists>ss. chain ?t (get_hash_slot ?t (slot_key 1 ?t s)) ss \<and> s \<in> set ss" if "in_use ?t s" for s
      using that c by (auto simp: two_values_slots intro!: exI [of _ "[s]"])
    show "s = s'" if "in_use ?t s" "in_use ?t s'" "slot_key 1 ?t s = slot_key 1 ?t s'" for s s'
      using that by (auto simp: two_values_slots)
  qed (simp_all add: two_values_slots ENTRY_KEY_SIZE_def)
  moreover have "in_storage ?t 8" unfolding in_storage_def two_values_slots by (auto simp: two_values_def)
  moreover have "used_slots ?t = 2" by (simp add: two_values_def used_slots_def new_entry_def)
  ultimately show ?thesis
    by (simp add: ftl_refines_def two_values_spec_def demo_pages_ok) (simp add: two_values_def demo_pages_ok)
qed

definition longer_cmd :: nvme_kv_command where
  "longer_cmd = \<lparr>kc_opcode = nvme_cmd_kv_store, kc_prp1 = 0, kc_prp2 = 0, kc_value_len = 2, kc_key_len = 0,
     kc_option = 0, kc_rsvd4 = 0, kc_key = replicate 16 0\<rparr>"

theorem longer_update_overwrites_neighbour_witness:
  "\<exists>d'. kv_perform_nvme_io_cmd (\<lambda>_ _ _. 0) True longer_cmd 0 two_values = Some (0, 0, d') \<and>
     slot_value (kv_mapping_table two_values) (storage_mapped two_values) 2 = [8, 8, 8, 8] \<and>
     take 4 (slot_value (kv_mapping_table d') (storage_mapped d') 2) = [5, 6, 7, 8]"
proof -
  let ?v = "[1, 2, 3, 4, 5, 6, 7, 8] :: byte list"
  have c: "cmd_key_length longer_cmd = 1" "kc_opcode longer_cmd = nvme_cmd_kv_store" "kc_key longer_cmd = replicate 16 0"
    "unat (cmd_value_length longer_cmd) = 8"
    by (simp_all add: longer_cmd_def cmd_key_length_def cmd_value_length_def)
  have h: "holds_key 1 (kv_mapping_table two_values) (take 1 (kc_key longer_cmd)) 3" "in_use (kv_mapping_table two_values) 2"
    by (simp_all add: holds_key_def two_values_slots c)
  have v: "prp_gather (host_memory two_values) longer_cmd 0 (unat (cmd_value_length longer_cmd)) None = Some ?v"
    unfolding c(4)
    by (subst prp_one_page(1))
      (simp_all add: longer_cmd_def KV_PAGE_SIZE_def two_values_def demo_pages_def del: replicate_numeral)
  have e: "mem_offset (kv_mapping_table two_values ! 2) = 4" "me_length (kv_mapping_table two_values ! 2) = 4"
    "mem_offset (kv_mapping_table two_values ! 3) = 0" "me_length (kv_mapping_table two_values ! 3) = 4"
    "length (storage_mapped two_values) = 16"
    by (simp_all add: two_values_def del: replicate_numeral)
  have "slot_value (kv_mapping_table two_values) (storage_mapped two_values) 2 = [8, 8, 8, 8]"
    by (simp add: slot_value_def two_values_def)
  moreover have "\<exists>d'. kv_perform_nvme_io_cmd (\<lambda>_ _ _. 0) True longer_cmd 0 two_values = Some (0, 0, d') \<and>
     take 4 (slot_value (kv_mapping_table d') (storage_mapped d') 2) = take 4 (drop (unat (4 :: u64)) ?v)"
    using longer_update_overwrites_neighbour [OF two_values_refines c(1) _ c(2) h _ _ _ _ _ v, of 4 "\<lambda>_ _ _. 0" True]
    by (simp add: e c SMALL_LENGTH_def)
  ultimately show ?thesis by simp
qed

end
