(* ===== verification/Io_Queue.thy ===== *)
theory Io_Queue
  imports Prelude "HOL-Library.Monad_Syntax" "HOL-Library.Multiset"
begin

text \<open>
  The work queue of an I/O worker of the virtual device (\<open>lib/nvmevirt/io.c\<close>).  A worker has a fixed
  table of entries; the entries in use are chained by their indexes into a doubly linked list that
  is ordered by the time at which a request is due, and the free entries into a singly linked list
  that is taken from at its head and given back to at its end.  An access outside the table and a
  walk that does not end are \<open>None\<close>.
\<close>

section \<open>Entries\<close>

text \<open>The time stamps that only a build with \<open>PERF_DEBUG\<close> writes are left out.\<close>

record nvmev_io_work =
  w_sqid :: int
  w_cqid :: int
  w_sq_entry :: int
  w_command_id :: u32
  w_nsecs_start :: u64
  w_nsecs_target :: u64
  w_nsecs_enqueue :: u64
  w_is_copied :: bool
  w_is_completed :: bool
  w_status :: u32
  w_result0 :: u32
  w_result1 :: u32
  w_is_internal :: bool
  w_write_buffer :: addr
  w_buffs_to_release :: size_t
  w_next :: u32
  w_prev :: u32

record nvmev_io_worker =
  work_queue :: "u32 \<Rightarrow> nvmev_io_work"
  free_seq :: u32
  free_seq_end :: u32
  io_seq :: u32
  io_seq_end :: u32
  latest_nsecs :: u64

definition NR_MAX_PARALLEL_IO :: u32 where "NR_MAX_PARALLEL_IO = 16384"

text \<open>A read of an entry, and an assignment to fields of one.\<close>

definition work_at :: "nvmev_io_worker \<Rightarrow> u32 \<Rightarrow> nvmev_io_work option" where
  "work_at k i = (if i < NR_MAX_PARALLEL_IO then Some (work_queue k i) else None)"

definition put_work :: "u32 \<Rightarrow> (nvmev_io_work \<Rightarrow> nvmev_io_work) \<Rightarrow> nvmev_io_worker \<Rightarrow> nvmev_io_worker option" where
  "put_work i f k =
     (if i < NR_MAX_PARALLEL_IO then Some (k\<lparr>work_queue := (work_queue k)(i := f (work_queue k i))\<rparr>) else None)"

definition zeroed_work :: nvmev_io_work where
  "zeroed_work =
     \<lparr>w_sqid = 0, w_cqid = 0, w_sq_entry = 0, w_command_id = 0, w_nsecs_start = 0, w_nsecs_target = 0,
      w_nsecs_enqueue = 0, w_is_copied = False, w_is_completed = False, w_status = 0, w_result0 = 0,
      w_result1 = 0, w_is_internal = False, w_write_buffer = NULL, w_buffs_to_release = 0, w_next = 0, w_prev = 0\<rparr>"

text \<open>The state in which a worker starts: every entry is free.\<close>

definition io_worker_init :: nvmev_io_worker where
  "io_worker_init =
     \<lparr>work_queue = (\<lambda>i. zeroed_work\<lparr>w_next := if i = NR_MAX_PARALLEL_IO - 1 then -1 else i + 1, w_prev := i - 1\<rparr>),
      free_seq = 0, free_seq_end = NR_MAX_PARALLEL_IO - 1, io_seq = -1, io_seq_end = -1, latest_nsecs = 0\<rparr>"

section \<open>Insertion\<close>

text \<open>The walk from the end of the list to the entry after which a request is placed.\<close>

partial_function (option) insert_scan :: "nvmev_io_worker \<Rightarrow> u64 \<Rightarrow> u32 \<Rightarrow> u32 option" where
  "insert_scan k t cur =
     (if cur = -1 then Some cur
      else do { w \<leftarrow> work_at k cur;
                if w_nsecs_target w \<le> latest_nsecs k then Some cur
                else if w_nsecs_target w \<le> t then Some cur
                else insert_scan k t (w_prev w) })"

definition insert_req_sorted :: "u32 \<Rightarrow> nvmev_io_worker \<Rightarrow> u64 \<Rightarrow> nvmev_io_worker option" where
  "insert_req_sorted entry k t =
     (if io_seq k = -1 then Some (k\<lparr>io_seq := entry, io_seq_end := entry\<rparr>)
      else do { cur \<leftarrow> insert_scan k t (io_seq_end k);
        if cur = -1
        then do { k \<leftarrow> put_work (io_seq k) (w_prev_update (\<lambda>_. entry)) k;
                  k \<leftarrow> put_work entry (w_next_update (\<lambda>_. io_seq k)) k;
                  Some (k\<lparr>io_seq := entry\<rparr>) }
        else do { c \<leftarrow> work_at k cur;
          if w_next c = -1
          then do { k \<leftarrow> put_work entry (w_prev_update (\<lambda>_. cur)) k;
                    put_work cur (w_next_update (\<lambda>_. entry)) (k\<lparr>io_seq_end := entry\<rparr>) }
          else do { k \<leftarrow> put_work entry (w_prev_update (\<lambda>_. cur)) k;
                    k \<leftarrow> put_work entry (w_next_update (\<lambda>_. w_next c)) k;
                    k \<leftarrow> put_work (w_next c) (w_prev_update (\<lambda>_. entry)) k;
                    put_work cur (w_next_update (\<lambda>_. entry)) k } } })"

text \<open>
  The part of \<open>__allocate_work_queue_entry\<close> that acts on the worker: the last free entry is never
  handed out.
\<close>

definition allocate_entry :: "nvmev_io_worker \<Rightarrow> (u32 \<times> nvmev_io_worker) option option" where
  "allocate_entry k =
     do { w \<leftarrow> work_at k (free_seq k);
          if NR_MAX_PARALLEL_IO \<le> w_next w then Some None
          else Some (Some (free_seq k, k\<lparr>free_seq := w_next w\<rparr>)) }"

text \<open>
  What the two callers do with the entry: they fill it, \<open>fill\<close>, unlink it and insert it.  The flag
  tells whether there was an entry; otherwise the callers return without a trace of the request.
\<close>

definition enqueue_on :: "(nvmev_io_work \<Rightarrow> nvmev_io_work) \<Rightarrow> u64 \<Rightarrow> nvmev_io_worker \<Rightarrow> (bool \<times> nvmev_io_worker) option" where
  "enqueue_on fill t k =
     do { r \<leftarrow> allocate_entry k;
          case r of
            None \<Rightarrow> Some (False, k)
          | Some (entry, k) \<Rightarrow>
              do { k \<leftarrow> put_work entry (\<lambda>w. (fill w)\<lparr>w_prev := -1, w_next := -1\<rparr>) k;
                   k \<leftarrow> insert_req_sorted entry k t;
                   Some (True, k) } }"

section \<open>Reclaiming\<close>

definition reclaimable :: "nvmev_io_worker \<Rightarrow> nvmev_io_work \<Rightarrow> bool" where
  "reclaimable k w \<longleftrightarrow> w_is_completed w \<and> w_is_copied w \<and> w_nsecs_target w \<le> latest_nsecs k"

partial_function (option) reclaim_scan :: "nvmev_io_worker \<Rightarrow> u32 \<Rightarrow> u32 \<Rightarrow> u32 option" where
  "reclaim_scan k cur last_entry =
     (if cur = -1 then Some last_entry
      else do { w \<leftarrow> work_at k cur;
                if reclaimable k w then reclaim_scan k (w_next w) cur else Some last_entry })"

text \<open>One round of the loop of \<open>__reclaim_completed_reqs\<close>.\<close>

definition reclaim_worker :: "nvmev_io_worker \<Rightarrow> nvmev_io_worker option" where
  "reclaim_worker k =
     (let first_entry = io_seq k in
      do { last_entry \<leftarrow> reclaim_scan k first_entry (-1);
           if last_entry = -1 then Some k
           else do { w \<leftarrow> work_at k last_entry;
                     k \<leftarrow> (if w_next w \<noteq> -1
                          then put_work (w_next w) (w_prev_update (\<lambda>_. -1)) (k\<lparr>io_seq := w_next w\<rparr>)
                          else Some (k\<lparr>io_seq := w_next w\<rparr>));
                     k \<leftarrow> put_work last_entry (w_next_update (\<lambda>_. -1)) k;
                     k \<leftarrow> put_work first_entry (w_prev_update (\<lambda>_. free_seq_end k)) k;
                     k \<leftarrow> put_work (free_seq_end k) (w_next_update (\<lambda>_. first_entry)) k;
                     Some (k\<lparr>free_seq_end := last_entry\<rparr>) } })"

section \<open>Segments of linked entries\<close>

text \<open>A walk along the links \<open>nx\<close> from \<open>h\<close> visits \<open>xs\<close> and arrives at \<open>t\<close>.\<close>

fun lseg :: "(u32 \<Rightarrow> u32) \<Rightarrow> u32 \<Rightarrow> u32 list \<Rightarrow> u32 \<Rightarrow> bool" where
  "lseg nx h [] t \<longleftrightarrow> h = t"
| "lseg nx h (x # xs) t \<longleftrightarrow> h = x \<and> lseg nx (nx x) xs t"

definition nx :: "nvmev_io_worker \<Rightarrow> u32 \<Rightarrow> u32" where
  "nx k i = w_next (work_queue k i)"

definition pv :: "nvmev_io_worker \<Rightarrow> u32 \<Rightarrow> u32" where
  "pv k i = w_prev (work_queue k i)"

text \<open>What an entry holds apart from its links.\<close>

definition content_of :: "nvmev_io_worker \<Rightarrow> u32 \<Rightarrow> nvmev_io_work" where
  "content_of k i = (work_queue k i)\<lparr>w_next := -1, w_prev := -1\<rparr>"

abbreviation due :: "nvmev_io_worker \<Rightarrow> u32 \<Rightarrow> u64" where
  "due k i \<equiv> w_nsecs_target (content_of k i)"

text \<open>Assignments to a link.\<close>

definition set_next :: "u32 \<Rightarrow> u32 \<Rightarrow> nvmev_io_worker \<Rightarrow> nvmev_io_worker" where
  "set_next i v k = k\<lparr>work_queue := (work_queue k)(i := (work_queue k i)\<lparr>w_next := v\<rparr>)\<rparr>"

definition set_prev :: "u32 \<Rightarrow> u32 \<Rightarrow> nvmev_io_worker \<Rightarrow> nvmev_io_worker" where
  "set_prev i v k = k\<lparr>work_queue := (work_queue k)(i := (work_queue k i)\<lparr>w_prev := v\<rparr>)\<rparr>"

text \<open>The entries in use as a doubly linked list.\<close>

definition in_use :: "nvmev_io_worker \<Rightarrow> u32 list \<Rightarrow> bool" where
  "in_use k xs \<longleftrightarrow>
     lseg (nx k) (io_seq k) xs (-1) \<and> (xs \<noteq> [] \<longrightarrow> lseg (pv k) (io_seq_end k) (rev xs) (-1)) \<and>
     distinct xs \<and> (\<forall>i\<in>set xs. i < NR_MAX_PARALLEL_IO)"

text \<open>
  The shape of a worker: \<open>xs\<close> are the entries in use in the order of the list, \<open>ys\<close> the free ones.
\<close>

definition queue_shape :: "nvmev_io_worker \<Rightarrow> u32 list \<Rightarrow> u32 list \<Rightarrow> bool" where
  "queue_shape k xs ys \<longleftrightarrow>
     in_use k xs \<and> lseg (nx k) (free_seq k) ys (-1) \<and> ys \<noteq> [] \<and> last ys = free_seq_end k \<and>
     distinct (xs @ ys) \<and> set xs \<union> set ys = {i. i < NR_MAX_PARALLEL_IO}"

lemma lseg_append: "lseg f h (xs @ y # ys) t \<longleftrightarrow> lseg f h xs y \<and> lseg f y (y # ys) t"
  by (induction xs arbitrary: h) auto

lemma lseg_snoc: "lseg f h (xs @ [y]) t \<longleftrightarrow> lseg f h xs y \<and> f y = t"
  by (simp add: lseg_append)

lemma lseg_cong: "(\<And>i. i \<in> set xs \<Longrightarrow> f i = g i) \<Longrightarrow> lseg f h xs t = lseg g h xs t"
  by (induction xs arbitrary: h) auto

lemma lseg_update [simp]: "x \<notin> set xs \<Longrightarrow> lseg (f(x := v)) h xs t = lseg f h xs t"
  by (rule lseg_cong) auto

lemma lseg_head: "lseg f h xs t \<Longrightarrow> xs \<noteq> [] \<Longrightarrow> h = hd xs"
  by (cases xs) auto

lemma lseg_nil_iff: "lseg f h xs t \<Longrightarrow> t \<notin> set xs \<Longrightarrow> h = t \<longleftrightarrow> xs = []"
  by (cases xs) auto

lemma no_entry [simp]: "\<not> (-1 :: u32) < NR_MAX_PARALLEL_IO" "NR_MAX_PARALLEL_IO \<le> (-1 :: u32)"
  by (simp_all add: NR_MAX_PARALLEL_IO_def)


lemma put_next [simp]: "i < NR_MAX_PARALLEL_IO \<Longrightarrow> put_work i (w_next_update (\<lambda>_. v)) k = Some (set_next i v k)"
  by (simp add: put_work_def set_next_def)

lemma put_prev [simp]: "i < NR_MAX_PARALLEL_IO \<Longrightarrow> put_work i (w_prev_update (\<lambda>_. v)) k = Some (set_prev i v k)"
  by (simp add: put_work_def set_prev_def)

lemma work_at_Some [simp]: "i < NR_MAX_PARALLEL_IO \<Longrightarrow> work_at k i = Some (work_queue k i)"
  by (simp add: work_at_def)

lemma set_next_view [simp]:
  "nx (set_next i v k) = (nx k)(i := v)" "pv (set_next i v k) = pv k" "content_of (set_next i v k) = content_of k"
  "io_seq (set_next i v k) = io_seq k" "io_seq_end (set_next i v k) = io_seq_end k"
  "free_seq (set_next i v k) = free_seq k" "free_seq_end (set_next i v k) = free_seq_end k"
  "latest_nsecs (set_next i v k) = latest_nsecs k"
  by (auto simp: set_next_def nx_def pv_def content_of_def fun_eq_iff)

lemma set_prev_view [simp]:
  "nx (set_prev i v k) = nx k" "pv (set_prev i v k) = (pv k)(i := v)" "content_of (set_prev i v k) = content_of k"
  "io_seq (set_prev i v k) = io_seq k" "io_seq_end (set_prev i v k) = io_seq_end k"
  "free_seq (set_prev i v k) = free_seq k" "free_seq_end (set_prev i v k) = free_seq_end k"
  "latest_nsecs (set_prev i v k) = latest_nsecs k"
  by (auto simp: set_prev_def nx_def pv_def content_of_def fun_eq_iff)

lemma set_seq_view [simp]:
  "nx (k\<lparr>io_seq := i\<rparr>) = nx k" "nx (k\<lparr>io_seq_end := i\<rparr>) = nx k" "nx (k\<lparr>free_seq := i\<rparr>) = nx k" "nx (k\<lparr>free_seq_end := i\<rparr>) = nx k"
  "pv (k\<lparr>io_seq := i\<rparr>) = pv k" "pv (k\<lparr>io_seq_end := i\<rparr>) = pv k" "pv (k\<lparr>free_seq := i\<rparr>) = pv k" "pv (k\<lparr>free_seq_end := i\<rparr>) = pv k"
  "content_of (k\<lparr>io_seq := i\<rparr>) = content_of k" "content_of (k\<lparr>io_seq_end := i\<rparr>) = content_of k"
  "content_of (k\<lparr>free_seq := i\<rparr>) = content_of k" "content_of (k\<lparr>free_seq_end := i\<rparr>) = content_of k"
  by (auto simp: nx_def pv_def content_of_def fun_eq_iff)

lemma work_view:
  "w_next (work_queue k i) = nx k i" "w_prev (work_queue k i) = pv k i" "w_nsecs_target (work_queue k i) = due k i"
  by (simp_all add: nx_def pv_def content_of_def)

section \<open>Insertion, proved\<close>

text \<open>The entries that the walk of an insertion passes over.\<close>

definition passed :: "nvmev_io_worker \<Rightarrow> u64 \<Rightarrow> u32 \<Rightarrow> bool" where
  "passed k t i \<longleftrightarrow> latest_nsecs k < due k i \<and> t < due k i"

lemma insert_scan_result:
  assumes "lseg (pv k) e zs (-1)" "\<And>i. i \<in> set zs \<Longrightarrow> i < NR_MAX_PARALLEL_IO"
  shows "insert_scan k t e = Some (case dropWhile (passed k t) zs of [] \<Rightarrow> -1 | c # _ \<Rightarrow> c)"
  using assms
proof (induction zs arbitrary: e)
  case Nil
  then show ?case by (simp add: insert_scan.simps)
next
  case (Cons z zs)
  then have z: "e = z" "z < NR_MAX_PARALLEL_IO" by auto
  then have "z \<noteq> -1" by auto
  show ?case
  proof (cases "passed k t z")
    case True
    then show ?thesis
      using Cons z \<open>z \<noteq> -1\<close> by (subst insert_scan.simps) (auto simp: work_view passed_def [of k t z])
  next
    case False
    then show ?thesis
      using z \<open>z \<noteq> -1\<close> by (subst insert_scan.simps) (auto simp: work_view passed_def [of k t z] not_less)
  qed
qed

lemma head_case: "(case zs of [] \<Rightarrow> a | c # _ \<Rightarrow> c) = (if rev zs = [] then a else last (rev zs))"
  by (cases zs) auto

text \<open>Where a request that is due at \<open>t\<close> is placed.\<close>

definition kept_before :: "nvmev_io_worker \<Rightarrow> u64 \<Rightarrow> u32 list \<Rightarrow> u32 list" where
  "kept_before k t xs = rev (dropWhile (passed k t) (rev xs))"

definition moved_after :: "nvmev_io_worker \<Rightarrow> u64 \<Rightarrow> u32 list \<Rightarrow> u32 list" where
  "moved_after k t xs = rev (takeWhile (passed k t) (rev xs))"

lemma split_at_place: "kept_before k t xs @ moved_after k t xs = xs"
  by (metis kept_before_def moved_after_def rev_append rev_rev_ident takeWhile_dropWhile_id)

lemma in_use_bound: "in_use k xs \<Longrightarrow> i \<in> set xs \<Longrightarrow> i < NR_MAX_PARALLEL_IO \<and> i \<noteq> -1"
  by (auto simp: in_use_def)

lemma in_use_head:
  assumes u: "in_use k (x # xs)" and e: "e < NR_MAX_PARALLEL_IO" "e \<notin> set (x # xs)" "pv k e = -1"
  shows "in_use ((set_next e x (set_prev x e k))\<lparr>io_seq := e\<rparr>) (e # x # xs)"
  using u e by (auto simp: in_use_def lseg_append lseg_snoc)

lemma in_use_last:
  assumes u: "in_use k (as @ [c])" and e: "e < NR_MAX_PARALLEL_IO" "e \<notin> set (as @ [c])" "nx k e = -1"
  shows "in_use (set_next c e ((set_prev e c k)\<lparr>io_seq_end := e\<rparr>)) (as @ [c, e])"
  using u e by (auto simp: in_use_def lseg_append lseg_snoc)

lemma in_use_middle:
  assumes u: "in_use k (as @ c # b # bs)" and e: "e < NR_MAX_PARALLEL_IO" "e \<notin> set (as @ c # b # bs)"
  shows "in_use (set_next c e (set_prev b e (set_next e b (set_prev e c k)))) (as @ c # e # b # bs)"
  using u e by (auto simp: in_use_def lseg_append lseg_snoc)

text \<open>
  An insertion returns, the request comes behind the last entry that is due already or not after
  it, and nothing but links is changed.
\<close>

lemma insert_req_sorted_ok:
  assumes u: "in_use k xs" and e: "e < NR_MAX_PARALLEL_IO" "e \<notin> set xs" "nx k e = -1" "pv k e = -1"
  obtains k' where "insert_req_sorted e k t = Some k'" "in_use k' (kept_before k t xs @ e # moved_after k t xs)"
    "content_of k' = content_of k" "free_seq k' = free_seq k" "free_seq_end k' = free_seq_end k"
    "latest_nsecs k' = latest_nsecs k" "\<And>i. i \<notin> set (e # xs) \<Longrightarrow> nx k' i = nx k i"
proof (cases "xs = []")
  case True
  then show ?thesis using u e
    by (intro that [of "k\<lparr>io_seq := e, io_seq_end := e\<rparr>"])
      (auto simp: insert_req_sorted_def in_use_def kept_before_def moved_after_def)
next
  case False
  define as bs where "as = kept_before k t xs" and "bs = moved_after k t xs"
  have xs: "xs = as @ bs" unfolding as_def bs_def by (rule split_at_place [symmetric])
  have seq: "io_seq k = hd xs" "io_seq k \<noteq> -1" using u False by (cases xs; force simp: in_use_def)+
  have scan: "insert_scan k t (io_seq_end k) = Some (if as = [] then -1 else last as)"
    using u False unfolding as_def kept_before_def in_use_def
    by (subst insert_scan_result [where zs = "rev xs"]) (auto simp only: head_case set_rev)
  note b = in_use_bound [OF u]
  consider (head) "as = []" | (tail) as' c where "as = as' @ [c]" "bs = []" | (middle) as' c b bs' where "as = as' @ [c]" "bs = b # bs'"
    by (metis list.exhaust rev_exhaust)
  then show ?thesis
  proof cases
    case head
    then obtain x xs' where x: "xs = x # xs'" using False by (cases xs) auto
    then have pl: "kept_before k t (io_seq k # xs') = []" "moved_after k t (io_seq k # xs') = io_seq k # xs'"
      using head xs seq unfolding as_def bs_def by auto
    show ?thesis
      using head seq scan b x u e in_use_head [OF u [unfolded x]]
      by (intro that [of "(set_next e x (set_prev x e k))\<lparr>io_seq := e\<rparr>"])
        (auto simp: insert_req_sorted_def pl)
  next
    case tail
    then have u': "in_use k (as' @ [c])" and n: "nx k c = -1" using u xs by (auto simp: in_use_def lseg_snoc)
    have pl: "kept_before k t (as' @ [c]) = as' @ [c]" "moved_after k t (as' @ [c]) = []"
      using tail xs unfolding as_def bs_def by auto
    show ?thesis
      using tail seq scan b u e in_use_last [OF u'] xs n
      by (intro that [of "set_next c e ((set_prev e c k)\<lparr>io_seq_end := e\<rparr>)"])
        (auto simp: insert_req_sorted_def work_view pl)
  next
    case middle
    then have u': "in_use k (as' @ c # b # bs')" and n: "nx k c = b" using u xs by (auto simp: in_use_def lseg_append)
    have pl: "kept_before k t (as' @ c # b # bs') = as' @ [c]" "moved_after k t (as' @ c # b # bs') = b # bs'"
      using middle xs unfolding as_def bs_def by auto
    show ?thesis
      using middle seq scan b u e in_use_middle [OF u'] xs n
      by (intro that [of "set_next c e (set_prev b e (set_next e b (set_prev e c k)))"])
        (auto simp: insert_req_sorted_def work_view pl)
  qed
qed

text \<open>A new request takes the first free entry; the last free entry is never handed out.\<close>

lemma shapeD:
  assumes "queue_shape k xs ys"
  shows "in_use k xs" "lseg (nx k) (free_seq k) ys (-1)" "ys \<noteq> []" "last ys = free_seq_end k" "distinct (xs @ ys)"
    "set xs \<union> set ys = {i. i < NR_MAX_PARALLEL_IO}"
  using assms by (simp_all add: queue_shape_def)

lemma shape_bound: "queue_shape k xs ys \<Longrightarrow> i \<in> set xs \<union> set ys \<Longrightarrow> i < NR_MAX_PARALLEL_IO \<and> i \<noteq> -1"
  by (auto simp: queue_shape_def)

lemma enqueue_on_full:
  assumes "queue_shape k xs [y]"
  shows "enqueue_on fill t k = Some (False, k)"
proof -
  have f: "free_seq k = y" "nx k y = -1" using shapeD(2) [OF assms] by simp_all
  have "y < NR_MAX_PARALLEL_IO" using shape_bound [OF assms, of y] by simp
  then show ?thesis using f by (simp add: enqueue_on_def allocate_entry_def work_view)
qed

text \<open>The worker after an entry has been taken and filled.\<close>

definition filled :: "u32 \<Rightarrow> u32 \<Rightarrow> (nvmev_io_work \<Rightarrow> nvmev_io_work) \<Rightarrow> nvmev_io_worker \<Rightarrow> nvmev_io_worker" where
  "filled y y' fill k =
     k\<lparr>free_seq := y', work_queue := (work_queue k)(y := (fill (work_queue k y))\<lparr>w_prev := -1, w_next := -1\<rparr>)\<rparr>"

lemma filled_view [simp]:
  "nx (filled y y' fill k) = (nx k)(y := -1)" "pv (filled y y' fill k) = (pv k)(y := -1)"
  "content_of (filled y y' fill k) = (content_of k)(y := (fill (work_queue k y))\<lparr>w_next := -1, w_prev := -1\<rparr>)"
  "io_seq (filled y y' fill k) = io_seq k" "io_seq_end (filled y y' fill k) = io_seq_end k"
  "free_seq (filled y y' fill k) = y'" "free_seq_end (filled y y' fill k) = free_seq_end k"
  "latest_nsecs (filled y y' fill k) = latest_nsecs k"
  by (auto simp: filled_def nx_def pv_def content_of_def fun_eq_iff)

lemma place_cong:
  assumes "\<And>i. i \<in> set xs \<Longrightarrow> due k i = due k' i" "latest_nsecs k = latest_nsecs k'"
  shows "kept_before k t xs = kept_before k' t xs" "moved_after k t xs = moved_after k' t xs"
  using assms unfolding kept_before_def moved_after_def passed_def
  by (auto intro!: dropWhile_cong takeWhile_cong)

lemma enqueue_on_ok:
  assumes q: "queue_shape k xs (y # ys)" and ys: "ys \<noteq> []"
  obtains k' where "enqueue_on fill t k = Some (True, k')"
    "queue_shape k' (kept_before k t xs @ y # moved_after k t xs) ys"
    "content_of k' = (content_of k)(y := (fill (work_queue k y))\<lparr>w_next := -1, w_prev := -1\<rparr>)"
    "latest_nsecs k' = latest_nsecs k"
proof -
  let ?k0 = "filled y (hd ys) fill k"
  note bd = shape_bound [OF q]
  have f: "free_seq k = y" "nx k y = hd ys" and y: "y \<notin> set xs" "y \<notin> set ys" "y < NR_MAX_PARALLEL_IO"
    using shapeD(2,5) [OF q] ys bd [of y] by (cases ys; simp)+
  have u: "in_use ?k0 xs" using shapeD(1) [OF q] y by (simp add: in_use_def)
  from y obtain k' where k': "insert_req_sorted y ?k0 t = Some k'"
    "in_use k' (kept_before ?k0 t xs @ y # moved_after ?k0 t xs)" "content_of k' = content_of ?k0"
    "free_seq k' = hd ys" "free_seq_end k' = free_seq_end k" "latest_nsecs k' = latest_nsecs k"
    "\<And>i. i \<notin> set (y # xs) \<Longrightarrow> nx k' i = nx ?k0 i"
    using insert_req_sorted_ok [OF u y(3,1), of t] by auto
  have place: "kept_before ?k0 t xs = kept_before k t xs" "moved_after ?k0 t xs = moved_after k t xs"
    using y by (auto intro!: place_cong)
  have "enqueue_on fill t k = Some (True, k')"
    using f k'(1) y bd [of "hd ys"] ys
    by (simp add: enqueue_on_def allocate_entry_def work_view put_work_def filled_def not_le)
  moreover have "lseg (nx k') (hd ys) ys (-1)"
  proof -
    have "lseg (nx k) (hd ys) ys (-1)" using shapeD(2) [OF q] f by simp
    moreover have "nx k' i = nx k i" if "i \<in> set ys" for i
      using that k'(7) [of i] shapeD(5) [OF q] by auto
    ultimately show ?thesis by (metis lseg_cong)
  qed
  moreover have m: "mset (kept_before k t xs @ y # moved_after k t xs) = mset (y # xs)"
    using split_at_place [of k t xs] by (metis mset_append mset.simps(2) union_mset_add_mset_right)
  then have "set (kept_before k t xs @ y # moved_after k t xs) = insert y (set xs)"
    and "distinct (kept_before k t xs @ y # moved_after k t xs)"
    using mset_eq_setD [OF m] mset_eq_imp_distinct_iff [OF m] y shapeD(5) [OF q] by auto
  ultimately have "queue_shape k' (kept_before k t xs @ y # moved_after k t xs) ys"
    using k' place shapeD(4-6) [OF q] ys unfolding queue_shape_def distinct_append [of "_ @ _ # _" ys] by simp
  then show ?thesis using k' \<open>enqueue_on fill t k = _\<close> by (intro that [of k']) simp_all
qed

section \<open>Reclaiming, proved\<close>

abbreviation reclaims :: "nvmev_io_worker \<Rightarrow> u32 \<Rightarrow> bool" where
  "reclaims k i \<equiv> reclaimable k (content_of k i)"

lemma reclaim_scan_result:
  assumes "lseg (nx k) cur xs (-1)" "\<And>i. i \<in> set xs \<Longrightarrow> i < NR_MAX_PARALLEL_IO"
  shows "reclaim_scan k cur l = Some (if takeWhile (reclaims k) xs = [] then l else last (takeWhile (reclaims k) xs))"
  using assms
proof (induction xs arbitrary: cur l)
  case Nil
  then show ?case by (simp add: reclaim_scan.simps)
next
  case (Cons x xs)
  then have x: "cur = x" "x < NR_MAX_PARALLEL_IO" by auto
  then have "x \<noteq> -1" by auto
  have r: "reclaimable k (work_queue k x) = reclaims k x" by (simp add: reclaimable_def content_of_def)
  show ?case
    using Cons.IH [of "nx k x" x] Cons.prems x \<open>x \<noteq> -1\<close>
    by (subst reclaim_scan.simps) (auto simp: r work_view)
qed

text \<open>The worker after the entries from \<open>f\<close> to \<open>l\<close> have been moved to the end of the free list.\<close>

definition moved :: "u32 \<Rightarrow> u32 \<Rightarrow> nvmev_io_worker \<Rightarrow> nvmev_io_worker" where
  "moved f l k = (set_next (free_seq_end k) f (set_prev f (free_seq_end k) (set_next l (-1) k)))\<lparr>free_seq_end := l\<rparr>"

lemma moved_view [simp]:
  "nx (moved f l k) = (nx k)(l := -1, free_seq_end k := f)" "pv (moved f l k) = (pv k)(f := free_seq_end k)"
  "content_of (moved f l k) = content_of k" "latest_nsecs (moved f l k) = latest_nsecs k"
  "io_seq (moved f l k) = io_seq k" "io_seq_end (moved f l k) = io_seq_end k"
  "free_seq (moved f l k) = free_seq k" "free_seq_end (moved f l k) = l"
  by (simp_all add: moved_def)

lemma moved_shape:
  assumes q: "queue_shape k (f # ps @ rs) ys" and l: "l = last (f # ps)"
    and k0: "nx k0 = nx k" "io_seq k0 = (if rs = [] then -1 else hd rs)" "io_seq_end k0 = io_seq_end k"
      "free_seq k0 = free_seq k" "free_seq_end k0 = free_seq_end k" "pv k0 = (if rs = [] then pv k else (pv k)(hd rs := -1))"
  shows "queue_shape (moved f l k0) rs (ys @ f # ps)"
proof -
  obtain ys' e where ys: "ys = ys' @ [e]" using shapeD(3) [OF q] by (cases ys rule: rev_cases) auto
  have e: "free_seq_end k = e" using shapeD(4) [OF q] ys by simp
  obtain ps' where ps: "f # ps = ps' @ [l]" using l by (metis append_butlast_last_id list.distinct(1))
  then have P: "f # ps @ rs = ps' @ l # rs" by (metis append_Cons append_assoc append_Nil)
  have d: "distinct (ps' @ l # rs @ ys' @ [e])" using shapeD(5) [OF q] unfolding ys P by simp
  have f: "f \<in> set (ps' @ [l])" using ps by (metis list.set_intros(1))
  have s: "lseg (nx k) f ps' l" "lseg (nx k) (nx k l) rs (-1)"
  proof -
    have "lseg (nx k) (io_seq k) (ps' @ l # rs) (-1)" "io_seq k = f"
      using shapeD(1) [OF q] unfolding P [symmetric] by (simp_all add: in_use_def)
    then show "lseg (nx k) f ps' l" "lseg (nx k) (nx k l) rs (-1)" by (simp_all add: lseg_append)
  qed
  have "in_use (moved f l k0) rs"
  proof (cases rs)
    case (Cons r rs')
    have "lseg (pv k) (io_seq_end k) (rev rs' @ r # rev (f # ps)) (-1)"
      using shapeD(1) [OF q] unfolding Cons by (simp add: in_use_def)
    then have "lseg (pv k) (io_seq_end k) (rev rs') r" by (simp add: lseg_append)
    moreover have "\<forall>i\<in>set rs. i < NR_MAX_PARALLEL_IO" using shape_bound [OF q] by auto
    moreover have r: "io_seq k0 = r" "pv k0 = (pv k)(r := -1)" using k0(2,6) Cons by simp_all
    moreover have "f \<noteq> r" "f \<notin> set rs'" using f d unfolding Cons by auto
    moreover have "r \<noteq> l" "l \<notin> set rs'" "r \<noteq> e" "e \<notin> set rs'" "r \<notin> set rs'" "distinct rs'" using d unfolding Cons by auto
    moreover have "lseg (nx k) (nx k r) rs' (-1)" using s(2) unfolding Cons by simp
    ultimately show ?thesis unfolding Cons by (simp add: in_use_def lseg_snoc k0(1,3,5) e)
  qed (simp add: in_use_def k0)
  moreover have "lseg (nx (moved f l k0)) (free_seq k) (ys' @ e # ps' @ [l]) (-1)"
    using shapeD(2) [OF q] s(1) d unfolding ys by (simp add: lseg_append lseg_snoc k0 e)
  moreover have "distinct (rs @ ys @ f # ps)" using shapeD(5) [OF q] by auto
  moreover have "set rs \<union> set (ys @ f # ps) = set (f # ps @ rs) \<union> set ys" by auto
  then have "set rs \<union> set (ys @ f # ps) = {i. i < NR_MAX_PARALLEL_IO}" unfolding shapeD(6) [OF q] .
  moreover have "ys' @ e # ps' @ [l] = ys @ f # ps" "last (ys @ f # ps) = l" using ps ys l by simp_all
  ultimately show ?thesis unfolding queue_shape_def by (simp add: k0(4))
qed

lemma reclaim_worker_ok:
  assumes q: "queue_shape k xs ys"
  obtains k' where "reclaim_worker k = Some k'"
    "queue_shape k' (dropWhile (reclaims k) xs) (ys @ takeWhile (reclaims k) xs)"
    "content_of k' = content_of k" "latest_nsecs k' = latest_nsecs k"
proof (cases "takeWhile (reclaims k) xs = []")
  case True
  then have "dropWhile (reclaims k) xs = xs" by (metis append_Nil takeWhile_dropWhile_id)
  moreover have "reclaim_worker k = Some k"
    using True shapeD(1) [OF q] by (simp add: reclaim_worker_def in_use_def reclaim_scan_result [where xs = xs])
  ultimately show ?thesis using True q by (intro that [of k]) auto
next
  case False
  let ?ps = "takeWhile (reclaims k) xs" and ?rs = "dropWhile (reclaims k) xs"
  obtain f ps where ps: "?ps = f # ps" using False by (cases ?ps) auto
  have xs: "xs = f # ps @ ?rs" using ps by (metis append_Cons takeWhile_dropWhile_id)
  define l where "l = last (f # ps)"
  define k0 where "k0 = (if ?rs = [] then k\<lparr>io_seq := -1\<rparr> else set_prev (hd ?rs) (-1) (k\<lparr>io_seq := hd ?rs\<rparr>))"
  have mem: "l \<in> set xs" "f \<in> set xs" "?rs \<noteq> [] \<Longrightarrow> hd ?rs \<in> set xs" "free_seq_end k \<in> set ys"
  proof -
    have "set xs = set (f # ps) \<union> set ?rs" using xs by (metis append_Cons set_append)
    then show "l \<in> set xs" "f \<in> set xs" "?rs \<noteq> [] \<Longrightarrow> hd ?rs \<in> set xs" unfolding l_def by auto
    show "free_seq_end k \<in> set ys" using shapeD(3,4) [OF q] last_in_set by metis
  qed
  have bd: "l < NR_MAX_PARALLEL_IO" "l \<noteq> -1" "f < NR_MAX_PARALLEL_IO" "free_seq_end k < NR_MAX_PARALLEL_IO"
    "?rs \<noteq> [] \<Longrightarrow> hd ?rs < NR_MAX_PARALLEL_IO \<and> hd ?rs \<noteq> -1"
    using mem shape_bound [OF q] by blast+
  have seg: "lseg (nx k) (io_seq k) xs (-1)" using shapeD(1) [OF q] by (simp add: in_use_def)
  have io: "io_seq k = f" using seg xs by (metis lseg.simps(2))
  have nl: "nx k l = (if ?rs = [] then -1 else hd ?rs)"
  proof -
    have "xs = butlast (f # ps) @ l # ?rs"
      using xs unfolding l_def by (metis append_Cons append_Nil append_assoc append_butlast_last_id list.distinct(1))
    then have "lseg (nx k) (nx k l) ?rs (-1)" using seg by (metis lseg_append lseg.simps(2))
    then show ?thesis by (cases ?rs) auto
  qed
  have scan: "reclaim_scan k f (-1) = Some l"
    using seg [unfolded io] ps shape_bound [OF q] by (simp add: reclaim_scan_result [where xs = xs] l_def)
  have "reclaim_worker k = Some (moved f l k0)"
    using scan io nl bd by (auto simp: reclaim_worker_def Let_def work_view k0_def moved_def)
  moreover have "queue_shape (moved f l k0) ?rs (ys @ ?ps)"
    unfolding ps using q by (intro moved_shape [of k]) (auto simp: l_def k0_def xs [symmetric])
  ultimately show ?thesis by (rule that) (simp_all add: k0_def)
qed

section \<open>The initial worker\<close>

lemma unat_entry: "n < 16384 \<Longrightarrow> unat (of_nat n :: u32) = n"
  by (simp add: unsigned_of_nat take_bit_eq_mod)

lemma entry_neq: "j < n \<Longrightarrow> n < 16384 \<Longrightarrow> (of_nat j :: u32) \<noteq> of_nat n"
  by (metis less_irrefl less_trans unat_entry)

lemma lseg_upto:
  "a \<le> b \<Longrightarrow> (\<And>j. a \<le> j \<Longrightarrow> j < b \<Longrightarrow> f (of_nat j) = of_nat (Suc j)) \<Longrightarrow> lseg f (of_nat a) (map of_nat [a..<b]) (of_nat b)"
proof (induction b)
  case (Suc b)
  then show ?case by (cases "a = Suc b") (auto simp: lseg_snoc)
qed simp

lemma entries_inj: "inj_on (of_nat :: nat \<Rightarrow> u32) {0..<16384}"
  by (rule inj_onI) (metis atLeastLessThan_iff unat_entry)

lemma entries_set: "of_nat ` {0..<16384} = {i :: u32. i < NR_MAX_PARALLEL_IO}"
proof -
  have "i \<in> of_nat ` {0..<16384}" if "i < 16384" for i :: u32
    using that by (intro image_eqI [of _ _ "unat i"]) (auto simp: word_less_nat_alt)
  moreover have "(of_nat n :: u32) < 16384" if "n < 16384" for n
    using that by (simp add: word_less_nat_alt unat_entry)
  ultimately show ?thesis by (auto simp: NR_MAX_PARALLEL_IO_def)
qed

lemma entries_split: "[0..<16384] = [0..<16383] @ [16383]" "[0..<16383] = [0..<16382] @ [16382]"
proof -
  have e: "16384 = Suc 16383" "16383 = Suc 16382" by simp_all
  show "[0..<16384] = [0..<16383] @ [16383]" unfolding e(1) by (rule upt_Suc_append) simp
  show "[0..<16383] = [0..<16382] @ [16382]" unfolding e(2) by (rule upt_Suc_append) simp
qed

lemma init_shape: "queue_shape io_worker_init [] (map of_nat [0..<16384])"
proof -
  have "nx io_worker_init (of_nat j) = of_nat (Suc j)" if "j < 16383" for j
    using entry_neq [OF that] by (simp add: nx_def io_worker_init_def NR_MAX_PARALLEL_IO_def add.commute)
  then have "lseg (nx io_worker_init) 0 (map of_nat [0..<16383]) 16383"
    using lseg_upto [of 0 16383 "nx io_worker_init"] by simp
  moreover have "nx io_worker_init 16383 = -1" by (simp add: nx_def io_worker_init_def NR_MAX_PARALLEL_IO_def)
  ultimately have "lseg (nx io_worker_init) 0 (map of_nat [0..<16384]) (-1)" "last (map of_nat [0..<16384]) = (16383 :: u32)"
    unfolding entries_split(1) by (simp_all add: lseg_snoc)
  then show ?thesis
    using entries_inj entries_set
    by (simp add: queue_shape_def in_use_def io_worker_init_def NR_MAX_PARALLEL_IO_def distinct_map)
qed

section \<open>Order\<close>

text \<open>
  A request whose time has passed counts as due now.  The list is ordered by the time at which its
  requests are due in this sense, and requests that are due at the same time keep their order.
\<close>

definition rank :: "nvmev_io_worker \<Rightarrow> u32 \<Rightarrow> u64" where
  "rank k i = max (due k i) (latest_nsecs k)"

abbreviation ordered :: "nvmev_io_worker \<Rightarrow> u32 list \<Rightarrow> bool" where
  "ordered k xs \<equiv> sorted (map (rank k) xs)"

lemma passed_rank: "passed k t i \<longleftrightarrow> max t (latest_nsecs k) < rank k i"
  by (auto simp: passed_def rank_def less_max_iff_disj)

lemma sorted_cut:
  fixes f :: "'a \<Rightarrow> 'b::linorder"
  assumes "sorted (map f xs)"
  shows "rev (dropWhile (\<lambda>i. c < f i) (rev xs)) = filter (\<lambda>i. f i \<le> c) xs"
    and "rev (takeWhile (\<lambda>i. c < f i) (rev xs)) = filter (\<lambda>i. c < f i) xs"
  using assms
proof (induction xs rule: rev_induct)
  case (snoc x xs)
  { case 1 then show ?case using snoc by (auto simp: sorted_append not_less intro!: filter_True [symmetric]) }
  { case 2 then show ?case using snoc by (auto simp: sorted_append not_less intro!: filter_False [symmetric]) }
qed simp_all

lemma place_ordered:
  assumes "ordered k xs"
  shows "kept_before k t xs = filter (\<lambda>i. rank k i \<le> max t (latest_nsecs k)) xs"
    and "moved_after k t xs = filter (\<lambda>i. max t (latest_nsecs k) < rank k i) xs"
  unfolding kept_before_def moved_after_def passed_rank [abs_def] by (rule sorted_cut [OF assms])+

end
