(* ===== verification/Io_Device.thy ===== *)
theory Io_Device
  imports Io_Queue Kv_Ftl
begin

text \<open>
  The input and output path of the virtual device in its key-value build (\<open>lib/nvmevirt/io.c\<close> with
  \<open>BASE_SSD = KV_PROTOTYPE\<close>): the dispatcher takes commands from the submission queues and enqueues
  them at the worker of their queue, the workers perform them and post completions.  The clock, the
  search of the kernel's bitmaps and the success of \<open>kmalloc\<close> are arguments.
\<close>

section \<open>Queues\<close>

text \<open>
  An entry of a submission queue: the fields that the block commands have beside those of the
  key-value commands.
\<close>

record nvme_command = nvme_kv_command +
  sc_command_id :: u16
  sc_slba :: u64
  sc_length :: u16

record nvmev_sq_stat =
  nr_dispatched :: u32
  nr_dispatch :: u32
  nr_in_flight :: u32
  max_nr_in_flight :: u32
  total_io :: u64

record nvmev_submission_queue =
  sq_cqid :: int
  sq_queue_size :: int
  sq_stat :: nvmev_sq_stat
  sq_entries :: "int \<Rightarrow> nvme_command"

record nvme_completion =
  cqe_result0 :: u32
  cqe_result1 :: u32
  cqe_sq_head :: u16
  cqe_sq_id :: u16
  cqe_command_id :: u16
  cqe_status :: u16

record nvmev_completion_queue =
  cq_irq_vector :: int
  cq_irq_enabled :: bool
  cq_interrupt_ready :: bool
  cq_queue_size :: int
  cq_phase :: bool
  cq_head :: int
  cq_tail :: int
  cq_entries :: "int \<Rightarrow> nvme_completion"

record nvmev_dev =
  io_workers :: "nvmev_io_worker list"
  io_worker_turn :: nat
  sqes :: "int \<Rightarrow> nvmev_submission_queue option"
  cqes :: "int \<Rightarrow> nvmev_completion_queue option"
  io_unit_stat :: "u64 list"
  ns_ftl :: kv_ftl

definition NVMEV_IO_WORKER_INIT :: "nat \<Rightarrow> nvmev_dev \<Rightarrow> nvmev_dev" where
  "NVMEV_IO_WORKER_INIT nr_io_workers d = d\<lparr>io_workers := replicate nr_io_workers io_worker_init, io_worker_turn := 0\<rparr>"

text \<open>The worker that serves a submission queue.\<close>

definition get_io_worker :: "int \<Rightarrow> nvmev_dev \<Rightarrow> nat option" where
  "get_io_worker sqid d =
     (if io_workers d = [] then None else Some (nat ((sqid - 1) mod 2 ^ 32) mod length (io_workers d)))"

section \<open>Enqueueing\<close>

definition io_req_fill :: "int \<Rightarrow> int \<Rightarrow> int \<Rightarrow> u32 \<Rightarrow> u64 \<Rightarrow> u64 \<Rightarrow> u64 \<Rightarrow> u32 \<Rightarrow> nvmev_io_work \<Rightarrow> nvmev_io_work" where
  "io_req_fill sqid cqid sq_entry cid start now target status w =
     w\<lparr>w_sqid := sqid, w_cqid := cqid, w_sq_entry := sq_entry, w_command_id := cid, w_nsecs_start := start,
       w_nsecs_enqueue := now, w_nsecs_target := target, w_status := status, w_is_completed := False,
       w_is_copied := False, w_is_internal := False\<rparr>"

definition internal_fill :: "int \<Rightarrow> u64 \<Rightarrow> u64 \<Rightarrow> addr \<Rightarrow> size_t \<Rightarrow> nvmev_io_work \<Rightarrow> nvmev_io_work" where
  "internal_fill sqid now target buffer bytes w =
     w\<lparr>w_sqid := sqid, w_nsecs_start := now, w_nsecs_enqueue := now, w_nsecs_target := target,
       w_is_completed := False, w_is_copied := True, w_is_internal := True, w_write_buffer := buffer,
       w_buffs_to_release := bytes\<rparr>"

text \<open>The turn that \<open>__allocate_work_queue_entry\<close> records when it hands out an entry.\<close>

definition enqueue_at :: "int \<Rightarrow> (nvmev_io_work \<Rightarrow> nvmev_io_work) \<Rightarrow> u64 \<Rightarrow> nvmev_dev \<Rightarrow> nvmev_dev option" where
  "enqueue_at sqid fill target d =
     do { n \<leftarrow> get_io_worker sqid d;
          (allocated, k) \<leftarrow> enqueue_on fill target (io_workers d ! n);
          Some (if allocated
                then d\<lparr>io_workers := (io_workers d)[n := k],
                       io_worker_turn := if n + 1 = length (io_workers d) then 0 else n + 1\<rparr>
                else d) }"

definition enqueue_io_req :: "int \<Rightarrow> int \<Rightarrow> int \<Rightarrow> u64 \<Rightarrow> u64 \<Rightarrow> u64 \<Rightarrow> u32 \<Rightarrow> nvmev_dev \<Rightarrow> nvmev_dev option" where
  "enqueue_io_req sqid cqid sq_entry start now target status d =
     do { sq \<leftarrow> sqes d sqid;
          enqueue_at sqid (io_req_fill sqid cqid sq_entry (ucast (sc_command_id (sq_entries sq sq_entry))) start now target status)
            target d }"

definition schedule_internal_operation :: "int \<Rightarrow> u64 \<Rightarrow> u64 \<Rightarrow> addr \<Rightarrow> size_t \<Rightarrow> nvmev_dev \<Rightarrow> nvmev_dev option" where
  "schedule_internal_operation sqid now target buffer bytes d =
     enqueue_at sqid (internal_fill sqid now target buffer bytes) target d"

fun reclaim_loop :: "nvmev_io_worker list \<Rightarrow> nvmev_io_worker list option" where
  "reclaim_loop [] = Some []"
| "reclaim_loop (k # ks) = do { k' \<leftarrow> reclaim_worker k; ks' \<leftarrow> reclaim_loop ks; Some (k' # ks') }"

definition reclaim_completed_reqs :: "nvmev_dev \<Rightarrow> nvmev_dev option" where
  "reclaim_completed_reqs d = map_option (\<lambda>ks. d\<lparr>io_workers := ks\<rparr>) (reclaim_loop (io_workers d))"

section \<open>The dispatcher\<close>

text \<open>
  One command: \<open>now\<close> is the wall clock, \<open>enq\<close> the local clock at the time of the enqueueing.  The
  answer is the number of bytes of the command and the new state; the handler of the key-value
  build never refuses a command.
\<close>

definition nvmev_proc_io :: "io_unit_config \<Rightarrow> u64 \<Rightarrow> u64 \<Rightarrow> int \<Rightarrow> int \<Rightarrow> nvmev_dev \<Rightarrow> (u32 \<times> nvmev_dev) option" where
  "nvmev_proc_io cfg now enq sqid sq_entry d =
     do { sq \<leftarrow> sqes d sqid;
          let c = sq_entries sq sq_entry in
          do { (target, stats) \<leftarrow>
                 kv_proc_nvme_io_cmd cfg (kc_opcode c) (sc_slba c) (sc_length c)
                   (cmd_value_length (nvme_kv_command.truncate c)) now now (io_unit_stat d);
               d \<leftarrow> enqueue_io_req sqid (sq_cqid sq) sq_entry now enq target 0 (d\<lparr>io_unit_stat := stats\<rparr>);
               d \<leftarrow> reclaim_completed_reqs d;
               Some (cmd_io_size (sc_length c), d) } }"

definition count_dispatch :: "u32 \<Rightarrow> nvmev_submission_queue \<Rightarrow> nvmev_submission_queue" where
  "count_dispatch io_size sq =
     (let st = sq_stat sq in
      sq\<lparr>sq_stat := st\<lparr>nr_dispatched := nr_dispatched st + 1, nr_in_flight := nr_in_flight st + 1,
                      total_io := total_io st + ucast io_size\<rparr>\<rparr>)"

text \<open>The loop over the new entries; \<open>clk\<close> gives the two clocks of each round.\<close>

fun proc_sq_loop :: "io_unit_config \<Rightarrow> (nat \<Rightarrow> u64 \<times> u64) \<Rightarrow> int \<Rightarrow> int \<Rightarrow> nat \<Rightarrow> nat \<Rightarrow> int \<Rightarrow> nvmev_dev \<Rightarrow> nvmev_dev option" where
  "proc_sq_loop cfg clk sqid sz 0 seq sq_entry d = Some d"
| "proc_sq_loop cfg clk sqid sz (Suc n) seq sq_entry d =
     do { (io_size, d) \<leftarrow> nvmev_proc_io cfg (fst (clk seq)) (snd (clk seq)) sqid sq_entry d;
          proc_sq_loop cfg clk sqid sz n (Suc seq) (if sq_entry + 1 = sz then 0 else sq_entry + 1)
            (d\<lparr>sqes := (sqes d)(sqid := map_option (count_dispatch io_size) (sqes d sqid))\<rparr>) }"

definition nvmev_proc_io_sq :: "io_unit_config \<Rightarrow> (nat \<Rightarrow> u64 \<times> u64) \<Rightarrow> int \<Rightarrow> int \<Rightarrow> int \<Rightarrow> nvmev_dev \<Rightarrow> (int \<times> nvmev_dev) option" where
  "nvmev_proc_io_sq cfg clk sqid new_db old_db d =
     (case sqes d sqid of
        None \<Rightarrow> Some (old_db, d)
      | Some sq \<Rightarrow>
          let num_proc = (if new_db - old_db < 0 then new_db - old_db + sq_queue_size sq else new_db - old_db) in
          do { d \<leftarrow> proc_sq_loop cfg clk sqid (sq_queue_size sq) (nat num_proc) 0 old_db d;
               let finish = (\<lambda>s. let st = sq_stat s in
                     s\<lparr>sq_stat := st\<lparr>nr_dispatch := nr_dispatch st + 1,
                          max_nr_in_flight := if sint (max_nr_in_flight st) < sint (nr_in_flight st)
                            then nr_in_flight st else max_nr_in_flight st\<rparr>\<rparr>)
               in Some ((old_db + max num_proc 0) mod sq_queue_size sq,
                        d\<lparr>sqes := (sqes d)(sqid := map_option finish (sqes d sqid))\<rparr>) })"

text \<open>
  The host has consumed the completions from \<open>old_db\<close> up to \<open>new_db\<close>.  At the end of the ring the
  loop starts over; an entry beyond the ring is read before that but not used.
\<close>

definition uncount_flight :: "nvmev_submission_queue \<Rightarrow> nvmev_submission_queue" where
  "uncount_flight sq = sq\<lparr>sq_stat := (sq_stat sq)\<lparr>nr_in_flight := nr_in_flight (sq_stat sq) - 1\<rparr>\<rparr>"

partial_function (option) proc_cq_loop ::
  "nvmev_completion_queue \<Rightarrow> int \<Rightarrow> int \<Rightarrow> (int \<Rightarrow> nvmev_submission_queue option) \<Rightarrow> (int \<Rightarrow> nvmev_submission_queue option) option" where
  "proc_cq_loop cq new_db i s =
     (if i = new_db then Some s
      else if i \<ge> cq_queue_size cq then proc_cq_loop cq new_db 0 s
      else let sqid = uint (cqe_sq_id (cq_entries cq i)) in
           proc_cq_loop cq new_db (i + 1) (s(sqid := map_option uncount_flight (s sqid))))"

definition nvmev_proc_io_cq :: "int \<Rightarrow> int \<Rightarrow> int \<Rightarrow> nvmev_dev \<Rightarrow> nvmev_dev option" where
  "nvmev_proc_io_cq cqid new_db old_db d =
     do { cq \<leftarrow> cqes d cqid;
          s \<leftarrow> proc_cq_loop cq new_db old_db (sqes d);
          Some (d\<lparr>sqes := s,
                  cqes := (cqes d)(cqid \<mapsto> cq\<lparr>cq_tail := if new_db = -1 then cq_queue_size cq - 1 else new_db - 1\<rparr>)\<rparr>) }"

section \<open>The workers\<close>

text \<open>A completion goes to the next place of the ring; the phase bit flips when the ring starts over.\<close>

definition cqe_of :: "nvmev_io_work \<Rightarrow> bool \<Rightarrow> nvme_completion" where
  "cqe_of w phase =
     \<lparr>cqe_result0 = w_result0 w, cqe_result1 = w_result1 w, cqe_sq_head = word_of_int (w_sq_entry w),
      cqe_sq_id = word_of_int (w_sqid w), cqe_command_id = ucast (w_command_id w),
      cqe_status = ucast (of_bool phase OR push_bit 1 (w_status w))\<rparr>"

definition fill_cq_result :: "nvmev_io_work \<Rightarrow> nvmev_completion_queue \<Rightarrow> nvmev_completion_queue" where
  "fill_cq_result w cq =
     (let wraps = (cq_head cq + 1 = cq_queue_size cq) in
      cq\<lparr>cq_entries := (cq_entries cq)(cq_head cq := cqe_of w (cq_phase cq)),
         cq_head := if wraps then 0 else cq_head cq + 1,
         cq_phase := if wraps then \<not> cq_phase cq else cq_phase cq, cq_interrupt_ready := True\<rparr>)"

text \<open>
  The transfer of a block command between the pages of the host and the storage.  For any other
  command the pages are mapped and nothing is copied.
\<close>

definition do_perform_io :: "nvme_command \<Rightarrow> kv_ftl \<Rightarrow> kv_ftl option" where
  "do_perform_io c f =
     (let offset = unat (push_bit KV_LBA_BITS (sc_slba c)); len = unat (cmd_io_size (sc_length c));
          kc = nvme_kv_command.truncate c in
      if kc_opcode c = 1 \<or> kc_opcode c = 0x7d
      then do { bs \<leftarrow> prp_gather (host_memory f) kc 0 len None;
                st \<leftarrow> put_storage offset bs (storage_mapped f);
                Some (f\<lparr>storage_mapped := st\<rparr>) }
      else if kc_opcode c = 2
      then do { bs \<leftarrow> get_storage offset len (storage_mapped f);
                h \<leftarrow> prp_scatter kc 0 None bs (host_memory f);
                Some (f\<lparr>host_memory := h\<rparr>) }
      else Some f)"

definition perform_work :: "zero_area \<Rightarrow> bool \<Rightarrow> nvmev_dev \<Rightarrow> nvmev_io_work \<Rightarrow> (nvmev_io_work \<times> kv_ftl) option" where
  "perform_work z kmalloc_ok d w =
     do { sq \<leftarrow> sqes d (w_sqid w);
          let c = sq_entries sq (w_sq_entry w); kc = nvme_kv_command.truncate c in
          if kv_identify_nvme_io_cmd kc
          then do { (result0, status, f) \<leftarrow> kv_perform_nvme_io_cmd z kmalloc_ok kc (w_status w) (ns_ftl d);
                    Some (w\<lparr>w_result0 := result0, w_status := status\<rparr>, f) }
          else do { f \<leftarrow> do_perform_io c (ns_ftl d); Some (w, f) } }"

text \<open>
  The two parts of a visit: the operation is performed unless it has been, and once its time has
  come the entry is completed.  In this build the completion of an internal operation has no
  further effect.
\<close>

definition copy_phase :: "zero_area \<Rightarrow> bool \<Rightarrow> nvmev_io_work \<Rightarrow> nvmev_dev \<Rightarrow> (nvmev_io_work \<times> nvmev_dev) option" where
  "copy_phase z kmalloc_ok w d =
     (if w_is_copied w then Some (w, d)
      else do { (w, f) \<leftarrow> (if w_is_internal w then Some (w, ns_ftl d) else perform_work z kmalloc_ok d w);
                Some (w\<lparr>w_is_copied := True\<rparr>, d\<lparr>ns_ftl := f\<rparr>) })"

definition complete_phase :: "u64 \<Rightarrow> nvmev_io_work \<Rightarrow> nvmev_dev \<Rightarrow> (nvmev_io_work \<times> nvmev_dev) option" where
  "complete_phase now w d =
     (if w_nsecs_target w \<le> now
      then if w_is_internal w then Some (w\<lparr>w_is_completed := True\<rparr>, d)
           else do { cq \<leftarrow> cqes d (w_cqid w);
                     Some (w\<lparr>w_is_completed := True\<rparr>, d\<lparr>cqes := (cqes d)(w_cqid w \<mapsto> fill_cq_result w cq)\<rparr>) }
      else Some (w, d))"

text \<open>
  One round of the inner loop of \<open>nvmev_io_worker\<close> of worker \<open>n\<close> at the entry \<open>cur\<close>; the answer is
  the next entry.
\<close>

definition worker_visit :: "zero_area \<Rightarrow> bool \<Rightarrow> nat \<Rightarrow> u64 \<Rightarrow> u32 \<Rightarrow> nvmev_dev \<Rightarrow> (u32 \<times> nvmev_dev) option" where
  "worker_visit z kmalloc_ok n now cur d =
     (let k = (io_workers d ! n)\<lparr>latest_nsecs := now\<rparr> in
      do { w \<leftarrow> work_at k cur;
           if w_is_completed w then Some (w_next w, d\<lparr>io_workers := (io_workers d)[n := k]\<rparr>)
           else do { (w, d) \<leftarrow> copy_phase z kmalloc_ok w d;
                     (w, d) \<leftarrow> complete_phase now w d;
                     k \<leftarrow> put_work cur (\<lambda>_. w) k;
                     Some (w_next w, d\<lparr>io_workers := (io_workers d)[n := k]\<rparr>) } })"

text \<open>A pass over the list; \<open>clk\<close> gives the clock of each round.\<close>

partial_function (option) worker_pass_loop :: "zero_area \<Rightarrow> bool \<Rightarrow> nat \<Rightarrow> (nat \<Rightarrow> u64) \<Rightarrow> nat \<Rightarrow> u32 \<Rightarrow> nvmev_dev \<Rightarrow> nvmev_dev option" where
  "worker_pass_loop z kmalloc_ok n clk i cur d =
     (if cur = -1 then Some d
      else do { (cur, d) \<leftarrow> worker_visit z kmalloc_ok n (clk i) cur d;
                worker_pass_loop z kmalloc_ok n clk (Suc i) cur d })"

text \<open>The completion queues that the worker signals after a pass, and the vectors it raises.\<close>

fun signal_loop :: "nat \<Rightarrow> int list \<Rightarrow> nvmev_dev \<Rightarrow> int list \<times> nvmev_dev" where
  "signal_loop n [] d = ([], d)"
| "signal_loop n (q # qs) d =
     (case cqes d q of
        Some cq \<Rightarrow>
          if get_io_worker q d = Some n \<and> cq_irq_enabled cq \<and> cq_interrupt_ready cq
          then let (irqs, d') = signal_loop n qs (d\<lparr>cqes := (cqes d)(q \<mapsto> cq\<lparr>cq_interrupt_ready := False\<rparr>)\<rparr>)
               in (cq_irq_vector cq # irqs, d')
          else signal_loop n qs d
      | None \<Rightarrow> signal_loop n qs d)"

definition nvmev_io_worker_round ::
  "zero_area \<Rightarrow> bool \<Rightarrow> nat \<Rightarrow> nat \<Rightarrow> (nat \<Rightarrow> u64) \<Rightarrow> nvmev_dev \<Rightarrow> (int list \<times> nvmev_dev) option" where
  "nvmev_io_worker_round z kmalloc_ok n nr_cq clk d =
     map_option (signal_loop n (map int [1..<Suc nr_cq])) (worker_pass_loop z kmalloc_ok n clk 0 (io_seq (io_workers d ! n)) d)"

end
