(* ===== verification/Io_Worker.thy ===== *)
theory Io_Worker
  imports Io_Device
begin

text \<open>
  The dispatcher and a worker at the same queue.  The dispatcher inserts requests and reclaims
  entries while the worker walks along the list, one entry at a time; a step is an insertion, a
  reclamation or a visit of the worker at one entry, and the steps of the two interleave freely.
  The worker may be at an entry that the dispatcher has reclaimed since, and may even walk on along
  the free list; it finds only completed entries there.
\<close>

section \<open>Steps\<close>

text \<open>What a visit makes of an entry; \<open>ans\<close> is what the operation answers when it is performed.\<close>

definition serve :: "u64 \<Rightarrow> u32 \<times> u32 \<Rightarrow> nvmev_io_work \<Rightarrow> nvmev_io_work" where
  "serve now ans w =
     (if w_is_completed w then w
      else let w' = (if w_is_copied w then w
                     else if w_is_internal w then w\<lparr>w_is_copied := True\<rparr>
                     else w\<lparr>w_result0 := fst ans, w_status := snd ans, w_is_copied := True\<rparr>)
           in if w_nsecs_target w \<le> now then w'\<lparr>w_is_completed := True\<rparr> else w')"

record io_request =
  rq_sqid :: int
  rq_cqid :: int
  rq_sq_entry :: int
  rq_command_id :: u32
  rq_target :: u64

definition request_of :: "nvmev_io_work \<Rightarrow> io_request" where
  "request_of w = \<lparr>rq_sqid = w_sqid w, rq_cqid = w_cqid w, rq_sq_entry = w_sq_entry w,
     rq_command_id = w_command_id w, rq_target = w_nsecs_target w\<rparr>"

datatype io_event =
    Accept io_request
  | Refuse io_request
  | Internal
  | Reclaim
  | Start
  | Visit u64 nvmev_io_work

definition request_fill :: "io_request \<Rightarrow> u64 \<Rightarrow> u64 \<Rightarrow> u32 \<Rightarrow> nvmev_io_work \<Rightarrow> nvmev_io_work" where
  "request_fill r start now status =
     io_req_fill (rq_sqid r) (rq_cqid r) (rq_sq_entry r) (rq_command_id r) start now (rq_target r) status"

text \<open>The state is the worker and the entry that its walk is at.\<close>

inductive io_step :: "nvmev_io_worker \<times> u32 \<Rightarrow> io_event \<Rightarrow> nvmev_io_worker \<times> u32 \<Rightarrow> bool" where
  accept: "enqueue_on (request_fill r start now status) (rq_target r) k = Some (True, k') \<Longrightarrow>
     io_step (k, cur) (Accept r) (k', cur)"
| refuse: "enqueue_on (request_fill r start now status) (rq_target r) k = Some (False, k') \<Longrightarrow>
     io_step (k, cur) (Refuse r) (k', cur)"
| internal: "enqueue_on (internal_fill sqid now t buffer bytes) t k = Some (b, k') \<Longrightarrow>
     io_step (k, cur) Internal (k', cur)"
| reclaim: "reclaim_worker k = Some k' \<Longrightarrow> io_step (k, cur) Reclaim (k', cur)"
| start: "io_step (k, -1) Start (k, io_seq k)"
| visit: "cur \<noteq> -1 \<Longrightarrow> work_at k cur = Some w \<Longrightarrow> latest_nsecs k \<le> now \<Longrightarrow>
     put_work cur (serve now ans) (k\<lparr>latest_nsecs := now\<rparr>) = Some k' \<Longrightarrow>
     io_step (k, cur) (Visit now w) (k', w_next w)"

inductive_cases io_stepE: "io_step s e s'"

inductive io_run :: "nvmev_io_worker \<times> u32 \<Rightarrow> io_event list \<Rightarrow> nvmev_io_worker \<times> u32 \<Rightarrow> bool" where
  run_nil: "io_run s [] s"
| run_snoc: "io_run s es s' \<Longrightarrow> io_step s' e s'' \<Longrightarrow> io_run s (es @ [e]) s''"

text \<open>The requests that an event sequence accepts, performs and completes.\<close>

fun accepted :: "io_event \<Rightarrow> io_request list" where
  "accepted (Accept r) = [r]"
| "accepted _ = []"

fun performed :: "io_event \<Rightarrow> io_request list" where
  "performed (Visit now w) = (if w_is_completed w \<or> w_is_copied w \<or> w_is_internal w then [] else [request_of w])"
| "performed _ = []"

fun finished :: "io_event \<Rightarrow> io_request list" where
  "finished (Visit now w) = (if w_is_completed w \<or> w_is_internal w \<or> now < w_nsecs_target w then [] else [request_of w])"
| "finished _ = []"

section \<open>The invariant\<close>

definition io_inv :: "nvmev_io_worker \<Rightarrow> u32 \<Rightarrow> u32 list \<Rightarrow> u32 list \<Rightarrow> u32 list \<Rightarrow> bool" where
  "io_inv k cur xs us cs \<longleftrightarrow>
     queue_shape k xs (us @ cs) \<and> ordered k xs \<and> (\<forall>i\<in>set cs. w_is_completed (content_of k i)) \<and>
     (cur = -1 \<or> cur \<in> set xs \<or> cur \<in> set cs)"

text \<open>The requests of the list that are not completed, and those that are not even performed.\<close>

definition unfinished :: "nvmev_io_worker \<Rightarrow> u32 list \<Rightarrow> io_request list" where
  "unfinished k xs = map request_of (filter (\<lambda>w. \<not> w_is_completed w \<and> \<not> w_is_internal w) (map (content_of k) xs))"

definition untouched :: "nvmev_io_worker \<Rightarrow> u32 list \<Rightarrow> io_request list" where
  "untouched k xs =
     map request_of (filter (\<lambda>w. \<not> w_is_completed w \<and> \<not> w_is_internal w \<and> \<not> w_is_copied w) (map (content_of k) xs))"

lemma rank_cong: "due k i = due k' i \<Longrightarrow> latest_nsecs k = latest_nsecs k' \<Longrightarrow> rank k i = rank k' i"
  by (simp add: rank_def)

lemma insertion_ordered:
  assumes o: "ordered k xs" and y: "y \<notin> set xs"
    and k': "\<And>i. i \<in> set xs \<Longrightarrow> due k' i = due k i" "due k' y = t" "latest_nsecs k' = latest_nsecs k"
  shows "ordered k' (kept_before k t xs @ y # moved_after k t xs)"
proof -
  have r: "rank k' i = rank k i" if "i \<in> set xs" for i using that k' by (simp add: rank_def)
  have ry: "rank k' y = max t (latest_nsecs k)" using k' by (simp add: rank_def)
  have "map (rank k') (filter P xs) = map (rank k) (filter P xs)" for P using r by auto
  then have s: "ordered k' (filter P xs)" for P using sorted_filter [OF o, of P] by metis
  have "rank k' i \<le> rank k' y" if "i \<in> set (kept_before k t xs)" for i
    using that r ry by (auto simp: place_ordered [OF o])
  moreover have "rank k' y \<le> rank k' i" if "i \<in> set (moved_after k t xs)" for i
    using that r ry by (auto simp: place_ordered [OF o])
  ultimately show ?thesis
    using s unfolding place_ordered [OF o] by (auto simp: sorted_append intro: order_trans)
qed

text \<open>An insertion at a worker that has a free entry to give.\<close>

lemma insertion:
  assumes v: "io_inv k cur xs us cs" and e: "enqueue_on fill t k = Some (True, k')"
    and f: "\<And>w. w_nsecs_target (fill w) = t" "\<And>w. \<not> w_is_completed (fill w)"
  obtains y us' cs' where "io_inv k' cur (kept_before k t xs @ y # moved_after k t xs) us' cs'"
    "y \<notin> set xs" "content_of k' = (content_of k)(y := (fill (work_queue k y))\<lparr>w_next := -1, w_prev := -1\<rparr>)"
proof -
  have q: "queue_shape k xs (us @ cs)" using v by (simp add: io_inv_def)
  obtain y ys where ys: "us @ cs = y # ys" using shapeD(3) [OF q] by (cases "us @ cs") auto
  have "ys \<noteq> []" using enqueue_on_full q e ys by force
  then obtain k1 where k1: "enqueue_on fill t k = Some (True, k1)"
    "queue_shape k1 (kept_before k t xs @ y # moved_after k t xs) ys"
    "content_of k1 = (content_of k)(y := (fill (work_queue k y))\<lparr>w_next := -1, w_prev := -1\<rparr>)"
    "latest_nsecs k1 = latest_nsecs k"
    using enqueue_on_ok [OF q [unfolded ys]] by metis
  then have [simp]: "k1 = k'" using e by simp
  have y: "y \<notin> set xs" "y \<notin> set ys" using shapeD(5) [OF q] ys by auto
  obtain us' cs' where us: "ys = us' @ cs'" "set cs \<subseteq> insert y (set cs')" "set cs' \<subseteq> set cs"
  proof (cases us)
    case Nil
    then show ?thesis using ys by (intro that [of "[]" ys]) auto
  next
    case (Cons u us')
    then show ?thesis using ys by (intro that [of us' cs]) auto
  qed
  have "ordered k' (kept_before k t xs @ y # moved_after k t xs)"
    using v k1 f y by (intro insertion_ordered) (auto simp: io_inv_def)
  moreover have "set (kept_before k t xs @ y # moved_after k t xs) = insert y (set xs)"
    using split_at_place [of k t xs] by (metis Un_insert_right list.simps(15) set_append)
  ultimately have "io_inv k' cur (kept_before k t xs @ y # moved_after k t xs) us' cs'"
    using v k1 us y f by (auto simp: io_inv_def)
  then show ?thesis using that y k1 by simp
qed


lemma unfinished_insertion:
  assumes "y \<notin> set xs" "content_of k' = (content_of k)(y := w)"
  shows "mset (unfinished k' (kept_before k t xs @ y # moved_after k t xs)) =
      mset (unfinished k xs) + mset (if w_is_completed w \<or> w_is_internal w then [] else [request_of w])"
    and "mset (untouched k' (kept_before k t xs @ y # moved_after k t xs)) =
      mset (untouched k xs) + mset (if w_is_completed w \<or> w_is_internal w \<or> w_is_copied w then [] else [request_of w])"
proof -
  have m: "map (content_of k') zs = map (content_of k) zs" if "set zs \<subseteq> set xs" for zs
    using assms that by auto
  have z: "set (kept_before k t xs) \<subseteq> set xs" "set (moved_after k t xs) \<subseteq> set xs"
    using split_at_place [of k t xs] by (metis sup.cobounded1 set_append, metis sup.cobounded2 set_append)
  have x: "map (content_of k) xs = map (content_of k) (kept_before k t xs) @ map (content_of k) (moved_after k t xs)"
    by (metis map_append split_at_place)
  have c: "content_of k' y = w" using assms(2) by simp
  show "mset (unfinished k' (kept_before k t xs @ y # moved_after k t xs)) =
      mset (unfinished k xs) + mset (if w_is_completed w \<or> w_is_internal w then [] else [request_of w])"
    using c by (simp add: unfinished_def x m [OF z(1)] m [OF z(2)] del: mset_map)
  show "mset (untouched k' (kept_before k t xs @ y # moved_after k t xs)) =
      mset (untouched k xs) + mset (if w_is_completed w \<or> w_is_internal w \<or> w_is_copied w then [] else [request_of w])"
    using c by (simp add: untouched_def x m [OF z(1)] m [OF z(2)] del: mset_map)
qed

text \<open>A reclamation.\<close>

lemma reclamation:
  assumes v: "io_inv k cur xs us cs" and e: "reclaim_worker k = Some k'"
  shows "io_inv k' cur (dropWhile (reclaims k) xs) us (cs @ takeWhile (reclaims k) xs)" "content_of k' = content_of k"
    "unfinished k' (dropWhile (reclaims k) xs) = unfinished k xs" "untouched k' (dropWhile (reclaims k) xs) = untouched k xs"
proof -
  have q: "queue_shape k xs (us @ cs)" using v by (simp add: io_inv_def)
  obtain k1 where "reclaim_worker k = Some k1" "queue_shape k1 (dropWhile (reclaims k) xs) ((us @ cs) @ takeWhile (reclaims k) xs)"
    "content_of k1 = content_of k" "latest_nsecs k1 = latest_nsecs k"
    using reclaim_worker_ok [OF q] by metis
  then have k1: "queue_shape k' (dropWhile (reclaims k) xs) (us @ cs @ takeWhile (reclaims k) xs)"
    "content_of k' = content_of k" "latest_nsecs k' = latest_nsecs k"
    using e by auto
  show "content_of k' = content_of k" by (rule k1)
  have s: "xs = takeWhile (reclaims k) xs @ dropWhile (reclaims k) xs" by simp
  have "ordered k (dropWhile (reclaims k) xs)"
    using v s by (metis io_inv_def map_append sorted_append)
  then have "ordered k' (dropWhile (reclaims k) xs)" using k1 by (simp add: rank_def [abs_def])
  moreover have "w_is_completed (content_of k i)" if "i \<in> set (takeWhile (reclaims k) xs)" for i
    using set_takeWhileD [OF that] by (simp add: reclaimable_def)
  moreover have "set xs = set (takeWhile (reclaims k) xs) \<union> set (dropWhile (reclaims k) xs)" by (metis s set_append)
  ultimately show "io_inv k' cur (dropWhile (reclaims k) xs) us (cs @ takeWhile (reclaims k) xs)"
    using v k1 by (auto simp: io_inv_def)
  have "filter (\<lambda>w. \<not> w_is_completed w \<and> P w) (map (content_of k) xs) =
      filter (\<lambda>w. \<not> w_is_completed w \<and> P w) (map (content_of k) (dropWhile (reclaims k) xs))" for P
    by (subst s) (auto simp: filter_empty_conv reclaimable_def simp del: takeWhile_dropWhile_id dest: set_takeWhileD)
  then show "unfinished k' (dropWhile (reclaims k) xs) = unfinished k xs" "untouched k' (dropWhile (reclaims k) xs) = untouched k xs"
    unfolding unfinished_def untouched_def k1(2) by metis+
qed

text \<open>A visit.\<close>

lemma lseg_next: "lseg f h xs t \<Longrightarrow> x \<in> set xs \<Longrightarrow> f x = t \<or> f x \<in> set xs"
  by (induction xs arbitrary: h) (auto dest: lseg_head split: list.splits, metis lseg.simps(2) neq_Nil_conv list.set_intros(1) lseg.simps(1))

lemma lseg_suffix: "lseg f h (us @ cs) t \<Longrightarrow> \<exists>h'. lseg f h' cs t"
  by (induction us arbitrary: h) auto

lemma serve_links [simp]:
  "w_next (serve now ans w) = w_next w" "w_prev (serve now ans w) = w_prev w" "w_nsecs_target (serve now ans w) = w_nsecs_target w"
  "request_of (serve now ans w) = request_of w" "w_is_internal (serve now ans w) = w_is_internal w"
  "serve now ans (w\<lparr>w_next := a, w_prev := b\<rparr>) = (serve now ans w)\<lparr>w_next := a, w_prev := b\<rparr>"
  by (simp_all add: serve_def request_of_def Let_def)

lemma serve_flags [simp]:
  "w_is_completed (serve now ans w) \<longleftrightarrow> w_is_completed w \<or> w_nsecs_target w \<le> now"
  "w_is_copied (serve now ans w) \<longleftrightarrow> w_is_copied w \<or> \<not> w_is_completed w"
  by (simp_all add: serve_def Let_def)

lemma visited_view:
  assumes "put_work cur (serve now ans) (k\<lparr>latest_nsecs := now\<rparr>) = Some k'"
  shows "nx k' = nx k" "pv k' = pv k" "content_of k' = (content_of k)(cur := serve now ans (content_of k cur))"
    "latest_nsecs k' = now" "io_seq k' = io_seq k" "io_seq_end k' = io_seq_end k" "free_seq k' = free_seq k"
    "free_seq_end k' = free_seq_end k"
  using assms by (auto simp: put_work_def nx_def pv_def content_of_def fun_eq_iff split: if_splits)

lemma shape_cong:
  assumes "nx k' = nx k" "pv k' = pv k" "io_seq k' = io_seq k" "io_seq_end k' = io_seq_end k" "free_seq k' = free_seq k"
    "free_seq_end k' = free_seq_end k"
  shows "queue_shape k' xs ys = queue_shape k xs ys"
  using assms by (simp add: queue_shape_def in_use_def)

lemma later_ordered:
  assumes o: "ordered k xs" and k': "\<And>i. due k' i = due k i" "latest_nsecs k \<le> latest_nsecs k'"
  shows "ordered k' xs"
proof -
  have "rank k' = (\<lambda>r. max r (latest_nsecs k')) \<circ> rank k" using k' by (auto simp: rank_def fun_eq_iff max_def)
  then show ?thesis
    using o unfolding sorted_map by (auto intro!: sorted_wrt_mono_rel [OF _ o [unfolded sorted_map]] simp: max.coboundedI1 max.mono)
qed

lemma visit_next:
  assumes "queue_shape k xs (us @ cs)" "cur \<in> set xs \<or> cur \<in> set cs"
  shows "nx k cur = -1 \<or> nx k cur \<in> set xs \<or> nx k cur \<in> set cs"
proof -
  obtain h where h: "lseg (nx k) h cs (-1)" using lseg_suffix [OF shapeD(2) [OF assms(1)]] by (rule exE)
  have g: "lseg (nx k) (io_seq k) xs (-1)" using shapeD(1) [OF assms(1)] by (simp add: in_use_def)
  from assms(2) show ?thesis using lseg_next [OF h, of cur] lseg_next [OF g, of cur] by argo
qed

lemma visit_inv:
  assumes v: "io_inv k cur xs us cs" and c: "cur \<noteq> -1" and l: "latest_nsecs k \<le> now"
    and p: "put_work cur (serve now ans) (k\<lparr>latest_nsecs := now\<rparr>) = Some k'"
  shows "io_inv k' (nx k cur) xs us cs"
proof -
  note view = visited_view [OF p]
  have q: "queue_shape k xs (us @ cs)" and x: "cur \<in> set xs \<or> cur \<in> set cs" and o: "ordered k xs"
    and d: "\<forall>i\<in>set cs. w_is_completed (content_of k i)"
    using v c by (simp_all add: io_inv_def)
  have "queue_shape k' xs (us @ cs)" using q shape_cong [OF view(1,2,5-8)] by simp
  moreover have "ordered k' xs" by (rule later_ordered [OF o]) (simp_all add: view l)
  moreover have "\<forall>i\<in>set cs. w_is_completed (content_of k' i)" using d view(3) by simp
  ultimately show ?thesis using visit_next [OF q x] by (simp add: io_inv_def)
qed

lemma content_flags:
  "w_is_completed (work_queue k i) = w_is_completed (content_of k i)" "w_is_internal (work_queue k i) = w_is_internal (content_of k i)"
  "w_is_copied (work_queue k i) = w_is_copied (content_of k i)" "request_of (work_queue k i) = request_of (content_of k i)"
  by (simp_all add: content_of_def request_of_def)

lemma visit_account:
  assumes d: "distinct xs" and x: "cur \<in> set xs \<or> w_is_completed (content_of k cur)"
    and view: "content_of k' = (content_of k)(cur := serve now ans (content_of k cur))"
  shows "mset (unfinished k xs) = mset (unfinished k' xs) + mset (finished (Visit now (work_queue k cur)))"
    and "mset (untouched k xs) = mset (untouched k' xs) + mset (performed (Visit now (work_queue k cur)))"
proof -
  let ?w = "content_of k cur"
  have "mset (unfinished k xs) = mset (unfinished k' xs) + mset (finished (Visit now (work_queue k cur))) \<and>
      mset (untouched k xs) = mset (untouched k' xs) + mset (performed (Visit now (work_queue k cur)))"
  proof (cases "w_is_completed ?w")
    case True
    then have "content_of k' = content_of k" using view by (simp add: serve_def)
    then show ?thesis using True by (simp add: unfinished_def untouched_def content_flags)
  next
    case False
    then obtain as bs where xs: "xs = as @ cur # bs" using x by (auto dest: split_list)
    then have "cur \<notin> set as" "cur \<notin> set bs" using d by auto
    then have m: "map (content_of k') as = map (content_of k) as" "map (content_of k') bs = map (content_of k) bs"
      "content_of k' cur = serve now ans ?w"
      using view by simp_all
    show ?thesis
      using False unfolding unfinished_def untouched_def xs map_append list.map m
      by (cases "w_is_internal ?w"; cases "w_is_copied ?w"; cases "w_nsecs_target ?w \<le> now")
        (simp_all add: content_flags work_view not_less [symmetric])
  qed
  then show "mset (unfinished k xs) = mset (unfinished k' xs) + mset (finished (Visit now (work_queue k cur)))"
    and "mset (untouched k xs) = mset (untouched k' xs) + mset (performed (Visit now (work_queue k cur)))"
    by simp_all
qed

section \<open>All interleavings\<close>

lemma enqueue_on_refused: "enqueue_on fill t k = Some (False, k') \<Longrightarrow> k' = k"
  by (auto simp: enqueue_on_def bind_eq_Some_conv split: option.splits)

lemma start_inv: "io_inv k (-1) xs us cs \<Longrightarrow> io_inv k (io_seq k) xs us cs"
proof -
  assume v: "io_inv k (-1) xs us cs"
  then have "queue_shape k xs (us @ cs)" by (simp add: io_inv_def)
  then have "lseg (nx k) (io_seq k) xs (-1)" using shapeD(1) in_use_def by metis
  then have "io_seq k = -1 \<or> io_seq k \<in> set xs" by (cases xs) auto
  then show ?thesis using v by (auto simp: io_inv_def)
qed

lemma request_of_links [simp]: "request_of (w\<lparr>w_next := a, w_prev := b\<rparr>) = request_of w"
  by (simp add: request_of_def)

lemma insertion_account:
  assumes v: "io_inv k cur xs us cs" and e: "enqueue_on fill t k = Some (True, k')"
    and f: "\<And>w. w_nsecs_target (fill w) = t" "\<And>w. \<not> w_is_completed (fill w)"
    and r: "\<And>w. (if w_is_internal (fill w) then [] else [request_of (fill w)]) = rs"
      "\<And>w. (if w_is_internal (fill w) \<or> w_is_copied (fill w) then [] else [request_of (fill w)]) = rs"
  shows "\<exists>xs' us' cs'. io_inv k' cur xs' us' cs' \<and> mset (unfinished k xs) + mset rs = mset (unfinished k' xs') \<and>
     mset (untouched k xs) + mset rs = mset (untouched k' xs')"
proof -
  obtain y us' cs' where y: "io_inv k' cur (kept_before k t xs @ y # moved_after k t xs) us' cs'" "y \<notin> set xs"
    "content_of k' = (content_of k)(y := (fill (work_queue k y))\<lparr>w_next := -1, w_prev := -1\<rparr>)"
    using insertion [OF v e f] by metis
  let ?w = "(fill (work_queue k y))\<lparr>w_next := -1, w_prev := -1\<rparr>"
  have n: "(if w_is_completed ?w \<or> w_is_internal ?w then [] else [request_of ?w]) = rs"
    unfolding r(1) [of "work_queue k y", symmetric] using f(2) [of "work_queue k y"] by simp
  have n': "(if w_is_completed ?w \<or> w_is_internal ?w \<or> w_is_copied ?w then [] else [request_of ?w]) = rs"
    unfolding r(2) [of "work_queue k y", symmetric] using f(2) [of "work_queue k y"] by simp
  show ?thesis
    using y(1) unfinished_insertion [OF y(2,3), of t, unfolded n n']
    by (intro exI [of _ "kept_before k t xs @ y # moved_after k t xs"] exI [of _ us'] exI [of _ cs']) simp
qed

lemma io_inv_step:
  assumes "io_step (k, cur) e (k', cur')" "io_inv k cur xs us cs"
  shows "\<exists>xs' us' cs'. io_inv k' cur' xs' us' cs' \<and>
     mset (unfinished k xs) + mset (accepted e) = mset (unfinished k' xs') + mset (finished e) \<and>
     mset (untouched k xs) + mset (accepted e) = mset (untouched k' xs') + mset (performed e)"
  using assms(1)
proof (cases rule: io_step.cases)
  case (accept r start now status)
  then have "enqueue_on (request_fill r start now status) (rq_target r) k = Some (True, k')" by simp
  then have "\<exists>xs' us' cs'. io_inv k' cur xs' us' cs' \<and> mset (unfinished k xs) + mset [r] = mset (unfinished k' xs') \<and>
     mset (untouched k xs) + mset [r] = mset (untouched k' xs')"
    by (rule insertion_account [OF assms(2)]) (simp_all add: request_fill_def io_req_fill_def request_of_def)
  then show ?thesis using accept by simp
next
  case (refuse r start now status)
  then have "k' = k" using enqueue_on_refused by blast
  then show ?thesis using refuse assms(2) by auto
next
  case (internal sqid now t buffer bytes b)
  show ?thesis
  proof (cases b)
    case False
    then have "enqueue_on (internal_fill sqid now t buffer bytes) t k = Some (False, k')" using internal by simp
    then have "k' = k" by (rule enqueue_on_refused)
    then show ?thesis using internal assms(2) by auto
  next
    case True
    then have "enqueue_on (internal_fill sqid now t buffer bytes) t k = Some (True, k')" using internal by simp
    then have "\<exists>xs' us' cs'. io_inv k' cur xs' us' cs' \<and> mset (unfinished k xs) + mset [] = mset (unfinished k' xs') \<and>
       mset (untouched k xs) + mset [] = mset (untouched k' xs')"
      by (rule insertion_account [OF assms(2)]) (simp_all add: internal_fill_def)
    then show ?thesis using internal by simp
  qed
next
  case reclaim
  then have "reclaim_worker k = Some k'" by simp
  note r = reclamation [OF assms(2) this]
  show ?thesis using r reclaim by (intro exI [of _ "dropWhile (reclaims k) xs"] exI [of _ us] exI [of _ "cs @ takeWhile (reclaims k) xs"]) simp
next
  case start
  then show ?thesis using start_inv [of k xs us cs] assms(2) by auto
next
  case (visit w now ans)
  then have "cur \<noteq> -1" "work_at k cur = Some w" "latest_nsecs k \<le> now" "put_work cur (serve now ans) (k\<lparr>latest_nsecs := now\<rparr>) = Some k'" by auto
  then have w: "w = work_queue k cur" and v: "io_inv k' (nx k cur) xs us cs" and view: "content_of k' = (content_of k)(cur := serve now ans (content_of k cur))"
    using visit_inv [OF assms(2)] visited_view by (auto simp: work_at_def split: if_splits)
  have "distinct xs" "cur \<in> set xs \<or> w_is_completed (content_of k cur)"
    using assms(2) shapeD(5) visit by (auto simp: io_inv_def)
  then show ?thesis
    using v visit_account [OF _ _ view] visit w by (intro exI [of _ xs] exI [of _ us] exI [of _ cs]) (simp add: work_view)
qed

lemma init_inv: "io_inv io_worker_init (-1) [] (map of_nat [0..<16384]) []"
  using init_shape by (simp add: io_inv_def)

lemma account_step:
  fixes A :: "'a multiset"
  assumes "A = F + U" "U + a = U' + f"
  shows "A + a = (F + f) + U'"
  using assms by (metis add.assoc add.commute)

lemma io_run_inv:
  assumes "io_run (io_worker_init, -1) es s"
  shows "\<exists>xs us cs. io_inv (fst s) (snd s) xs us cs \<and>
     mset (concat (map accepted es)) = mset (concat (map finished es)) + mset (unfinished (fst s) xs) \<and>
     mset (concat (map accepted es)) = mset (concat (map performed es)) + mset (untouched (fst s) xs)"
  using assms
proof (induction "(io_worker_init, -1 :: u32)" es s rule: io_run.induct)
  case run_nil
  then show ?case using init_inv by (force simp: unfinished_def untouched_def)
next
  case (run_snoc es s' e s'')
  then obtain xs us cs where v: "io_inv (fst s') (snd s') xs us cs"
    and a: "mset (concat (map accepted es)) = mset (concat (map finished es)) + mset (unfinished (fst s') xs)"
      "mset (concat (map accepted es)) = mset (concat (map performed es)) + mset (untouched (fst s') xs)"
    by blast
  obtain xs' us' cs' where v': "io_inv (fst s'') (snd s'') xs' us' cs'"
    and b: "mset (unfinished (fst s') xs) + mset (accepted e) = mset (unfinished (fst s'') xs') + mset (finished e)"
      "mset (untouched (fst s') xs) + mset (accepted e) = mset (untouched (fst s'') xs') + mset (performed e)"
    using io_inv_step [of "fst s'" "snd s'" e "fst s''" "snd s''", OF _ v] run_snoc(3) by auto
  show ?case
    using v' account_step [OF a(1) b(1)] account_step [OF a(2) b(2)] by (intro exI [of _ xs'] exI [of _ us'] exI [of _ cs']) simp
qed


text \<open>A request that is due at time 5, accepted, and completed by a visit at time 7.\<close>

definition demo_request :: io_request where
  "demo_request = \<lparr>rq_sqid = 1, rq_cqid = 1, rq_sq_entry = 0, rq_command_id = 9, rq_target = 5\<rparr>"

definition demo_work :: nvmev_io_work where
  "demo_work = (request_fill demo_request 3 3 0 (work_queue io_worker_init 0))\<lparr>w_prev := -1, w_next := -1\<rparr>"

definition demo_accepted :: nvmev_io_worker where
  "demo_accepted = io_worker_init\<lparr>free_seq := 1, work_queue := (work_queue io_worker_init)(0 := demo_work), io_seq := 0, io_seq_end := 0\<rparr>"

definition demo_completed :: nvmev_io_worker where
  "demo_completed = demo_accepted\<lparr>latest_nsecs := 7, work_queue := (work_queue io_worker_init)(0 := serve 7 (0, 0) demo_work)\<rparr>"

lemma demo_accept: "io_run (io_worker_init, -1) [Accept demo_request] (demo_accepted, -1)"
proof -
  have "enqueue_on (request_fill demo_request 3 3 0) (rq_target demo_request) io_worker_init = Some (True, demo_accepted)"
    by (simp add: enqueue_on_def allocate_entry_def work_at_def put_work_def io_worker_init_def zeroed_work_def
        insert_req_sorted_def demo_accepted_def demo_work_def NR_MAX_PARALLEL_IO_def word_le_nat_alt)
  then show ?thesis using io_run.run_snoc [OF io_run.run_nil io_step.accept] by fastforce
qed

lemma demo_visit: "io_step (demo_accepted, 0) (Visit 7 demo_work) (demo_completed, -1)"
proof -
  have "io_step (demo_accepted, 0) (Visit 7 demo_work) (demo_completed, w_next demo_work)"
    by (rule io_step.visit [where ans = "(0, 0)"])
      (simp_all add: work_at_def put_work_def NR_MAX_PARALLEL_IO_def demo_accepted_def demo_completed_def io_worker_init_def)
  then show ?thesis by (simp add: demo_work_def)
qed

lemma demo_start: "io_step (demo_accepted, -1) Start (demo_accepted, 0)"
  using io_step.start [of demo_accepted] by (simp add: demo_accepted_def)

lemma demo_run: "io_run (io_worker_init, -1) [Accept demo_request, Start, Visit 7 demo_work] (demo_completed, -1)"
  using io_run.run_snoc [OF io_run.run_snoc [OF demo_accept demo_start] demo_visit] by simp


text \<open>C32: The queue never gets stuck: in every state that the dispatcher and the worker can reach, an
  insertion and a reclamation return without leaving the table, and the entry that the worker is
  at exists.\<close>

theorem io_worker_never_stuck:
  assumes "io_run (io_worker_init, -1) es (k, cur)"
  shows "(\<exists>r. enqueue_on fill t k = Some r) \<and> (\<exists>k'. reclaim_worker k = Some k') \<and> (cur = -1 \<or> (\<exists>w. work_at k cur = Some w))"
proof -
  obtain xs us cs where v: "io_inv k cur xs us cs" using io_run_inv [OF assms] by auto
  then have q: "queue_shape k xs (us @ cs)" and c: "cur = -1 \<or> cur \<in> set xs \<union> set (us @ cs)" by (auto simp: io_inv_def)
  obtain y ys where ys: "us @ cs = y # ys" using shapeD(3) [OF q] by (cases "us @ cs") auto
  have "\<exists>r. enqueue_on fill t k = Some r"
    using enqueue_on_full [of k xs y] enqueue_on_ok [of k xs y ys] q unfolding ys by (cases "ys = []") blast+
  moreover have "\<exists>k'. reclaim_worker k = Some k'" using reclaim_worker_ok [OF q] by blast
  moreover have "cur = -1 \<or> (\<exists>w. work_at k cur = Some w)" using c shape_bound [OF q, of cur] by auto
  ultimately show ?thesis by blast
qed

theorem io_worker_never_stuck_witness:
  "(\<exists>r. enqueue_on (request_fill demo_request 8 8 0) 9 demo_completed = Some r) \<and> (\<exists>k'. reclaim_worker demo_completed = Some k')"
  using io_worker_never_stuck [OF demo_run] by blast

section \<open>A pass of the worker\<close>

lemma pass_inv:
  assumes "io_run s vs s'" "s = (k, io_seq k)" "queue_shape k xs ys" "\<forall>e\<in>set vs. \<exists>now w. e = Visit now w \<and> T \<le> now"
  shows "queue_shape (fst s') xs ys \<and> length vs \<le> length xs \<and> lseg (nx (fst s')) (snd s') (drop (length vs) xs) (-1) \<and>
     due (fst s') = due k \<and> (\<forall>i. w_is_completed (content_of k i) \<longrightarrow> w_is_completed (content_of (fst s') i)) \<and>
     (\<forall>i\<in>set (take (length vs) xs). due k i \<le> T \<longrightarrow> w_is_completed (content_of (fst s') i))"
  using assms
proof (induction rule: io_run.induct)
  case (run_nil s)
  then show ?case using shapeD(1) [OF run_nil(2)] by (simp add: in_use_def)
next
  case (run_snoc s vs s' e s'')
  obtain k1 cur k2 cur' where s: "s' = (k1, cur)" "s'' = (k2, cur')" by (cases s', cases s'') auto
  obtain now w where e: "e = Visit now w" "T \<le> now" using run_snoc.prems(3) by auto
  obtain ans where w: "cur \<noteq> -1" "work_at k1 cur = Some w" "put_work cur (serve now ans) (k1\<lparr>latest_nsecs := now\<rparr>) = Some k2"
    "cur' = w_next w"
    using run_snoc.hyps(2) unfolding s e by (auto elim: io_step.cases)
  note view = visited_view [OF w(3)]
  have IH: "queue_shape k1 xs ys" "length vs \<le> length xs" "lseg (nx k1) cur (drop (length vs) xs) (-1)" "due k1 = due k"
    "\<forall>i. w_is_completed (content_of k i) \<longrightarrow> w_is_completed (content_of k1 i)"
    "\<forall>i\<in>set (take (length vs) xs). due k i \<le> T \<longrightarrow> w_is_completed (content_of k1 i)"
    using run_snoc.IH [OF run_snoc.prems(1,2)] run_snoc.prems(3) unfolding s by auto
  obtain zs where zs: "drop (length vs) xs = cur # zs" using IH(3) w(1) by (cases "drop (length vs) xs") auto
  then have n: "length vs < length xs" "zs = drop (Suc (length vs)) xs" "xs ! length vs = cur"
    by (auto simp: drop_Suc drop_tl nth_via_drop intro: ccontr)
  have "nx k1 cur = cur'" using w(2,4) by (auto simp: work_at_def nx_def split: if_splits)
  then have "lseg (nx k2) cur' zs (-1)" using IH(3) zs view(1) by simp
  moreover have "queue_shape k2 xs ys" using IH(1) shape_cong [OF view(1,2,5-8)] by simp
  moreover have "due k2 = due k" using IH(4) view(3) by (auto simp: fun_eq_iff)
  moreover have "w_is_completed (content_of k2 cur)" if "due k cur \<le> T"
    using that e(2) fun_cong [OF IH(4), of cur] view(3) by auto
  moreover have "w_is_completed (content_of k1 i) \<longrightarrow> w_is_completed (content_of k2 i)" for i using view(3) by auto
  ultimately show ?case
    using IH n unfolding s by (auto simp: take_Suc_conv_app_nth)
qed



end
