(* ===== verification/Io_Rings.thy ===== *)
theory Io_Rings
  imports Io_Worker
begin

text \<open>
  The device around the work queues: its operations are steps of the queues, completions go round
  the completion ring with the phase bit telling the laps apart, and consumed completions are
  subtracted from the requests in flight.
\<close>

section \<open>Operations as steps\<close>

lemma perform_work_answer:
  assumes "perform_work z kmalloc_ok d w = Some (w', f)"
  obtains ans where "w' = w\<lparr>w_result0 := fst ans, w_status := snd ans\<rparr>"
proof -
  have "(\<exists>a b. w' = w\<lparr>w_result0 := a, w_status := b\<rparr>) \<or> w' = w"
    using assms by (auto simp: perform_work_def Let_def bind_eq_Some_conv split: if_splits)
  moreover have "w = w\<lparr>w_result0 := w_result0 w, w_status := w_status w\<rparr>" by simp
  ultimately show ?thesis using that by (metis fst_conv snd_conv)
qed

text \<open>What a visit leaves behind at the device.\<close>

definition visit_effect :: "zero_area \<Rightarrow> bool \<Rightarrow> u64 \<Rightarrow> nvmev_io_work \<Rightarrow> nvmev_dev \<Rightarrow> nvmev_dev \<Rightarrow> bool" where
  "visit_effect z kmalloc_ok now w d d' \<longleftrightarrow>
     (if performed (Visit now w) = [] then ns_ftl d' = ns_ftl d
      else \<exists>w'. perform_work z kmalloc_ok d w = Some (w', ns_ftl d')) \<and>
     (if finished (Visit now w) = [] then cqes d' = cqes d
      else \<exists>cq w'. cqes d (w_cqid w) = Some cq \<and> request_of w' = request_of w \<and>
             cqes d' = (cqes d)(w_cqid w \<mapsto> fill_cq_result w' cq))"

lemma copy_phase_result:
  assumes "copy_phase z kmalloc_ok w d = Some (w', d')"
  shows "\<exists>ans. w' = (if w_is_copied w then w else if w_is_internal w then w\<lparr>w_is_copied := True\<rparr>
        else w\<lparr>w_result0 := fst ans, w_status := snd ans, w_is_copied := True\<rparr>)"
    "d' = d\<lparr>ns_ftl := ns_ftl d'\<rparr>"
    "if w_is_copied w \<or> w_is_internal w then d' = d else \<exists>w'. perform_work z kmalloc_ok d w = Some (w', ns_ftl d')"
proof -
  show "\<exists>ans. w' = (if w_is_copied w then w else if w_is_internal w then w\<lparr>w_is_copied := True\<rparr>
        else w\<lparr>w_result0 := fst ans, w_status := snd ans, w_is_copied := True\<rparr>)"
    using assms by (auto simp: copy_phase_def bind_eq_Some_conv elim!: perform_work_answer split: if_splits)
  show "d' = d\<lparr>ns_ftl := ns_ftl d'\<rparr>"
    "if w_is_copied w \<or> w_is_internal w then d' = d else \<exists>w'. perform_work z kmalloc_ok d w = Some (w', ns_ftl d')"
    using assms by (auto simp: copy_phase_def bind_eq_Some_conv split: if_splits)
qed

lemma complete_phase_result:
  assumes "complete_phase now w d = Some (w', d')"
  shows "w' = (if w_nsecs_target w \<le> now then w\<lparr>w_is_completed := True\<rparr> else w)" "d' = d\<lparr>cqes := cqes d'\<rparr>"
    "cqes d' = cqes d \<and> (now < w_nsecs_target w \<or> w_is_internal w) \<or>
     w_nsecs_target w \<le> now \<and> \<not> w_is_internal w \<and> (\<exists>cq. cqes d (w_cqid w) = Some cq \<and> cqes d' = (cqes d)(w_cqid w \<mapsto> fill_cq_result w cq))"
  using assms by (auto simp: complete_phase_def bind_eq_Some_conv not_le split: if_splits)

lemma worker_visit_step:
  assumes v: "worker_visit z kmalloc_ok n now cur d = Some (cur', d')" and n: "n < length (io_workers d)"
    and c: "cur \<noteq> -1" "latest_nsecs (io_workers d ! n) \<le> now"
  shows "\<exists>w. io_step (io_workers d ! n, cur) (Visit now w) (io_workers d' ! n, cur') \<and>
     (\<forall>m. m \<noteq> n \<longrightarrow> io_workers d' ! m = io_workers d ! m) \<and> visit_effect z kmalloc_ok now w d d'"
proof -
  let ?k = "io_workers d ! n"
  let ?w = "work_queue ?k cur"
  have b: "cur < NR_MAX_PARALLEL_IO" using v by (auto simp: worker_visit_def work_at_def Let_def split: if_splits)
  have step: "io_step (?k, cur) (Visit now ?w) (k', w_next ?w)"
    if "put_work cur (serve now ans) (?k\<lparr>latest_nsecs := now\<rparr>) = Some k'" for ans k'
    using that b c by (intro io_step.visit) auto
  show ?thesis
  proof (cases "w_is_completed ?w")
    case True
    then have "put_work cur (serve now (0, 0)) (?k\<lparr>latest_nsecs := now\<rparr>) = Some (?k\<lparr>latest_nsecs := now\<rparr>)"
      using b by (simp add: put_work_def serve_def)
    then show ?thesis
      using True v b n step by (intro exI [of _ ?w]) (auto simp: worker_visit_def Let_def visit_effect_def)
  next
    case False
    obtain w1 d1 w2 d2 k' where p: "copy_phase z kmalloc_ok ?w d = Some (w1, d1)" "complete_phase now w1 d1 = Some (w2, d2)"
      "put_work cur (\<lambda>_. w2) (?k\<lparr>latest_nsecs := now\<rparr>) = Some k'" "cur' = w_next w2" "d' = d2\<lparr>io_workers := (io_workers d2)[n := k']\<rparr>"
      using v False b by (auto simp: worker_visit_def Let_def bind_eq_Some_conv)
    note c = copy_phase_result [OF p(1)]
    obtain ans where c1: "w1 = (if w_is_copied ?w then ?w else if w_is_internal ?w then ?w\<lparr>w_is_copied := True\<rparr>
        else ?w\<lparr>w_result0 := fst ans, w_status := snd ans, w_is_copied := True\<rparr>)"
      using c(1) by (rule exE)
    note c2 = complete_phase_result [OF p(2)]
    have w1: "w_nsecs_target w1 = w_nsecs_target ?w" "w_is_internal w1 = w_is_internal ?w" "w_cqid w1 = w_cqid ?w"
      "request_of w1 = request_of ?w" "w_next w1 = w_next ?w"
      using c1 by (auto simp: request_of_def)
    have w2: "w2 = serve now ans ?w" using False c1 c2(1) by (auto simp: serve_def Let_def)
    have wk: "io_workers d2 = io_workers d" "cqes d1 = cqes d" "ns_ftl d2 = ns_ftl d1" 
      using arg_cong [OF c2(2), of io_workers] arg_cong [OF c(2), of io_workers] arg_cong [OF c(2), of cqes] arg_cong [OF c2(2), of ns_ftl]
      by simp_all
    have "put_work cur (serve now ans) (?k\<lparr>latest_nsecs := now\<rparr>) = Some k'"
      using p(3) unfolding w2 by (simp add: put_work_def split: if_splits)
    then have "io_step (?k, cur) (Visit now ?w) (io_workers d' ! n, cur')"
      using step p(4,5) n wk w2 by simp
    moreover have "visit_effect z kmalloc_ok now ?w d d'"
      using c(3) c2(3) w1 wk p(5) False unfolding visit_effect_def
      by (auto simp: not_less)
    ultimately show ?thesis using p(5) wk by (intro exI [of _ ?w]) simp
  qed
qed

lemma reclaim_loop_result:
  "reclaim_loop ks = Some ks' \<Longrightarrow> length ks' = length ks \<and> (\<forall>m<length ks. reclaim_worker (ks ! m) = Some (ks' ! m))"
  by (induction ks arbitrary: ks') (auto simp: bind_eq_Some_conv nth_Cons split: nat.splits)

text \<open>A command that the dispatcher takes from a submission queue is one request at the worker of the
  queue, and a reclamation at every worker.\<close>

definition dispatch_effect :: "int \<Rightarrow> int \<Rightarrow> u32 \<Rightarrow> nvmev_dev \<Rightarrow> nvmev_dev \<Rightarrow> bool" where
  "dispatch_effect sqid sq_entry cur d d' \<longleftrightarrow>
     (\<exists>n r k. get_io_worker sqid d = Some n \<and> rq_sqid r = sqid \<and> rq_sq_entry r = sq_entry \<and>
        (io_step (io_workers d ! n, cur) (Accept r) (k, cur) \<or> io_step (io_workers d ! n, cur) (Refuse r) (k, cur)) \<and>
        io_step (k, cur) Reclaim (io_workers d' ! n, cur) \<and>
        (\<forall>m<length (io_workers d). m \<noteq> n \<longrightarrow> io_step (io_workers d ! m, cur) Reclaim (io_workers d' ! m, cur)))"

lemma enqueue_io_req_step:
  assumes e: "enqueue_io_req sqid cqid sq_entry start now target status d = Some d'"
  shows "\<exists>n r k. get_io_worker sqid d = Some n \<and> n < length (io_workers d) \<and> rq_sqid r = sqid \<and> rq_sq_entry r = sq_entry \<and>
     (io_step (io_workers d ! n, cur) (Accept r) (k, cur) \<or> io_step (io_workers d ! n, cur) (Refuse r) (k, cur)) \<and>
     io_workers d' = (io_workers d)[n := k] \<and> ns_ftl d' = ns_ftl d \<and> cqes d' = cqes d \<and> sqes d' = sqes d"
proof -
  obtain sq n b k where q: "sqes d sqid = Some sq" "get_io_worker sqid d = Some n"
    and k: "enqueue_on (io_req_fill sqid cqid sq_entry (ucast (sc_command_id (sq_entries sq sq_entry))) start now target status) target
      (io_workers d ! n) = Some (b, k)"
    and d': "d' = (if b then d\<lparr>io_workers := (io_workers d)[n := k],
                       io_worker_turn := if n + 1 = length (io_workers d) then 0 else n + 1\<rparr> else d)"
    using e by (auto simp: enqueue_io_req_def enqueue_at_def bind_eq_Some_conv)
  have n: "n < length (io_workers d)" using q(2) by (auto simp: get_io_worker_def split: if_splits)
  define r where "r = \<lparr>rq_sqid = sqid, rq_cqid = cqid, rq_sq_entry = sq_entry,
    rq_command_id = ucast (sc_command_id (sq_entries sq sq_entry)), rq_target = target\<rparr>"
  have k': "enqueue_on (request_fill r start now status) (rq_target r) (io_workers d ! n) = Some (b, k)"
    using k by (simp add: request_fill_def r_def)
  have "io_step (io_workers d ! n, cur) (if b then Accept r else Refuse r) (k, cur)"
    using k' by (cases b) (auto intro: io_step.accept io_step.refuse)
  moreover have "\<not> b \<Longrightarrow> k = io_workers d ! n" using k' enqueue_on_refused by simp
  ultimately show ?thesis
    using q n d' by (intro exI [of _ n] exI [of _ r] exI [of _ k]) (auto simp: r_def split: if_splits)
qed

lemma nvmev_proc_io_steps:
  assumes e: "nvmev_proc_io cfg now enq sqid sq_entry d = Some (io_size, d')"
  shows "dispatch_effect sqid sq_entry cur d d' \<and> ns_ftl d' = ns_ftl d \<and> cqes d' = cqes d \<and> sqes d' = sqes d"
proof -
  obtain cqid target stats d1 where d1: "enqueue_io_req sqid cqid sq_entry now enq target 0 (d\<lparr>io_unit_stat := stats\<rparr>) = Some d1"
    and d': "reclaim_completed_reqs d1 = Some d'"
    using e by (auto simp: nvmev_proc_io_def Let_def bind_eq_Some_conv)
  obtain ks where ks: "reclaim_loop (io_workers d1) = Some ks" "d' = d1\<lparr>io_workers := ks\<rparr>"
    using d' by (auto simp: reclaim_completed_reqs_def)
  note r = reclaim_loop_result [OF ks(1)]
  have g: "get_io_worker sqid (d\<lparr>io_unit_stat := stats\<rparr>) = get_io_worker sqid d" by (simp add: get_io_worker_def)
  obtain n r k where n: "get_io_worker sqid d = Some n" "n < length (io_workers d)" "rq_sqid r = sqid" "rq_sq_entry r = sq_entry"
    "io_step (io_workers d ! n, cur) (Accept r) (k, cur) \<or> io_step (io_workers d ! n, cur) (Refuse r) (k, cur)"
    "io_workers d1 = (io_workers d)[n := k]" "ns_ftl d1 = ns_ftl d" "cqes d1 = cqes d" "sqes d1 = sqes d"
    using enqueue_io_req_step [OF d1, of cur] unfolding g by auto
  have s: "io_step (io_workers d1 ! m, cur) Reclaim (io_workers d' ! m, cur)" if "m < length (io_workers d)" for m
    using that r n ks(2) by (intro io_step.reclaim) simp
  have "io_step (k, cur) Reclaim (io_workers d' ! n, cur)" using s [of n] n by simp
  moreover have "\<forall>m<length (io_workers d). m \<noteq> n \<longrightarrow> io_step (io_workers d ! m, cur) Reclaim (io_workers d' ! m, cur)"
    using s n by (metis nth_list_update_neq)
  ultimately have "dispatch_effect sqid sq_entry cur d d'" using n unfolding dispatch_effect_def by blast
  then show ?thesis using n ks(2) by simp
qed

section \<open>The dispatcher returns\<close>

text \<open>Workers in good shape: the dispatcher returns and leaves them so.\<close>

definition shaped :: "nvmev_io_worker \<Rightarrow> bool" where
  "shaped k \<longleftrightarrow> (\<exists>xs ys. queue_shape k xs ys)"

lemma enqueue_on_shaped: "shaped k \<Longrightarrow> \<exists>b k'. enqueue_on fill t k = Some (b, k') \<and> shaped k'"
proof -
  assume "shaped k"
  then obtain xs ys where q: "queue_shape k xs ys" by (auto simp: shaped_def)
  obtain y ys' where ys: "ys = y # ys'" using shapeD(3) [OF q] by (cases ys) auto
  show ?thesis
  proof (cases "ys' = []")
    case True
    then show ?thesis using enqueue_on_full q \<open>shaped k\<close> unfolding ys by blast
  next
    case False
    then show ?thesis using enqueue_on_ok [OF q [unfolded ys] False, of fill t] unfolding shaped_def by metis
  qed
qed

lemma reclaim_loop_shaped: "\<forall>k\<in>set ks. shaped k \<Longrightarrow> \<exists>ks'. reclaim_loop ks = Some ks' \<and> (\<forall>k\<in>set ks'. shaped k)"
proof (induction ks)
  case (Cons k ks)
  then obtain xs ys where "queue_shape k xs ys" by (auto simp: shaped_def)
  then obtain k' where "reclaim_worker k = Some k'" "shaped k'" using reclaim_worker_ok unfolding shaped_def by metis
  then show ?case using Cons by auto
qed simp

lemma nvmev_proc_io_returns:
  assumes "sqes d sqid = Some sq" "io_workers d \<noteq> []" "\<forall>k\<in>set (io_workers d). shaped k"
    and "kv_proc_nvme_io_cmd cfg (kc_opcode (sq_entries sq i)) (sc_slba (sq_entries sq i)) (sc_length (sq_entries sq i))
           (cmd_value_length (nvme_kv_command.truncate (sq_entries sq i))) now now (io_unit_stat d) = Some (t, st)"
  shows "\<exists>d'. nvmev_proc_io cfg now enq sqid i d = Some (cmd_io_size (sc_length (sq_entries sq i)), d')"
proof -
  let ?n = "nat ((sqid - 1) mod 2 ^ 32) mod length (io_workers d)"
  let ?fill = "io_req_fill sqid (sq_cqid sq) i (ucast (sc_command_id (sq_entries sq i))) now enq t 0"
  have n: "?n < length (io_workers d)" using assms(2) by simp
  then obtain b k' where k: "enqueue_on ?fill t (io_workers d ! ?n) = Some (b, k')" "shaped k'"
    using enqueue_on_shaped assms(3) by (meson nth_mem)
  let ?ks = "if b then (io_workers d)[?n := k'] else io_workers d"
  have "\<forall>k\<in>set ?ks. shaped k" using assms(3) k(2) set_update_subset_insert [of "io_workers d" ?n k'] by auto
  then obtain ks where "reclaim_loop ?ks = Some ks" using reclaim_loop_shaped by blast
  then show ?thesis
    using assms(1,2,4) k(1) n
    by (auto simp: nvmev_proc_io_def enqueue_io_req_def enqueue_at_def get_io_worker_def reclaim_completed_reqs_def Let_def)
qed

text \<open>A device with one worker and one queue, at which a flush command waits.\<close>

definition demo_command :: nvme_command where
  "demo_command = \<lparr>kc_opcode = 0, kc_prp1 = 0, kc_prp2 = 0, kc_value_len = 0, kc_key_len = 0, kc_option = 0, kc_rsvd4 = 0,
     kc_key = [], sc_command_id = 9, sc_slba = 0, sc_length = 0\<rparr>"

definition demo_sq :: nvmev_submission_queue where
  "demo_sq = \<lparr>sq_cqid = 1, sq_queue_size = 2,
     sq_stat = \<lparr>nr_dispatched = 0, nr_dispatch = 0, nr_in_flight = 0, max_nr_in_flight = 0, total_io = 0\<rparr>,
     sq_entries = (\<lambda>_. demo_command)\<rparr>"

definition demo_cq :: nvmev_completion_queue where
  "demo_cq = \<lparr>cq_irq_vector = 0, cq_irq_enabled = True, cq_interrupt_ready = False, cq_queue_size = 2, cq_phase = True,
     cq_head = 0, cq_tail = -1, cq_entries = (\<lambda>_. cqe_of demo_work False)\<rparr>"

definition demo_dev :: "nvmev_io_worker \<Rightarrow> nvmev_dev" where
  "demo_dev k = \<lparr>io_workers = [k], io_worker_turn = 0, sqes = [1 \<mapsto> demo_sq], cqes = [1 \<mapsto> demo_cq], io_unit_stat = [0],
     ns_ftl = kv_init_namespace 2 Null_iter [] (\<lambda>_. None)\<rparr>"

definition demo_cfg :: io_unit_config where
  "demo_cfg = \<lparr>nr_io_units = 1, io_unit_shift = 12, read_delay = 0, read_time = 0, read_trailing = 0, write_delay = 0,
     write_time = 0, write_trailing = 0\<rparr>"

lemma demo_dispatch: "shaped k \<Longrightarrow> \<exists>d'. nvmev_proc_io demo_cfg now enq 1 i (demo_dev k) = Some (512, d')"
  using nvmev_proc_io_returns [of "demo_dev k" 1 demo_sq demo_cfg i now 0 "[0]" enq]
  by (simp add: demo_dev_def demo_sq_def demo_command_def kv_proc_nvme_io_cmd_def schedule_flush_def cmd_io_size_def KV_LBA_BITS_def)



section \<open>The completion ring\<close>

lemma ring_post:
  assumes "0 < s" "cq_queue_size cq = int s" "cq_head cq = 0" "cq_phase cq"
  shows "cq_queue_size (fold fill_cq_result ws cq) = int s \<and> cq_head (fold fill_cq_result ws cq) = int (length ws mod s) \<and>
    cq_phase (fold fill_cq_result ws cq) = even (length ws div s) \<and>
    (\<forall>i<length ws. length ws \<le> i + s \<longrightarrow> cq_entries (fold fill_cq_result ws cq) (int (i mod s)) = cqe_of (ws ! i) (even (i div s)))"
proof (induction ws rule: rev_induct)
  case Nil
  then show ?case using assms by simp
next
  case (snoc w ws)
  let ?c = "fold fill_cq_result ws cq" and ?n = "length ws"
  have wrap: "(int (?n mod s) + 1 = int s) = (Suc ?n mod s = 0)" using assms(1) by (simp add: mod_Suc)
  have mods: "Suc ?n mod s = (if Suc ?n mod s = 0 then 0 else Suc (?n mod s))" "Suc ?n div s = (if Suc ?n mod s = 0 then Suc (?n div s) else ?n div s)"
    using assms(1) by (simp_all add: mod_Suc div_Suc)
  have "i mod s \<noteq> ?n mod s" if "i < ?n" "Suc ?n \<le> i + s" for i
  proof
    assume "i mod s = ?n mod s"
    then have "s dvd ?n - i" using that by (metis less_imp_le mod_eq_dvd_iff_nat)
    then show False using that assms(1) by (auto dest: dvd_imp_le)
  qed
  then show ?case
    using snoc wrap mods by (auto simp: fill_cq_result_def Let_def nth_append less_Suc_eq)
qed

lemma phase_bit: "bit (cqe_status (cqe_of w p)) 0 = p"
  unfolding cqe_of_def nvme_completion.select_convs bit_ucast_iff bit_or_iff bit_push_bit_iff bit_of_bool_iff by simp

text \<open>C35: Completions go round the completion ring in order, and the phase bit in their status
  tells the laps apart: after any number of completions, each of the last ones that the ring has
  room for is at its place, and its phase bit is set in the even laps only.\<close>

theorem completion_ring:
  assumes "0 < s" "cq_queue_size cq = int s" "cq_head cq = 0" "cq_phase cq" "i < length ws" "length ws \<le> i + s"
  shows "cq_entries (fold fill_cq_result ws cq) (int (i mod s)) = cqe_of (ws ! i) (even (i div s)) \<and>
    bit (cqe_status (cq_entries (fold fill_cq_result ws cq) (int (i mod s)))) 0 = even (i div s)"
  using ring_post [OF assms(1-4), of ws] assms(5,6) by (simp add: phase_bit)

theorem completion_ring_witness:
  "cq_entries (fold fill_cq_result [demo_work, demo_work, demo_work] demo_cq) 0 = cqe_of demo_work False"
  using completion_ring [of 2 demo_cq 2 "[demo_work, demo_work, demo_work]"] by (simp add: demo_cq_def)

section \<open>Consumed completions\<close>

text \<open>The places of the ring from one doorbell value up to another.\<close>

definition ring_range :: "int \<Rightarrow> int \<Rightarrow> int \<Rightarrow> int list" where
  "ring_range s old new = (if old \<le> new then [old..new - 1] else [old..s - 1] @ [0..new - 1])"

definition consume :: "nvmev_completion_queue \<Rightarrow> int \<Rightarrow> (int \<Rightarrow> nvmev_submission_queue option) \<Rightarrow> (int \<Rightarrow> nvmev_submission_queue option)" where
  "consume cq i s = (let q = uint (cqe_sq_id (cq_entries cq i)) in s(q := map_option uncount_flight (s q)))"

lemma proc_cq_loop_up:
  "0 \<le> i \<Longrightarrow> i \<le> new_db \<Longrightarrow> new_db < cq_queue_size cq \<Longrightarrow> proc_cq_loop cq new_db i s = Some (fold (consume cq) [i..new_db - 1] s)"
proof (induction "nat (new_db - i)" arbitrary: i s)
  case 0
  then show ?case by (simp add: proc_cq_loop.simps)
next
  case (Suc n)
  then have "[i..new_db - 1] = i # [i + 1..new_db - 1]" by (simp add: upto.simps)
  moreover have "i \<noteq> new_db" using Suc by auto
  ultimately show ?case using Suc by (subst proc_cq_loop.simps) (simp add: consume_def Let_def)
qed

lemma proc_cq_loop_ring:
  "0 \<le> i \<Longrightarrow> i \<le> cq_queue_size cq \<Longrightarrow> 0 \<le> new_db \<Longrightarrow> new_db < cq_queue_size cq \<Longrightarrow>
   proc_cq_loop cq new_db i s = Some (fold (consume cq) (ring_range (cq_queue_size cq) i new_db) s)"
proof (induction "nat (cq_queue_size cq - i)" arbitrary: i s)
  case 0
  then show ?case using proc_cq_loop_up [of 0 new_db cq s] by (subst proc_cq_loop.simps) (simp add: ring_range_def)
next
  case (Suc n)
  show ?case
  proof (cases "i \<le> new_db")
    case True
    then show ?thesis using Suc proc_cq_loop_up by (simp add: ring_range_def)
  next
    case False
    then have "ring_range (cq_queue_size cq) i new_db = i # ring_range (cq_queue_size cq) (i + 1) new_db"
      using Suc by (auto simp: ring_range_def upto.simps [of i])
    moreover have "i < cq_queue_size cq" using Suc by auto
    ultimately show ?thesis using Suc False by (subst proc_cq_loop.simps) (simp add: consume_def Let_def)
  qed
qed

lemma consumed_queue:
  "s q = Some sq \<Longrightarrow> \<exists>sq'. fold (consume cq) is s q = Some sq' \<and>
     nr_in_flight (sq_stat sq') = nr_in_flight (sq_stat sq) - of_nat (count_list (map (\<lambda>i. uint (cqe_sq_id (cq_entries cq i))) is) q)"
proof (induction "is" arbitrary: s sq)
  case (Cons i "is")
  let ?sq = "if uint (cqe_sq_id (cq_entries cq i)) = q then uncount_flight sq else sq"
  have "consume cq i s q = Some ?sq" using Cons.prems by (auto simp: consume_def Let_def)
  from Cons.IH [of "consume cq i s" ?sq, OF this] show ?case by (auto simp: uncount_flight_def)
qed simp

text \<open>C36: When the host moves the doorbell of a completion queue, the device returns from the walk
  around the ring, and the number of requests in flight of every submission queue goes down by
  the number of its completions between the two values of the doorbell.\<close>

theorem consumed_completions_accounted:
  assumes "cqes d cqid = Some cq" "0 \<le> old_db" "old_db < cq_queue_size cq" "0 \<le> new_db" "new_db < cq_queue_size cq"
    and "sqes d q = Some sq"
  shows "\<exists>d' sq'. nvmev_proc_io_cq cqid new_db old_db d = Some d' \<and> sqes d' q = Some sq' \<and>
     nr_in_flight (sq_stat sq') = nr_in_flight (sq_stat sq) -
       of_nat (count_list (map (\<lambda>i. uint (cqe_sq_id (cq_entries cq i))) (ring_range (cq_queue_size cq) old_db new_db)) q)"
  using assms consumed_queue [of "sqes d" q sq cq "ring_range (cq_queue_size cq) old_db new_db"]
    proc_cq_loop_ring [of old_db cq new_db "sqes d"]
  by (auto simp: nvmev_proc_io_cq_def)

theorem consumed_completions_accounted_witness:
  "\<exists>d' sq'. nvmev_proc_io_cq 1 0 1 (demo_dev io_worker_init) = Some d' \<and> sqes d' 1 = Some sq' \<and> nr_in_flight (sq_stat sq') = -1"
proof -
  have "ring_range 2 1 0 = [1]" by (simp add: ring_range_def)
  moreover have "cqe_sq_id (cqe_of demo_work False) = 1"
    by (simp add: cqe_of_def demo_work_def request_fill_def io_req_fill_def demo_request_def)
  ultimately show ?thesis
    using consumed_completions_accounted [of "demo_dev io_worker_init" 1 demo_cq 1 0 1 demo_sq]
    by (simp add: demo_dev_def demo_cq_def demo_sq_def)
qed

section \<open>A full queue\<close>

lemma put_work_content:
  "put_work i (w_next_update (\<lambda>_. v)) k = Some k' \<Longrightarrow> content_of k' = content_of k"
  "put_work i (w_prev_update (\<lambda>_. v)) k = Some k' \<Longrightarrow> content_of k' = content_of k"
  by (auto simp: put_work_def content_of_def fun_eq_iff split: if_splits)

lemma reclaim_worker_content: "reclaim_worker k = Some k' \<Longrightarrow> content_of k' = content_of k"
  by (auto simp: reclaim_worker_def Let_def bind_eq_Some_conv split: if_splits dest!: put_work_content)

lemma full_worker_dispatch:
  assumes "get_io_worker sqid d = Some n" "queue_shape (io_workers d ! n) xs [y]"
    and "nvmev_proc_io cfg now enq sqid i d = Some (io_size, d')"
  shows "\<forall>m<length (io_workers d). content_of (io_workers d' ! m) = content_of (io_workers d ! m)"
proof -
  have g: "get_io_worker sqid (d\<lparr>io_unit_stat := st\<rparr>) = Some n" for st using assms(1) by (auto simp: get_io_worker_def split: if_splits)
  obtain st where "reclaim_completed_reqs (d\<lparr>io_unit_stat := st\<rparr>) = Some d'"
    using assms(3) enqueue_on_full [OF assms(2)]
    by (auto simp: nvmev_proc_io_def Let_def bind_eq_Some_conv enqueue_io_req_def enqueue_at_def g)
  then have "reclaim_loop (io_workers d) = Some (io_workers d')" by (auto simp: reclaim_completed_reqs_def)
  then show ?thesis using reclaim_loop_result reclaim_worker_content by blast
qed

text \<open>C37: When all but one of the entries of a worker are in use, the next command is lost: the
  dispatcher consumes it from the submission queue and counts it as in flight, but no entry of any
  worker records it, so that it is never performed and never completed.\<close>

theorem full_worker_loses_request:
  assumes sq: "sqes d sqid = Some sq" and n: "get_io_worker sqid d = Some n" "queue_shape (io_workers d ! n) xs [y]"
    and db: "0 \<le> old_db" "old_db + 1 < sq_queue_size sq"
    and run: "nvmev_proc_io_sq cfg clk sqid (old_db + 1) old_db d = Some (db, d')"
  shows "db = old_db + 1 \<and> (\<exists>sq'. sqes d' sqid = Some sq' \<and> nr_in_flight (sq_stat sq') = nr_in_flight (sq_stat sq) + 1) \<and>
     (\<forall>m<length (io_workers d). content_of (io_workers d' ! m) = content_of (io_workers d ! m))"
proof -
  obtain io_size d1 where d1: "nvmev_proc_io cfg (fst (clk 0)) (snd (clk 0)) sqid old_db d = Some (io_size, d1)"
    using run sq by (auto simp: nvmev_proc_io_sq_def bind_eq_Some_conv Let_def)
  then have "sqes d1 = sqes d" using nvmev_proc_io_steps by blast
  then show ?thesis
    using run sq d1 db full_worker_dispatch [OF n d1]
    by (auto simp: nvmev_proc_io_sq_def bind_eq_Some_conv Let_def count_dispatch_def)
qed

text \<open>A worker whose entries are all in use but the last.\<close>

definition full_worker :: nvmev_io_worker where
  "full_worker =
     \<lparr>work_queue = (\<lambda>i. zeroed_work\<lparr>w_next := if i = 16382 \<or> i = 16383 then -1 else i + 1, w_prev := i - 1\<rparr>),
      free_seq = 16383, free_seq_end = 16383, io_seq = 0, io_seq_end = 16382, latest_nsecs = 0\<rparr>"

lemma lseg_downto: "lseg (\<lambda>i. i - 1) (of_nat n - 1) (rev (map of_nat [0..<n])) (-1)"
  by (induction n) simp_all

lemma full_shape: "queue_shape full_worker (map of_nat [0..<16383]) [16383]"
proof -
  have "nx full_worker (of_nat j) = of_nat (Suc j)" if "j < 16382" for j
    using entry_neq [OF that] entry_neq [of j 16383] that by (simp add: nx_def full_worker_def add.commute)
  then have "lseg (nx full_worker) 0 (map of_nat [0..<16382]) 16382"
    using lseg_upto [of 0 16382 "nx full_worker"] by simp
  then have "lseg (nx full_worker) 0 (map of_nat [0..<16383]) (-1)"
    unfolding entries_split(2) map_append list.map by (simp add: lseg_snoc nx_def full_worker_def)
  moreover have "lseg (pv full_worker) 16382 (rev (map of_nat [0..<16383])) (-1)"
    using lseg_downto [of 16383] by (simp add: pv_def [abs_def] full_worker_def)
  moreover have "inj_on (of_nat :: nat \<Rightarrow> u32) {0..<16383}" "(16383 :: u32) \<notin> of_nat ` {0..<16383}"
    using inj_on_subset [OF entries_inj] entry_neq [of _ 16383] by auto
  moreover have "of_nat ` {0..<16383} \<union> {16383 :: u32} = {i. i < NR_MAX_PARALLEL_IO}"
    using arg_cong [OF entries_split(1), of "\<lambda>xs. of_nat ` set xs :: u32 set"] unfolding entries_set [symmetric] by simp
  ultimately show ?thesis
    unfolding queue_shape_def in_use_def by (auto simp: full_worker_def nx_def distinct_map)
qed

theorem full_worker_loses_request_witness:
  "\<exists>d'. nvmev_proc_io_sq demo_cfg (\<lambda>_. (3, 3)) 1 1 0 (demo_dev full_worker) = Some (1, d') \<and>
     (\<exists>sq'. sqes d' 1 = Some sq' \<and> nr_in_flight (sq_stat sq') = 1) \<and>
     content_of (io_workers d' ! 0) = content_of full_worker"
proof -
  let ?d = "demo_dev full_worker"
  have "shaped full_worker" using full_shape by (auto simp: shaped_def)
  then obtain d1 where "nvmev_proc_io demo_cfg 3 3 1 0 ?d = Some (512, d1)" using demo_dispatch by blast
  then have "\<exists>db d'. nvmev_proc_io_sq demo_cfg (\<lambda>_. (3, 3)) 1 1 0 ?d = Some (db, d')"
    by (simp add: nvmev_proc_io_sq_def demo_dev_def demo_sq_def)
  then obtain db d' where r: "nvmev_proc_io_sq demo_cfg (\<lambda>_. (3, 3)) 1 1 0 ?d = Some (db, d')" by blast
  then show ?thesis
    using full_worker_loses_request [of ?d 1 demo_sq 0 "map of_nat [0..<16383]" 16383 0 demo_cfg "\<lambda>_. (3, 3)" db d'] full_shape
    by (simp add: demo_dev_def demo_sq_def get_io_worker_def)
qed

end
