(* ===== verification/Channel_Model.thy ===== *)
theory Channel_Model
  imports Prelude "HOL-Library.Monad_Syntax"
begin

text \<open>
  The bandwidth model of a channel of the virtual device (\<open>lib/nvmevirt/channel_model.c\<close>).  Time is
  cut into intervals of \<open>UNIT_TIME_INTERVAL\<close> nanoseconds; a ring holds the credits that are left in
  each of the coming intervals, starting with the current one at \<open>head\<close>.  A transfer takes its
  credits from the interval of its start on, as far as the ring reaches.
\<close>

definition NR_CREDIT_ENTRIES :: nat where "NR_CREDIT_ENTRIES = 98304"
definition UNIT_TIME_INTERVAL :: u64 where "UNIT_TIME_INTERVAL = 4000"
definition UNIT_XFER_SIZE :: u64 where "UNIT_XFER_SIZE = 128"
definition UNIT_XFER_CREDITS :: u32 where "UNIT_XFER_CREDITS = 1"

record channel_model =
  ch_cur_time :: u64
  ch_head :: nat
  ch_valid_len :: nat
  ch_max_credits :: u32
  ch_command_credits :: u32
  ch_xfer_lat :: u32
  avail_credits :: "nat \<Rightarrow> u8"

text \<open>A bandwidth in megabytes per second as a transfer time per unit and as credits per interval.\<close>

definition BANDWIDTH_TO_TX_TIME :: "u64 \<Rightarrow> u64" where
  "BANDWIDTH_TO_TX_TIME mb_s = (UNIT_XFER_SIZE * 1000000000) div push_bit 20 mb_s"

definition BANDWIDTH_TO_MAX_CREDITS :: "u64 \<Rightarrow> u64" where
  "BANDWIDTH_TO_MAX_CREDITS mb_s = push_bit 20 mb_s * UNIT_TIME_INTERVAL div 1000000000 div UNIT_XFER_SIZE * ucast UNIT_XFER_CREDITS"

definition chmodel_init :: "u64 \<Rightarrow> channel_model" where
  "chmodel_init bandwidth =
     (let max_credits = ucast (BANDWIDTH_TO_MAX_CREDITS bandwidth) :: u32 in
      \<lparr>ch_cur_time = 0, ch_head = 0, ch_valid_len = 0, ch_max_credits = max_credits, ch_command_credits = 0,
       ch_xfer_lat = ucast (BANDWIDTH_TO_TX_TIME bandwidth), avail_credits = (\<lambda>_. ucast max_credits)\<rparr>)"

text \<open>The intervals that have passed get their credits back and leave the front of the ring.\<close>

definition reset_credits :: "nat \<Rightarrow> nat \<Rightarrow> u8 \<Rightarrow> (nat \<Rightarrow> u8) \<Rightarrow> nat \<Rightarrow> u8" where
  "reset_credits first n v a = (\<lambda>i. if first \<le> i \<and> i < first + n then v else a i)"

definition advance_head :: "u64 \<Rightarrow> channel_model \<Rightarrow> channel_model" where
  "advance_head cur_time ch =
     (let passed = unat (ucast (cur_time div UNIT_TIME_INTERVAL - ch_cur_time ch div UNIT_TIME_INTERVAL) :: u32);
          offs = (if passed < ch_valid_len ch then passed else ch_valid_len ch);
          v = ucast (ch_max_credits ch);
          a = (if ch_head ch + offs \<ge> NR_CREDIT_ENTRIES
               then reset_credits 0 (offs - (NR_CREDIT_ENTRIES - ch_head ch)) v
                      (reset_credits (ch_head ch) (NR_CREDIT_ENTRIES - ch_head ch) v (avail_credits ch))
               else reset_credits (ch_head ch) offs v (avail_credits ch)) in
      ch\<lparr>avail_credits := a, ch_head := (ch_head ch + offs) mod NR_CREDIT_ENTRIES, ch_cur_time := cur_time,
         ch_valid_len := ch_valid_len ch - offs\<rparr>)"

text \<open>The loop that takes the credits; the answer is the place it stops at and the delay in intervals.\<close>

partial_function (option) credit_loop ::
  "nat \<Rightarrow> (nat \<Rightarrow> u8) \<Rightarrow> nat \<Rightarrow> u32 \<Rightarrow> u32 \<Rightarrow> ((nat \<Rightarrow> u8) \<times> nat \<times> u32 \<times> u32) option" where
  "credit_loop head a pos remaining delay =
     (let consumed = (if remaining \<le> ucast (a pos) then remaining else ucast (a pos));
          a' = a(pos := a pos - ucast consumed);
          remaining' = remaining - consumed;
          next_pos = (pos + 1) mod NR_CREDIT_ENTRIES in
      if remaining' \<noteq> 0 \<and> next_pos \<noteq> head then credit_loop head a' next_pos remaining' (delay + 1)
      else Some (a', pos, remaining', delay))"

definition xfer_units :: "u64 \<Rightarrow> u32" where
  "xfer_units len = ucast ((len + UNIT_XFER_SIZE - 1) div UNIT_XFER_SIZE)"

definition start_offset :: "u64 \<Rightarrow> u64 \<Rightarrow> nat" where
  "start_offset cur_time request_time = unat (ucast (request_time div UNIT_TIME_INTERVAL - cur_time div UNIT_TIME_INTERVAL) :: u32)"

text \<open>
  A request; \<open>None\<close> is a failed assertion or a division by zero.  The model of the device has no
  credits to divide by when its bandwidth is too small.
\<close>

definition chmodel_request :: "u64 \<Rightarrow> u64 \<Rightarrow> u64 \<Rightarrow> channel_model \<Rightarrow> (u64 \<times> channel_model) option" where
  "chmodel_request cur_time request_time len ch0 =
     (let units = xfer_units len;
          ch = advance_head cur_time ch0 in
      if ch_valid_len ch > NR_CREDIT_ENTRIES then None
      else if request_time < cur_time then Some (request_time, ch)
      else let offs = start_offset cur_time request_time in
        if offs \<ge> NR_CREDIT_ENTRIES then Some (request_time, ch)
        else let credits = units * UNIT_XFER_CREDITS + ch_command_credits ch in
          if ch_max_credits ch = 0 then None
          else do { (a, pos, unmet, delay) \<leftarrow>
                      credit_loop (ch_head ch) (avail_credits ch) ((ch_head ch + offs) mod NR_CREDIT_ENTRIES) credits 0;
                    let default_delay = credits div ch_max_credits ch;
                        valid = (if pos \<ge> ch_head ch then pos - ch_head ch + 1 else NR_CREDIT_ENTRIES - (ch_head ch - pos - 1));
                        delay' = (if delay > default_delay then delay - default_delay else 0) in
                    Some (request_time + (ucast (ch_xfer_lat ch * units) + ucast delay' * UNIT_TIME_INTERVAL),
                          ch\<lparr>avail_credits := a, ch_valid_len := max (ch_valid_len ch) valid\<rparr>) })"

section \<open>What a request takes\<close>

definition channel_ok :: "channel_model \<Rightarrow> bool" where
  "channel_ok ch \<longleftrightarrow> ch_head ch < NR_CREDIT_ENTRIES \<and> ch_valid_len ch \<le> NR_CREDIT_ENTRIES \<and>
     ch_max_credits ch \<noteq> 0 \<and> ch_max_credits ch < 256 \<and> (\<forall>i. unat (avail_credits ch i) \<le> unat (ch_max_credits ch))"

text \<open>All credits of the ring, and those of \<open>n\<close> intervals from one on.\<close>

definition total_credits :: "(nat \<Rightarrow> u8) \<Rightarrow> nat" where
  "total_credits a = (\<Sum>i<NR_CREDIT_ENTRIES. unat (a i))"

fun room :: "(nat \<Rightarrow> u8) \<Rightarrow> nat \<Rightarrow> nat \<Rightarrow> nat" where
  "room a pos 0 = 0"
| "room a pos (Suc n) = unat (a (pos mod NR_CREDIT_ENTRIES)) + room a (Suc pos) n"

lemma room_update: "i < pos \<Longrightarrow> pos + n \<le> i + NR_CREDIT_ENTRIES \<Longrightarrow> room (a(i mod NR_CREDIT_ENTRIES := v)) pos n = room a pos n"
proof (induction n arbitrary: pos)
  case (Suc n)
  have "pos mod NR_CREDIT_ENTRIES \<noteq> i mod NR_CREDIT_ENTRIES"
  proof
    assume "pos mod NR_CREDIT_ENTRIES = i mod NR_CREDIT_ENTRIES"
    then have "NR_CREDIT_ENTRIES dvd pos - i" using Suc.prems by (metis less_imp_le mod_eq_dvd_iff_nat)
    then show False using Suc.prems by (auto dest: dvd_imp_le)
  qed
  then show ?case using Suc by simp
qed simp

lemma total_update:
  assumes "i < NR_CREDIT_ENTRIES" "unat v \<le> unat (a i)"
  shows "total_credits (a(i := v)) + (unat (a i) - unat v) = total_credits a"
proof -
  have "total_credits b = unat (b i) + (\<Sum>j\<in>{..<NR_CREDIT_ENTRIES} - {i}. unat (b j))" for b
    unfolding total_credits_def using assms(1) by (subst sum.remove [of _ i]) auto
  from this [of a] this [of "a(i := v)"] show ?thesis using assms(2) by simp
qed

lemma consumed_credits:
  fixes r :: u32 and c :: u8
  defines "k \<equiv> if r \<le> ucast c then r else ucast c"
  shows "unat k = min (unat r) (unat c)" "unat (c - ucast k) = unat c - unat k" "unat (r - k) = unat r - unat k"
proof -
  have c: "unat (ucast c :: u32) = unat c" 
    using unat_byte [of c] by (simp add: unsigned_ucast_eq take_bit_nat_eq_self)
  show k: "unat k = min (unat r) (unat c)" unfolding k_def using c by (auto simp: word_le_nat_alt)
  have "unat (ucast k :: u8) = unat k" using k unat_byte [of c] by (simp add: unsigned_ucast_eq take_bit_nat_eq_self)
  then show "unat (c - ucast k) = unat c - unat k" using k by (subst unat_sub) (auto simp: word_le_nat_alt)
  show "unat (r - k) = unat r - unat k" using k by (subst unat_sub) (auto simp: word_le_nat_alt)
qed

lemma next_place:
  assumes "head < NR_CREDIT_ENTRIES" "pos = head + (NR_CREDIT_ENTRIES - n)" "0 < n" "n \<le> NR_CREDIT_ENTRIES"
  shows "(pos mod NR_CREDIT_ENTRIES + 1) mod NR_CREDIT_ENTRIES = Suc pos mod NR_CREDIT_ENTRIES"
    and "Suc pos mod NR_CREDIT_ENTRIES = head \<longleftrightarrow> n = 1"
proof -
  show "(pos mod NR_CREDIT_ENTRIES + 1) mod NR_CREDIT_ENTRIES = Suc pos mod NR_CREDIT_ENTRIES" by (simp add: mod_Suc_eq)
  have e: "Suc pos = head + (NR_CREDIT_ENTRIES - (n - 1))" using assms by simp
  have "(head + m) mod NR_CREDIT_ENTRIES = head \<longleftrightarrow> m = 0 \<or> m = NR_CREDIT_ENTRIES" if "m \<le> NR_CREDIT_ENTRIES" for m
  proof (cases "head + m < NR_CREDIT_ENTRIES")
    case False
    then have "(head + m) mod NR_CREDIT_ENTRIES = head + m - NR_CREDIT_ENTRIES"
      using that assms(1) by (subst mod_if) (simp add: mod_less)
    then show ?thesis using False that assms(1) by auto
  qed (use that in auto)
  from this [of "NR_CREDIT_ENTRIES - (n - 1)"] show "Suc pos mod NR_CREDIT_ENTRIES = head \<longleftrightarrow> n = 1"
    using assms(3,4) unfolding e by auto
qed

lemma credit_loop_result:
  assumes "head < NR_CREDIT_ENTRIES" "pos = head + (NR_CREDIT_ENTRIES - n)" "0 < n" "n \<le> NR_CREDIT_ENTRIES"
  shows "\<exists>a' j unmet delay'. credit_loop head a (pos mod NR_CREDIT_ENTRIES) r delay = Some (a', (pos + j) mod NR_CREDIT_ENTRIES, unmet, delay') \<and>
     total_credits a' + min (unat r) (room a pos n) = total_credits a \<and> unat unmet = unat r - room a pos n \<and>
     (\<forall>i. unat (a' i) \<le> unat (a i))"
  using assms
proof (induction n arbitrary: pos a r delay)
  case (Suc n)
  let ?p = "pos mod NR_CREDIT_ENTRIES"
  define c k where "c = a ?p" and "k = (if r \<le> ucast c then r else ucast c)"
  define a1 where "a1 = a(?p := c - ucast k)"
  note cc = consumed_credits [where r = r and c = c, folded k_def]
  have p: "?p < NR_CREDIT_ENTRIES" by (simp add: NR_CREDIT_ENTRIES_def)
  have t: "total_credits a1 + unat k = total_credits a"
    using total_update [OF p, of "c - ucast k" a] cc unfolding a1_def c_def by simp
  have le: "unat (a1 i) \<le> unat (a i)" for i using cc by (simp add: a1_def c_def)
  note np = next_place [OF Suc.prems]
  have step: "credit_loop head a ?p r delay =
      (if r - k \<noteq> 0 \<and> n \<noteq> 0 then credit_loop head a1 (Suc pos mod NR_CREDIT_ENTRIES) (r - k) (delay + 1) else Some (a1, ?p, r - k, delay))"
    by (subst credit_loop.simps) (simp only: Let_def np(1) c_def [symmetric] k_def [symmetric] a1_def [symmetric],
        simp only: np(2) One_nat_def nat.inject simp_thms)
  show ?case
  proof (cases "r - k \<noteq> 0 \<and> n \<noteq> 0")
    case True
    then have rk: "unat r - unat k \<noteq> 0" using cc(3) by (metis unat_eq_0)
    have "Suc pos = head + (NR_CREDIT_ENTRIES - n)" using Suc.prems by simp
    from Suc.IH [OF Suc.prems(1) this, of a1 "r - k" "delay + 1"] True Suc.prems(4)
    obtain a' j unmet delay' where IH: "credit_loop head a1 (Suc pos mod NR_CREDIT_ENTRIES) (r - k) (delay + 1) = Some (a', (Suc pos + j) mod NR_CREDIT_ENTRIES, unmet, delay')"
      "total_credits a' + min (unat (r - k)) (room a1 (Suc pos) n) = total_credits a1" "unat unmet = unat (r - k) - room a1 (Suc pos) n"
      "\<forall>i. unat (a' i) \<le> unat (a1 i)"
      by auto
    have rm: "room a1 (Suc pos) n = room a (Suc pos) n"
      unfolding a1_def using Suc.prems by (intro room_update) simp_all
    have k: "unat k = unat c" using rk cc(1) by simp
    have lp: "credit_loop head a ?p r delay = Some (a', (pos + Suc j) mod NR_CREDIT_ENTRIES, unmet, delay')"
      using IH(1) True step by simp
    have "total_credits a' + min (unat r) (unat c + room a (Suc pos) n) = total_credits a"
      using IH(2) t k cc(3) rk unfolding rm by linarith
    moreover have "unat unmet = unat r - (unat c + room a (Suc pos) n)" using IH(3) cc(3) k unfolding rm by simp
    moreover have "\<forall>i. unat (a' i) \<le> unat (a i)" using IH(4) le order_trans by blast
    ultimately show ?thesis
      using lp by (intro exI [of _ a'] exI [of _ "Suc j"] exI [of _ unmet] exI [of _ delay']) (simp add: c_def)
  next
    case False
    then have l: "credit_loop head a ?p r delay = Some (a1, (pos + 0) mod NR_CREDIT_ENTRIES, r - k, delay)"
      using step False by auto
    have "unat r - unat k = unat r - (unat c + room a (Suc pos) n) \<and> unat k = min (unat r) (unat c + room a (Suc pos) n)"
    proof (cases "n = 0")
      case True
      then show ?thesis using cc(1) by auto
    next
      case n: False
      then have "unat k = unat r" using False by auto
      then show ?thesis using cc(1) by (auto simp: min_def split: if_splits)
    qed
    then show ?thesis
      using l t le cc(3) by (intro exI [of _ a1] exI [of _ 0] exI [of _ "r - k"] exI [of _ delay]) (simp add: c_def)
  qed
qed simp

lemma advance_head_ok:
  assumes "channel_ok ch"
  shows "channel_ok (advance_head now ch)"
proof -
  have "unat (ucast (ch_max_credits ch) :: u8) = unat (ch_max_credits ch)"
    using assms by (simp add: channel_ok_def unsigned_ucast_eq take_bit_nat_eq_self word_less_nat_alt)
  then show ?thesis
    using assms by (auto simp: channel_ok_def advance_head_def Let_def reset_credits_def NR_CREDIT_ENTRIES_def)
qed



end
