(* ===== verification/Ssd.thy ===== *)
theory Ssd
  imports Channel_Model
begin

text \<open>
  The timing model of the flash device behind the zoned translation layer (\<open>lib/nvmevirt/ssd.c\<close>): the
  write buffers, the dies with the times at which they are free again, and the channels and the
  host link with their bandwidth.  The clock is an argument.  \<open>None\<close> is a failed assertion, a
  division by zero, an access outside an array or a loop that does not end.
\<close>

section \<open>Write buffers\<close>

record buffer =
  buf_size :: size_t
  buf_remaining :: size_t

definition buffer_init :: "size_t \<Rightarrow> buffer" where
  "buffer_init n = \<lparr>buf_size = n, buf_remaining = n\<rparr>"

definition buffer_allocate :: "size_t \<Rightarrow> buffer \<Rightarrow> (u32 \<times> buffer) option" where
  "buffer_allocate n buf =
     (if n > buf_size buf then None
      else let k = (if buf_remaining buf < n then 0 else n) in
        Some (ucast k, buf\<lparr>buf_remaining := buf_remaining buf - k\<rparr>))"

definition buffer_release :: "size_t \<Rightarrow> buffer \<Rightarrow> buffer" where
  "buffer_release n buf = buf\<lparr>buf_remaining := buf_remaining buf + n\<rparr>"

definition buffer_refill :: "buffer \<Rightarrow> buffer" where
  "buffer_refill buf = buf\<lparr>buf_remaining := buf_size buf\<rparr>"

section \<open>Parameters\<close>

text \<open>The macros of \<open>ssd_config.h\<close> that the parameters are computed from.\<close>

record ssd_config =
  LBA_SIZE :: nat
  NAND_CHANNELS :: nat
  LUNS_PER_NAND_CH :: nat
  CELL_MODE :: nat
  FLASH_PAGE_SIZE :: nat
  ONESHOT_PAGE_SIZE :: nat
  WRITE_UNIT_SIZE :: nat
  NAND_4KB_READ_LATENCY :: "u64 list"
  NAND_READ_LATENCY :: "u64 list"
  NAND_PROG_LATENCY :: u64
  NAND_ERASE_LATENCY :: u64
  MAX_CH_XFER_SIZE :: nat
  FW_4KB_READ_LATENCY :: u64
  FW_READ_LATENCY :: u64
  FW_CH_XFER_LATENCY :: u64
  FW_WBUF_LATENCY0 :: u64
  FW_WBUF_LATENCY1 :: u64
  NAND_CHANNEL_BANDWIDTH :: u64
  PCIE_BANDWIDTH :: u64
  GLOBAL_WB_SIZE :: size_t
  WRITE_EARLY_COMPLETION :: bool

text \<open>
  The parameters that the zoned layer and the timing use.  The number and the size of the blocks of
  a plane, which depend on the capacity, and what is computed from them are only used by the
  translation layer for block devices and are left out.
\<close>

record ssdparams =
  secsz :: nat
  secs_per_pg :: nat
  pgsz :: nat
  pgs_per_flashpg :: nat
  pgs_per_oneshotpg :: nat
  luns_per_ch :: nat
  nchs :: nat
  tt_luns :: nat
  cell_mode :: nat
  write_unit_size :: nat
  write_early_completion :: bool
  pg_4kb_rd_lat :: "u64 list"
  pg_rd_lat :: "u64 list"
  pg_wr_lat :: u64
  blk_er_lat :: u64
  max_ch_xfer_size :: nat
  fw_4kb_rd_lat :: u64
  fw_rd_lat :: u64
  fw_wbuf_lat0 :: u64
  fw_wbuf_lat1 :: u64
  fw_ch_xfer_lat :: u64
  ch_bandwidth :: u64
  pcie_bandwidth :: u64
  write_buffer_size :: size_t

definition ssd_init_params :: "ssd_config \<Rightarrow> nat \<Rightarrow> ssdparams option" where
  "ssd_init_params cfg nparts =
     (let secs = 4096 div LBA_SIZE cfg; pg = LBA_SIZE cfg * secs; chs = NAND_CHANNELS cfg div nparts in
      if nparts = 0 \<or> LBA_SIZE cfg = 0 \<or> pg = 0 \<or> NAND_CHANNELS cfg mod nparts \<noteq> 0 \<or>
         ONESHOT_PAGE_SIZE cfg mod pg \<noteq> 0 \<or> FLASH_PAGE_SIZE cfg mod pg \<noteq> 0 \<or> FLASH_PAGE_SIZE cfg = 0 \<or>
         ONESHOT_PAGE_SIZE cfg mod FLASH_PAGE_SIZE cfg \<noteq> 0
      then None
      else Some
        \<lparr>secsz = LBA_SIZE cfg, secs_per_pg = secs, pgsz = pg, pgs_per_flashpg = FLASH_PAGE_SIZE cfg div pg,
         pgs_per_oneshotpg = ONESHOT_PAGE_SIZE cfg div pg, luns_per_ch = LUNS_PER_NAND_CH cfg, nchs = chs,
         tt_luns = LUNS_PER_NAND_CH cfg * chs, cell_mode = CELL_MODE cfg, write_unit_size = WRITE_UNIT_SIZE cfg,
         write_early_completion = WRITE_EARLY_COMPLETION cfg, pg_4kb_rd_lat = NAND_4KB_READ_LATENCY cfg,
         pg_rd_lat = NAND_READ_LATENCY cfg, pg_wr_lat = NAND_PROG_LATENCY cfg, blk_er_lat = NAND_ERASE_LATENCY cfg,
         max_ch_xfer_size = MAX_CH_XFER_SIZE cfg, fw_4kb_rd_lat = FW_4KB_READ_LATENCY cfg,
         fw_rd_lat = FW_READ_LATENCY cfg, fw_wbuf_lat0 = FW_WBUF_LATENCY0 cfg, fw_wbuf_lat1 = FW_WBUF_LATENCY1 cfg,
         fw_ch_xfer_lat = FW_CH_XFER_LATENCY cfg, ch_bandwidth = NAND_CHANNEL_BANDWIDTH cfg,
         pcie_bandwidth = PCIE_BANDWIDTH cfg, write_buffer_size = GLOBAL_WB_SIZE cfg\<rparr>)"

section \<open>The device\<close>

text \<open>A die is known by the time at which it is free again.\<close>

record ssd_channel =
  ch_luns :: "u64 list"
  ch_perf_model :: channel_model

record ssd =
  sp :: ssdparams
  ssd_ch :: "ssd_channel list"
  ssd_pcie :: channel_model
  ssd_write_buffer :: buffer

definition ssd_init_ch :: "ssdparams \<Rightarrow> ssd_channel" where
  "ssd_init_ch spp =
     (let m = chmodel_init (ch_bandwidth spp) in
      \<lparr>ch_luns = replicate (luns_per_ch spp) 0,
       ch_perf_model = m\<lparr>ch_xfer_lat := ch_xfer_lat m + ucast (fw_ch_xfer_lat spp * UNIT_XFER_SIZE div 4096)\<rparr>\<rparr>)"

definition ssd_init :: "ssdparams \<Rightarrow> ssd" where
  "ssd_init spp =
     \<lparr>sp = spp, ssd_ch = replicate (nchs spp) (ssd_init_ch spp), ssd_pcie = chmodel_init (pcie_bandwidth spp),
      ssd_write_buffer = buffer_init (write_buffer_size spp)\<rparr>"

definition ssd_advance_pcie :: "u64 \<Rightarrow> u64 \<Rightarrow> u64 \<Rightarrow> ssd \<Rightarrow> (u64 \<times> ssd) option" where
  "ssd_advance_pcie clk request_time len s =
     do { (t, m) \<leftarrow> chmodel_request clk request_time len (ssd_pcie s); Some (t, s\<lparr>ssd_pcie := m\<rparr>) }"

definition ssd_advance_write_buffer :: "u64 \<Rightarrow> u64 \<Rightarrow> u64 \<Rightarrow> ssd \<Rightarrow> (u64 \<times> ssd) option" where
  "ssd_advance_write_buffer clk request_time len s =
     ssd_advance_pcie clk
       (request_time + fw_wbuf_lat0 (sp s) + fw_wbuf_lat1 (sp s) * ((len + 4095) div 4096)) len s"

datatype nand_op = NAND_READ | NAND_WRITE | NAND_ERASE | NAND_NOP

text \<open>
  A physical page address, as far as it is used; its fields have the widths of the bit fields.  The
  other fields are zero in the addresses of the zoned layer, so none of them is the address that
  stands for an unmapped page.
\<close>

record ppa =
  ppa_ch :: nat
  ppa_lun :: nat
  ppa_pg :: nat

record nand_cmd =
  nc_cmd :: nand_op
  nc_xfer_size :: u64
  nc_stime :: u64
  nc_interleave :: bool
  nc_ppa :: ppa

definition get_cell :: "ssd \<Rightarrow> ppa \<Rightarrow> nat option" where
  "get_cell s p =
     (if pgs_per_flashpg (sp s) = 0 \<or> cell_mode (sp s) = 0 then None
      else Some (ppa_pg p div pgs_per_flashpg (sp s) mod cell_mode (sp s)))"

text \<open>
  The transfer of what a die has read, in parts; the answer is the end of the last transfer on the
  channel and the time at which the last part has reached the host.
\<close>

function read_xfer_loop :: "u64 \<Rightarrow> bool \<Rightarrow> nat \<Rightarrow> nat \<Rightarrow> u64 \<Rightarrow> u64 \<times> u64 \<Rightarrow> ssd \<Rightarrow> ((u64 \<times> u64) \<times> ssd) option" where
  "read_xfer_loop clk interleave c remaining chnl_stime ends s =
     (if remaining = 0 then Some (ends, s)
      else if max_ch_xfer_size (sp s) = 0 then None
      else let n = min remaining (max_ch_xfer_size (sp s)); ch = ssd_ch s ! c in
        case chmodel_request clk chnl_stime (of_nat n) (ch_perf_model ch) of
          None \<Rightarrow> None
        | Some (etime, m) \<Rightarrow>
            let s1 = s\<lparr>ssd_ch := (ssd_ch s)[c := ch\<lparr>ch_perf_model := m\<rparr>]\<rparr> in
            case (if interleave then ssd_advance_pcie clk etime (of_nat n) s1 else Some (etime, s1)) of
              None \<Rightarrow> None
            | Some (completed, s2) \<Rightarrow>
                read_xfer_loop clk interleave c (remaining - n) etime (etime, completed) s2)"
  by pat_completeness auto
termination
  by (relation "measure (\<lambda>(clk, interleave, c, remaining, chnl_stime, ends, s). remaining)") auto

declare read_xfer_loop.simps [simp del]

definition set_lun :: "nat \<Rightarrow> nat \<Rightarrow> u64 \<Rightarrow> ssd \<Rightarrow> ssd" where
  "set_lun c l t s =
     (let ch = ssd_ch s ! c in s\<lparr>ssd_ch := (ssd_ch s)[c := ch\<lparr>ch_luns := (ch_luns ch)[l := t]\<rparr>]\<rparr>)"

definition ssd_advance_nand :: "u64 \<Rightarrow> nand_cmd \<Rightarrow> ssd \<Rightarrow> (u64 \<times> ssd) option" where
  "ssd_advance_nand clk ncmd s =
     (let p = nc_ppa ncmd; c = ppa_ch p; l = ppa_lun p;
          stime = (if nc_stime ncmd = 0 then clk else nc_stime ncmd) in
      if c \<ge> length (ssd_ch s) \<or> l \<ge> length (ch_luns (ssd_ch s ! c)) then None
      else let ch = ssd_ch s ! c; start = max (ch_luns ch ! l) stime in
        do { cell \<leftarrow> get_cell s p;
             case nc_cmd ncmd of
               NAND_READ \<Rightarrow>
                 if cell \<ge> length (pg_rd_lat (sp s)) \<or> cell \<ge> length (pg_4kb_rd_lat (sp s)) \<or> nc_xfer_size ncmd = 0 then None
                 else let etime = start + (if nc_xfer_size ncmd = 4096 then pg_4kb_rd_lat (sp s) ! cell else pg_rd_lat (sp s) ! cell) in
                   do { ((chnl_etime, completed), s) \<leftarrow>
                          read_xfer_loop clk (nc_interleave ncmd) c (unat (nc_xfer_size ncmd)) etime (0, 0) s;
                        Some (completed, set_lun c l chnl_etime s) }
             | NAND_WRITE \<Rightarrow>
                 do { (chnl_etime, m) \<leftarrow> chmodel_request clk start (nc_xfer_size ncmd) (ch_perf_model ch);
                      let etime = chnl_etime + pg_wr_lat (sp s) in
                      Some (etime, set_lun c l etime (s\<lparr>ssd_ch := (ssd_ch s)[c := ch\<lparr>ch_perf_model := m\<rparr>]\<rparr>)) }
             | NAND_ERASE \<Rightarrow> Some (start + blk_er_lat (sp s), set_lun c l (start + blk_er_lat (sp s)) s)
             | NAND_NOP \<Rightarrow> Some (start, set_lun c l start s) })"

definition ssd_next_idle_time :: "u64 \<Rightarrow> ssd \<Rightarrow> u64" where
  "ssd_next_idle_time clk s = foldl max clk (concat (map ch_luns (ssd_ch s)))"

end
