(* ===== verification/Zns.thy ===== *)
theory Zns
  imports Ssd
begin

text \<open>
  The zoned translation layer of the virtual device (\<open>zns_ftl.c\<close>, \<open>zns_read_write.c\<close>,
  \<open>zns_mgmt_send.c\<close>, \<open>zns_mgmt_recv.c\<close> of \<open>lib/nvmevirt\<close>): zones with their state and write pointer,
  the resources that open and active zones take, write buffers, and the times that the flash takes.
  \<open>None\<close> is a failed assertion, a division by zero or an access outside an array.
\<close>

section \<open>Status codes\<close>

definition NVME_SC_INVALID_FIELD :: u32 where "NVME_SC_INVALID_FIELD = 2"
definition NVME_SC_ZNS_INVALID_ZONE_OPERATION :: u32 where "NVME_SC_ZNS_INVALID_ZONE_OPERATION = 0x1B6"
definition NVME_SC_ZNS_ZRWA_RSRC_UNAVAIL :: u32 where "NVME_SC_ZNS_ZRWA_RSRC_UNAVAIL = 0x1B7"
definition NVME_SC_ZNS_ERR_BOUNDARY :: u32 where "NVME_SC_ZNS_ERR_BOUNDARY = 0x1B8"
definition NVME_SC_ZNS_ERR_FULL :: u32 where "NVME_SC_ZNS_ERR_FULL = 0x1B9"
definition NVME_SC_ZNS_ERR_READ_ONLY :: u32 where "NVME_SC_ZNS_ERR_READ_ONLY = 0x1BA"
definition NVME_SC_ZNS_ERR_OFFLINE :: u32 where "NVME_SC_ZNS_ERR_OFFLINE = 0x1BB"
definition NVME_SC_ZNS_INVALID_WRITE :: u32 where "NVME_SC_ZNS_INVALID_WRITE = 0x1BC"
definition NVME_SC_ZNS_NO_ACTIVE_ZONE :: u32 where "NVME_SC_ZNS_NO_ACTIVE_ZONE = 0x1BD"
definition NVME_SC_ZNS_NO_OPEN_ZONE :: u32 where "NVME_SC_ZNS_NO_OPEN_ZONE = 0x1BE"
definition NVME_SC_ZNS_INVALID_TRANSITION :: u32 where "NVME_SC_ZNS_INVALID_TRANSITION = 0x1BF"

lemmas zns_status_defs = NVME_SC_INVALID_FIELD_def NVME_SC_ZNS_INVALID_ZONE_OPERATION_def NVME_SC_ZNS_ZRWA_RSRC_UNAVAIL_def
  NVME_SC_ZNS_ERR_BOUNDARY_def NVME_SC_ZNS_ERR_FULL_def NVME_SC_ZNS_ERR_READ_ONLY_def NVME_SC_ZNS_ERR_OFFLINE_def
  NVME_SC_ZNS_INVALID_WRITE_def NVME_SC_ZNS_NO_ACTIVE_ZONE_def NVME_SC_ZNS_NO_OPEN_ZONE_def NVME_SC_ZNS_INVALID_TRANSITION_def

section \<open>State\<close>

datatype zone_state =
    ZONE_STATE_EMPTY
  | ZONE_STATE_OPENED_IMPL
  | ZONE_STATE_OPENED_EXPL
  | ZONE_STATE_CLOSED
  | ZONE_STATE_READ_ONLY
  | ZONE_STATE_FULL
  | ZONE_STATE_OFFLINE

datatype zone_resource_type = ACTIVE_ZONE | OPEN_ZONE | ZRWA_ZONE

record zone_descriptor =
  zd_type :: u8
  zd_state :: zone_state
  zd_zrwav :: bool
  zone_capacity :: u64
  zslba :: u64
  zd_wp :: u64

text \<open>The parameters are 32-bit numbers.\<close>

record znsparams =
  nr_zones :: nat
  nr_active_zones :: nat
  nr_open_zones :: nat
  dies_per_zone :: nat
  zone_size :: nat
  zone_wb_size :: nat
  nr_zrwa_zones :: nat
  zrwafg_size :: nat
  zrwa_size :: nat
  zrwa_buffer_size :: nat
  lbas_per_zrwafg :: nat
  lbas_per_zrwa :: nat

record zone_resource_info =
  acquired_cnt :: u32
  total_cnt :: u32

record zns_ftl =
  zf_ssd :: ssd
  zp :: znsparams
  res_infos :: "zone_resource_type \<Rightarrow> zone_resource_info"
  zone_descs :: "zone_descriptor list"
  zone_write_buffer :: "buffer list"
  zrwa_buffer :: "buffer list"
  zf_storage :: "nat \<Rightarrow> byte"

definition is_zone_resource_avail :: "zone_resource_type \<Rightarrow> zns_ftl \<Rightarrow> bool" where
  "is_zone_resource_avail r d \<longleftrightarrow> acquired_cnt (res_infos d r) < total_cnt (res_infos d r)"

definition is_zone_resource_full :: "zone_resource_type \<Rightarrow> zns_ftl \<Rightarrow> bool" where
  "is_zone_resource_full r d \<longleftrightarrow> acquired_cnt (res_infos d r) = total_cnt (res_infos d r)"

definition acquire_zone_resource :: "zone_resource_type \<Rightarrow> zns_ftl \<Rightarrow> bool \<times> zns_ftl" where
  "acquire_zone_resource r d =
     (if is_zone_resource_avail r d
      then (True, d\<lparr>res_infos := (res_infos d)(r := (res_infos d r)\<lparr>acquired_cnt := acquired_cnt (res_infos d r) + 1\<rparr>)\<rparr>)
      else (False, d))"

text \<open>The assertion of the source is compiled away.\<close>

definition release_zone_resource :: "zone_resource_type \<Rightarrow> zns_ftl \<Rightarrow> zns_ftl" where
  "release_zone_resource r d =
     d\<lparr>res_infos := (res_infos d)(r := (res_infos d r)\<lparr>acquired_cnt := acquired_cnt (res_infos d r) - 1\<rparr>)\<rparr>"

definition zone_at :: "nat \<Rightarrow> zns_ftl \<Rightarrow> zone_descriptor option" where
  "zone_at zid d = (if zid < length (zone_descs d) then Some (zone_descs d ! zid) else None)"

definition update_zone :: "nat \<Rightarrow> (zone_descriptor \<Rightarrow> zone_descriptor) \<Rightarrow> zns_ftl \<Rightarrow> zns_ftl" where
  "update_zone zid f d = d\<lparr>zone_descs := (zone_descs d)[zid := f (zone_descs d ! zid)]\<rparr>"

definition change_zone_state :: "nat \<Rightarrow> zone_state \<Rightarrow> zns_ftl \<Rightarrow> zns_ftl" where
  "change_zone_state zid st d = update_zone zid (zd_state_update (\<lambda>_. st)) d"

section \<open>Addresses\<close>

text \<open>
  The number of blocks of a zone, which is not zero because a zone holds whole pages; the start of
  a zone is computed with 32 bits.
\<close>

definition zone_lbas :: "zns_ftl \<Rightarrow> nat" where
  "zone_lbas d = zone_size (zp d) div secsz (sp (zf_ssd d))"

definition lba_to_zone :: "u64 \<Rightarrow> zns_ftl \<Rightarrow> nat" where
  "lba_to_zone lba d = unat (ucast (lba div of_nat (zone_lbas d)) :: u32)"

definition zone_to_slba :: "nat \<Rightarrow> zns_ftl \<Rightarrow> u64" where
  "zone_to_slba zid d = ucast ((of_nat zid :: u32) * of_nat (zone_lbas d))"

definition zone_to_elba :: "nat \<Rightarrow> zns_ftl \<Rightarrow> u64" where
  "zone_to_elba zid d = zone_to_slba (zid + 1) d - 1"

definition lba_to_lpn :: "u64 \<Rightarrow> zns_ftl \<Rightarrow> u64" where
  "lba_to_lpn lba d = lba div of_nat (secs_per_pg (sp (zf_ssd d)))"

definition zone_to_elpn :: "nat \<Rightarrow> zns_ftl \<Rightarrow> u64" where
  "zone_to_elpn zid d = lba_to_lpn (zone_to_elba zid d) d"

definition zone_lpns :: "zns_ftl \<Rightarrow> nat" where
  "zone_lpns d = zone_size (zp d) div pgsz (sp (zf_ssd d))"

definition lpn_to_zone :: "u64 \<Rightarrow> zns_ftl \<Rightarrow> nat" where
  "lpn_to_zone lpn d = unat (ucast (lpn div of_nat (zone_lpns d)) :: u32)"

definition zone_to_slpn :: "nat \<Rightarrow> zns_ftl \<Rightarrow> u64" where
  "zone_to_slpn zid d = ucast ((of_nat zid :: u32) * of_nat (zone_lpns d))"

definition die_to_channel :: "nat \<Rightarrow> zns_ftl \<Rightarrow> nat" where
  "die_to_channel die d = die mod nchs (sp (zf_ssd d))"

definition die_to_lun :: "nat \<Rightarrow> zns_ftl \<Rightarrow> nat" where
  "die_to_lun die d = die div nchs (sp (zf_ssd d))"

definition LBA_TO_BYTE :: "u64 \<Rightarrow> u64" where
  "LBA_TO_BYTE lba = push_bit 9 lba"

text \<open>The die of a page; a parameter that is zero makes one of the divisions fail.\<close>

definition lpn_to_ppa :: "u64 \<Rightarrow> zns_ftl \<Rightarrow> ppa option" where
  "lpn_to_ppa lpn d =
     (let spp = sp (zf_ssd d) in
      if zone_lpns d = 0 \<or> tt_luns spp = 0 \<or> pgs_per_oneshotpg spp = 0 \<or> dies_per_zone (zp d) = 0 \<or> nchs spp = 0 then None
      else let zone = lpn_to_zone lpn d;
               off = unat (lpn - zone_to_slpn zone d);
               sdie = zone * dies_per_zone (zp d) mod tt_luns spp mod 2 ^ 32;
               die = (sdie + off div pgs_per_oneshotpg spp mod dies_per_zone (zp d)) mod 2 ^ 32 in
        Some \<lparr>ppa_ch = die_to_channel die d mod 256, ppa_lun = die_to_lun die d mod 256,
              ppa_pg = off mod pgs_per_oneshotpg spp mod 65536\<rparr>)"

section \<open>Zone management\<close>

definition zmgmt_send_close_zone :: "nat \<Rightarrow> zns_ftl \<Rightarrow> (u32 \<times> zns_ftl) option" where
  "zmgmt_send_close_zone zid d =
     do { z \<leftarrow> zone_at zid d;
          Some (case zd_state z of
                  ZONE_STATE_OPENED_IMPL \<Rightarrow> (0, release_zone_resource OPEN_ZONE (change_zone_state zid ZONE_STATE_CLOSED d))
                | ZONE_STATE_OPENED_EXPL \<Rightarrow> (0, release_zone_resource OPEN_ZONE (change_zone_state zid ZONE_STATE_CLOSED d))
                | ZONE_STATE_CLOSED \<Rightarrow> (0, d)
                | _ \<Rightarrow> (NVME_SC_ZNS_INVALID_TRANSITION, d)) }"

text \<open>The resources of a zone that stops being active, \<open>opened\<close> if it was open.\<close>

definition release_active :: "bool \<Rightarrow> bool \<Rightarrow> zns_ftl \<Rightarrow> zns_ftl" where
  "release_active opened is_zrwa_zone d =
     (let d1 = (if opened then release_zone_resource OPEN_ZONE d else d);
          d2 = release_zone_resource ACTIVE_ZONE d1 in
      if is_zrwa_zone then release_zone_resource ZRWA_ZONE d2 else d2)"

definition zmgmt_send_finish_zone :: "nat \<Rightarrow> zns_ftl \<Rightarrow> (u32 \<times> zns_ftl) option" where
  "zmgmt_send_finish_zone zid d =
     do { z \<leftarrow> zone_at zid d;
          Some (case zd_state z of
                  ZONE_STATE_OPENED_IMPL \<Rightarrow> (0, change_zone_state zid ZONE_STATE_FULL (release_active True (zd_zrwav z) d))
                | ZONE_STATE_OPENED_EXPL \<Rightarrow> (0, change_zone_state zid ZONE_STATE_FULL (release_active True (zd_zrwav z) d))
                | ZONE_STATE_CLOSED \<Rightarrow> (0, change_zone_state zid ZONE_STATE_FULL (release_active False (zd_zrwav z) d))
                | ZONE_STATE_EMPTY \<Rightarrow> (0, change_zone_state zid ZONE_STATE_FULL d)
                | ZONE_STATE_FULL \<Rightarrow> (0, d)
                | _ \<Rightarrow> (NVME_SC_ZNS_INVALID_TRANSITION, d)) }"

text \<open>The end of an opening, for a zone that is active already.\<close>

definition open_active :: "nat \<Rightarrow> zns_ftl \<Rightarrow> u32 \<times> zns_ftl" where
  "open_active zid d =
     (case acquire_zone_resource OPEN_ZONE d of
        (False, d) \<Rightarrow> (NVME_SC_ZNS_NO_OPEN_ZONE, d)
      | (True, d) \<Rightarrow> (0, change_zone_state zid ZONE_STATE_OPENED_EXPL d))"

definition zmgmt_send_open_zone :: "nat \<Rightarrow> bool \<Rightarrow> zns_ftl \<Rightarrow> (u32 \<times> zns_ftl) option" where
  "zmgmt_send_open_zone zid zrwa d =
     do { z \<leftarrow> zone_at zid d;
          Some (case zd_state z of
                  ZONE_STATE_EMPTY \<Rightarrow>
                    if is_zone_resource_full ACTIVE_ZONE d then (NVME_SC_ZNS_NO_ACTIVE_ZONE, d)
                    else if is_zone_resource_full OPEN_ZONE d then (NVME_SC_ZNS_NO_OPEN_ZONE, d)
                    else if zrwa \<and> is_zone_resource_full ZRWA_ZONE d then (NVME_SC_ZNS_ZRWA_RSRC_UNAVAIL, d)
                    else let d1 = (if zrwa then update_zone zid (zd_zrwav_update (\<lambda>_. True)) (snd (acquire_zone_resource ZRWA_ZONE d)) else d)
                         in open_active zid (snd (acquire_zone_resource ACTIVE_ZONE d1))
                | ZONE_STATE_CLOSED \<Rightarrow> open_active zid d
                | ZONE_STATE_OPENED_IMPL \<Rightarrow> (0, change_zone_state zid ZONE_STATE_OPENED_EXPL d)
                | ZONE_STATE_OPENED_EXPL \<Rightarrow> (0, d)
                | _ \<Rightarrow> (NVME_SC_ZNS_INVALID_TRANSITION, d)) }"

definition reset_zone :: "nat \<Rightarrow> zns_ftl \<Rightarrow> zns_ftl option" where
  "reset_zone zid d =
     (let d1 = update_zone zid (\<lambda>z. z\<lparr>zd_wp := zslba z, zd_zrwav := False\<rparr>)
                 (d\<lparr>zf_storage := (\<lambda>a. if zid * zone_size (zp d) \<le> a \<and> a < (zid + 1) * zone_size (zp d) then 0 else zf_storage d a)\<rparr>) in
      if zrwa_buffer_size (zp d) = 0 then Some d1
      else if zid \<ge> length (zrwa_buffer d) then None
      else Some (d1\<lparr>zrwa_buffer := (zrwa_buffer d)[zid := buffer_refill (zrwa_buffer d ! zid)]\<rparr>))"

definition zmgmt_send_reset_zone :: "nat \<Rightarrow> zns_ftl \<Rightarrow> (u32 \<times> zns_ftl) option" where
  "zmgmt_send_reset_zone zid d =
     do { z \<leftarrow> zone_at zid d;
          let to_empty = (\<lambda>d. map_option (Pair 0) (reset_zone zid (change_zone_state zid ZONE_STATE_EMPTY d))) in
          case zd_state z of
            ZONE_STATE_OPENED_IMPL \<Rightarrow> to_empty (release_active True (zd_zrwav z) d)
          | ZONE_STATE_OPENED_EXPL \<Rightarrow> to_empty (release_active True (zd_zrwav z) d)
          | ZONE_STATE_CLOSED \<Rightarrow> to_empty (release_active False (zd_zrwav z) d)
          | ZONE_STATE_FULL \<Rightarrow> to_empty d
          | ZONE_STATE_EMPTY \<Rightarrow> to_empty d
          | _ \<Rightarrow> Some (NVME_SC_ZNS_INVALID_TRANSITION, d) }"

definition zmgmt_send_offline_zone :: "nat \<Rightarrow> zns_ftl \<Rightarrow> (u32 \<times> zns_ftl) option" where
  "zmgmt_send_offline_zone zid d =
     do { z \<leftarrow> zone_at zid d;
          Some (case zd_state z of
                  ZONE_STATE_READ_ONLY \<Rightarrow> (0, change_zone_state zid ZONE_STATE_OFFLINE d)
                | ZONE_STATE_OFFLINE \<Rightarrow> (0, d)
                | _ \<Rightarrow> (NVME_SC_ZNS_INVALID_TRANSITION, d)) }"

definition zmgmt_send_flush_explicit_zrwa :: "u64 \<Rightarrow> zns_ftl \<Rightarrow> (u32 \<times> zns_ftl) option" where
  "zmgmt_send_flush_explicit_zrwa slba d =
     (let zid = lba_to_zone slba d in
      do { z \<leftarrow> zone_at zid d;
           let wp = zd_wp z;
               zrwa_end = min (wp + of_nat (lbas_per_zrwa (zp d)) - 1) (zone_to_slba zid d + zone_capacity z - 1) in
           if \<not> zd_zrwav z then Some (NVME_SC_ZNS_INVALID_ZONE_OPERATION, d)
           else if \<not> (wp \<le> slba \<and> slba \<le> zrwa_end) then Some (NVME_SC_ZNS_INVALID_ZONE_OPERATION, d)
           else if lbas_per_zrwafg (zp d) = 0 then None
           else if (slba - wp + 1) mod of_nat (lbas_per_zrwafg (zp d)) \<noteq> 0 then Some (NVME_SC_INVALID_FIELD, d)
           else if zd_state z \<in> {ZONE_STATE_OPENED_EXPL, ZONE_STATE_OPENED_IMPL, ZONE_STATE_CLOSED}
           then let d1 = update_zone zid (zd_wp_update (\<lambda>_. slba + 1)) d in
             Some (0, if slba + 1 = zone_to_slba zid d + zone_capacity z
                      then change_zone_state zid ZONE_STATE_FULL (release_active (zd_state z \<noteq> ZONE_STATE_CLOSED) True d1)
                      else d1)
           else Some (NVME_SC_ZNS_INVALID_ZONE_OPERATION, d) })"

text \<open>
  One zone.  For an action that is not among the known ones the status is what the memory of the
  variable held, the argument \<open>leftover\<close>.
\<close>

definition zmgmt_send :: "u32 \<Rightarrow> u64 \<Rightarrow> u8 \<Rightarrow> bool \<Rightarrow> zns_ftl \<Rightarrow> (u32 \<times> zns_ftl) option" where
  "zmgmt_send leftover slba action option d =
     (let zid = lba_to_zone slba d in
      if action = 1 then zmgmt_send_close_zone zid d
      else if action = 2 then zmgmt_send_finish_zone zid d
      else if action = 3 then zmgmt_send_open_zone zid option d
      else if action = 4 then zmgmt_send_reset_zone zid d
      else if action = 5 then zmgmt_send_offline_zone zid d
      else if action = 0x11 then zmgmt_send_flush_explicit_zrwa slba d
      else Some (leftover, d))"

fun zmgmt_all :: "u32 \<Rightarrow> u8 \<Rightarrow> bool \<Rightarrow> nat list \<Rightarrow> zns_ftl \<Rightarrow> zns_ftl option" where
  "zmgmt_all leftover action option [] d = Some d"
| "zmgmt_all leftover action option (zid # zids) d =
     do { (_, d) \<leftarrow> zmgmt_send leftover (zone_to_slba zid d) action option d; zmgmt_all leftover action option zids d }"

definition zns_zmgmt_send :: "u32 \<Rightarrow> bool \<Rightarrow> u64 \<Rightarrow> u8 \<Rightarrow> bool \<Rightarrow> zns_ftl \<Rightarrow> (u32 \<times> zns_ftl) option" where
  "zns_zmgmt_send leftover select_all slba action option d =
     (if select_all then map_option (Pair 0) (zmgmt_all leftover action option [0..<nr_zones (zp d)] d)
      else zmgmt_send leftover slba action option d)"

text \<open>
  A report: its number of zones, their descriptors, and how many bytes the host is sent.  The
  buffer that is sent has the size of a report of all zones.
\<close>

definition zns_zmgmt_recv :: "u64 \<Rightarrow> u32 \<Rightarrow> u8 \<Rightarrow> u8 \<Rightarrow> bool \<Rightarrow> zns_ftl \<Rightarrow> (u32 \<times> (u64 \<times> zone_descriptor list \<times> u64) option) option" where
  "zns_zmgmt_recv slba nr_dw zra zra_specific_field partial d =
     (let zid = lba_to_zone slba d; len = ucast (nr_dw + 1) * 4 :: u64 in
      if zid \<ge> nr_zones (zp d) \<or> zra \<noteq> 0 \<or> zra_specific_field \<noteq> 0 then Some (NVME_SC_INVALID_FIELD, None)
      else let rest = of_nat (nr_zones (zp d) - zid);
               n = (if partial then min (len div 64 - 1) rest else rest) :: u64 in
        if unat len > 128 + 64 * nr_zones (zp d) then None
        else Some (0, Some (n, take (unat n) (drop zid (zone_descs d)), len)))"

section \<open>Writes and reads\<close>

record zns_rw =
  zr_append :: bool
  zr_slba :: u64
  zr_length :: u16
  zr_fua :: bool

definition nr_lbas_from_rw_cmd :: "zns_rw \<Rightarrow> u64" where
  "nr_lbas_from_rw_cmd cmd = ucast (zr_length cmd) + 1"

definition check_boundary_error :: "u64 \<Rightarrow> u64 \<Rightarrow> zns_ftl \<Rightarrow> bool" where
  "check_boundary_error slba nr_lba d \<longleftrightarrow> lba_to_zone slba d = lba_to_zone (slba + nr_lba - 1) d"

definition increase_write_ptr :: "nat \<Rightarrow> u32 \<Rightarrow> zns_ftl \<Rightarrow> zns_ftl" where
  "increase_write_ptr zid nr_lba d =
     (let z = zone_descs d ! zid; wp = zd_wp z + ucast nr_lba;
          d1 = update_zone zid (zd_wp_update (\<lambda>_. wp)) d in
      if wp = zone_to_slba zid d + zone_capacity z
      then change_zone_state zid ZONE_STATE_FULL (release_zone_resource ACTIVE_ZONE (release_zone_resource OPEN_ZONE d1))
      else d1)"

text \<open>The buffers that a write goes through: of a zone, or the one of the device.\<close>

datatype wb_ref = Zone_wb nat | Ssd_wb | Zrwa_wb nat

definition wb_at :: "wb_ref \<Rightarrow> zns_ftl \<Rightarrow> buffer option" where
  "wb_at w d =
     (case w of Ssd_wb \<Rightarrow> Some (ssd_write_buffer (zf_ssd d))
      | Zone_wb i \<Rightarrow> if i < length (zone_write_buffer d) then Some (zone_write_buffer d ! i) else None
      | Zrwa_wb i \<Rightarrow> if i < length (zrwa_buffer d) then Some (zrwa_buffer d ! i) else None)"

definition set_wb :: "wb_ref \<Rightarrow> buffer \<Rightarrow> zns_ftl \<Rightarrow> zns_ftl" where
  "set_wb w b d =
     (case w of Ssd_wb \<Rightarrow> d\<lparr>zf_ssd := (zf_ssd d)\<lparr>ssd_write_buffer := b\<rparr>\<rparr>
      | Zone_wb i \<Rightarrow> d\<lparr>zone_write_buffer := (zone_write_buffer d)[i := b]\<rparr>
      | Zrwa_wb i \<Rightarrow> d\<lparr>zrwa_buffer := (zrwa_buffer d)[i := b]\<rparr>)"

definition write_wb :: "nat \<Rightarrow> zns_ftl \<Rightarrow> wb_ref" where
  "write_wb zid d = (if zone_wb_size (zp d) \<noteq> 0 then Zone_wb zid else Ssd_wb)"

definition allocate_wb :: "wb_ref \<Rightarrow> size_t \<Rightarrow> zns_ftl \<Rightarrow> (u32 \<times> zns_ftl) option" where
  "allocate_wb w n d = do { b \<leftarrow> wb_at w d; (k, b) \<leftarrow> buffer_allocate n b; Some (k, set_wb w b d) }"

text \<open>
  What a command answers: its status and the time it is done at, or \<open>None\<close> when it is to be tried
  again; the block address that the command holds afterwards (zero for a command without one); and
  the releases of buffers that it schedules.
\<close>

record zns_answer =
  za_result :: "(u32 \<times> u64) option"
  za_slba :: u64
  za_sched :: "(u64 \<times> wb_ref \<times> size_t) list"

definition oneshot_bytes :: "zns_ftl \<Rightarrow> nat" where
  "oneshot_bytes d = pgs_per_oneshotpg (sp (zf_ssd d)) * pgsz (sp (zf_ssd d))"

definition program_page :: "u64 \<Rightarrow> u64 \<Rightarrow> ppa \<Rightarrow> zns_ftl \<Rightarrow> (u64 \<times> zns_ftl) option" where
  "program_page clk stime p d =
     do { (t, s) \<leftarrow> ssd_advance_nand clk
            \<lparr>nc_cmd = NAND_WRITE, nc_xfer_size = of_nat (oneshot_bytes d), nc_stime = stime, nc_interleave = False, nc_ppa = p\<rparr> (zf_ssd d);
          Some (t, d\<lparr>zf_ssd := s\<rparr>) }"

text \<open>
  The loop over the pages of a write.  The pages of one program operation are programmed when the
  last of them is written, or the last page of the zone.  When the last page number is the largest
  one there is, the loop does not end.
\<close>

function write_loop :: "u64 \<Rightarrow> u64 \<Rightarrow> wb_ref \<Rightarrow> nat \<Rightarrow> nat \<Rightarrow> nat \<Rightarrow> u64 \<Rightarrow> (u64 \<times> wb_ref \<times> size_t) list \<Rightarrow> zns_ftl \<Rightarrow>
    (u64 \<times> (u64 \<times> wb_ref \<times> size_t) list \<times> zns_ftl) option" where
  "write_loop clk xfer w zone_elpn elpn lpn latest sched d =
     (if elpn < lpn then Some (latest, sched, d)
      else case lpn_to_ppa (of_nat lpn) d of
        None \<Rightarrow> None
      | Some p \<Rightarrow>
          let oneshot = pgs_per_oneshotpg (sp (zf_ssd d)); pg_off = ppa_pg p mod oneshot;
              pgs = min (elpn - lpn + 1) (oneshot - pg_off) in
          if pgs = 0 \<or> lpn + pgs \<ge> 2 ^ 64 then None
          else if pg_off + pgs = oneshot \<or> lpn + pgs - 1 = zone_elpn
          then case program_page clk xfer p d of
              None \<Rightarrow> None
            | Some (t, d1) \<Rightarrow>
                let unaligned = zone_size (zp d) mod oneshot_bytes d;
                    bufs = (if lpn + pgs - 1 = zone_elpn \<and> unaligned > 0 then unaligned else oneshot_bytes d) in
                write_loop clk xfer w zone_elpn elpn (lpn + pgs) (max t latest) (sched @ [(t, w, of_nat bufs)]) d1
          else write_loop clk xfer w zone_elpn elpn (lpn + pgs) latest sched d)"
  by pat_completeness auto
termination
  by (relation "measure (\<lambda>(clk, xfer, w, zone_elpn, elpn, lpn, latest, sched, d). Suc elpn - lpn)") auto

declare write_loop.simps [simp del]

text \<open>The zone is opened for a write; a status other than success ends the write.\<close>

definition open_closed :: "nat \<Rightarrow> zns_ftl \<Rightarrow> u32 \<times> zns_ftl" where
  "open_closed zid d =
     (case acquire_zone_resource OPEN_ZONE d of
        (False, d) \<Rightarrow> (NVME_SC_ZNS_NO_OPEN_ZONE, d)
      | (True, d) \<Rightarrow> (0, change_zone_state zid ZONE_STATE_OPENED_IMPL d))"

definition open_for_write :: "nat \<Rightarrow> u64 \<Rightarrow> zns_ftl \<Rightarrow> u32 \<times> zns_ftl" where
  "open_for_write zid slba d =
     (let z = zone_descs d ! zid in
      case zd_state z of
        ZONE_STATE_EMPTY \<Rightarrow>
          if slba \<noteq> zslba z then (NVME_SC_ZNS_INVALID_WRITE, d)
          else if is_zone_resource_full ACTIVE_ZONE d then (NVME_SC_ZNS_NO_ACTIVE_ZONE, d)
          else if is_zone_resource_full OPEN_ZONE d then (NVME_SC_ZNS_NO_OPEN_ZONE, d)
          else open_closed zid (snd (acquire_zone_resource ACTIVE_ZONE d))
      | ZONE_STATE_CLOSED \<Rightarrow> open_closed zid d
      | ZONE_STATE_OPENED_IMPL \<Rightarrow> (0, d)
      | ZONE_STATE_OPENED_EXPL \<Rightarrow> (0, d)
      | ZONE_STATE_FULL \<Rightarrow> (NVME_SC_ZNS_ERR_FULL, d)
      | ZONE_STATE_READ_ONLY \<Rightarrow> (NVME_SC_ZNS_ERR_READ_ONLY, d)
      | ZONE_STATE_OFFLINE \<Rightarrow> (NVME_SC_ZNS_ERR_OFFLINE, d))"

definition target_time :: "zns_rw \<Rightarrow> u64 \<Rightarrow> u64 \<Rightarrow> zns_ftl \<Rightarrow> u64" where
  "target_time cmd latest xfer d = (if zr_fua cmd \<or> \<not> write_early_completion (sp (zf_ssd d)) then latest else xfer)"

text \<open>The write into a zone without a random write area, \<open>__zns_write\<close>.\<close>

definition zns_write_seq :: "u64 \<Rightarrow> u64 \<Rightarrow> zns_rw \<Rightarrow> zns_ftl \<Rightarrow> (zns_answer \<times> zns_ftl) option" where
  "zns_write_seq clk nsecs_start cmd d0 =
     (let nr_lba = nr_lbas_from_rw_cmd cmd; bytes = LBA_TO_BYTE nr_lba; zid = lba_to_zone (zr_slba cmd) d0;
          spp = sp (zf_ssd d0); w = write_wb zid d0 in
      do { z \<leftarrow> zone_at zid d0;
           let slba = (if zr_append cmd then zd_wp z else zr_slba cmd);
               slpn = lba_to_lpn slba d0; elpn = lba_to_lpn (slba + nr_lba - 1) d0; zone_elpn = zone_to_elpn zid d0;
               fail = (\<lambda>st d. Some (\<lparr>za_result = Some (st, nsecs_start), za_slba = slba, za_sched = []\<rparr>, d)) in
           do { (got, d) \<leftarrow> allocate_wb w bytes d0;
                if ucast got < bytes then Some (\<lparr>za_result = None, za_slba = slba, za_sched = []\<rparr>, d)
                else if write_unit_size spp = 0 then None
                else if bytes mod of_nat (write_unit_size spp) \<noteq> 0 then fail NVME_SC_ZNS_INVALID_WRITE d
                else if \<not> check_boundary_error slba nr_lba d then fail NVME_SC_ZNS_ERR_BOUNDARY d
                else if slba \<noteq> zd_wp z then fail NVME_SC_ZNS_INVALID_WRITE d
                else case open_for_write zid slba d of (st, d) \<Rightarrow>
                  if st \<noteq> 0 then fail st d
                  else do { (xfer, s) \<leftarrow> ssd_advance_write_buffer clk nsecs_start bytes (zf_ssd (increase_write_ptr zid (ucast nr_lba) d));
                            (latest, sched, d) \<leftarrow> write_loop clk xfer w (unat zone_elpn) (unat elpn) (unat slpn) xfer []
                                                   ((increase_write_ptr zid (ucast nr_lba) d)\<lparr>zf_ssd := s\<rparr>);
                            Some (\<lparr>za_result = Some (0, target_time cmd latest xfer d), za_slba = slba, za_sched = sched\<rparr>, d) } } })"

text \<open>One round of the loop over the pages that leave the random write area, and the loop.\<close>

definition zrwa_round :: "u64 \<Rightarrow> u64 \<Rightarrow> wb_ref \<Rightarrow> nat \<Rightarrow> u64 \<Rightarrow> u64 \<Rightarrow> (u64 \<times> wb_ref \<times> size_t) list \<Rightarrow> zns_ftl \<Rightarrow>
    (nat \<times> u64 \<times> (u64 \<times> wb_ref \<times> size_t) list \<times> zns_ftl) option" where
  "zrwa_round clk xfer w remaining lpn latest sched d =
     do { p \<leftarrow> lpn_to_ppa lpn d;
          let oneshot = pgs_per_oneshotpg (sp (zf_ssd d)); pg_off = ppa_pg p mod oneshot;
              pgs = min remaining (oneshot - pg_off) in
          if pg_off + pgs = oneshot
          then do { (t, d1) \<leftarrow> program_page clk xfer p d;
                    Some (pgs, max t latest, sched @ [(t, w, of_nat (oneshot_bytes d))], d1) }
          else Some (pgs, latest, sched, d) }"

function zrwa_loop :: "u64 \<Rightarrow> u64 \<Rightarrow> wb_ref \<Rightarrow> nat \<Rightarrow> u64 \<Rightarrow> u64 \<Rightarrow> (u64 \<times> wb_ref \<times> size_t) list \<Rightarrow> zns_ftl \<Rightarrow>
    (u64 \<times> (u64 \<times> wb_ref \<times> size_t) list \<times> zns_ftl) option" where
  "zrwa_loop clk xfer w remaining lpn latest sched d =
     (if remaining = 0 then Some (latest, sched, d)
      else case zrwa_round clk xfer w remaining lpn latest sched d of
        None \<Rightarrow> None
      | Some (pgs, latest1, sched1, d1) \<Rightarrow>
          if pgs = 0 then None else zrwa_loop clk xfer w (remaining - pgs) (lpn + of_nat pgs) latest1 sched1 d1)"
  by pat_completeness auto
termination
  by (relation "measure (\<lambda>(clk, xfer, w, remaining, lpn, latest, sched, d). remaining)") auto

declare zrwa_loop.simps [simp del]

definition open_for_zrwa :: "nat \<Rightarrow> zns_ftl \<Rightarrow> (u32 \<times> zns_ftl) option" where
  "open_for_zrwa zid d =
     (let opening = (case acquire_zone_resource OPEN_ZONE d of
            (False, d) \<Rightarrow> Some (NVME_SC_ZNS_NO_OPEN_ZONE, d)
          | (True, d) \<Rightarrow> do { (k, d) \<leftarrow> allocate_wb (Zrwa_wb zid) (of_nat (zrwa_size (zp d))) d;
                             if k = 0 then None else Some (0, change_zone_state zid ZONE_STATE_OPENED_IMPL d) }) in
      case zd_state (zone_descs d ! zid) of
        ZONE_STATE_CLOSED \<Rightarrow> opening
      | ZONE_STATE_EMPTY \<Rightarrow> opening
      | ZONE_STATE_OPENED_IMPL \<Rightarrow> Some (0, d)
      | ZONE_STATE_OPENED_EXPL \<Rightarrow> Some (0, d)
      | ZONE_STATE_FULL \<Rightarrow> Some (NVME_SC_ZNS_ERR_FULL, d)
      | ZONE_STATE_READ_ONLY \<Rightarrow> Some (NVME_SC_ZNS_ERR_READ_ONLY, d)
      | ZONE_STATE_OFFLINE \<Rightarrow> Some (NVME_SC_ZNS_ERR_OFFLINE, d))"

text \<open>The blocks that leave the random write area for a write that ends at \<open>elba\<close>.\<close>

definition zrwa_flush_lbas :: "nat \<Rightarrow> u64 \<Rightarrow> u64 \<Rightarrow> zns_ftl \<Rightarrow> u64 option" where
  "zrwa_flush_lbas zid prev_wp elba d =
     (let fg = of_nat (lbas_per_zrwafg (zp d)); impl_start = prev_wp + of_nat (lbas_per_zrwa (zp d)) in
      if impl_start \<le> elba
      then if fg = 0 then None else Some ((elba - impl_start + 1 + fg - 1) div fg * fg)
      else if elba = zone_to_elba zid d then Some (elba - prev_wp + 1)
      else Some 0)"

definition zns_write_zrwa :: "u64 \<Rightarrow> u64 \<Rightarrow> zns_rw \<Rightarrow> zns_ftl \<Rightarrow> (zns_answer \<times> zns_ftl) option" where
  "zns_write_zrwa clk nsecs_start cmd d =
     (let slba = zr_slba cmd; nr_lba = nr_lbas_from_rw_cmd cmd; bytes = LBA_TO_BYTE nr_lba; elba = slba + nr_lba - 1;
          zid = lba_to_zone slba d; spp = sp (zf_ssd d); w = Zrwa_wb zid;
          fail = (\<lambda>st d. Some (\<lparr>za_result = Some (st, nsecs_start), za_slba = slba, za_sched = []\<rparr>, d)) in
      do { z \<leftarrow> zone_at zid d;
           let prev_wp = zd_wp z;
               zrwa_impl_end = prev_wp + ucast (2 * of_nat (lbas_per_zrwa (zp d)) :: u32) - 1 in
           if write_unit_size spp = 0 then None
           else if bytes mod of_nat (write_unit_size spp) \<noteq> 0 then fail NVME_SC_ZNS_INVALID_WRITE d
           else if \<not> check_boundary_error slba nr_lba d then fail NVME_SC_ZNS_ERR_BOUNDARY d
           else if slba < prev_wp \<or> zrwa_impl_end < elba then fail NVME_SC_ZNS_INVALID_WRITE d
           else do { (st, d) \<leftarrow> open_for_zrwa zid d;
             if st \<noteq> 0 then fail st d
             else do { flush \<leftarrow> zrwa_flush_lbas zid prev_wp elba d;
                       (got, d) \<leftarrow> (if flush > 0 then allocate_wb w (LBA_TO_BYTE flush) d else Some (1, d));
                       if got = 0 then Some (\<lparr>za_result = None, za_slba = slba, za_sched = []\<rparr>, d)
                       else let d = (if flush > 0 then increase_write_ptr zid (ucast flush) d else d) in
                         do { (xfer, s) \<leftarrow> ssd_advance_write_buffer clk nsecs_start bytes (zf_ssd d);
                              (latest, sched, d) \<leftarrow> zrwa_loop clk xfer w (unat flush div secs_per_pg spp) (lba_to_lpn prev_wp d)
                                                     xfer [] (d\<lparr>zf_ssd := s\<rparr>);
                              Some (\<lparr>za_result = Some (0, target_time cmd latest xfer d), za_slba = slba, za_sched = sched\<rparr>, d) } } } })"

definition zns_write :: "u64 \<Rightarrow> u64 \<Rightarrow> zns_rw \<Rightarrow> zns_ftl \<Rightarrow> (zns_answer \<times> zns_ftl) option" where
  "zns_write clk nsecs_start cmd d =
     do { z \<leftarrow> zone_at (lpn_to_zone (lba_to_lpn (zr_slba cmd) d) d) d;
          if \<not> zd_zrwav z then zns_write_seq clk nsecs_start cmd d else zns_write_zrwa clk nsecs_start cmd d }"

function read_loop :: "u64 \<Rightarrow> u64 \<Rightarrow> nat \<Rightarrow> nat \<Rightarrow> u64 \<Rightarrow> zns_ftl \<Rightarrow> (u64 \<times> zns_ftl) option" where
  "read_loop clk stime elpn lpn latest d =
     (if elpn < lpn then Some (latest, d)
      else case lpn_to_ppa (of_nat lpn) d of
        None \<Rightarrow> None
      | Some p \<Rightarrow>
          let flashpg = pgs_per_flashpg (sp (zf_ssd d));
              pgs = min (elpn - lpn + 1) (flashpg - ppa_pg p mod flashpg) in
          if flashpg = 0 \<or> pgs = 0 \<or> lpn + pgs \<ge> 2 ^ 64 then None
          else case ssd_advance_nand clk
              \<lparr>nc_cmd = NAND_READ, nc_xfer_size = of_nat (pgs * pgsz (sp (zf_ssd d))), nc_stime = stime, nc_interleave = False, nc_ppa = p\<rparr>
              (zf_ssd d) of
            None \<Rightarrow> None
          | Some (t, s) \<Rightarrow> read_loop clk stime elpn (lpn + pgs) (if t > latest then t else latest) (d\<lparr>zf_ssd := s\<rparr>))"
  by pat_completeness auto
termination
  by (relation "measure (\<lambda>(clk, stime, elpn, lpn, latest, d). Suc elpn - lpn)") auto

declare read_loop.simps [simp del]

definition zns_read :: "u64 \<Rightarrow> u64 \<Rightarrow> zns_rw \<Rightarrow> zns_ftl \<Rightarrow> (zns_answer \<times> zns_ftl) option" where
  "zns_read clk nsecs_start cmd d =
     (let slba = zr_slba cmd; nr_lba = nr_lbas_from_rw_cmd cmd; spp = sp (zf_ssd d);
          slpn = lba_to_lpn slba d; elpn = lba_to_lpn (slba + nr_lba - 1) d in
      do { z \<leftarrow> zone_at (lpn_to_zone slpn d) d;
           let status = (if zd_state z = ZONE_STATE_OFFLINE then NVME_SC_ZNS_ERR_OFFLINE
                         else if \<not> check_boundary_error slba nr_lba d then NVME_SC_ZNS_ERR_BOUNDARY else 0);
               start = nsecs_start + (if LBA_TO_BYTE nr_lba \<le> 4096 then fw_4kb_rd_lat spp else fw_rd_lat spp) in
           do { (latest, d) \<leftarrow> read_loop clk start (unat elpn) (unat slpn) start d;
                (t, s) \<leftarrow> ssd_advance_pcie clk latest (nr_lba * of_nat (secsz spp)) (zf_ssd d);
                Some (\<lparr>za_result = Some (status, if t > latest then t else latest), za_slba = slba, za_sched = []\<rparr>, d\<lparr>zf_ssd := s\<rparr>) } })"

section \<open>The namespace\<close>

text \<open>The macros of \<open>ssd_config.h\<close> for the zones; the sizes other than that of a zone fit into 32 bits.\<close>

record zns_config =
  ZONE_SIZE :: nat
  DIES_PER_ZONE :: nat
  ZONE_WB_SIZE :: nat
  MAX_ZRWA_ZONES :: nat
  ZRWAFG_SIZE :: nat
  ZRWA_SIZE :: nat
  ZRWA_BUFFER_SIZE :: nat

text \<open>The configuration of the prototype of a zoned device.\<close>

definition ZNS_PROTOTYPE :: ssd_config where
  "ZNS_PROTOTYPE =
     \<lparr>LBA_SIZE = 512, NAND_CHANNELS = 8, LUNS_PER_NAND_CH = 16, CELL_MODE = 3, FLASH_PAGE_SIZE = 64 * 1024,
      ONESHOT_PAGE_SIZE = 64 * 1024 * 2, WRITE_UNIT_SIZE = 64 * 1024 * 2, NAND_4KB_READ_LATENCY = [25485, 25485, 25485],
      NAND_READ_LATENCY = [40950, 40950, 40950], NAND_PROG_LATENCY = 1913640, NAND_ERASE_LATENCY = 0, MAX_CH_XFER_SIZE = 64 * 1024,
      FW_4KB_READ_LATENCY = 37540 - 7390 + 2000, FW_READ_LATENCY = 37540 - 7390 + 2000, FW_CH_XFER_LATENCY = 413,
      FW_WBUF_LATENCY0 = 0, FW_WBUF_LATENCY1 = 0, NAND_CHANNEL_BANDWIDTH = 800, PCIE_BANDWIDTH = 3200,
      GLOBAL_WB_SIZE = 8 * 16 * (64 * 1024 * 2) * 2, WRITE_EARLY_COMPLETION = False\<rparr>"

definition ZNS_PROTOTYPE_zones :: zns_config where
  "ZNS_PROTOTYPE_zones =
     \<lparr>ZONE_SIZE = 32 * 1024 * 1024, DIES_PER_ZONE = 1, ZONE_WB_SIZE = 0, MAX_ZRWA_ZONES = 0, ZRWAFG_SIZE = 0, ZRWA_SIZE = 0,
      ZRWA_BUFFER_SIZE = 0\<rparr>"

definition zns_init_params :: "zns_config \<Rightarrow> ssdparams \<Rightarrow> nat \<Rightarrow> znsparams option" where
  "zns_init_params zc spp capacity =
     (if ZONE_SIZE zc mod 2 ^ 32 = 0 \<or> secsz spp = 0 \<or> pgsz spp = 0 \<or> capacity mod (ZONE_SIZE zc mod 2 ^ 32) \<noteq> 0 \<or>
         ZONE_SIZE zc mod 2 ^ 32 mod pgsz spp \<noteq> 0
      then None
      else Some
        \<lparr>nr_zones = capacity div ZONE_SIZE zc mod 2 ^ 32, nr_active_zones = capacity div ZONE_SIZE zc mod 2 ^ 32,
         nr_open_zones = capacity div ZONE_SIZE zc mod 2 ^ 32, dies_per_zone = DIES_PER_ZONE zc, zone_size = ZONE_SIZE zc mod 2 ^ 32,
         zone_wb_size = ZONE_WB_SIZE zc, nr_zrwa_zones = MAX_ZRWA_ZONES zc, zrwafg_size = ZRWAFG_SIZE zc, zrwa_size = ZRWA_SIZE zc,
         zrwa_buffer_size = ZRWA_BUFFER_SIZE zc, lbas_per_zrwafg = ZRWAFG_SIZE zc div secsz spp, lbas_per_zrwa = ZRWA_SIZE zc div secsz spp\<rparr>)"

text \<open>The descriptors of the zones; the buffers, which the source sets up in the same loop, follow in \<open>zns_init_ftl\<close>.\<close>

definition init_descriptor :: "znsparams \<Rightarrow> zone_descriptor list" where
  "init_descriptor zpp =
     (let lbas = drop_bit 9 (zone_size zpp) in
      map (\<lambda>i. \<lparr>zd_type = 2, zd_state = ZONE_STATE_EMPTY, zd_zrwav = False, zone_capacity = of_nat lbas,
               zslba = of_nat (i * lbas), zd_wp = of_nat (i * lbas)\<rparr>) [0..<nr_zones zpp])"

definition init_resource :: "znsparams \<Rightarrow> zone_resource_type \<Rightarrow> zone_resource_info" where
  "init_resource zpp = (\<lambda>_. \<lparr>acquired_cnt = 0, total_cnt = of_nat (nr_zones zpp)\<rparr>)"

definition zns_init_ftl :: "znsparams \<Rightarrow> ssd \<Rightarrow> (nat \<Rightarrow> byte) \<Rightarrow> zns_ftl" where
  "zns_init_ftl zpp s mapped =
     \<lparr>zf_ssd = s, zp = zpp, res_infos = init_resource zpp, zone_descs = init_descriptor zpp,
      zone_write_buffer = (if zone_wb_size zpp = 0 then [] else replicate (nr_zones zpp) (buffer_init (of_nat (zone_wb_size zpp)))),
      zrwa_buffer = (if zrwa_buffer_size zpp = 0 then [] else replicate (nr_zones zpp) (buffer_init (of_nat (zrwa_buffer_size zpp)))),
      zf_storage = mapped\<rparr>"

definition zns_init_namespace :: "ssd_config \<Rightarrow> zns_config \<Rightarrow> nat \<Rightarrow> (nat \<Rightarrow> byte) \<Rightarrow> zns_ftl option" where
  "zns_init_namespace cfg zc capacity mapped =
     do { spp \<leftarrow> ssd_init_params cfg 1; zpp \<leftarrow> zns_init_params zc spp capacity; Some (zns_init_ftl zpp (ssd_init spp) mapped) }"

definition zns_flush :: "u64 \<Rightarrow> zns_ftl \<Rightarrow> u32 \<times> u64" where
  "zns_flush clk d = (0, max clk (ssd_next_idle_time clk (zf_ssd d)))"

datatype zns_cmd =
    Zc_write zns_rw
  | Zc_read zns_rw
  | Zc_flush
  | Zc_mgmt_send bool u64 u8 bool
  | Zc_mgmt_recv u64 u32 u8 u8 bool
  | Zc_other

text \<open>
  A command at \<open>nsecs_start\<close>; \<open>prior\<close> is the answer before the command, which an unknown command
  leaves as it is.
\<close>

definition zns_proc_nvme_io_cmd :: "u64 \<Rightarrow> u32 \<Rightarrow> u32 \<times> u64 \<Rightarrow> u64 \<Rightarrow> zns_cmd \<Rightarrow> zns_ftl \<Rightarrow> (zns_answer \<times> zns_ftl) option" where
  "zns_proc_nvme_io_cmd clk leftover prior nsecs_start cmd d =
     (let ans = (\<lambda>slba r. \<lparr>za_result = Some r, za_slba = slba, za_sched = []\<rparr>) in
      case cmd of
        Zc_write rw \<Rightarrow> zns_write clk nsecs_start rw d
      | Zc_read rw \<Rightarrow> zns_read clk nsecs_start rw d
      | Zc_flush \<Rightarrow> Some (ans 0 (zns_flush clk d), d)
      | Zc_mgmt_send all slba action option \<Rightarrow>
          do { (st, d) \<leftarrow> zns_zmgmt_send leftover all slba action option d; Some (ans slba (st, nsecs_start), d) }
      | Zc_mgmt_recv slba nr_dw zra field partial \<Rightarrow>
          do { (st, _) \<leftarrow> zns_zmgmt_recv slba nr_dw zra field partial d; Some (ans slba (st, nsecs_start), d) }
      | Zc_other \<Rightarrow> Some (ans 0 prior, d))"

end
