(* ===== verification/Zns_Zones.thy ===== *)
theory Zns_Zones
  imports Zns
begin

text \<open>
  The well-formedness of the zones: the write pointers stay within their zones and the counters of
  open and of active zones are the numbers of zones in these states.  Every command keeps it.
\<close>

section \<open>The invariant\<close>

definition zone_opened :: "zone_descriptor \<Rightarrow> bool" where
  "zone_opened z \<longleftrightarrow> zd_state z = ZONE_STATE_OPENED_IMPL \<or> zd_state z = ZONE_STATE_OPENED_EXPL"

definition zone_active :: "zone_descriptor \<Rightarrow> bool" where
  "zone_active z \<longleftrightarrow> zone_opened z \<or> zd_state z = ZONE_STATE_CLOSED"

definition zone_ok :: "nat \<Rightarrow> nat \<Rightarrow> zone_descriptor \<Rightarrow> bool" where
  "zone_ok lbas i z \<longleftrightarrow>
     zslba z = of_nat (i * lbas) \<and> zone_capacity z = of_nat lbas \<and> i * lbas \<le> unat (zd_wp z) \<and> unat (zd_wp z) \<le> i * lbas + lbas \<and>
     (zd_state z = ZONE_STATE_EMPTY \<longrightarrow> zd_wp z = zslba z \<and> \<not> zd_zrwav z) \<and>
     (zone_active z \<longrightarrow> unat (zd_wp z) < i * lbas + lbas)"

text \<open>The sizes that the zones are laid out with.\<close>

definition zns_geometry :: "znsparams \<Rightarrow> ssdparams \<Rightarrow> bool" where
  "zns_geometry zpp spp \<longleftrightarrow>
     secsz spp = 512 \<and> pgsz spp = 4096 \<and> secs_per_pg spp = 8 \<and> 0 < zone_size zpp \<and> zone_size zpp < 2 ^ 32 \<and> zone_size zpp mod 4096 = 0 \<and>
     lbas_per_zrwafg zpp \<le> lbas_per_zrwa zpp \<and> nr_zones zpp * (zone_size zpp div 512) + 2 * lbas_per_zrwa zpp < 2 ^ 32"

definition zns_inv :: "zns_ftl \<Rightarrow> bool" where
  "zns_inv d \<longleftrightarrow>
     zns_geometry (zp d) (sp (zf_ssd d)) \<and> length (zone_descs d) = nr_zones (zp d) \<and>
     (\<forall>i < nr_zones (zp d). zone_ok (zone_size (zp d) div 512) i (zone_descs d ! i)) \<and>
     acquired_cnt (res_infos d OPEN_ZONE) = of_nat (length (filter zone_opened (zone_descs d))) \<and>
     acquired_cnt (res_infos d ACTIVE_ZONE) = of_nat (length (filter zone_active (zone_descs d))) \<and>
     total_cnt (res_infos d OPEN_ZONE) = of_nat (nr_zones (zp d)) \<and>
     total_cnt (res_infos d ACTIVE_ZONE) = of_nat (nr_zones (zp d))"

text \<open>What the invariant looks at.\<close>

definition zone_view :: "zns_ftl \<Rightarrow> zone_descriptor list \<times> znsparams \<times> (zone_resource_type \<Rightarrow> zone_resource_info) \<times> ssdparams" where
  "zone_view d = (zone_descs d, zp d, res_infos d, sp (zf_ssd d))"

lemma inv_view: "zone_view d' = zone_view d \<Longrightarrow> zns_inv d' = zns_inv d"
  unfolding zone_view_def zns_inv_def by simp

lemma invD:
  assumes "zns_inv d"
  shows inv_length: "length (zone_descs d) = nr_zones (zp d)"
    and inv_zone: "i < nr_zones (zp d) \<Longrightarrow> zone_ok (zone_lbas d) i (zone_descs d ! i)"
    and inv_lbas: "zone_lbas d = zone_size (zp d) div 512" "0 < zone_lbas d"
    and inv_small: "nr_zones (zp d) * zone_lbas d + 2 * lbas_per_zrwa (zp d) < 2 ^ 32"
    and inv_zrwa: "lbas_per_zrwafg (zp d) \<le> lbas_per_zrwa (zp d)"
  using assms unfolding zns_inv_def zns_geometry_def zone_lbas_def by auto

lemma inv_nr_zones:
  assumes "zns_inv d"
  shows "nr_zones (zp d) < 2 ^ 32"
proof -
  have "nr_zones (zp d) * 1 \<le> nr_zones (zp d) * zone_lbas d" using inv_lbas(2) [OF assms] by (intro mult_le_mono) auto
  then show ?thesis using inv_small [OF assms] by linarith
qed

section \<open>Counting\<close>

lemma count_update:
  assumes "i < length xs"
  shows "(of_nat (length (filter P (xs[i := z]))) :: u32) = of_nat (length (filter P xs)) + of_bool (P z) - of_bool (P (xs ! i))"
proof -
  have xs: "xs = take i xs @ xs ! i # drop (Suc i) xs" using assms by (simp add: id_take_nth_drop)
  have "length (filter P xs) = length (filter P (take i xs)) + of_bool (P (xs ! i)) + length (filter P (drop (Suc i) xs))"
    by (subst xs) simp
  moreover have "length (filter P (xs[i := z])) = length (filter P (take i xs)) + of_bool (P z) + length (filter P (drop (Suc i) xs))"
    using assms by (simp add: upd_conv_take_nth_drop)
  ultimately show ?thesis by simp
qed

text \<open>One zone becomes \<open>z\<close>, with the counters adapted.\<close>

lemma inv_update:
  assumes "zns_inv d" "i < nr_zones (zp d)" "zone_ok (zone_lbas d) i z"
    and "zone_descs d' = (zone_descs d)[i := z]" "zp d' = zp d" "sp (zf_ssd d') = sp (zf_ssd d)"
    and "total_cnt (res_infos d' OPEN_ZONE) = total_cnt (res_infos d OPEN_ZONE)"
    and "total_cnt (res_infos d' ACTIVE_ZONE) = total_cnt (res_infos d ACTIVE_ZONE)"
    and "acquired_cnt (res_infos d' OPEN_ZONE) = acquired_cnt (res_infos d OPEN_ZONE) + of_bool (zone_opened z) - of_bool (zone_opened (zone_descs d ! i))"
    and "acquired_cnt (res_infos d' ACTIVE_ZONE) = acquired_cnt (res_infos d ACTIVE_ZONE) + of_bool (zone_active z) - of_bool (zone_active (zone_descs d ! i))"
  shows "zns_inv d'"
  using assms inv_lbas [OF assms(1)] unfolding zns_inv_def by (simp add: count_update nth_list_update)

text \<open>A zone that does not hold a resource finds one.\<close>

lemma count_less:
  assumes "i < length xs" "\<not> P (xs ! i)"
  shows "length (filter P xs) < length xs"
proof -
  have "filter P xs \<noteq> xs" using assms by (metis filter_id_conv nth_mem)
  then show ?thesis using length_filter_less assms nth_mem by metis
qed

lemma count_avail:
  assumes "i < n" "n < 2 ^ 32" "length xs = n" "\<not> P (xs ! i)"
  shows "(of_nat (length (filter P xs)) :: u32) < of_nat n"
  using count_less [of i xs P] assms by (simp add: word_less_nat_alt unsigned_of_nat take_bit_nat_eq_self)

lemma inv_avail:
  assumes "zns_inv d" "i < nr_zones (zp d)"
  shows "\<not> zone_opened (zone_descs d ! i) \<Longrightarrow> acquired_cnt (res_infos d OPEN_ZONE) < total_cnt (res_infos d OPEN_ZONE)"
    and "\<not> zone_active (zone_descs d ! i) \<Longrightarrow> acquired_cnt (res_infos d ACTIVE_ZONE) < total_cnt (res_infos d ACTIVE_ZONE)"
  using count_avail [OF assms(2) inv_nr_zones [OF assms(1)] inv_length [OF assms(1)]] assms(1) unfolding zns_inv_def by simp_all

section \<open>Zone management\<close>

named_theorems zone_simps

lemma release_simps [zone_simps]:
  "zone_descs (release_zone_resource r d) = zone_descs d" "zp (release_zone_resource r d) = zp d"
  "zf_ssd (release_zone_resource r d) = zf_ssd d"
  "total_cnt (res_infos (release_zone_resource r d) q) = total_cnt (res_infos d q)"
  "acquired_cnt (res_infos (release_zone_resource r d) q) = acquired_cnt (res_infos d q) - of_bool (q = r)"
  unfolding release_zone_resource_def by simp_all

lemma release_active_simps [zone_simps]:
  "zone_descs (release_active b w d) = zone_descs d" "zp (release_active b w d) = zp d" "zf_ssd (release_active b w d) = zf_ssd d"
  "total_cnt (res_infos (release_active b w d) q) = total_cnt (res_infos d q)"
  "acquired_cnt (res_infos (release_active b w d) OPEN_ZONE) = acquired_cnt (res_infos d OPEN_ZONE) - of_bool b"
  "acquired_cnt (res_infos (release_active b w d) ACTIVE_ZONE) = acquired_cnt (res_infos d ACTIVE_ZONE) - 1"
  unfolding release_active_def Let_def by (simp_all add: zone_simps)

lemma acquire_simps [zone_simps]:
  "zone_descs (snd (acquire_zone_resource r d)) = zone_descs d" "zp (snd (acquire_zone_resource r d)) = zp d"
  "zf_ssd (snd (acquire_zone_resource r d)) = zf_ssd d"
  "total_cnt (res_infos (snd (acquire_zone_resource r d)) q) = total_cnt (res_infos d q)"
  "acquired_cnt (res_infos (snd (acquire_zone_resource r d)) q) = acquired_cnt (res_infos d q) + of_bool (q = r \<and> is_zone_resource_avail r d)"
  "fst (acquire_zone_resource r d) = is_zone_resource_avail r d"
  unfolding acquire_zone_resource_def by simp_all

lemma update_zone_simps [zone_simps]:
  "zone_descs (update_zone zid f d) = (zone_descs d)[zid := f (zone_descs d ! zid)]"
  "zp (update_zone zid f d) = zp d" "zf_ssd (update_zone zid f d) = zf_ssd d" "res_infos (update_zone zid f d) = res_infos d"
  unfolding update_zone_def by simp_all

lemma change_zone_state_simps [zone_simps]:
  "zone_descs (change_zone_state zid st d) = (zone_descs d)[zid := (zone_descs d ! zid)\<lparr>zd_state := st\<rparr>]"
  "zp (change_zone_state zid st d) = zp d" "zf_ssd (change_zone_state zid st d) = zf_ssd d"
  "res_infos (change_zone_state zid st d) = res_infos d"
  unfolding change_zone_state_def by (simp_all add: zone_simps)

lemmas zone_states = zone_opened_def zone_active_def

lemma zone_atD: "zone_at i d = Some z \<Longrightarrow> zns_inv d \<Longrightarrow> i < nr_zones (zp d) \<and> z = zone_descs d ! i"
  by (auto simp: zone_at_def inv_length split: if_splits)

lemma zone_ok_state:
  assumes "zone_ok lbas i z" "st \<in> {ZONE_STATE_FULL, ZONE_STATE_READ_ONLY, ZONE_STATE_OFFLINE} \<or> st \<noteq> ZONE_STATE_EMPTY \<and> unat (zd_wp z) < i * lbas + lbas"
  shows "zone_ok lbas i (z\<lparr>zd_state := st\<rparr>)"
  using assms unfolding zone_ok_def zone_active_def zone_opened_def by auto

lemma zone_ok_active: "zone_ok lbas i z \<Longrightarrow> zone_active z \<Longrightarrow> unat (zd_wp z) < i * lbas + lbas"
  unfolding zone_ok_def by blast

lemma close_zone_inv:
  assumes "zmgmt_send_close_zone zid d = Some (st, d')" "zns_inv d"
  shows "zns_inv d'"
proof -
  obtain z where z: "zone_at zid d = Some z" using assms(1) by (auto simp: zmgmt_send_close_zone_def bind_eq_Some_conv)
  note zd = zone_atD [OF z assms(2)]
  note ok = inv_zone [OF assms(2), of zid]
  show ?thesis
  proof (cases "zone_opened z")
    case True
    then have "d' = release_zone_resource OPEN_ZONE (change_zone_state zid ZONE_STATE_CLOSED d)"
      using assms(1) z by (auto simp: zmgmt_send_close_zone_def zone_opened_def)
    moreover have "zone_ok (zone_lbas d) zid (z\<lparr>zd_state := ZONE_STATE_CLOSED\<rparr>)"
      using zone_ok_state zone_ok_active ok zd True unfolding zone_active_def by blast
    ultimately show ?thesis using zd True
      by (intro inv_update [OF assms(2), of zid "z\<lparr>zd_state := ZONE_STATE_CLOSED\<rparr>"]) (auto simp: zone_simps zone_states)
  next
    case False
    then have "d' = d" using assms(1) z by (auto simp: zmgmt_send_close_zone_def zone_opened_def split: zone_state.splits)
    then show ?thesis using assms(2) by simp
  qed
qed

text \<open>The zone as it is after the operation, for the operations on one zone.\<close>

lemma inv_update_at:
  assumes "zns_inv d" "i < nr_zones (zp d)" "zone_ok (zone_lbas d) i (zone_descs d' ! i)"
    and "zone_descs d' = (zone_descs d)[i := zone_descs d' ! i]" "zp d' = zp d" "sp (zf_ssd d') = sp (zf_ssd d)"
    and "total_cnt (res_infos d' OPEN_ZONE) = total_cnt (res_infos d OPEN_ZONE)"
    and "total_cnt (res_infos d' ACTIVE_ZONE) = total_cnt (res_infos d ACTIVE_ZONE)"
    and "acquired_cnt (res_infos d' OPEN_ZONE) = acquired_cnt (res_infos d OPEN_ZONE) + of_bool (zone_opened (zone_descs d' ! i)) - of_bool (zone_opened (zone_descs d ! i))"
    and "acquired_cnt (res_infos d' ACTIVE_ZONE) = acquired_cnt (res_infos d ACTIVE_ZONE) + of_bool (zone_active (zone_descs d' ! i)) - of_bool (zone_active (zone_descs d ! i))"
  shows "zns_inv d'"
  by (rule inv_update [OF assms])

lemma finish_zone_inv:
  assumes "zmgmt_send_finish_zone zid d = Some (st, d')" "zns_inv d"
  shows "zns_inv d'"
proof -
  obtain z where z: "zone_at zid d = Some z" using assms(1) by (auto simp: zmgmt_send_finish_zone_def bind_eq_Some_conv)
  note zd = zone_atD [OF z assms(2)] and len = inv_length [OF assms(2)]
    and ok = zone_ok_state [OF inv_zone [OF assms(2), of zid], of ZONE_STATE_FULL]
  show ?thesis
  proof (cases "d' = d")
    case False
    with assms(1) z zd ok len show ?thesis
      by (intro inv_update_at [OF assms(2), of zid])
        (auto simp: zmgmt_send_finish_zone_def zone_simps zone_states split: zone_state.splits)
  qed (use assms in simp)
qed

text \<open>An opening that gets its resource; the zone holds an active one already.\<close>

lemma open_active_eq:
  "open_active zid d =
     (if is_zone_resource_avail OPEN_ZONE d then (0, change_zone_state zid ZONE_STATE_OPENED_EXPL (snd (acquire_zone_resource OPEN_ZONE d)))
      else (NVME_SC_ZNS_NO_OPEN_ZONE, d))"
  unfolding open_active_def acquire_zone_resource_def by simp

lemma avail_simps [zone_simps]:
  "is_zone_resource_avail r (update_zone zid f d) = is_zone_resource_avail r d"
  "q \<noteq> r \<Longrightarrow> is_zone_resource_avail r (snd (acquire_zone_resource q d)) = is_zone_resource_avail r d"
  unfolding is_zone_resource_avail_def by (simp_all add: zone_simps)

lemma inv_zone_end: "zns_inv d \<Longrightarrow> i < nr_zones (zp d) \<Longrightarrow> i * zone_lbas d + zone_lbas d \<le> nr_zones (zp d) * zone_lbas d"
  using mult_le_mono1 [of "Suc i" "nr_zones (zp d)" "zone_lbas d"] by simp

lemma inv_zone_small: "zns_inv d \<Longrightarrow> i < nr_zones (zp d) \<Longrightarrow> i * zone_lbas d + zone_lbas d + 2 * lbas_per_zrwa (zp d) < 2 ^ 32"
  using inv_zone_end [of d i] inv_small [of d] by linarith

text \<open>A zone that may be opened has room.\<close>

lemma unat_times: "i * k < 2 ^ 64 \<Longrightarrow> unat (of_nat i * of_nat k :: u64) = i * k"
  unfolding of_nat_mult [symmetric] by (simp add: unsigned_of_nat take_bit_nat_eq_self del: of_nat_mult)

lemma zone_ok_room:
  assumes "zone_ok lbas i z" "0 < lbas" "i * lbas < 2 ^ 64" "zd_state z = ZONE_STATE_EMPTY \<or> zone_active z"
  shows "unat (zd_wp z) < i * lbas + lbas"
proof (cases "zone_active z")
  case False
  then have "zd_wp z = of_nat (i * lbas)" using assms(1,4) unfolding zone_ok_def by auto
  then have "unat (zd_wp z) = i * lbas" using unat_times [OF assms(3)] by simp
  then show ?thesis using assms(2) by simp
qed (use assms zone_ok_active in blast)

lemma inv_room:
  assumes "zns_inv d" "i < nr_zones (zp d)" "zd_state (zone_descs d ! i) = ZONE_STATE_EMPTY \<or> zone_active (zone_descs d ! i)"
  shows "unat (zd_wp (zone_descs d ! i)) < i * zone_lbas d + zone_lbas d"
  using inv_zone_small [OF assms(1,2)] by (intro zone_ok_room [OF inv_zone [OF assms(1,2)] inv_lbas(2) [OF assms(1)] _ assms(3)]) simp

lemma zone_ok_opened:
  assumes "zone_ok lbas i z" "unat (zd_wp z) < i * lbas + lbas" "st \<noteq> ZONE_STATE_EMPTY"
  shows "zone_ok lbas i (z\<lparr>zd_state := st\<rparr>)" "zone_ok lbas i (z\<lparr>zd_zrwav := b, zd_state := st\<rparr>)"
  using assms unfolding zone_ok_def by auto

lemma open_zone_inv:
  assumes "zmgmt_send_open_zone zid zrwa d = Some (st, d')" "zns_inv d"
  shows "zns_inv d'"
proof -
  obtain z where z: "zone_at zid d = Some z" using assms(1) by (auto simp: zmgmt_send_open_zone_def bind_eq_Some_conv)
  note zd = zone_atD [OF z assms(2)] and len = inv_length [OF assms(2)] and av = inv_avail [OF assms(2), of zid]
  show ?thesis
  proof (cases "d' = d")
    case False
    then have "zd_state z = ZONE_STATE_EMPTY \<or> zone_active z"
      using assms(1) z by (auto simp: zmgmt_send_open_zone_def zone_states split: zone_state.splits)
    note ok = zone_ok_opened [OF inv_zone inv_room, OF assms(2) _ assms(2) _ this [unfolded conjunct2 [OF zd]]]
    from False assms(1) z zd ok len av show ?thesis
      by (intro inv_update_at [OF assms(2), of zid])
        (auto simp: zmgmt_send_open_zone_def open_active_eq zone_simps zone_states is_zone_resource_avail_def Let_def
           split: zone_state.splits if_splits)
  qed (use assms in simp)
qed

lemma reset_zone_simps:
  assumes "reset_zone zid d = Some d'"
  shows "zone_descs d' = (zone_descs d)[zid := (zone_descs d ! zid)\<lparr>zd_wp := zslba (zone_descs d ! zid), zd_zrwav := False\<rparr>] \<and>
    zp d' = zp d \<and> zf_ssd d' = zf_ssd d \<and> res_infos d' = res_infos d"
  using assms by (auto simp: reset_zone_def Let_def zone_simps split: if_splits)

lemma zone_ok_reset:
  assumes "zone_ok lbas i z" "i * lbas < 2 ^ 64"
  shows "zone_ok lbas i (z\<lparr>zd_state := ZONE_STATE_EMPTY, zd_wp := zslba z, zd_zrwav := False\<rparr>)"
  using assms unat_times [OF assms(2)] unfolding zone_ok_def zone_states by simp

lemma reset_zone_inv:
  assumes "zmgmt_send_reset_zone zid d = Some (st, d')" "zns_inv d"
  shows "zns_inv d'"
proof -
  obtain z where z: "zone_at zid d = Some z" using assms(1) by (auto simp: zmgmt_send_reset_zone_def bind_eq_Some_conv)
  note zd = zone_atD [OF z assms(2)] and len = inv_length [OF assms(2)]
  have "zone_ok (zone_lbas d) zid (z\<lparr>zd_state := ZONE_STATE_EMPTY, zd_wp := zslba z, zd_zrwav := False\<rparr>)"
    using inv_zone_small [OF assms(2)] zd inv_zone [OF assms(2)] by (intro zone_ok_reset) force+
  with assms z zd len show ?thesis
    by (auto simp: zmgmt_send_reset_zone_def zone_simps zone_states Let_def dest!: reset_zone_simps split: zone_state.splits
        intro!: inv_update_at [OF assms(2), of zid])
qed

lemma offline_zone_inv:
  assumes "zmgmt_send_offline_zone zid d = Some (st, d')" "zns_inv d"
  shows "zns_inv d'"
proof -
  obtain z where z: "zone_at zid d = Some z" using assms(1) by (auto simp: zmgmt_send_offline_zone_def bind_eq_Some_conv)
  note zd = zone_atD [OF z assms(2)] and len = inv_length [OF assms(2)]
    and ok = zone_ok_state [OF inv_zone [OF assms(2), of zid], of ZONE_STATE_OFFLINE]
  show ?thesis
  proof (cases "d' = d")
    case False
    with assms(1) z zd ok len show ?thesis
      by (intro inv_update_at [OF assms(2), of zid])
        (auto simp: zmgmt_send_offline_zone_def zone_simps zone_states split: zone_state.splits)
  qed (use assms in simp)
qed

section \<open>The write pointer\<close>

lemma unat_zone_to_slba:
  assumes "zns_inv d" "i \<le> nr_zones (zp d)"
  shows "unat (zone_to_slba i d) = i * zone_lbas d"
proof -
  have "i * zone_lbas d < 2 ^ 32" using inv_small [OF assms(1)] mult_le_mono1 [OF assms(2), of "zone_lbas d"] by linarith
  then have "unat (of_nat (i * zone_lbas d) :: u32) = i * zone_lbas d" by (simp add: unsigned_of_nat take_bit_nat_eq_self del: of_nat_mult)
  then show ?thesis using unsigned_less [of "of_nat i * of_nat (zone_lbas d) :: u32"]
    unfolding zone_to_slba_def by (simp add: unsigned_ucast_eq take_bit_nat_eq_self)
qed

text \<open>The end of a zone.\<close>

lemma unat_zone_end:
  assumes "zns_inv d" "i < nr_zones (zp d)" "z = zone_descs d ! i"
  shows "unat (zone_to_slba i d + zone_capacity z) = i * zone_lbas d + zone_lbas d"
    "unat (zone_to_slba i d + zone_capacity z - 1) = i * zone_lbas d + zone_lbas d - 1"
proof -
  have cap: "unat (zone_capacity z) = zone_lbas d"
    using inv_zone [OF assms(1,2)] inv_zone_small [OF assms(1,2)] assms(3) unfolding zone_ok_def
    by (simp add: unsigned_of_nat take_bit_nat_eq_self)
  show e: "unat (zone_to_slba i d + zone_capacity z) = i * zone_lbas d + zone_lbas d"
    using inv_zone_small [OF assms(1,2)] unat_zone_to_slba [OF assms(1), of i] assms(2) cap
    by (subst unat_add_lem [THEN iffD1]) auto
  have "1 \<le> zone_to_slba i d + zone_capacity z" using e inv_lbas(2) [OF assms(1)] by (simp add: word_le_nat_alt)
  then show "unat (zone_to_slba i d + zone_capacity z - 1) = i * zone_lbas d + zone_lbas d - 1"
    using e by (subst unat_sub) auto
qed

lemma zone_ok_wp:
  assumes "zone_ok lbas i z" "zone_active z" "i * lbas \<le> unat w" "unat w \<le> i * lbas + lbas"
  shows "unat w \<noteq> i * lbas + lbas \<Longrightarrow> zone_ok lbas i (z\<lparr>zd_wp := w\<rparr>)" "zone_ok lbas i (z\<lparr>zd_wp := w, zd_state := ZONE_STATE_FULL\<rparr>)"
    "zone_ok lbas i (z\<lparr>zd_state := ZONE_STATE_FULL, zd_wp := w\<rparr>)"
  using assms unfolding zone_ok_def zone_states by auto

lemma flush_explicit_inv:
  assumes "zmgmt_send_flush_explicit_zrwa slba d = Some (st, d')" "zns_inv d"
  shows "zns_inv d'"
proof -
  let ?i = "lba_to_zone slba d"
  obtain z where z: "zone_at ?i d = Some z" using assms(1) by (auto simp: zmgmt_send_flush_explicit_zrwa_def Let_def bind_eq_Some_conv)
  note zd = zone_atD [OF z assms(2)] and len = inv_length [OF assms(2)]
  note e = unat_zone_end [OF assms(2) conjunct1 [OF zd] conjunct2 [OF zd]]
  show ?thesis
  proof (cases "d' = d")
    case False
    then have act: "zone_active z" "zd_wp z \<le> slba" "slba \<le> zone_to_slba ?i d + zone_capacity z - 1"
      using assms(1) z by (auto simp: zmgmt_send_flush_explicit_zrwa_def Let_def zone_states split: if_splits)
    have "unat slba < 2 ^ 32" using act(3) e(2) inv_zone_small [OF assms(2) conjunct1 [OF zd]] by (simp add: word_le_nat_alt)
    then have w: "unat (slba + 1) = unat slba + 1" by (subst unat_add_lem [THEN iffD1]) simp_all
    have wp: "?i * zone_lbas d \<le> unat (slba + 1)" "unat (slba + 1) \<le> ?i * zone_lbas d + zone_lbas d"
      using act(2,3) e(2) w inv_zone [OF assms(2) conjunct1 [OF zd]] inv_lbas(2) [OF assms(2)] zd
      unfolding zone_ok_def by (auto simp: word_le_nat_alt)
    have eq: "slba + 1 = zone_to_slba ?i d + zone_capacity z \<longleftrightarrow> unat (slba + 1) = ?i * zone_lbas d + zone_lbas d"
      using e(1) by (metis word_unat_eq_iff)
    note ok = zone_ok_wp [OF inv_zone [OF assms(2) conjunct1 [OF zd]] _ wp, folded eq, unfolded conjunct2 [OF zd, symmetric]]
    let ?d1 = "update_zone ?i (zd_wp_update (\<lambda>_. slba + 1)) d"
    have "d' = (if slba + 1 = zone_to_slba ?i d + zone_capacity z
      then change_zone_state ?i ZONE_STATE_FULL (release_active (zd_state z \<noteq> ZONE_STATE_CLOSED) True ?d1) else ?d1)"
      using False assms(1) z by (auto simp: zmgmt_send_flush_explicit_zrwa_def Let_def simp del: min_less_iff_conj split: if_splits)
    then show ?thesis using zd ok act(1) len
      by (intro inv_update_at [OF assms(2), of ?i]) (auto simp: zone_simps zone_states)
  qed (use assms in simp)
qed

lemma increase_write_ptr_inv:
  assumes "zns_inv d" "i < nr_zones (zp d)" "zone_opened (zone_descs d ! i)"
    and "unat (zd_wp (zone_descs d ! i)) + unat n \<le> i * zone_lbas d + zone_lbas d"
  shows "zns_inv (increase_write_ptr i n d)"
proof -
  let ?z = "zone_descs d ! i" and ?w = "zd_wp (zone_descs d ! i) + ucast n"
  note e = unat_zone_end [OF assms(1,2) refl]
  have "unat (ucast n :: u64) = unat n" using unsigned_less [of n] by (simp add: unsigned_ucast_eq take_bit_nat_eq_self)
  then have w: "unat ?w = unat (zd_wp ?z) + unat n"
    using assms(4) inv_zone_small [OF assms(1,2)] by (subst unat_add_lem [THEN iffD1]) auto
  have act: "zone_active ?z" using assms(3) by (simp add: zone_active_def)
  have wp: "i * zone_lbas d \<le> unat ?w" "unat ?w \<le> i * zone_lbas d + zone_lbas d"
    using w assms(4) inv_zone [OF assms(1,2)] unfolding zone_ok_def by auto
  have eq: "?w = zone_to_slba i d + zone_capacity ?z \<longleftrightarrow> unat ?w = i * zone_lbas d + zone_lbas d"
    using e(1) by (metis word_unat_eq_iff)
  note ok = zone_ok_wp [OF inv_zone [OF assms(1,2)] act wp, folded eq]
  show ?thesis using assms(2,3) ok act inv_length [OF assms(1)]
    by (intro inv_update_at [OF assms(1,2)]) (auto simp: increase_write_ptr_def Let_def zone_simps zone_states)
qed

end
