(* ===== verification/Zns_Commands.thy ===== *)
theory Zns_Commands
  imports Zns_Zones
begin

text \<open>
  The commands of the zoned translation layer: every one of them keeps the zones well-formed, and
  the effect of a sequential write on every branch.
\<close>

section \<open>Management commands\<close>

lemma zmgmt_send_inv: "zmgmt_send leftover slba action option d = Some (st, d') \<Longrightarrow> zns_inv d \<Longrightarrow> zns_inv d'"
  unfolding zmgmt_send_def Let_def
  by (auto split: if_splits intro: close_zone_inv finish_zone_inv open_zone_inv reset_zone_inv offline_zone_inv flush_explicit_inv)

lemma zmgmt_all_inv: "zmgmt_all leftover action option zids d = Some d' \<Longrightarrow> zns_inv d \<Longrightarrow> zns_inv d'"
  by (induction zids arbitrary: d) (auto simp: bind_eq_Some_conv dest: zmgmt_send_inv)

lemma zns_zmgmt_send_inv: "zns_zmgmt_send leftover all slba action option d = Some (st, d') \<Longrightarrow> zns_inv d \<Longrightarrow> zns_inv d'"
  unfolding zns_zmgmt_send_def by (auto split: if_splits dest: zmgmt_all_inv zmgmt_send_inv)

section \<open>What the timing leaves alone\<close>

named_theorems view_simps

lemma view_ssd [view_simps]: "sp s = sp (zf_ssd d) \<Longrightarrow> zone_view (d\<lparr>zf_ssd := s\<rparr>) = zone_view d"
  unfolding zone_view_def by simp

lemma ssd_advance_pcie_sp: "ssd_advance_pcie clk t n s = Some (t', s') \<Longrightarrow> sp s' = sp s"
  by (auto simp: ssd_advance_pcie_def bind_eq_Some_conv)

lemma ssd_advance_write_buffer_sp: "ssd_advance_write_buffer clk t n s = Some (t', s') \<Longrightarrow> sp s' = sp s"
  unfolding ssd_advance_write_buffer_def by (rule ssd_advance_pcie_sp)

lemma set_lun_sp [simp]: "sp (set_lun c l t s) = sp s"
  unfolding set_lun_def Let_def by simp

lemma read_xfer_loop_sp: "read_xfer_loop clk b c n t e s = Some (r, s') \<Longrightarrow> sp s' = sp s"
proof (induction n arbitrary: t e s rule: less_induct)
  case (less n)
  show ?case
  proof (cases "n = 0")
    case False
    let ?k = "min n (max_ch_xfer_size (sp s))"
    from less.prems False obtain t1 e1 s1 where "max_ch_xfer_size (sp s) \<noteq> 0"
      and step: "read_xfer_loop clk b c (n - ?k) t1 e1 s1 = Some (r, s')" "sp s1 = sp s"
      by (subst (asm) read_xfer_loop.simps)
        (auto simp: Let_def split: if_splits option.splits prod.splits dest!: ssd_advance_pcie_sp)
    then have "n - ?k < n" using False by simp
    from less.IH [OF this step(1)] step(2) show ?thesis by simp
  qed (use less.prems in \<open>simp add: read_xfer_loop.simps\<close>)
qed

lemma ssd_advance_nand_sp: "ssd_advance_nand clk c s = Some (t, s') \<Longrightarrow> sp s' = sp s"
  by (auto simp: ssd_advance_nand_def Let_def bind_eq_Some_conv split: if_splits nand_op.splits dest!: read_xfer_loop_sp)

lemma program_page_view: "program_page clk t p d = Some (t', d') \<Longrightarrow> zone_view d' = zone_view d"
  by (auto simp: program_page_def bind_eq_Some_conv view_simps dest!: ssd_advance_nand_sp)

lemma write_loop_view: "write_loop clk xfer w ze e lpn l sch d = Some (l', sch', d') \<Longrightarrow> zone_view d' = zone_view d"
proof (induction "Suc e - lpn" arbitrary: lpn l sch d rule: less_induct)
  case less
  show ?case
  proof (cases "e < lpn")
    case False
    from less.prems False obtain k l1 sch1 d1 where "k \<noteq> 0"
      and step: "write_loop clk xfer w ze e (lpn + k) l1 sch1 d1 = Some (l', sch', d')" "zone_view d1 = zone_view d"
      by (subst (asm) write_loop.simps) (auto simp only: Let_def split: if_splits option.splits prod.splits dest!: program_page_view)
    then have "Suc e - (lpn + k) < Suc e - lpn" using False by simp
    from less.hyps [OF this step(1)] step(2) show ?thesis by simp
  qed (use less.prems in \<open>simp add: write_loop.simps\<close>)
qed

lemma zrwa_round_view: "zrwa_round clk xfer w n lpn l sch d = Some (k, l1, sch1, d1) \<Longrightarrow> zone_view d1 = zone_view d"
  by (auto simp: zrwa_round_def Let_def bind_eq_Some_conv split: if_splits dest!: program_page_view)

lemma zrwa_loop_view: "zrwa_loop clk xfer w n lpn l sch d = Some (l', sch', d') \<Longrightarrow> zone_view d' = zone_view d"
proof (induction n arbitrary: lpn l sch d rule: less_induct)
  case (less n)
  show ?case
  proof (cases "n = 0")
    case False
    from less.prems False obtain k l1 sch1 d1 where "k \<noteq> 0"
      and step: "zrwa_loop clk xfer w (n - k) (lpn + of_nat k) l1 sch1 d1 = Some (l', sch', d')" "zone_view d1 = zone_view d"
      by (subst (asm) zrwa_loop.simps) (auto split: if_splits option.splits prod.splits dest!: zrwa_round_view)
    then have "n - k < n" using False by simp
    from less.IH [OF this step(1)] step(2) show ?thesis by simp
  qed (use less.prems in \<open>simp add: zrwa_loop.simps\<close>)
qed

lemma read_loop_view: "read_loop clk t e lpn l d = Some (l', d') \<Longrightarrow> zone_view d' = zone_view d"
proof (induction "Suc e - lpn" arbitrary: lpn l d rule: less_induct)
  case less
  show ?case
  proof (cases "e < lpn")
    case False
    from less.prems False obtain k l1 s1 where "k \<noteq> 0"
      and step: "read_loop clk t e (lpn + k) l1 (d\<lparr>zf_ssd := s1\<rparr>) = Some (l', d')" "sp s1 = sp (zf_ssd d)"
      by (subst (asm) read_loop.simps) (auto simp only: Let_def split: if_splits option.splits prod.splits dest!: ssd_advance_nand_sp)
    then have "Suc e - (lpn + k) < Suc e - lpn" using False by simp
    from less.hyps [OF this step(1)] view_ssd [OF step(2)] show ?thesis by simp
  qed (use less.prems in \<open>simp add: read_loop.simps\<close>)
qed

lemma set_wb_view [view_simps]: "zone_view (set_wb w b d) = zone_view d"
  by (cases w) (simp_all add: set_wb_def zone_view_def)

lemma allocate_wb_view: "allocate_wb w n d = Some (k, d') \<Longrightarrow> zone_view d' = zone_view d"
  by (auto simp: allocate_wb_def bind_eq_Some_conv view_simps)

section \<open>Blocks and zones\<close>

lemma inv_lbas_ge: "zns_inv d \<Longrightarrow> 8 \<le> zone_lbas d"
  unfolding zns_inv_def zns_geometry_def zone_lbas_def by (auto elim!: dvdE simp: mod_eq_0_iff_dvd)

lemma lba_to_zone_small:
  assumes "zns_inv d" "unat a < 2 ^ 35"
  shows "lba_to_zone a d = unat a div zone_lbas d"
proof -
  have l: "zone_lbas d < 2 ^ 64" using assms(1) unfolding zns_inv_def zns_geometry_def zone_lbas_def by auto
  have "unat a div zone_lbas d \<le> unat a div 8" using inv_lbas_ge [OF assms(1)] by (intro div_le_mono2) auto
  also have "\<dots> < 2 ^ 32" using assms(2) by simp
  finally show ?thesis using l
    by (simp add: lba_to_zone_def unsigned_ucast_eq unat_div unsigned_of_nat take_bit_nat_eq_self)
qed

section \<open>Sequential writes\<close>

lemma open_closed_eq:
  "open_closed zid d =
     (if is_zone_resource_avail OPEN_ZONE d then (0, change_zone_state zid ZONE_STATE_OPENED_IMPL (snd (acquire_zone_resource OPEN_ZONE d)))
      else (NVME_SC_ZNS_NO_OPEN_ZONE, d))"
  unfolding open_closed_def acquire_zone_resource_def by simp

text \<open>Only the state of the zone changes, and the zone is open afterwards.\<close>

definition opened_at :: "nat \<Rightarrow> zns_ftl \<Rightarrow> zns_ftl \<Rightarrow> bool" where
  "opened_at i d d' \<longleftrightarrow>
     (\<exists>st. (st = ZONE_STATE_OPENED_IMPL \<or> st = ZONE_STATE_OPENED_EXPL) \<and>
       zone_descs d' = (zone_descs d)[i := (zone_descs d ! i)\<lparr>zd_state := st\<rparr>]) \<and> zp d' = zp d \<and> sp (zf_ssd d') = sp (zf_ssd d)"

lemma opened_atD:
  assumes "opened_at i d d'" "i < length (zone_descs d)"
  shows "zone_opened (zone_descs d' ! i)" "zd_wp (zone_descs d' ! i) = zd_wp (zone_descs d ! i)" "zp d' = zp d"
    "zone_lbas d' = zone_lbas d"
  using assms unfolding opened_at_def zone_states zone_lbas_def by auto

lemma opened_at_same: "zone_opened (zone_descs d ! i) \<Longrightarrow> opened_at i d d"
  unfolding opened_at_def zone_opened_def by (rule conjI, rule exI [of _ "zd_state (zone_descs d ! i)"]) auto

lemma open_for_write_ok:
  assumes "zns_inv d" "i < nr_zones (zp d)" "open_for_write i slba d = (st, d')"
  shows "zns_inv d'" "st \<noteq> 0 \<Longrightarrow> d' = d" "st = 0 \<Longrightarrow> opened_at i d d'"
    "st = 0 \<Longrightarrow> zf_ssd d' = zf_ssd d \<and> zone_write_buffer d' = zone_write_buffer d"
proof -
  note len = inv_length [OF assms(1)] and av = inv_avail [OF assms(1,2)]
  show u: "d' = d" if "st \<noteq> 0"
    using assms(3) that av by (auto simp: open_for_write_def open_closed_eq zone_simps zone_states is_zone_resource_avail_def Let_def
      split: zone_state.splits if_splits)
  show "opened_at i d d'" if "st = 0"
  proof (cases "zone_opened (zone_descs d ! i)")
    case True
    then have "d' = d" using assms(3) by (auto simp: open_for_write_def zone_opened_def)
    then show ?thesis using opened_at_same [OF True] by simp
  next
    case False
    then have "zone_descs d' = (zone_descs d)[i := (zone_descs d ! i)\<lparr>zd_state := ZONE_STATE_OPENED_IMPL\<rparr>] \<and> zp d' = zp d \<and> zf_ssd d' = zf_ssd d"
      using assms(3) that by (auto simp: open_for_write_def open_closed_eq zone_simps zone_opened_def zns_status_defs Let_def
        split: zone_state.splits if_splits)
    then show ?thesis unfolding opened_at_def by auto
  qed
  show "zf_ssd d' = zf_ssd d \<and> zone_write_buffer d' = zone_write_buffer d" if "st = 0"
    using assms(3) that by (auto simp: open_for_write_def open_closed_eq zns_status_defs Let_def
      acquire_zone_resource_def change_zone_state_def update_zone_def split: zone_state.splits if_splits)
  show "zns_inv d'"
  proof (cases "d' = d")
    case False
    then have "zd_state (zone_descs d ! i) = ZONE_STATE_EMPTY \<or> zone_active (zone_descs d ! i)"
      using assms(3) by (auto simp: open_for_write_def zone_states Let_def split: zone_state.splits)
    note ok = zone_ok_opened(1) [OF inv_zone inv_room, OF assms(1,2) assms(1,2) this]
    from False assms(2,3) ok len av show ?thesis
      by (intro inv_update_at [OF assms(1,2)])
        (auto simp: open_for_write_def open_closed_eq zone_simps zone_states is_zone_resource_avail_def Let_def
           split: zone_state.splits if_splits)
  qed (use assms in simp)
qed

lemma unat_nr_lbas: "unat (nr_lbas_from_rw_cmd cmd) = unat (zr_length cmd) + 1" "unat (zr_length cmd) < 2 ^ 16"
proof -
  show b: "unat (zr_length cmd) < 2 ^ 16" using unsigned_less [of "zr_length cmd"] by simp
  have "unat (ucast (zr_length cmd) :: u64) = unat (zr_length cmd)" using b by (simp add: unsigned_ucast_eq take_bit_nat_eq_self)
  then show "unat (nr_lbas_from_rw_cmd cmd) = unat (zr_length cmd) + 1"
    unfolding nr_lbas_from_rw_cmd_def using b by (subst unat_add_lem [THEN iffD1]) simp_all
qed

lemma unat_last_lba:
  assumes "1 \<le> unat n" "unat a + unat n \<le> 2 ^ 64"
  shows "unat (a + n - 1 :: u64) = unat a + unat n - 1"
proof -
  have "unat (n - 1) = unat n - 1" using assms(1) by (subst unat_sub) (auto simp: word_le_nat_alt)
  moreover have "unat (a + (n - 1)) = unat a + unat (n - 1)"
    using assms calculation by (subst unat_add_lem [THEN iffD1]) auto
  ultimately show ?thesis using assms(1) by (simp add: algebra_simps)
qed

text \<open>A write that starts in a zone with room and passes the check ends in this zone.\<close>

lemma boundary_ok:
  assumes "zns_inv d" "i < nr_zones (zp d)" "check_boundary_error a n d" "1 \<le> unat n" "unat n \<le> 2 ^ 16"
    and "i * zone_lbas d \<le> unat a" "unat a < i * zone_lbas d + zone_lbas d"
  shows "unat a + unat n \<le> i * zone_lbas d + zone_lbas d"
proof -
  have a: "unat a < 2 ^ 32" using inv_zone_small [OF assms(1,2)] assms(7) by linarith
  then have e: "unat (a + n - 1) = unat a + unat n - 1" using assms(4,5) by (intro unat_last_lba) auto
  have "unat a div zone_lbas d = i" using assms(6,7) by (intro div_nat_eqI) (simp_all add: mult.commute)
  moreover have "lba_to_zone a d = unat a div zone_lbas d" using a by (intro lba_to_zone_small [OF assms(1)]) simp
  moreover have "lba_to_zone (a + n - 1) d = (unat a + unat n - 1) div zone_lbas d"
    using a e assms(5) by (subst lba_to_zone_small [OF assms(1)]) auto
  ultimately have "(unat a + unat n - 1) div zone_lbas d = i" using assms(3) unfolding check_boundary_error_def by simp
  then have "unat a + unat n - 1 < i * zone_lbas d + zone_lbas d"
    using dividend_less_div_times [OF inv_lbas(2) [OF assms(1)], of "unat a + unat n - 1"] by simp
  then show ?thesis using assms(4) by linarith
qed

text \<open>The status that a write with room in the buffer gets, from the checks and the state of the zone.\<close>

definition state_status :: "zone_state \<Rightarrow> u32" where
  "state_status st =
     (case st of ZONE_STATE_FULL \<Rightarrow> NVME_SC_ZNS_ERR_FULL | ZONE_STATE_READ_ONLY \<Rightarrow> NVME_SC_ZNS_ERR_READ_ONLY
      | ZONE_STATE_OFFLINE \<Rightarrow> NVME_SC_ZNS_ERR_OFFLINE | _ \<Rightarrow> 0)"

definition write_status :: "u64 \<Rightarrow> u64 \<Rightarrow> zone_descriptor \<Rightarrow> zns_ftl \<Rightarrow> u32" where
  "write_status slba nr_lba z d =
     (if LBA_TO_BYTE nr_lba mod of_nat (write_unit_size (sp (zf_ssd d))) \<noteq> 0 then NVME_SC_ZNS_INVALID_WRITE
      else if \<not> check_boundary_error slba nr_lba d then NVME_SC_ZNS_ERR_BOUNDARY
      else if slba \<noteq> zd_wp z then NVME_SC_ZNS_INVALID_WRITE
      else state_status (zd_state z))"

lemma open_for_write_status:
  assumes "zns_inv d" "i < nr_zones (zp d)" "slba = zd_wp (zone_descs d ! i)"
  shows "fst (open_for_write i slba d) = state_status (zd_state (zone_descs d ! i))"
proof -
  have "zd_state (zone_descs d ! i) = ZONE_STATE_EMPTY \<Longrightarrow> slba = zslba (zone_descs d ! i)"
    using inv_zone [OF assms(1,2)] assms(3) unfolding zone_ok_def by simp
  then show ?thesis using inv_avail [OF assms(1,2)]
    by (auto simp: open_for_write_def open_closed_eq state_status_def zone_simps zone_states is_zone_resource_avail_def
        is_zone_resource_full_def Let_def split: zone_state.splits)
qed

lemma view_sp: "zone_view d' = zone_view d \<Longrightarrow> zone_descs d' = zone_descs d \<and> zp d' = zp d \<and> sp (zf_ssd d') = sp (zf_ssd d)"
  unfolding zone_view_def by simp

lemma view_boundary: "zone_view d' = zone_view d \<Longrightarrow> check_boundary_error a n d' = check_boundary_error a n d"
  using view_sp [of d' d] by (simp add: check_boundary_error_def lba_to_zone_def zone_lbas_def)

text \<open>
  The ways through a sequential write, after the buffer has been asked for: there is no room in the
  buffer, the write is rejected, or the zone is opened and its write pointer moves.
\<close>

definition write_retry :: "zns_answer \<Rightarrow> bool" where
  "write_retry ans \<longleftrightarrow> za_result ans = None \<and> za_sched ans = []"

definition write_rejected :: "u32 \<Rightarrow> u64 \<Rightarrow> zns_answer \<Rightarrow> bool" where
  "write_rejected st t ans \<longleftrightarrow> st \<noteq> 0 \<and> za_result ans = Some (st, t) \<and> za_sched ans = []"

lemma write_seq_run:
  assumes "zns_write_seq clk t cmd d = Some (ans, d')" "zns_inv d"
  defines "i \<equiv> lba_to_zone (zr_slba cmd) d" and "n \<equiv> nr_lbas_from_rw_cmd cmd"
  defines "slba \<equiv> if zr_append cmd then zd_wp (zone_descs d ! i) else zr_slba cmd"
  defines "st \<equiv> write_status slba n (zone_descs d ! i) d"
  obtains got d1 where "i < nr_zones (zp d)" "allocate_wb (write_wb i d) (LBA_TO_BYTE n) d = Some (got, d1)" "za_slba ans = slba"
    and "ucast got < LBA_TO_BYTE n \<and> write_retry ans \<and> d' = d1 \<or>
         \<not> ucast got < LBA_TO_BYTE n \<and> write_rejected st t ans \<and> d' = d1 \<or>
         \<not> ucast got < LBA_TO_BYTE n \<and> st = 0 \<and> (\<exists>t'. za_result ans = Some (0, t')) \<and>
           (\<exists>d2. open_for_write i slba d1 = (0, d2) \<and> zone_view d' = zone_view (increase_write_ptr i (ucast n) d2))"
proof -
  obtain z where z: "zone_at i d = Some z"
    using assms(1) by (auto simp: zns_write_seq_def Let_def i_def bind_eq_Some_conv)
  note zd = zone_atD [OF z assms(2)]
  obtain got d1 where a: "allocate_wb (write_wb i d) (LBA_TO_BYTE n) d = Some (got, d1)"
    using assms(1) z by (auto simp: zns_write_seq_def Let_def i_def n_def bind_eq_Some_conv)
  note v = allocate_wb_view [OF a] and vs = view_sp [OF allocate_wb_view [OF a]]
  have inv1: "zns_inv d1" using inv_view [OF v] assms(2) by simp
  obtain s2 d2 where o: "open_for_write i slba d1 = (s2, d2)" by (cases "open_for_write i slba d1")
  have s2: "s2 = state_status (zd_state z)" if "slba = zd_wp z"
    using open_for_write_status [OF inv1, of i slba] vs zd that o by simp
  have d2: "s2 \<noteq> 0 \<Longrightarrow> d2 = d1" using open_for_write_ok(2) [OF inv1 _ o] vs zd by simp
  have slba: "slba = (if zr_append cmd then zd_wp z else zr_slba cmd)" using zd slba_def by simp
  note run = assms(1) [unfolded zns_write_seq_def Let_def, folded i_def n_def, unfolded z a bind.simps prod.case, folded slba,
      unfolded o prod.case]
  have st: "st = write_status slba n z d" using zd st_def by simp
  show thesis
  proof (rule that [OF conjunct1 [OF zd] a])
    show "za_slba ans = slba" using run by (auto simp: bind_eq_Some_conv split: if_splits)
    show "ucast got < LBA_TO_BYTE n \<and> write_retry ans \<and> d' = d1 \<or>
         \<not> ucast got < LBA_TO_BYTE n \<and> write_rejected st t ans \<and> d' = d1 \<or>
         \<not> ucast got < LBA_TO_BYTE n \<and> st = 0 \<and> (\<exists>t'. za_result ans = Some (0, t')) \<and>
           (\<exists>d2. open_for_write i slba d1 = (0, d2) \<and> zone_view d' = zone_view (increase_write_ptr i (ucast n) d2))"
    proof (cases "ucast got < LBA_TO_BYTE n \<or> st \<noteq> 0")
      case True
      then show ?thesis using run s2 d2 view_boundary [OF v] unfolding st write_status_def write_retry_def write_rejected_def
        by (auto simp: zns_status_defs split: if_splits)
    next
      case False
      then have "slba = zd_wp z" "s2 = 0" using s2 unfolding st write_status_def by (auto simp: zns_status_defs split: if_splits)
      then show ?thesis using False run view_boundary [OF v] o unfolding st write_status_def
        by (auto simp: zns_status_defs bind_eq_Some_conv view_simps dest!: write_loop_view ssd_advance_write_buffer_sp split: if_splits)
    qed
  qed
qed

lemma view_lbas: "zone_view d' = zone_view d \<Longrightarrow> zone_lbas d' = zone_lbas d"
  using view_sp [of d' d] by (simp add: zone_lbas_def)

lemma write_status_zero:
  assumes "write_status slba n z d = 0"
  shows "check_boundary_error slba n d" "slba = zd_wp z" "zd_state z = ZONE_STATE_EMPTY \<or> zone_active z"
  using assms unfolding write_status_def state_status_def zone_states
  by (auto simp: zns_status_defs split: if_splits zone_state.splits)

lemma unat_nr_lbas_u32: "unat (ucast (nr_lbas_from_rw_cmd cmd) :: u32) = unat (nr_lbas_from_rw_cmd cmd)"
  using unat_nr_lbas [of cmd] by (simp add: unsigned_ucast_eq take_bit_nat_eq_self)

lemma write_seq_inv:
  assumes "zns_write_seq clk t cmd d = Some (ans, d')" "zns_inv d"
  shows "zns_inv d'"
proof -
  let ?i = "lba_to_zone (zr_slba cmd) d" and ?n = "nr_lbas_from_rw_cmd cmd"
  let ?z = "zone_descs d ! ?i"
  obtain got d1 slba where i: "?i < nr_zones (zp d)" and a: "allocate_wb (write_wb ?i d) (LBA_TO_BYTE ?n) d = Some (got, d1)"
    and alt: "d' = d1 \<or> write_status slba ?n ?z d = 0 \<and>
      (\<exists>d2. open_for_write ?i slba d1 = (0, d2) \<and> zone_view d' = zone_view (increase_write_ptr ?i (ucast ?n) d2))"
    by (rule write_seq_run [OF assms]) blast
  note v = allocate_wb_view [OF a] and vs = view_sp [OF allocate_wb_view [OF a]]
  have inv1: "zns_inv d1" using inv_view [OF v] assms(2) by simp
  show ?thesis
  proof (cases "d' = d1")
    case False
    then obtain d2 where st: "write_status slba ?n ?z d = 0" and o: "open_for_write ?i slba d1 = (0, d2)"
      and d': "zone_view d' = zone_view (increase_write_ptr ?i (ucast ?n) d2)" using alt by blast
    note stz = write_status_zero [OF st]
    have i1: "?i < nr_zones (zp d1)" using i vs by simp
    note ok = open_for_write_ok [OF inv1 i1 o]
    note op = opened_atD [OF ok(3) [OF refl]]
    have "unat (zd_wp ?z) + unat ?n \<le> ?i * zone_lbas d + zone_lbas d"
      using stz(1,2) inv_zone [OF assms(2) i] inv_room [OF assms(2) i stz(3)] unat_nr_lbas [of cmd]
      by (intro boundary_ok [OF assms(2) i]) (auto simp: zone_ok_def)
    then have "zns_inv (increase_write_ptr ?i (ucast ?n) d2)"
      using op i1 vs inv_length [OF inv1] view_lbas [OF v] unat_nr_lbas_u32 [of cmd]
      by (intro increase_write_ptr_inv [OF ok(1)]) auto
    then show ?thesis using inv_view [OF d'] by simp
  qed (use inv1 in simp)
qed

section \<open>Writes into a random write area\<close>

lemma zone_of_lpn:
  assumes "zns_inv d"
  shows "lpn_to_zone (lba_to_lpn a d) d = lba_to_zone a d"
proof -
  have g: "secsz (sp (zf_ssd d)) = 512" "pgsz (sp (zf_ssd d)) = 4096" "secs_per_pg (sp (zf_ssd d)) = 8" "zone_size (zp d) < 2 ^ 32"
    "zone_size (zp d) mod 4096 = 0" using assms unfolding zns_inv_def zns_geometry_def by auto
  then have l: "zone_lbas d = 8 * zone_lpns d" "8 * zone_lpns d < 2 ^ 64"
    unfolding zone_lbas_def zone_lpns_def by (auto elim!: dvdE simp: mod_eq_0_iff_dvd)
  have "a div of_nat 8 div of_nat (zone_lpns d) = a div of_nat (8 * zone_lpns d)"
    using l(2) unfolding word_unat_eq_iff by (simp add: unat_div unsigned_of_nat take_bit_nat_eq_self div_mult2_eq del: of_nat_mult)
  then show ?thesis unfolding lpn_to_zone_def lba_to_lpn_def lba_to_zone_def g l by simp
qed

lemma open_for_zrwa_ok:
  assumes "zns_inv d" "i < nr_zones (zp d)" "open_for_zrwa i d = Some (st, d')" "zd_zrwav (zone_descs d ! i)"
  shows "zns_inv d'" "st = 0 \<Longrightarrow> opened_at i d d'"
proof -
  have ne: "zd_state (zone_descs d ! i) \<noteq> ZONE_STATE_EMPTY"
    using inv_zone [OF assms(1,2)] assms(4) unfolding zone_ok_def by blast
  consider "st \<noteq> 0" "d' = d" | "st = 0" "zone_opened (zone_descs d ! i)" "d' = d"
    | k d2 where "st = 0" "zd_state (zone_descs d ! i) = ZONE_STATE_CLOSED"
        "allocate_wb (Zrwa_wb i) (of_nat (zrwa_size (zp d))) (snd (acquire_zone_resource OPEN_ZONE d)) = Some (k, d2)"
        "is_zone_resource_avail OPEN_ZONE d" "d' = change_zone_state i ZONE_STATE_OPENED_IMPL d2"
    using assms(3) ne unfolding open_for_zrwa_def Let_def
    by (auto simp: zone_opened_def acquire_zone_resource_def zns_status_defs bind_eq_Some_conv split: zone_state.splits if_splits)
  note alt = this
  show "st = 0 \<Longrightarrow> opened_at i d d'"
  proof (cases rule: alt)
    case (3 k d2)
    then show ?thesis using view_sp [OF allocate_wb_view [OF 3(3)]] unfolding opened_at_def by (auto simp: zone_simps)
  qed (auto intro: opened_at_same)
  show "zns_inv d'"
  proof (cases rule: alt)
    case (3 k d2)
    have act: "zone_active (zone_descs d ! i)" using 3(2) by (simp add: zone_active_def)
    note ok = zone_ok_opened(1) [OF inv_zone inv_room, OF assms(1,2) assms(1,2) disjI2 [OF act], of ZONE_STATE_OPENED_IMPL]
    have "zone_view d2 = zone_view (snd (acquire_zone_resource OPEN_ZONE d))" using 3(3) by (rule allocate_wb_view)
    then have "zone_descs d2 = zone_descs d" "zp d2 = zp d" "sp (zf_ssd d2) = sp (zf_ssd d)"
      "res_infos d2 = res_infos (snd (acquire_zone_resource OPEN_ZONE d))" unfolding zone_view_def by (simp_all add: zone_simps)
    then show ?thesis using ok assms(2) 3(2,4,5) inv_length [OF assms(1)]
      by (intro inv_update_at [OF assms(1,2)]) (auto simp: zone_simps zone_states)
  qed (use assms in simp_all)
qed

text \<open>Rounding up to a multiple of the granularity stays below the next one.\<close>

lemma round_up_bound:
  fixes m g :: nat
  assumes "0 < g"
  shows "(m + g - 1) div g * g < m + g"
  using div_times_less_eq_dividend [of "m + g - 1" g] assms by linarith

lemma unat_zrwa:
  assumes "zns_inv d"
  shows "unat (of_nat (lbas_per_zrwafg (zp d)) :: u64) = lbas_per_zrwafg (zp d)"
    "unat (of_nat (lbas_per_zrwa (zp d)) :: u64) = lbas_per_zrwa (zp d)"
  using inv_small [OF assms] inv_zrwa [OF assms] by (simp_all add: unsigned_of_nat take_bit_nat_eq_self)

lemma unat_zone_to_elba:
  assumes "zns_inv d" "i < nr_zones (zp d)"
  shows "unat (zone_to_elba i d) = i * zone_lbas d + zone_lbas d - 1"
proof -
  have e: "unat (zone_to_slba (i + 1) d) = i * zone_lbas d + zone_lbas d" using unat_zone_to_slba [OF assms(1), of "i + 1"] assms(2) by simp
  then have "1 \<le> zone_to_slba (i + 1) d" using inv_lbas(2) [OF assms(1)] by (simp add: word_le_nat_alt)
  then show ?thesis unfolding zone_to_elba_def using e by (subst unat_sub) auto
qed

text \<open>What leaves the area stays in the zone.\<close>

lemma zrwa_flush_bound:
  assumes "zns_inv d" "i < nr_zones (zp d)" "zrwa_flush_lbas i wp elba d = Some f" "unat wp < i * zone_lbas d + zone_lbas d"
    and "0 < lbas_per_zrwa (zp d) \<Longrightarrow> unat elba < i * zone_lbas d + zone_lbas d"
  shows "unat wp + unat f \<le> i * zone_lbas d + zone_lbas d"
proof -
  let ?g = "lbas_per_zrwafg (zp d)" and ?a = "lbas_per_zrwa (zp d)"
  let ?fg = "of_nat ?g :: u64" and ?s = "wp + of_nat ?a :: u64"
  note u = unat_zrwa [OF assms(1)] and sm = inv_zone_small [OF assms(1,2)] and ga = inv_zrwa [OF assms(1)]
  have s: "unat ?s = unat wp + ?a" using assms(4) sm u by (subst unat_add_lem [THEN iffD1]) auto
  consider "?s \<le> elba" "?fg \<noteq> 0" "f = (elba - ?s + 1 + ?fg - 1) div ?fg * ?fg" | "f = elba - wp + 1" "elba = zone_to_elba i d" | "f = 0"
    using assms(3) by (auto simp: zrwa_flush_lbas_def Let_def split: if_splits)
  then show ?thesis
  proof cases
    case 1
    then have le: "unat wp + ?a \<le> unat elba" and g: "0 < ?g" using s u by (auto simp: word_le_nat_alt word_unat_eq_iff)
    have el: "unat elba < i * zone_lbas d + zone_lbas d" using assms(5) g ga by simp
    let ?m = "unat elba - (unat wp + ?a) + 1"
    have e: "unat (elba - ?s) = unat elba - (unat wp + ?a)" using 1(1) s by (simp add: unat_sub)
    have "unat (elba - ?s + ?fg) = unat (elba - ?s) + ?g" using e u sm el ga by (subst unat_add_lem [THEN iffD1]) auto
    moreover have shift: "elba - ?s + 1 + ?fg - 1 = elba - ?s + ?fg" by (simp add: algebra_simps)
    ultimately have "unat (elba - ?s + 1 + ?fg - 1) = ?m + ?g - 1" unfolding shift using e by linarith
    then have "unat ((elba - ?s + 1 + ?fg - 1) div ?fg) = (?m + ?g - 1) div ?g" unfolding unat_div u by (rule arg_cong)
    moreover have r: "(?m + ?g - 1) div ?g * ?g < ?m + ?g" by (rule round_up_bound [OF g])
    ultimately have "unat f = (?m + ?g - 1) div ?g * ?g" unfolding 1(3) using u sm el ga
      by (subst unat_mult_lem [THEN iffD1]) auto
    then show ?thesis using r le el ga by linarith
  next
    case 2
    have e: "unat elba = i * zone_lbas d + zone_lbas d - 1" using unat_zone_to_elba [OF assms(1,2)] 2(2) by simp
    then have "unat (elba - wp) = unat elba - unat wp" using assms(4) by (subst unat_sub) (auto simp: word_le_nat_alt)
    moreover from this have "unat (elba - wp + 1) = unat (elba - wp) + 1"
      using e sm by (subst unat_add_lem [THEN iffD1]) auto
    ultimately show ?thesis using 2 e assms(4) by simp
  qed (use assms(4) in simp)
qed

lemma zone_of_lba:
  assumes "zns_inv d" "unat a < 2 ^ 35"
  shows "lba_to_zone a d * zone_lbas d \<le> unat a" "unat a < lba_to_zone a d * zone_lbas d + zone_lbas d"
  using lba_to_zone_small [OF assms] div_times_less_eq_dividend [of "unat a" "zone_lbas d"]
    dividend_less_div_times [OF inv_lbas(2) [OF assms(1)], of "unat a"] by simp_all

text \<open>The ways through a write into a random write area.\<close>

lemma write_zrwa_run:
  assumes "zns_write_zrwa clk t cmd d = Some (ans, d')" "zns_inv d"
  defines "i \<equiv> lba_to_zone (zr_slba cmd) d" and "n \<equiv> nr_lbas_from_rw_cmd cmd"
  defines "elba \<equiv> zr_slba cmd + n - 1" and "wp \<equiv> zd_wp (zone_descs d ! i)"
  obtains "i < nr_zones (zp d)" "d' = d"
  | st d1 where "i < nr_zones (zp d)" "open_for_zrwa i d = Some (st, d1)" "zone_view d' = zone_view d1"
  | d1 f d2 where "i < nr_zones (zp d)" "open_for_zrwa i d = Some (0, d1)" "check_boundary_error (zr_slba cmd) n d"
      "elba \<le> wp + ucast (2 * of_nat (lbas_per_zrwa (zp d)) :: u32) - 1"
      "zrwa_flush_lbas i wp elba d1 = Some f" "zone_view d2 = zone_view d1" "zone_view d' = zone_view (increase_write_ptr i (ucast f) d2)"
proof -
  obtain z where z: "zone_at i d = Some z" using assms(1) by (auto simp: zns_write_zrwa_def Let_def i_def bind_eq_Some_conv)
  note zd = zone_atD [OF z assms(2)]
  have wp: "zd_wp z = wp" using zd wp_def by simp
  note run = assms(1) [unfolded zns_write_zrwa_def Let_def, folded i_def n_def, folded elba_def, unfolded z bind.simps wp]
  show thesis
  proof (cases "d' = d")
    case False
    then have c: "check_boundary_error (zr_slba cmd) n d" "elba \<le> wp + ucast (2 * of_nat (lbas_per_zrwa (zp d)) :: u32) - 1"
      using run by (auto split: if_splits)
    obtain st d1 where o: "open_for_zrwa i d = Some (st, d1)" using run False by (auto simp: bind_eq_Some_conv split: if_splits)
    show thesis
    proof (cases "st = 0")
      case True
      then obtain f got d2 where f: "zrwa_flush_lbas i wp elba d1 = Some f"
        and g: "(if f > 0 then allocate_wb (Zrwa_wb i) (LBA_TO_BYTE f) d1 else Some (1, d1)) = Some (got, d2)"
        using run False o by (auto simp: bind_eq_Some_conv split: if_splits)
      have v: "zone_view d2 = zone_view d1" using g by (auto split: if_splits dest: allocate_wb_view)
      have "d' = d2 \<or> zone_view d' = zone_view (if f > 0 then increase_write_ptr i (ucast f) d2 else d2)"
        using run False o True f g
        by (auto simp: bind_eq_Some_conv view_simps dest!: zrwa_loop_view ssd_advance_write_buffer_sp split: if_splits)
      then show thesis using that(2) [of st d1] that(3) [of d1 f d2] zd o True c f v by (cases "f > 0") auto
    next
      case False
      then show thesis using that(2) zd o run \<open>d' \<noteq> d\<close> by (auto split: if_splits)
    qed
  qed (use that zd in blast)
qed

lemma write_zrwa_inv:
  assumes "zns_write_zrwa clk t cmd d = Some (ans, d')" "zns_inv d" "zd_zrwav (zone_descs d ! lba_to_zone (zr_slba cmd) d)"
  shows "zns_inv d'"
proof (cases rule: write_zrwa_run [OF assms(1,2), case_names same opened flushed])
  case same
  then show ?thesis using assms(2) by simp
next
  case (opened st d1)
  then show ?thesis using open_for_zrwa_ok(1) [OF assms(2) opened(1,2) assms(3)] inv_view [of d' d1] by simp
next
  case (flushed d1 f d2)
  let ?i = "lba_to_zone (zr_slba cmd) d" and ?e = "zr_slba cmd + nr_lbas_from_rw_cmd cmd - 1"
  let ?wp = "zd_wp (zone_descs d ! ?i)" and ?b = "ucast (2 * of_nat (lbas_per_zrwa (zp d)) :: u32) :: u64"
  note ok = open_for_zrwa_ok [OF assms(2) flushed(1,2) assms(3)]
  note op = opened_atD [OF ok(2) [OF refl]] and vs = view_sp [OF flushed(6)] and sm = inv_zone_small [OF assms(2) flushed(1)]
  have len: "?i < length (zone_descs d)" using flushed(1) inv_length [OF assms(2)] by simp
  have act: "zone_active (zone_descs d1 ! ?i)" using op(1) [OF len] by (simp add: zone_active_def)
  have i1: "?i < nr_zones (zp d1)" using flushed(1) op(3) [OF len] by simp
  have wp: "unat ?wp < ?i * zone_lbas d + zone_lbas d" using inv_room [OF ok(1) i1 disjI2 [OF act]] op [OF len] by simp
  have e: "unat ?e < ?i * zone_lbas d + zone_lbas d" if "0 < lbas_per_zrwa (zp d)"
  proof -
    have "(2 * of_nat (lbas_per_zrwa (zp d)) :: u32) = of_nat (2 * lbas_per_zrwa (zp d))" by simp
    then have b: "unat ?b = 2 * lbas_per_zrwa (zp d)" using sm
      by (simp add: unsigned_ucast_eq unsigned_of_nat take_bit_nat_eq_self del: of_nat_mult)
    have "unat (?wp + ?b - 1) = unat ?wp + unat ?b - 1" using b that wp sm by (intro unat_last_lba) auto
    then have "unat ?e < 2 ^ 35" using flushed(4) b wp sm by (simp add: word_le_nat_alt)
    from zone_of_lba(2) [OF assms(2) this] flushed(3) show ?thesis by (simp add: check_boundary_error_def)
  qed
  have "unat ?wp + unat f \<le> ?i * zone_lbas d + zone_lbas d"
    using zrwa_flush_bound [OF ok(1) i1 flushed(5)] wp e op [OF len] by simp
  moreover from this have "unat (ucast f :: u32) = unat f" using sm by (simp add: unsigned_ucast_eq take_bit_nat_eq_self)
  moreover have "zns_inv d2" using ok(1) inv_view [OF flushed(6)] by simp
  ultimately have "zns_inv (increase_write_ptr ?i (ucast f) d2)"
    using vs i1 op [OF len] view_lbas [OF flushed(6)] by (intro increase_write_ptr_inv) auto
  then show ?thesis using inv_view [OF flushed(7)] by simp
qed

section \<open>All commands\<close>

lemma zns_write_inv:
  assumes "zns_write clk t cmd d = Some (ans, d')" "zns_inv d"
  shows "zns_inv d'"
proof -
  obtain z where z: "zone_at (lba_to_zone (zr_slba cmd) d) d = Some z"
    using assms by (auto simp: zns_write_def bind_eq_Some_conv zone_of_lpn)
  with zone_atD [OF z assms(2)] show ?thesis using assms
    by (auto simp: zns_write_def zone_of_lpn split: if_splits intro: write_seq_inv write_zrwa_inv)
qed

lemma zns_read_view: "zns_read clk t cmd d = Some (ans, d') \<Longrightarrow> zone_view d' = zone_view d"
  by (auto simp: zns_read_def Let_def bind_eq_Some_conv view_simps dest!: read_loop_view ssd_advance_pcie_sp)

lemma zns_proc_inv:
  assumes "zns_proc_nvme_io_cmd clk leftover prior t cmd d = Some (ans, d')" "zns_inv d"
  shows "zns_inv d'"
proof (cases cmd)
  case (Zc_read rw)
  then show ?thesis using assms inv_view [OF zns_read_view] by (auto simp: zns_proc_nvme_io_cmd_def)
qed (use assms in \<open>auto simp: zns_proc_nvme_io_cmd_def bind_eq_Some_conv Let_def dest: zns_write_inv zns_zmgmt_send_inv\<close>)

end
