(* ===== verification/Zns_Runs.thy ===== *)
theory Zns_Runs
  imports Zns_Commands
begin

text \<open>
  Runs of a zoned namespace, from its initialisation through any sequence of commands and of
  releases of buffers, which the worker of the device performs when a scheduled program operation
  is done.
\<close>

section \<open>The initial zones\<close>

lemma init_descriptor_ok:
  assumes "i < nr_zones zpp" "nr_zones zpp * (zone_size zpp div 512) < 2 ^ 32"
  shows "zone_ok (zone_size zpp div 512) i (init_descriptor zpp ! i)"
proof -
  have d: "drop_bit 9 (zone_size zpp) = zone_size zpp div 512" by (simp add: drop_bit_eq_div)
  have "i * (zone_size zpp div 512) \<le> nr_zones zpp * (zone_size zpp div 512)" using assms(1) by (intro mult_le_mono1) simp
  then have "i * (zone_size zpp div 512) < 2 ^ 32" using assms(2) by (rule le_less_trans)
  then have "i * (zone_size zpp div 512) < 2 ^ 64" by (rule less_trans) simp
  then show ?thesis using assms(1) unat_times [of i "zone_size zpp div 512"] unfolding init_descriptor_def Let_def d
    by (simp add: zone_ok_def zone_states)
qed

lemma init_counts: "filter zone_opened (init_descriptor zpp) = []" "filter zone_active (init_descriptor zpp) = []"
  unfolding init_descriptor_def Let_def by (auto simp: filter_empty_conv zone_states)

lemma zns_init_ftl_inv:
  assumes "zns_geometry zpp (sp s)"
  shows "zns_inv (zns_init_ftl zpp s mapped)"
proof -
  have "nr_zones zpp * (zone_size zpp div 512) < 2 ^ 32" using assms unfolding zns_geometry_def by simp
  then show ?thesis using assms init_descriptor_ok [of _ zpp] init_counts [of zpp]
    by (simp add: zns_inv_def zns_init_ftl_def init_resource_def) (simp add: init_descriptor_def Let_def)
qed

lemma zns_init_inv:
  assumes "zns_init_namespace cfg zc capacity mapped = Some d" "LBA_SIZE cfg = 512" "ZONE_SIZE zc < 2 ^ 32"
    and "ZRWAFG_SIZE zc \<le> ZRWA_SIZE zc" "capacity div 512 + 2 * (ZRWA_SIZE zc div 512) < 2 ^ 32"
  shows "zns_inv d"
proof -
  obtain spp zpp where spp: "ssd_init_params cfg 1 = Some spp" and zpp: "zns_init_params zc spp capacity = Some zpp"
    and d: "d = zns_init_ftl zpp (ssd_init spp) mapped" using assms(1) by (auto simp: zns_init_namespace_def bind_eq_Some_conv)
  have s: "secsz spp = 512" "pgsz spp = 4096" "secs_per_pg spp = 8"
    using spp assms(2) by (auto simp: ssd_init_params_def Let_def split: if_splits)
  have z: "zone_size zpp = ZONE_SIZE zc" "0 < ZONE_SIZE zc" "ZONE_SIZE zc mod 4096 = 0" "capacity mod ZONE_SIZE zc = 0"
    "nr_zones zpp \<le> capacity div ZONE_SIZE zc" "lbas_per_zrwa zpp = ZRWA_SIZE zc div 512" "lbas_per_zrwafg zpp = ZRWAFG_SIZE zc div 512"
    using zpp assms(3) s by (auto simp: zns_init_params_def mod_less_eq_dividend split: if_splits)
  obtain k where k: "ZONE_SIZE zc = 4096 * k" using z(3) by (auto simp: mod_eq_0_iff_dvd elim: dvdE)
  have "nr_zones zpp * (ZONE_SIZE zc div 512) \<le> capacity div ZONE_SIZE zc * ZONE_SIZE zc div 512"
    using mult_le_mono1 [OF z(5), of "ZONE_SIZE zc div 512"] k by simp
  then have "nr_zones zpp * (ZONE_SIZE zc div 512) \<le> capacity div 512" using z(4) by (simp add: mod_0_imp_dvd)
  moreover have "ZRWAFG_SIZE zc div 512 \<le> ZRWA_SIZE zc div 512" using assms(4) by (rule div_le_mono)
  ultimately have "zns_geometry zpp spp" using s z assms(3,5) unfolding zns_geometry_def by simp
  then show ?thesis unfolding d by (intro zns_init_ftl_inv) (simp add: ssd_init_def)
qed

section \<open>Runs\<close>

definition release_wb :: "wb_ref \<Rightarrow> size_t \<Rightarrow> zns_ftl \<Rightarrow> zns_ftl option" where
  "release_wb w n d = do { b \<leftarrow> wb_at w d; Some (set_wb w (buffer_release n b) d) }"

datatype zns_event =
    Ze_cmd u64 u32 "u32 \<times> u64" u64 zns_cmd
  | Ze_release wb_ref size_t

definition zns_event_step :: "zns_event \<Rightarrow> zns_ftl \<Rightarrow> zns_ftl option" where
  "zns_event_step e d =
     (case e of
        Ze_cmd clk leftover prior t cmd \<Rightarrow> map_option snd (zns_proc_nvme_io_cmd clk leftover prior t cmd d)
      | Ze_release w n \<Rightarrow> release_wb w n d)"

fun zns_run :: "zns_event list \<Rightarrow> zns_ftl \<Rightarrow> zns_ftl option" where
  "zns_run [] d = Some d"
| "zns_run (e # es) d = do { d \<leftarrow> zns_event_step e d; zns_run es d }"

lemma zns_event_inv: "zns_event_step e d = Some d' \<Longrightarrow> zns_inv d \<Longrightarrow> zns_inv d'"
  by (cases e) (auto simp: zns_event_step_def release_wb_def bind_eq_Some_conv inv_view [OF set_wb_view] dest: zns_proc_inv)

text \<open>C38: The zones of a zoned namespace stay well-formed.  From an initialisation with blocks of 512
  bytes, a flush granularity that is not larger than the random write area and a capacity below two
  terabytes, after any sequence of commands (reads, writes, appends, flushes, and the management
  commands, on one zone or all zones, whatever their block addresses) and of releases of buffers,
  every write pointer lies within its zone, strictly so in an open or closed zone and at the start
  of an empty one, an empty zone has no random write area, and the counters of open and of active
  zones are the numbers of zones in these states.
\<close>

theorem zns_zones_well_formed:
  assumes "zns_init_namespace cfg zc capacity mapped = Some d0" "LBA_SIZE cfg = 512" "ZONE_SIZE zc < 2 ^ 32"
    and "ZRWAFG_SIZE zc \<le> ZRWA_SIZE zc" "capacity div 512 + 2 * (ZRWA_SIZE zc div 512) < 2 ^ 32"
    and "zns_run es d0 = Some d"
  shows "zns_inv d"
proof -
  have "zns_run es d0 = Some d \<Longrightarrow> zns_inv d0 \<Longrightarrow> zns_inv d"
    by (induction es arbitrary: d0) (auto simp: bind_eq_Some_conv dest: zns_event_inv)
  then show ?thesis using assms(6) zns_init_inv [OF assms(1-5)] by blast
qed

definition demo_ssd :: ssd_config where
  "demo_ssd = \<lparr>LBA_SIZE = 512, NAND_CHANNELS = 2, LUNS_PER_NAND_CH = 1, CELL_MODE = 1, FLASH_PAGE_SIZE = 4096, ONESHOT_PAGE_SIZE = 8192,
     WRITE_UNIT_SIZE = 512, NAND_4KB_READ_LATENCY = [100], NAND_READ_LATENCY = [200], NAND_PROG_LATENCY = 400, NAND_ERASE_LATENCY = 900,
     MAX_CH_XFER_SIZE = 4096, FW_4KB_READ_LATENCY = 10, FW_READ_LATENCY = 20, FW_CH_XFER_LATENCY = 0, FW_WBUF_LATENCY0 = 1,
     FW_WBUF_LATENCY1 = 1, NAND_CHANNEL_BANDWIDTH = 4000, PCIE_BANDWIDTH = 4000, GLOBAL_WB_SIZE = 16384, WRITE_EARLY_COMPLETION = True\<rparr>"

definition demo_zns :: zns_config where
  "demo_zns = \<lparr>ZONE_SIZE = 8192, DIES_PER_ZONE = 1, ZONE_WB_SIZE = 0, MAX_ZRWA_ZONES = 4, ZRWAFG_SIZE = 1024, ZRWA_SIZE = 2048,
     ZRWA_BUFFER_SIZE = 8192\<rparr>"

text \<open>
  A run: zone 0 is opened with a random write area and two blocks are written at the end of twice
  the area, so that two blocks leave it; 16 blocks are appended to zone 1, which is full then; a
  write beyond the write pointer of zone 2 is rejected; 4 blocks are read; and zone 3 is opened and
  closed.
\<close>

definition demo_events :: "zns_event list" where
  "demo_events =
     [Ze_cmd 1000 0 (0, 0) 10 (Zc_mgmt_send False 0 3 True),
      Ze_cmd 1000 0 (0, 0) 20 (Zc_write \<lparr>zr_append = False, zr_slba = 4, zr_length = 1, zr_fua = False\<rparr>),
      Ze_cmd 1000 0 (0, 0) 30 (Zc_write \<lparr>zr_append = True, zr_slba = 16, zr_length = 15, zr_fua = True\<rparr>),
      Ze_release Ssd_wb 8192,
      Ze_cmd 1000 0 (0, 0) 40 (Zc_write \<lparr>zr_append = False, zr_slba = 33, zr_length = 0, zr_fua = False\<rparr>),
      Ze_cmd 1000 0 (0, 0) 50 (Zc_read \<lparr>zr_append = False, zr_slba = 16, zr_length = 3, zr_fua = False\<rparr>),
      Ze_cmd 1000 0 (0, 0) 60 (Zc_mgmt_send False 48 3 False),
      Ze_cmd 1000 0 (0, 0) 70 (Zc_mgmt_send False 48 1 False)]"

lemma demo_bandwidth:
  "ucast (BANDWIDTH_TO_MAX_CREDITS 4000) = (131 :: u32)" "ucast (BANDWIDTH_TO_MAX_CREDITS 4000) = (131 :: u8)"
  "ucast (BANDWIDTH_TO_TX_TIME 4000) = (30 :: u32)"
  by code_simp+

lemma demo_zone_ids: "[0..<4] = [0, 1, 2, 3]"
  by (simp add: upt_rec)

lemmas demo_init_eval = demo_ssd_def demo_zns_def zns_init_namespace_def ssd_init_params_def zns_init_params_def zns_init_ftl_def
  init_descriptor_def init_resource_def ssd_init_def ssd_init_ch_def chmodel_init_def buffer_init_def UNIT_XFER_SIZE_def
  drop_bit_eq_div demo_bandwidth demo_zone_ids

lemmas demo_step_eval = zns_event_step_def zns_proc_nvme_io_cmd_def zns_write_def zns_write_seq_def zns_write_zrwa_def zns_read_def
  open_for_zrwa_def zrwa_flush_lbas_def open_for_write_def open_closed_def nr_lbas_from_rw_cmd_def check_boundary_error_def
  zns_zmgmt_send_def zmgmt_send_def zmgmt_send_open_zone_def zmgmt_send_close_zone_def open_active_def
  lba_to_zone_def zone_lbas_def lba_to_lpn_def lpn_to_zone_def zone_lpns_def zone_at_def zone_to_elpn_def zone_to_elba_def
  zone_to_slba_def zone_to_slpn_def lpn_to_ppa_def die_to_channel_def die_to_lun_def LBA_TO_BYTE_def push_bit_eq_mult
  write_wb_def allocate_wb_def wb_at_def set_wb_def release_wb_def buffer_allocate_def buffer_release_def
  is_zone_resource_full_def is_zone_resource_avail_def acquire_zone_resource_def release_zone_resource_def
  change_zone_state_def update_zone_def increase_write_ptr_def target_time_def
  ssd_advance_write_buffer_def ssd_advance_pcie_def ssd_advance_nand_def get_cell_def set_lun_def program_page_def oneshot_bytes_def
  chmodel_request_def advance_head_def UNIT_TIME_INTERVAL_def NR_CREDIT_ENTRIES_def zns_status_defs

lemma demo_result:
  "map_option (\<lambda>d. map (\<lambda>z. (zd_wp z, zd_state z)) (zone_descs d))
     (do { d0 \<leftarrow> zns_init_namespace demo_ssd demo_zns 32768 (\<lambda>_. 0); zns_run demo_events d0 }) =
     Some [(2, ZONE_STATE_OPENED_EXPL), (32, ZONE_STATE_FULL), (32, ZONE_STATE_EMPTY), (48, ZONE_STATE_CLOSED)]"
  by (simp add: demo_init_eval demo_events_def)
    (simp add: demo_step_eval write_loop.simps read_loop.simps zrwa_loop.simps zrwa_round_def read_xfer_loop.simps)

theorem zns_zones_well_formed_witness:
  "\<exists>d0 d. zns_init_namespace demo_ssd demo_zns 32768 (\<lambda>_. 0) = Some d0 \<and> zns_run demo_events d0 = Some d \<and> zns_inv d \<and>
     map zd_wp (zone_descs d) = [2, 32, 32, 48]"
proof -
  obtain d0 d where d: "zns_init_namespace demo_ssd demo_zns 32768 (\<lambda>_. 0) = Some d0" "zns_run demo_events d0 = Some d"
    and z: "map (\<lambda>z. (zd_wp z, zd_state z)) (zone_descs d) =
      [(2, ZONE_STATE_OPENED_EXPL), (32, ZONE_STATE_FULL), (32, ZONE_STATE_EMPTY), (48, ZONE_STATE_CLOSED)]"
    using demo_result by (auto simp: bind_eq_Some_conv)
  have "map fst (map (\<lambda>z. (zd_wp z, zd_state z)) (zone_descs d)) = [2, 32, 32, 48]" unfolding z by simp
  then have "map zd_wp (zone_descs d) = [2, 32, 32, 48]" by (simp add: comp_def)
  then show ?thesis using zns_zones_well_formed [OF d(1) _ _ _ _ d(2)] d by (auto simp: demo_ssd_def demo_zns_def)
qed

end
