(* ===== verification/Zns_Write.thy ===== *)
theory Zns_Write
  imports Zns_Runs
begin

text \<open>
  What a write into a zone without a random write area does, on each of its branches: to the zones,
  to the write buffer and to the answer.
\<close>

section \<open>The write buffer\<close>

lemma bytes_small:
  assumes "n = nr_lbas_from_rw_cmd cmd"
  shows "unat (LBA_TO_BYTE n) = 512 * (unat (zr_length cmd) + 1)" "unat (LBA_TO_BYTE n) < 2 ^ 32" "0 < LBA_TO_BYTE n"
proof -
  have n: "unat n = unat (zr_length cmd) + 1" "unat (zr_length cmd) < 2 ^ 16" using unat_nr_lbas [of cmd] assms by simp_all
  then show e: "unat (LBA_TO_BYTE n) = 512 * (unat (zr_length cmd) + 1)"
    unfolding LBA_TO_BYTE_def push_bit_eq_mult by (simp add: unat_mult_lem [THEN iffD1, of n 512, simplified] mult.commute unat_word_ariths)
  show "unat (LBA_TO_BYTE n) < 2 ^ 32" using e n(2) by simp
  show "0 < LBA_TO_BYTE n" using e by (simp add: word_less_nat_alt)
qed

lemma allocate_wb_cases:
  assumes "allocate_wb w bytes d = Some (got, d1)" "wb_at w d = Some b" "unat bytes < 2 ^ 32" "0 < bytes"
  shows "ucast got < bytes \<longleftrightarrow> buf_remaining b < bytes"
    "buf_remaining b < bytes \<Longrightarrow> d1 = d"
    "\<not> buf_remaining b < bytes \<Longrightarrow> wb_at w d1 = Some (b\<lparr>buf_remaining := buf_remaining b - bytes\<rparr>)"
proof -
  have g: "got = ucast (if buf_remaining b < bytes then 0 else bytes)"
    and d1: "d1 = set_wb w (b\<lparr>buf_remaining := buf_remaining b - (if buf_remaining b < bytes then 0 else bytes)\<rparr>) d"
    using assms(1,2) by (auto simp: allocate_wb_def buffer_allocate_def Let_def bind_eq_Some_conv split: if_splits)
  have "ucast (ucast bytes :: u32) = bytes" using assms(3) by (simp add: word_unat_eq_iff unsigned_ucast_eq unsigned_take_bit_eq take_bit_nat_eq_self)
  then show "ucast got < bytes \<longleftrightarrow> buf_remaining b < bytes" using g assms(4) by simp
  show "d1 = d" if "buf_remaining b < bytes" using d1 that assms(2) by (cases w) (auto simp: set_wb_def wb_at_def split: if_splits)
  show "wb_at w d1 = Some (b\<lparr>buf_remaining := buf_remaining b - bytes\<rparr>)" if "\<not> buf_remaining b < bytes"
    using d1 that assms(2) by (cases w) (auto simp: set_wb_def wb_at_def split: if_splits)
qed

section \<open>The zone\<close>

text \<open>The zone after a write of \<open>n\<close> blocks.\<close>

definition zone_written :: "nat \<Rightarrow> u64 \<Rightarrow> zns_ftl \<Rightarrow> zone_descriptor" where
  "zone_written i n d =
     (let z = zone_descs d ! i in
      z\<lparr>zd_wp := zd_wp z + n,
        zd_state := (if unat (zd_wp z) + unat n = (i + 1) * zone_lbas d then ZONE_STATE_FULL
                     else if zone_opened z then zd_state z else ZONE_STATE_OPENED_IMPL)\<rparr>)"

lemma open_for_write_state:
  assumes "zns_inv d" "i < nr_zones (zp d)" "open_for_write i slba d = (0, d')"
  shows "zone_descs d' = (zone_descs d)[i := (zone_descs d ! i)\<lparr>zd_state :=
    (if zone_opened (zone_descs d ! i) then zd_state (zone_descs d ! i) else ZONE_STATE_OPENED_IMPL)\<rparr>]"
  using assms(2,3) inv_length [OF assms(1)] by (auto simp: open_for_write_def open_closed_eq zone_simps zone_opened_def zns_status_defs Let_def
      split: zone_state.splits if_splits)

lemma increase_write_ptr_zones:
  assumes "i < length (zone_descs d)"
  shows "zone_descs (increase_write_ptr i n d) = (let z = zone_descs d ! i; w = zd_wp z + ucast n in
     (zone_descs d)[i := (if w = zone_to_slba i d + zone_capacity z then z\<lparr>zd_wp := w, zd_state := ZONE_STATE_FULL\<rparr> else z\<lparr>zd_wp := w\<rparr>)])"
  using assms by (simp add: increase_write_ptr_def Let_def zone_simps)

lemma zone_update_order: "z\<lparr>zd_state := st, zd_wp := w\<rparr> = (z :: zone_descriptor)\<lparr>zd_wp := w, zd_state := st\<rparr>"
  by (cases z) simp

lemma write_zones:
  assumes "zns_inv d" "i < nr_zones (zp d)" "write_status slba n (zone_descs d ! i) d = 0" "n = nr_lbas_from_rw_cmd cmd"
    and "zone_view d1 = zone_view d" "open_for_write i slba d1 = (0, d2)"
  shows "zone_descs (increase_write_ptr i (ucast n) d2) = (zone_descs d)[i := zone_written i n d]"
proof -
  let ?z = "zone_descs d ! i"
  note vs = view_sp [OF assms(5)] and st = write_status_zero [OF assms(3)]
  have inv1: "zns_inv d1" and i1: "i < nr_zones (zp d1)" using assms(1,2) vs inv_view [OF assms(5)] by simp_all
  have len: "i < length (zone_descs d)" using assms(2) inv_length [OF assms(1)] by simp
  note o = open_for_write_state [OF inv1 i1 assms(6)] and op = open_for_write_ok(3) [OF inv1 i1 assms(6) refl]
  have n: "ucast (ucast n :: u32) = n" using unat_nr_lbas_u32 [of cmd] assms(4) unsigned_less [of "ucast n :: u32"]
    by (simp add: word_unat_eq_iff unsigned_ucast_eq unsigned_take_bit_eq take_bit_nat_eq_self)
  have "unat (zd_wp ?z) + unat n \<le> i * zone_lbas d + zone_lbas d"
    using st(1,2) inv_zone [OF assms(1,2)] inv_room [OF assms(1,2) st(3)] unat_nr_lbas [of cmd] assms(4)
    by (intro boundary_ok [OF assms(1,2)]) (auto simp: zone_ok_def)
  then have w: "unat (zd_wp ?z + n) = unat (zd_wp ?z) + unat n"
    using inv_zone_small [OF assms(1,2)] by (subst unat_add_lem [THEN iffD1]) auto
  have slba: "zone_to_slba i d2 = zone_to_slba i d" using op vs unfolding opened_at_def zone_to_slba_def zone_lbas_def by simp
  have eq: "zd_wp ?z + n = zone_to_slba i d + zone_capacity ?z \<longleftrightarrow> unat (zd_wp ?z) + unat n = (i + 1) * zone_lbas d"
    using unat_zone_end(1) [OF assms(1,2) refl] w unfolding word_unat_eq_iff by (simp add: add.commute)
  show ?thesis using len o vs slba eq
    by (subst increase_write_ptr_zones) (simp_all add: n Let_def zone_written_def zone_update_order)
qed

text \<open>C39: A write into a zone without a random write area does one of three things.  When the write
  buffer has too little room, nothing changes and the command is to be tried again.  When the
  length is not a multiple of the write unit, the write crosses the end of the zone, does not start
  at the write pointer, or the zone is full, read only or offline, the answer is the status for
  this and the zones do not change; but the bytes of the write have been taken from the buffer and
  no release is scheduled, so they are lost.  Otherwise the write pointer moves by the length of
  the write, from the block that the command holds afterwards, the zone becomes full when it
  reaches its end and is open otherwise, and no other zone changes.
\<close>

theorem zns_write_effect:
  assumes "zns_inv d" "zns_write_seq clk t cmd d = Some (ans, d')"
    and "i = lba_to_zone (zr_slba cmd) d" "n = nr_lbas_from_rw_cmd cmd" "z = zone_descs d ! i"
    and "slba = (if zr_append cmd then zd_wp z else zr_slba cmd)" "wb_at (write_wb i d) d = Some b"
  shows
    "buf_remaining b < LBA_TO_BYTE n \<and> za_result ans = None \<and> za_sched ans = [] \<and> d' = d \<or>
     LBA_TO_BYTE n \<le> buf_remaining b \<and> write_status slba n z d \<noteq> 0 \<and>
       za_result ans = Some (write_status slba n z d, t) \<and> za_sched ans = [] \<and> zone_view d' = zone_view d \<and>
       wb_at (write_wb i d) d' = Some (b\<lparr>buf_remaining := buf_remaining b - LBA_TO_BYTE n\<rparr>) \<or>
     LBA_TO_BYTE n \<le> buf_remaining b \<and> write_status slba n z d = 0 \<and>
       (\<exists>t'. za_result ans = Some (0, t')) \<and> za_slba ans = zd_wp z \<and> zone_descs d' = (zone_descs d)[i := zone_written i n d]"
proof (rule write_seq_run [OF assms(2,1), folded assms(3,4), folded assms(5), folded assms(6)])
  fix got d1
  assume i: "i < nr_zones (zp d)" and a: "allocate_wb (write_wb i d) (LBA_TO_BYTE n) d = Some (got, d1)" and sl: "za_slba ans = slba"
    and alt: "ucast got < LBA_TO_BYTE n \<and> write_retry ans \<and> d' = d1 \<or>
      \<not> ucast got < LBA_TO_BYTE n \<and> write_rejected (write_status slba n z d) t ans \<and> d' = d1 \<or>
      \<not> ucast got < LBA_TO_BYTE n \<and> write_status slba n z d = 0 \<and> (\<exists>t'. za_result ans = Some (0, t')) \<and>
        (\<exists>d2. open_for_write i slba d1 = (0, d2) \<and> zone_view d' = zone_view (increase_write_ptr i (ucast n) d2))"
  note c = allocate_wb_cases [OF a assms(7) bytes_small(2,3) [OF assms(4)]] and v = allocate_wb_view [OF a]
  from alt show ?thesis
  proof (elim disjE)
    assume "ucast got < LBA_TO_BYTE n \<and> write_retry ans \<and> d' = d1"
    then show ?thesis using c(1,2) unfolding write_retry_def by simp
  next
    assume "\<not> ucast got < LBA_TO_BYTE n \<and> write_rejected (write_status slba n z d) t ans \<and> d' = d1"
    then show ?thesis using c(1,3) v unfolding write_rejected_def by (simp add: not_less)
  next
    assume r: "\<not> ucast got < LBA_TO_BYTE n \<and> write_status slba n z d = 0 \<and> (\<exists>t'. za_result ans = Some (0, t')) \<and>
      (\<exists>d2. open_for_write i slba d1 = (0, d2) \<and> zone_view d' = zone_view (increase_write_ptr i (ucast n) d2))"
    then obtain d2 where o: "open_for_write i slba d1 = (0, d2)" and d': "zone_view d' = zone_view (increase_write_ptr i (ucast n) d2)" by blast
    have "zone_descs d' = (zone_descs d)[i := zone_written i n d]"
      using view_sp [OF d'] write_zones [OF assms(1) i _ assms(4) v o] r assms(5) by simp
    then show ?thesis using r c(1) sl write_status_zero(2) [of slba n z d] by (simp add: not_less)
  qed
qed

theorem zns_write_effect_witness:
  "\<exists>d0 ans d. zns_init_namespace demo_ssd demo_zns 32768 (\<lambda>_. 0) = Some d0 \<and>
     zns_write_seq 1000 40 \<lparr>zr_append = False, zr_slba = 33, zr_length = 0, zr_fua = False\<rparr> d0 = Some (ans, d) \<and>
     za_result ans = Some (NVME_SC_ZNS_INVALID_WRITE, 40) \<and> za_sched ans = [] \<and>
     ssd_write_buffer (zf_ssd d0) = \<lparr>buf_size = 16384, buf_remaining = 16384\<rparr> \<and>
     ssd_write_buffer (zf_ssd d) = \<lparr>buf_size = 16384, buf_remaining = 15872\<rparr>"
proof -
  let ?cmd = "\<lparr>zr_append = False, zr_slba = 33, zr_length = 0, zr_fua = False\<rparr> :: zns_rw"
  obtain d0 where d0: "zns_init_namespace demo_ssd demo_zns 32768 (\<lambda>_. 0) = Some d0" by (simp add: demo_init_eval)
  have inv: "zns_inv d0" by (rule zns_init_inv [OF d0]) (simp_all add: demo_ssd_def demo_zns_def)
  have b: "wb_at (write_wb 2 d0) d0 = Some \<lparr>buf_size = 16384, buf_remaining = 16384\<rparr>" and w: "write_wb 2 d0 = Ssd_wb"
    and i: "lba_to_zone 33 d0 = 2" and st: "write_status 33 1 (zone_descs d0 ! 2) d0 = NVME_SC_ZNS_INVALID_WRITE"
    using d0 by (auto simp: demo_init_eval demo_step_eval write_status_def)
  obtain ans d where run: "zns_write_seq 1000 40 ?cmd d0 = Some (ans, d)"
    using d0 by (auto simp: demo_init_eval demo_step_eval)
  have n: "nr_lbas_from_rw_cmd ?cmd = 1" "LBA_TO_BYTE 1 = 512" by (simp_all add: nr_lbas_from_rw_cmd_def LBA_TO_BYTE_def push_bit_eq_mult)
  from zns_write_effect [OF inv run _ _ refl, of 2 1 33] i b st n
  have "za_result ans = Some (NVME_SC_ZNS_INVALID_WRITE, 40) \<and> za_sched ans = [] \<and> wb_at Ssd_wb d = Some \<lparr>buf_size = 16384, buf_remaining = 15872\<rparr>"
    unfolding w by (simp add: zns_status_defs)
  then show ?thesis using d0 run b unfolding w by (simp add: wb_at_def)
qed

section \<open>Random write areas that are not configured\<close>

text \<open>
  The number of random write areas is not taken from the configuration, so a zone can be opened
  with one in a configuration that has none.  A write to the start of such a zone 0 divides by the
  flush granularity, which is zero.
\<close>

lemma zrwa_unconfigured_opens:
  assumes "zns_init_namespace cfg ZNS_PROTOTYPE_zones capacity mapped = Some d" "0 < nr_zones (zp d)" "nr_zones (zp d) < 2 ^ 32"
  shows "\<exists>d'. zmgmt_send_open_zone 0 True d = Some (0, d') \<and> zd_zrwav (zone_descs d' ! 0) \<and> nr_zrwa_zones (zp d') = 0"
proof -
  obtain zpp s where d: "d = zns_init_ftl zpp s mapped" and z: "nr_zrwa_zones zpp = 0"
    using assms(1) by (auto simp: zns_init_namespace_def zns_init_params_def bind_eq_Some_conv ZNS_PROTOTYPE_zones_def split: if_splits)
  have n: "nr_zones zpp < 2 ^ 32" "0 < nr_zones zpp" using assms(2,3) d by (simp_all add: zns_init_ftl_def)
  then have "(of_nat (nr_zones zpp) :: u32) \<noteq> 0" by (simp add: word_unat_eq_iff unsigned_of_nat take_bit_nat_eq_self)
  then have "(0 :: u32) < of_nat (nr_zones zpp)" by (simp add: word_neq_0_conv)
  then show ?thesis using n(2) z unfolding d
    by (auto simp: zmgmt_send_open_zone_def zone_at_def zns_init_ftl_def init_descriptor_def init_resource_def Let_def open_active_eq
        is_zone_resource_full_def is_zone_resource_avail_def acquire_zone_resource_def update_zone_def change_zone_state_def)
qed

lemma zrwa_unconfigured_write:
  assumes "zone_descs d = z # zs" "zd_zrwav z" "zd_wp z = 0" "zone_opened z" "lbas_per_zrwa (zp d) = 0" "lbas_per_zrwafg (zp d) = 0"
    and "zr_slba cmd = 0" "LBA_TO_BYTE (nr_lbas_from_rw_cmd cmd) mod of_nat (write_unit_size (sp (zf_ssd d))) = 0"
    and "check_boundary_error 0 (nr_lbas_from_rw_cmd cmd) d"
  shows "zns_write clk t cmd d = None"
proof -
  have z: "lba_to_zone 0 d = 0" "lpn_to_zone (lba_to_lpn 0 d) d = 0" "zone_at 0 d = Some z"
    using assms(1) by (simp_all add: lba_to_zone_def lpn_to_zone_def lba_to_lpn_def zone_at_def)
  have o: "open_for_zrwa 0 d = Some (0, d)" using assms(1,4) by (auto simp: open_for_zrwa_def zone_opened_def)
  have "zns_write_zrwa clk t cmd d = None"
    using z o assms by (simp add: zns_write_zrwa_def zrwa_flush_lbas_def Let_def not_less)
  then show ?thesis using z assms(2,7) by (simp add: zns_write_def)
qed

end
