(* ===== verification/Spec2Isabelle.thy ===== *)
theory Spec2Isabelle
  imports Engine_Lifetime Engine_Emulator Emul_Iterator Async_Memory Kv_Ftl_Limits Io_Rings Zns_Write
begin

text \<open>
  Verification of the NVMe key-value engine.

  \<^bold>\<open>The program.\<close>  The engine (\<open>src/src\<close>, \<open>src/include\<close>) is a C library that stores key-value pairs on one or
  several devices.  It keeps a table of the keys it has stored, shards keys over its devices, takes
  devices out of service and probes them again, recycles DMA buffers, and runs asynchronous calls on
  a pool of threads.  It reaches a device through the KVS API (\<open>src/lib/KVSSD/PDK/core\<close>), which here
  is the API of \<open>cfrontend.cpp\<close> over the driver \<open>kvemuldriver.cpp\<close>, the device interface
  \<open>kvs_adi.cpp\<close>, queues, a namespace and the in-memory store \<open>kv_emulator.cpp\<close>.  Beside it stands
  NVMeVirt (\<open>src/lib/nvmevirt\<close>), a kernel module that is a virtual NVMe device: a path for input and
  output with workers, a key-value translation layer, and a zoned translation layer with a model of
  the times that flash takes.

  \<^bold>\<open>The shape of the model.\<close>  A C structure is a record, an enumeration a datatype, an integer whose
  width matters a word.  An operation is a function from the state it reads to the state it leaves
  and its answer.  \<^const>\<open>None\<close> as the value of an operation is a call that waits for ever, a failed
  assertion, a division by zero, or an access outside an object; errors that the program reports are
  values of its result types.  The allocator, the clock and the library that the
  engine is linked with are arguments.  Concurrency is a step relation over critical sections where
  the claims depend on the interleaving: the thread pool, and the dispatcher and worker of the
  virtual device.

  \<^bold>\<open>The engine.\<close>
  \<^item> Prelude and Memory: machine types, byte encodings, and the heap with its allocator.
  \<^item> Kvs_Types and Kvs_Interface: result codes and their translation, and the calls of the KVS API as
    a record of functions; the locale \<open>kvs_library\<close> states what the engine relies on and
    \<open>reliable_kvs_library\<close> what a library adds that never fails on a well-formed request.
  \<^item> Memory_Pool (\<open>memory_pool.c\<close>), Dma_Pool (\<open>dma_pool.c\<close>, locale \<open>buffer_pool\<close>), Hash_Table
    (\<open>hashTable.h\<close>, locale \<open>key_set\<close>), Work_Queue and Thread_Pool (\<open>thread_pool.c\<close>, locale
    \<open>fifo_queue\<close>): the utilities, each with its invariant; every item of the thread pool runs exactly
    once and in order, no wake-up is lost, and shutdown drains the queue and ends.
  \<^item> Multi_Device and Device_Health (\<open>kv_engine_multi_device.c\<close>, \<open>kv_engine_health.c\<close>): sharding stays
    in range, and a device is in service exactly as its errors and the probe say.
  \<^item> Kv_Engine, Async_Ops, Kv_Lifecycle (\<open>kv_engine.c\<close>, \<open>async_ops.c\<close>): the operations on every branch.
    Engine_Cases gives the ways each call can end.
  \<^item> Engine_Memory, Async_Memory, Engine_Lifetime: no operation leaks or frees what is not its own, and
    cleanup frees what initialisation allocated; the error paths of initialisation leak.
  \<^item> Engine_Refinement and Engine_Reliable: over a library with the contract the engine refines a map
    from keys to values, and over a reliable one it is exactly this map.

  \<^bold>\<open>The emulator.\<close>
  \<^item> Ordered_Map and Kvs_Adi: \<open>std::map\<close> over a strict comparison, and the data of the device layer.
  \<^item> Emulator, Emulator_Store, Emul_Namespace, Emul_Device, Emul_Driver: store, namespace, queues, device
    and driver, with the store acting as a finite map per key space.
  \<^item> Kvs_Meta and Kvs_Api (\<open>cfrontend.cpp\<close>): metadata records with their round trips, and the API.
  \<^item> Emul_Library, Emul_Open, Engine_Emulator: the API on the emulator satisfies both contracts of
    Kvs_Interface, initialisation opens devices and key spaces, and the engine on the emulator is the
    map it promises to be.  Emul_Iterator: which key groups an iteration visits completely.

  \<^bold>\<open>The virtual device.\<close>
  \<^item> Kv_Ftl, Kv_Ftl_Table, Kv_Ftl_Map, Kv_Ftl_Limits (\<open>kv_ftl.c\<close>, \<open>append_only.c\<close>, \<open>bitmap.c\<close>): the mapping
    table with its chains, the allocators and the commands; with keys of one length and no deletion
    the layer refines a map, and the last theory shows where it does not.
  \<^item> Io_Queue, Io_Device, Io_Worker, Io_Rings (\<open>io.c\<close>): the sorted work queues, the submission and
    completion rings and the rounds of a worker; over every interleaving an accepted request is
    performed and completed exactly once, and a request that finds the queue full is lost.
  \<^item> Channel_Model (\<open>channel_model.c\<close>): a request takes its credits from the ring, as far as there are any.
  \<^item> Ssd and Zns (\<open>ssd.c\<close>, \<open>zns_ftl.c\<close>, \<open>zns_mgmt_send.c\<close>, \<open>zns_mgmt_recv.c\<close>, \<open>zns_read_write.c\<close>): flash timing
    and the zoned layer.  Zns_Zones, Zns_Commands and Zns_Runs: every command keeps the zones
    well-formed.  Zns_Write: the effect of a sequential write, and the buffer space that a rejected
    one loses.

  \<^bold>\<open>Bounds and termination.\<close>  There is no fuel.  Loops over finite data are structural or have a
  measure.  Loops that follow links or rings and may not end are partial functions into \<open>option\<close>:
  the lookups and insertions of the mapping table, the walks of the work queues, the pass of a
  worker, the consumption of completions and the taking of credits.  That they return is proved
  under the invariants (the mapping table is not full; the queues are well-shaped; the ring indices
  are in range), and that they do not where it is a flaw.  The results on zones need blocks of 512
  bytes, a capacity below two terabytes, since the first block of a zone is computed with 32 bits,
  and a flush granularity of at most the size of the random write area, since the rounding to a larger
  one can take the write pointer out of the zone.

  \<^bold>\<open>Not modelled.\<close>
  \<^item> Drivers for hardware (\<open>kvkdd.cpp\<close>, \<open>kvudd.cpp\<close>, \<open>kadi.cpp\<close>): they translate requests to commands for
    a device; the contracts of Kvs_Interface state what the engine relies on.
  \<^item> The asynchronous calls of the KVS API and its driver, which the engine does not use; its own
    asynchronous calls run the synchronous ones on its thread pool.
  \<^item> The parser of the configuration of the emulator, whose result is an argument, and its simulated
    latency, which does not change answers.
  \<^item> Module loading, PCI registers, admin commands, the DMA engine and the layer for block devices of
    NVMeVirt (\<open>main.c\<close>, \<open>pci.c\<close>, \<open>admin.c\<close>, \<open>dma.c\<close>, \<open>conv_ftl.c\<close>): register-level input and output, and a
    layer that neither of the modelled ones calls.
  \<^item> The release of the memory of the flash model and of a zoned namespace, the status of flash pages,
    which only the layer for block devices reads, and the copy of a zone report to the host.
  \<^item> SPDK and uthash, which are third-party code, and the examples and benchmarks.
\<close>

end
